(* ===== verification/Prelude.thy ===== *)
theory Prelude
  imports Complex_Main "HOL-Library.Word" "HOL-Library.Multiset"
begin

section \<open>Shared vocabulary of the development\<close>

text \<open>
  This theory holds what every component shares: the collections of hints, Rust's integer
  widths with their saturating and checked operations, \<open>std::cmp::Ordering\<close> and the stable
  \<open>sort_by\<close>, fallible results as sums with their sequencing operator, ordered removal of
  duplicates, and the string operations of the standard library that the code uses. Strings
  are \<open>char list\<close>s of UTF-8 bytes, as in Rust.
\<close>

named_theorems wf_intros \<open>introduction rules for the well-formedness invariants\<close>
named_theorems frame_simps \<open>fields that an operation leaves unchanged\<close>
named_theorems outcome_simps \<open>branch-by-branch results of the operations\<close>

subsection \<open>Fallible results\<close>

text \<open>
  \<open>Result<T, E>\<close> is \<open>'e + 'a\<close> with \<open>Inl\<close> the error; \<open>bind_r\<close> is the \<open>?\<close> operator.
\<close>

type_synonym ('e, 'a) res = "'e + 'a"

abbreviation Ok :: "'a \<Rightarrow> ('e, 'a) res" where
  "Ok x \<equiv> Inr x"

abbreviation Err :: "'e \<Rightarrow> ('e, 'a) res" where
  "Err e \<equiv> Inl e"

definition bind_r :: "('e, 'a) res \<Rightarrow> ('a \<Rightarrow> ('e, 'b) res) \<Rightarrow> ('e, 'b) res" where
  "bind_r r f = (case r of Inl e \<Rightarrow> Inl e | Inr x \<Rightarrow> f x)"

definition map_r :: "('a \<Rightarrow> 'b) \<Rightarrow> ('e, 'a) res \<Rightarrow> ('e, 'b) res" where
  "map_r f r = (case r of Inl e \<Rightarrow> Inl e | Inr x \<Rightarrow> Inr (f x))"

definition map_err :: "('e \<Rightarrow> 'g) \<Rightarrow> ('e, 'a) res \<Rightarrow> ('g, 'a) res" where
  "map_err f r = (case r of Inl e \<Rightarrow> Inl (f e) | Inr x \<Rightarrow> Inr x)"

definition ok_or :: "'e \<Rightarrow> 'a option \<Rightarrow> ('e, 'a) res" where
  "ok_or e m = (case m of None \<Rightarrow> Inl e | Some x \<Rightarrow> Inr x)"

lemma bind_r_simps [simp]:
  "bind_r (Inl e) f = Inl e"
  "bind_r (Inr x) f = f x"
  by (simp_all add: bind_r_def)

lemma map_r_simps [simp]:
  "map_r g (Inl e) = Inl e"
  "map_r g (Inr x) = Inr (g x)"
  by (simp_all add: map_r_def)

lemma map_err_simps [simp]:
  "map_err h (Inl e) = Inl (h e)"
  "map_err h (Inr x) = Inr x"
  by (simp_all add: map_err_def)

lemma ok_or_simps [simp]:
  "ok_or e None = Inl e"
  "ok_or e (Some x) = Inr x"
  by (simp_all add: ok_or_def)

lemma bind_r_eq_Inr: "bind_r r f = Inr y \<longleftrightarrow> (\<exists>x. r = Inr x \<and> f x = Inr y)"
  by (cases r) auto

lemma bind_r_eq_Inl:
  "bind_r r f = Inl e \<longleftrightarrow> r = Inl e \<or> (\<exists>x. r = Inr x \<and> f x = Inl e)"
  by (cases r) auto

text \<open>\<open>collect::<Result<Vec<_>, _>>()\<close>: the first error, or every value in order.\<close>

fun collect_r :: "('e, 'a) res list \<Rightarrow> ('e, 'a list) res" where
  "collect_r [] = Inr []"
| "collect_r (Inl e # rs) = Inl e"
| "collect_r (Inr x # rs) = (case collect_r rs of Inl e \<Rightarrow> Inl e | Inr xs \<Rightarrow> Inr (x # xs))"

lemma collect_r_Inr_iff: "collect_r rs = Inr xs \<longleftrightarrow> rs = map Inr xs"
proof (induction rs arbitrary: xs rule: collect_r.induct)
  case (3 x rs)
  show ?case
  proof (cases "collect_r rs")
    case (Inl e)
    then have "rs \<noteq> map Inr ys" for ys using "3.IH" [of ys] by auto
    with Inl show ?thesis by (cases xs) auto
  next
    case (Inr ys)
    then have "rs = map Inr ys" using "3.IH" [of ys] by simp
    with Inr show ?thesis by (cases xs) (auto simp: inj_map_eq_map)
  qed
qed auto

lemma collect_r_map_Inr [simp]: "collect_r (map (\<lambda>x. Inr (f x)) xs) = Inr (map f xs)"
  by (simp add: collect_r_Inr_iff)

lemma collect_r_length: "collect_r rs = Inr xs \<Longrightarrow> length xs = length rs"
  by (simp add: collect_r_Inr_iff)

subsection \<open>Stateful operations\<close>

text \<open>
  A method that reads and changes a state of type \<open>'w\<close> and may fail is a function from the state
  to its result and the new state; a failure keeps the changes made before it. \<open>bind_op\<close> sequences
  two operations as the code does with \<open>?\<close>, and \<open>mapM_op\<close> is the fallible iteration over a list.
\<close>

type_synonym ('w, 'e, 'a) op = "'w \<Rightarrow> ('e, 'a) res \<times> 'w"

definition ret_op :: "'a \<Rightarrow> ('w, 'e, 'a) op" where
  "ret_op x w = (Ok x, w)"

definition fail_op :: "'e \<Rightarrow> ('w, 'e, 'a) op" where
  "fail_op e w = (Err e, w)"

definition lift_op :: "('e, 'a) res \<Rightarrow> ('w, 'e, 'a) op" where
  "lift_op r w = (r, w)"

definition bind_op :: "('w, 'e, 'a) op \<Rightarrow> ('a \<Rightarrow> ('w, 'e, 'b) op) \<Rightarrow> ('w, 'e, 'b) op" where
  "bind_op m f w = (case m w of (Inl e, w') \<Rightarrow> (Inl e, w') | (Inr x, w') \<Rightarrow> f x w')"

definition map_err_op :: "('e \<Rightarrow> 'g) \<Rightarrow> ('w, 'e, 'a) op \<Rightarrow> ('w, 'g, 'a) op" where
  "map_err_op h m w = (let (r, w') = m w in (map_err h r, w'))"

text \<open>A \<open>match\<close> that returns a success and handles the error.\<close>

definition catch_op :: "('w, 'e, 'a) op \<Rightarrow> ('e \<Rightarrow> ('w, 'g, 'a) op) \<Rightarrow> ('w, 'g, 'a) op" where
  "catch_op m h w = (case m w of (Inl e, w') \<Rightarrow> h e w' | (Inr x, w') \<Rightarrow> (Inr x, w'))"

fun mapM_op :: "('a \<Rightarrow> ('w, 'e, 'b) op) \<Rightarrow> 'a list \<Rightarrow> ('w, 'e, 'b list) op" where
  "mapM_op f [] = ret_op []"
| "mapM_op f (x # xs) = bind_op (f x) (\<lambda>y. bind_op (mapM_op f xs) (\<lambda>ys. ret_op (y # ys)))"

lemma op_simps [simp]:
  "ret_op x w = (Ok x, w)"
  "fail_op e w = (Err e, w)"
  "lift_op r w = (r, w)"
  by (simp_all add: ret_op_def fail_op_def lift_op_def)

lemma bind_op_Ok: "bind_op m f w = (Ok y, w'') \<longleftrightarrow> (\<exists>x w'. m w = (Ok x, w') \<and> f x w' = (Ok y, w''))"
  by (auto simp: bind_op_def split: prod.splits sum.splits)

lemma bind_op_Err: "bind_op m f w = (Err e, w'') \<longleftrightarrow>
    m w = (Err e, w'') \<or> (\<exists>x w'. m w = (Ok x, w') \<and> f x w' = (Err e, w''))"
  by (auto simp: bind_op_def split: prod.splits sum.splits)

lemma bind_op_run:
  "m w = (Ok x, w') \<Longrightarrow> bind_op m f w = f x w'"
  "m w = (Err e, w') \<Longrightarrow> bind_op m f w = (Err e, w')"
  by (simp_all add: bind_op_def)

lemma map_err_op_run:
  "m w = (Ok x, w') \<Longrightarrow> map_err_op h m w = (Ok x, w')"
  "m w = (Err e, w') \<Longrightarrow> map_err_op h m w = (Err (h e), w')"
  by (simp_all add: map_err_op_def)

lemma map_err_op_Ok: "map_err_op h m w = (Ok x, w') \<longleftrightarrow> m w = (Ok x, w')"
  by (auto simp: map_err_op_def map_err_def split: prod.splits sum.splits)

lemma map_err_op_Err: "map_err_op h m w = (Err g, w') \<longleftrightarrow> (\<exists>e. m w = (Err e, w') \<and> g = h e)"
  by (auto simp: map_err_op_def map_err_def split: prod.splits sum.splits)

lemmas op_outcomes = bind_op_Ok bind_op_Err map_err_op_Ok map_err_op_Err

lemma bind_op_cases:
  assumes "bind_op m f w = (r, w'')"
  obtains (err) e where "m w = (Err e, w'')" "r = Err e"
        | (ok) x w' where "m w = (Ok x, w')" "f x w' = (r, w'')"
  using assms by (auto simp: bind_op_def split: prod.splits sum.splits)

lemma catch_op_cases:
  assumes "catch_op m h w = (r, w'')"
  obtains (err) e w' where "m w = (Err e, w')" "h e w' = (r, w'')"
        | (ok) x where "m w = (Ok x, w'')" "r = Ok x"
  using assms by (auto simp: catch_op_def split: prod.splits sum.splits)

lemma catch_op_run:
  "m w = (Ok x, w') \<Longrightarrow> catch_op m h w = (Ok x, w')"
  "m w = (Err e, w') \<Longrightarrow> catch_op m h w = h e w'"
  by (simp_all add: catch_op_def)

lemma mapM_op_length: "mapM_op f xs w = (Ok ys, w') \<Longrightarrow> length ys = length xs"
  by (induction xs arbitrary: w ys) (auto simp: bind_op_Ok)

text \<open>A property of states that a step keeps is kept by the iteration.\<close>

lemma mapM_op_invariant:
  assumes "mapM_op f xs w = (r, w')" and "P w"
    and "\<And>x v r' v'. x \<in> set xs \<Longrightarrow> P v \<Longrightarrow> f x v = (r', v') \<Longrightarrow> P v'"
  shows "P w'"
  using assms
proof (induction xs arbitrary: w r)
  case Nil
  then show ?case by simp
next
  case (Cons x xs)
  from Cons.prems(1) have run: "bind_op (f x) (\<lambda>y. bind_op (mapM_op f xs) (\<lambda>ys. ret_op (y # ys))) w = (r, w')"
    by simp
  then show ?case
  proof (cases rule: bind_op_cases)
    case (err e)
    then show ?thesis using Cons.prems(2,3) by (meson list.set_intros(1))
  next
    case (ok y v)
    have "P v" using ok(1) Cons.prems(2,3) by (meson list.set_intros(1))
    moreover obtain r2 where "mapM_op f xs v = (r2, w')"
      using ok(2) by (cases rule: bind_op_cases) auto
    ultimately show ?thesis using Cons.IH Cons.prems(3) by (meson list.set_intros(2))
  qed
qed

text \<open>
  The contract of operations whose every run, failing or not, relates the state before to the
  state after by a preorder: an invariant that cannot be lost, a table that only grows.
\<close>

definition steps_op :: "('w \<Rightarrow> 'w \<Rightarrow> bool) \<Rightarrow> ('w, 'e, 'a) op \<Rightarrow> bool" where
  "steps_op R m \<longleftrightarrow> (\<forall>w. R w (snd (m w)))"

lemma steps_opD: "steps_op R m \<Longrightarrow> m w = (r, w') \<Longrightarrow> R w w'"
  unfolding steps_op_def by (drule spec [of _ w]) simp

lemma steps_opI:
  assumes "\<And>w r w'. m w = (r, w') \<Longrightarrow> R w w'"
  shows "steps_op R m"
proof -
  have "R w (snd (m w))" for w by (rule assms [of w "fst (m w)"]) simp
  then show ?thesis by (simp add: steps_op_def)
qed

locale state_preorder =
  fixes R :: "'w \<Rightarrow> 'w \<Rightarrow> bool"
  assumes refl_state: "R w w"
    and trans_state: "R w v \<Longrightarrow> R v u \<Longrightarrow> R w u"
begin

lemma steps_ret: "steps_op R (ret_op x)"
  by (simp add: steps_op_def refl_state)

lemma steps_fail: "steps_op R (fail_op e)"
  by (simp add: steps_op_def refl_state)

lemma steps_lift: "steps_op R (lift_op r)"
  by (simp add: steps_op_def refl_state)

lemma steps_bind:
  assumes "steps_op R m" and "\<And>x. steps_op R (f x)"
  shows "steps_op R (bind_op m f)"
proof (rule steps_opI)
  fix w r w' assume "bind_op m f w = (r, w')"
  then show "R w w'"
  proof (cases rule: bind_op_cases)
    case (err e)
    then show ?thesis using steps_opD [OF assms(1)] by blast
  next
    case (ok x v)
    show ?thesis by (rule trans_state [OF steps_opD [OF assms(1) ok(1)] steps_opD [OF assms(2) ok(2)]])
  qed
qed

lemma steps_map_err: "steps_op R m \<Longrightarrow> steps_op R (map_err_op h m)"
  by (simp add: steps_op_def map_err_op_def case_prod_beta Let_def)

lemma steps_catch:
  assumes "steps_op R m" and "\<And>e. steps_op R (h e)"
  shows "steps_op R (catch_op m h)"
proof (rule steps_opI)
  fix w r w' assume "catch_op m h w = (r, w')"
  then show "R w w'"
  proof (cases rule: catch_op_cases)
    case (err e v)
    show ?thesis by (rule trans_state [OF steps_opD [OF assms(1) err(1)] steps_opD [OF assms(2) err(2)]])
  next
    case (ok x)
    then show ?thesis using steps_opD [OF assms(1)] by blast
  qed
qed

lemma steps_mapM: "(\<And>x. steps_op R (f x)) \<Longrightarrow> steps_op R (mapM_op f xs)"
  by (induction xs) (auto intro!: steps_ret steps_bind)

lemma steps_if: "steps_op R m \<Longrightarrow> steps_op R n \<Longrightarrow> steps_op R (if b then m else n)"
  by simp

lemma steps_case_option:
  "steps_op R m \<Longrightarrow> (\<And>x. steps_op R (f x)) \<Longrightarrow> steps_op R (case ox of None \<Rightarrow> m | Some x \<Rightarrow> f x)"
  by (cases ox) auto

lemmas steps_rules = steps_ret steps_fail steps_lift steps_bind steps_map_err steps_catch steps_mapM
  steps_if steps_case_option

end

subsection \<open>Integers at their width\<close>

type_synonym u8 = "8 word"
type_synonym u16 = "16 word"
type_synonym u32 = "32 word"
type_synonym u64 = "64 word"
type_synonym i64 = int

definition u64_sat_sub :: "u64 \<Rightarrow> u64 \<Rightarrow> u64" where
  "u64_sat_sub a b = (if a < b then 0 else a - b)"

definition u64_sat_add :: "u64 \<Rightarrow> u64 \<Rightarrow> u64" where
  "u64_sat_add a b = (if unat a + unat b < 2 ^ 64 then a + b else - 1)"

lemma unat_u64_sat_sub: "unat (u64_sat_sub a b) = unat a - unat b"
  by (auto simp: u64_sat_sub_def word_less_nat_alt unat_sub word_le_nat_alt)

lemma unat_u64_sat_add: "unat (u64_sat_add a b) = min (2 ^ 64 - 1) (unat a + unat b)"
proof (cases "unat a + unat b < 2 ^ 64")
  case True
  then show ?thesis by (simp add: u64_sat_add_def unat_word_ariths)
next
  case False
  have "unat (- 1 :: u64) = 2 ^ 64 - 1" by (simp add: unsigned_minus_1_eq_mask mask_eq_exp_minus_1)
  with False show ?thesis by (simp add: u64_sat_add_def)
qed

text \<open>\<open>usize\<close> is 64 bits wide; \<open>saturating_mul\<close> and \<open>clamp\<close> on its values.\<close>

abbreviation usize_max :: nat where
  "usize_max \<equiv> 2 ^ 64 - 1"

definition usize_sat_mul :: "nat \<Rightarrow> nat \<Rightarrow> nat" where
  "usize_sat_mul a b = min usize_max (a * b)"

definition clamp_nat :: "nat \<Rightarrow> nat \<Rightarrow> nat \<Rightarrow> nat" where
  "clamp_nat lo hi x = (if x < lo then lo else if hi < x then hi else x)"

lemma clamp_nat_bounds: "lo \<le> hi \<Longrightarrow> lo \<le> clamp_nat lo hi x \<and> clamp_nat lo hi x \<le> hi"
  by (simp add: clamp_nat_def)

text \<open>\<open>i64\<close> bounds for values kept as mathematical integers.\<close>

abbreviation i64_min :: int where
  "i64_min \<equiv> - (2 ^ 63)"

abbreviation i64_max :: int where
  "i64_max \<equiv> 2 ^ 63 - 1"

definition is_i64 :: "int \<Rightarrow> bool" where
  "is_i64 n \<longleftrightarrow> i64_min \<le> n \<and> n \<le> i64_max"

definition i64_checked_add :: "int \<Rightarrow> int \<Rightarrow> int option" where
  "i64_checked_add a b = (if is_i64 (a + b) then Some (a + b) else None)"

subsection \<open>Orderings and the stable sort\<close>

datatype ordering = Less | Equal | Greater

fun then_with :: "ordering \<Rightarrow> ordering \<Rightarrow> ordering" where
  "then_with Equal o2 = o2"
| "then_with o1 o2 = o1"

fun reverse_ord :: "ordering \<Rightarrow> ordering" where
  "reverse_ord Less = Greater"
| "reverse_ord Equal = Equal"
| "reverse_ord Greater = Less"

definition cmp_of :: "'a::linorder \<Rightarrow> 'a \<Rightarrow> ordering" where
  "cmp_of a b = (if a < b then Less else if a = b then Equal else Greater)"

lemma cmp_of_simps [simp]:
  "cmp_of a b = Less \<longleftrightarrow> a < b"
  "cmp_of a b = Equal \<longleftrightarrow> a = b"
  "cmp_of a b = Greater \<longleftrightarrow> b < a"
  by (auto simp: cmp_of_def)

lemma then_with_eq_Less: "then_with a b = Less \<longleftrightarrow> a = Less \<or> a = Equal \<and> b = Less"
  by (cases a) auto

lemma then_with_eq_Equal: "then_with a b = Equal \<longleftrightarrow> a = Equal \<and> b = Equal"
  by (cases a) auto

lemma then_with_eq_Greater:
  "then_with a b = Greater \<longleftrightarrow> a = Greater \<or> a = Equal \<and> b = Greater"
  by (cases a) auto

lemma reverse_then_with: "reverse_ord (then_with a b) = then_with (reverse_ord a) (reverse_ord b)"
  by (cases a) auto

lemma reverse_cmp_of: "reverse_ord (cmp_of a b) = cmp_of b a"
  by (auto simp: cmp_of_def)

text \<open>Lexicographic order of byte strings, as \<open>str::cmp\<close>.\<close>

fun str_cmp :: "string \<Rightarrow> string \<Rightarrow> ordering" where
  "str_cmp [] [] = Equal"
| "str_cmp [] (b # bs) = Less"
| "str_cmp (a # as) [] = Greater"
| "str_cmp (a # as) (b # bs) =
     then_with (cmp_of (of_char a :: nat) (of_char b)) (str_cmp as bs)"

lemma str_cmp_Equal [simp]: "str_cmp a b = Equal \<longleftrightarrow> a = b"
  by (induction a b rule: str_cmp.induct) (auto simp: then_with_eq_Equal)

lemma str_cmp_reverse: "reverse_ord (str_cmp a b) = str_cmp b a"
  by (induction a b rule: str_cmp.induct) (auto simp: reverse_then_with reverse_cmp_of)

lemma str_cmp_trans:
  "str_cmp a b \<noteq> Greater \<Longrightarrow> str_cmp b c \<noteq> Greater \<Longrightarrow> str_cmp a c \<noteq> Greater"
proof (induction a b arbitrary: c rule: str_cmp.induct)
  case (1 c)
  then show ?case by (cases c) auto
next
  case (2 b bs c)
  then show ?case by (cases c) auto
next
  case (4 a as b bs c)
  then show ?case
    by (cases c) (auto simp: then_with_eq_Greater)
qed auto

text \<open>
  \<open>slice::sort_by\<close> is a stable sort; on a consistent comparator every stable sort gives the
  same list, and insertion from the right is the executable one used here.
\<close>

fun insert_by :: "('a \<Rightarrow> 'a \<Rightarrow> ordering) \<Rightarrow> 'a \<Rightarrow> 'a list \<Rightarrow> 'a list" where
  "insert_by c x [] = [x]"
| "insert_by c x (y # ys) = (if c x y = Greater then y # insert_by c x ys else x # y # ys)"

fun sort_by :: "('a \<Rightarrow> 'a \<Rightarrow> ordering) \<Rightarrow> 'a list \<Rightarrow> 'a list" where
  "sort_by c [] = []"
| "sort_by c (x # xs) = insert_by c x (sort_by c xs)"

lemma mset_insert_by: "mset (insert_by c x ys) = add_mset x (mset ys)"
  by (induction ys) auto

lemma mset_sort_by [simp]: "mset (sort_by c xs) = mset xs"
  by (induction xs) (auto simp: mset_insert_by)

lemma set_sort_by [simp]: "set (sort_by c xs) = set xs"
  by (metis mset_sort_by set_mset_mset)

lemma length_sort_by [simp]: "length (sort_by c xs) = length xs"
  by (metis mset_sort_by size_mset)

lemma distinct_sort_by [simp]: "distinct (sort_by c xs) = distinct xs"
  by (rule mset_eq_imp_distinct_iff) simp

text \<open>\<open>Iterator::min_by\<close> keeps the first of several minimal elements.\<close>

fun min_by :: "('a \<Rightarrow> 'a \<Rightarrow> ordering) \<Rightarrow> 'a \<Rightarrow> 'a list \<Rightarrow> 'a" where
  "min_by c x [] = x"
| "min_by c x (y # ys) = min_by c (if c y x = Less then y else x) ys"

lemma min_by_in: "min_by c x ys \<in> set (x # ys)"
proof (induction ys arbitrary: x)
  case (Cons y ys)
  then show ?case using Cons.IH [of "if c y x = Less then y else x"] by (auto split: if_splits)
qed simp

text \<open>
  The contract of \<open>sort_by\<close>'s argument: a comparator that is a total preorder on the values
  that occur (those satisfying \<open>ok\<close>).
\<close>

locale order_cmp =
  fixes c :: "'a \<Rightarrow> 'a \<Rightarrow> ordering" and ok :: "'a \<Rightarrow> bool"
  assumes antisym_cmp: "ok x \<Longrightarrow> ok y \<Longrightarrow> reverse_ord (c x y) = c y x"
    and trans_cmp: "ok x \<Longrightarrow> ok y \<Longrightarrow> ok z \<Longrightarrow> c x y \<noteq> Greater \<Longrightarrow> c y z \<noteq> Greater \<Longrightarrow> c x z \<noteq> Greater"
begin

lemma refl_cmp: "ok x \<Longrightarrow> c x x = Equal"
  using antisym_cmp [of x x] by (cases "c x x") auto

lemma greater_flip: "ok x \<Longrightarrow> ok y \<Longrightarrow> c x y = Greater \<Longrightarrow> c y x = Less"
  using antisym_cmp [of x y] by simp

lemma sorted_insert_by:
  "ok x \<Longrightarrow> \<forall>y \<in> set ys. ok y \<Longrightarrow> sorted_wrt (\<lambda>a b. c a b \<noteq> Greater) ys \<Longrightarrow>
   sorted_wrt (\<lambda>a b. c a b \<noteq> Greater) (insert_by c x ys)"
proof (induction ys)
  case Nil
  then show ?case by simp
next
  case (Cons y ys)
  have set_ins: "set (insert_by c x ys) = insert x (set ys)"
    by (metis mset_insert_by set_mset_add_mset_insert set_mset_mset)
  show ?case
  proof (cases "c x y = Greater")
    case True
    then have "c y x \<noteq> Greater" using greater_flip Cons.prems by simp
    with Cons True set_ins show ?thesis by auto
  next
    case False
    have "c x z \<noteq> Greater" if "z \<in> set ys" for z
      using False that Cons.prems trans_cmp [of x y z] by auto
    with False Cons.prems show ?thesis by auto
  qed
qed

lemma sorted_sort_by:
  "\<forall>x \<in> set xs. ok x \<Longrightarrow> sorted_wrt (\<lambda>a b. c a b \<noteq> Greater) (sort_by c xs)"
  by (induction xs) (auto intro!: sorted_insert_by)

text \<open>When no two different elements compare equal, the sorted arrangement is unique.\<close>

lemma sorted_unique:
  assumes "mset xs = mset ys" and "\<forall>x \<in> set xs. ok x"
    and "sorted_wrt (\<lambda>a b. c a b \<noteq> Greater) xs" and "sorted_wrt (\<lambda>a b. c a b \<noteq> Greater) ys"
    and "\<And>a b. a \<in> set xs \<Longrightarrow> b \<in> set xs \<Longrightarrow> c a b = Equal \<Longrightarrow> a = b"
  shows "xs = ys"
  using assms
proof (induction xs arbitrary: ys)
  case Nil
  then show ?case by simp
next
  case (Cons x xs)
  then obtain y zs where ys: "ys = y # zs" by (cases ys) auto
  have sets: "set (x # xs) = set ys" using Cons.prems(1) by (metis set_mset_mset)
  have "x = y"
  proof (rule ccontr)
    assume ne: "x \<noteq> y"
    have "y \<in> set xs" "x \<in> set zs" using sets ys ne by auto
    then have "c x y \<noteq> Greater" "c y x \<noteq> Greater" using Cons.prems(3,4) ys by auto
    moreover have "reverse_ord (c x y) = c y x"
      using \<open>y \<in> set xs\<close> Cons.prems(2) by (intro antisym_cmp) auto
    ultimately have "c x y = Equal" by (cases "c x y") auto
    then show False using Cons.prems(5) [of x y] \<open>y \<in> set xs\<close> ne by auto
  qed
  moreover have "xs = zs"
    using Cons.prems \<open>x = y\<close> ys by (intro Cons.IH) auto
  ultimately show ?case using ys by simp
qed

lemma min_by_le: "\<forall>y \<in> set (x # ys). ok y \<Longrightarrow> y \<in> set (x # ys) \<Longrightarrow> c (min_by c x ys) y \<noteq> Greater"
proof (induction ys arbitrary: x y)
  case Nil
  then show ?case using refl_cmp by auto
next
  case (Cons z ys)
  let ?x = "if c z x = Less then z else x"
  have ok: "\<forall>y \<in> set (?x # ys). ok y" using Cons.prems(1) by auto
  have m: "min_by c ?x ys \<in> set (?x # ys)" by (rule min_by_in)
  have "c ?x x \<noteq> Greater" "c ?x z \<noteq> Greater"
    using Cons.prems(1) refl_cmp [of x] refl_cmp [of z] antisym_cmp [of z x] by (cases "c z x"; auto)+
  then have "c ?x y \<noteq> Greater \<or> y \<in> set (?x # ys)" using Cons.prems(2) by auto
  then show ?case
  proof
    assume y: "c ?x y \<noteq> Greater"
    have "c (min_by c ?x ys) ?x \<noteq> Greater" using Cons.IH [OF ok] by simp
    moreover have "ok (min_by c ?x ys)" using ok m by auto
    ultimately show ?thesis using trans_cmp [of "min_by c ?x ys" ?x y] y ok Cons.prems by auto
  next
    assume "y \<in> set (?x # ys)"
    then show ?thesis using Cons.IH [OF ok] by simp
  qed
qed

end

interpretation str_order: order_cmp str_cmp "\<lambda>_. True"
  by unfold_locales (rule str_cmp_reverse, rule str_cmp_trans)

subsection \<open>Ordered search for a repeated element\<close>

text \<open>
  The loop \<open>for x in xs { if !seen.insert(x) { return Err(x) } }\<close>: the first element that
  occurs earlier in the list.
\<close>

fun first_dup :: "'a set \<Rightarrow> 'a list \<Rightarrow> 'a option" where
  "first_dup seen [] = None"
| "first_dup seen (x # xs) = (if x \<in> seen then Some x else first_dup (insert x seen) xs)"

lemma first_dup_None: "first_dup seen xs = None \<longleftrightarrow> distinct xs \<and> set xs \<inter> seen = {}"
  by (induction xs arbitrary: seen) auto

lemma first_dup_Some: "first_dup {} xs = Some x \<Longrightarrow> \<not> distinct xs \<and> x \<in> set xs"
proof
  have mem: "first_dup seen ys = Some x \<Longrightarrow> x \<in> set ys" for seen and ys :: "'a list"
    by (induction ys arbitrary: seen) (auto split: if_splits)
  assume a: "first_dup {} xs = Some x"
  then show "x \<in> set xs" by (rule mem)
  from a have "first_dup {} xs \<noteq> None" by simp
  then show "\<not> distinct xs" by (simp add: first_dup_None)
qed

subsection \<open>Strings\<close>

text \<open>
  The UTF-8 encodings of the characters with the Unicode property \<open>White_Space\<close>, which
  \<open>str::trim\<close> removes. In valid UTF-8 an encoding occurs as a byte prefix or suffix exactly
  when the character does.
\<close>

definition byte :: "nat \<Rightarrow> char" where
  "byte n = char_of n"

definition white_space :: "string list" where
  "white_space =
     [[byte 9], [byte 10], [byte 11], [byte 12], [byte 13], [byte 32],
      [byte 194, byte 133], [byte 194, byte 160], [byte 225, byte 154, byte 128]]
     @ map (\<lambda>n. [byte 226, byte 128, byte n]) [128..<139]
     @ [[byte 226, byte 128, byte 168], [byte 226, byte 128, byte 169],
        [byte 226, byte 128, byte 175], [byte 226, byte 129, byte 159],
        [byte 227, byte 128, byte 128]]"

fun strip_prefix :: "string \<Rightarrow> string \<Rightarrow> string option" where
  "strip_prefix [] s = Some s"
| "strip_prefix (p # ps) [] = None"
| "strip_prefix (p # ps) (c # cs) = (if p = c then strip_prefix ps cs else None)"

lemma strip_prefix_Some: "strip_prefix p s = Some t \<longleftrightarrow> s = p @ t"
  by (induction p s rule: strip_prefix.induct) auto

definition starts_with :: "string \<Rightarrow> string \<Rightarrow> bool" where
  "starts_with s p \<longleftrightarrow> strip_prefix p s \<noteq> None"

lemma starts_with_iff: "starts_with s p \<longleftrightarrow> (\<exists>t. s = p @ t)"
  by (auto simp: starts_with_def strip_prefix_Some)

fun first_strip :: "string list \<Rightarrow> string \<Rightarrow> string option" where
  "first_strip [] s = None"
| "first_strip (p # ps) s =
     (case strip_prefix p s of None \<Rightarrow> first_strip ps s | Some t \<Rightarrow> Some t)"

lemma first_strip_shorter:
  "first_strip ps s = Some t \<Longrightarrow> \<forall>p \<in> set ps. p \<noteq> [] \<Longrightarrow> length t < length s"
  by (induction ps) (auto simp: strip_prefix_Some split: option.splits)

lemma white_space_nonempty: "\<forall>p \<in> set white_space. p \<noteq> []"
  by (simp add: white_space_def)

function trim_start :: "string \<Rightarrow> string" where
  "trim_start s = (case first_strip white_space s of None \<Rightarrow> s | Some t \<Rightarrow> trim_start t)"
  by pat_completeness auto
termination
  by (relation "measure length")
     (use first_strip_shorter white_space_nonempty in auto)

declare trim_start.simps [simp del]

function trim_end_rev :: "string \<Rightarrow> string" where
  "trim_end_rev s =
     (case first_strip (map rev white_space) s of None \<Rightarrow> s | Some t \<Rightarrow> trim_end_rev t)"
  by pat_completeness auto
termination
  by (relation "measure length")
     (use first_strip_shorter [where ps = "map rev white_space"] white_space_nonempty in auto)

declare trim_end_rev.simps [simp del]

definition trim :: "string \<Rightarrow> string" where
  "trim s = rev (trim_end_rev (rev (trim_start s)))"

definition is_blank :: "string \<Rightarrow> bool" where
  "is_blank s \<longleftrightarrow> trim s = []"

lemma trim_Nil [simp]: "trim [] = []"
  by (simp add: trim_def trim_start.simps trim_end_rev.simps white_space_def)

lemma is_blank_Nil [simp]: "is_blank []"
  by (simp add: is_blank_def)

text \<open>A string with a visible ASCII character is not blank.\<close>

definition visible :: "char \<Rightarrow> bool" where
  "visible c \<longleftrightarrow> 33 \<le> (of_char c :: nat) \<and> (of_char c :: nat) < 128"

lemma visible_byte: "visible (byte n) \<longleftrightarrow> 33 \<le> n mod 256 \<and> n mod 256 < 128"
  by (simp add: visible_def byte_def)

lemma visible_not_white: "visible c \<Longrightarrow> p \<in> set white_space \<Longrightarrow> c \<notin> set p"
proof
  assume v: "visible c" and p: "p \<in> set white_space" and c: "c \<in> set p"
  have "list_all (\<lambda>p. list_all (\<lambda>c. \<not> visible c) p) white_space"
    by (simp add: white_space_def visible_byte upt_rec_numeral)
  then show False using v p c by (auto simp: list_all_iff)
qed

lemma first_strip_keeps:
  "first_strip ps s = Some t \<Longrightarrow> c \<in> set s \<Longrightarrow> \<forall>p \<in> set ps. c \<notin> set p \<Longrightarrow> c \<in> set t"
  by (induction ps) (auto simp: strip_prefix_Some split: option.splits)

lemma trim_start_keeps: "visible c \<Longrightarrow> c \<in> set s \<Longrightarrow> c \<in> set (trim_start s)"
proof (induction s rule: trim_start.induct)
  case (1 s)
  show ?case
  proof (cases "first_strip white_space s")
    case None
    then show ?thesis using 1 by (simp add: trim_start.simps [of s])
  next
    case (Some t)
    then have "c \<in> set t" using first_strip_keeps 1(3) visible_not_white [OF 1(2)] by blast
    then show ?thesis using 1(1) [OF Some 1(2)] Some by (simp add: trim_start.simps [of s])
  qed
qed

lemma trim_end_rev_keeps: "visible c \<Longrightarrow> c \<in> set s \<Longrightarrow> c \<in> set (trim_end_rev s)"
proof (induction s rule: trim_end_rev.induct)
  case (1 s)
  show ?case
  proof (cases "first_strip (map rev white_space) s")
    case None
    then show ?thesis using 1 by (simp add: trim_end_rev.simps [of s])
  next
    case (Some t)
    have "\<forall>p \<in> set (map rev white_space). c \<notin> set p" using visible_not_white [OF 1(2)] by auto
    then have "c \<in> set t" using first_strip_keeps [OF Some 1(3)] by blast
    then show ?thesis using 1(1) [OF Some 1(2)] Some by (simp add: trim_end_rev.simps [of s])
  qed
qed

lemma visible_not_blank: "visible c \<Longrightarrow> c \<in> set s \<Longrightarrow> \<not> is_blank s"
  using trim_start_keeps trim_end_rev_keeps [of c "rev (trim_start s)"]
  by (auto simp: is_blank_def trim_def)

lemma first_strip_visible: "visible c \<Longrightarrow> first_strip white_space (c # cs) = None"
proof -
  assume "visible c"
  then have "\<forall>p \<in> set white_space. strip_prefix p (c # cs) = None"
    using visible_not_white white_space_nonempty
    by (metis list.exhaust list.set_intros(1) option.simps(3) strip_prefix.simps(3))
  moreover have "\<forall>p \<in> set ps. strip_prefix p t = None \<Longrightarrow> first_strip ps t = None" for ps t
    by (induction ps) auto
  ultimately show ?thesis by blast
qed

lemma first_strip_rev_visible: "visible c \<Longrightarrow> first_strip (map rev white_space) (c # cs) = None"
proof -
  assume v: "visible c"
  have "strip_prefix (rev p) (c # cs) = None" if "p \<in> set white_space" for p
  proof (cases "rev p")
    case Nil
    then show ?thesis using that white_space_nonempty by auto
  next
    case (Cons d ds)
    then have "d \<in> set p" by (metis list.set_intros(1) set_rev)
    then have "d \<noteq> c" using visible_not_white [OF v that] by blast
    then show ?thesis by (simp add: Cons)
  qed
  moreover have "\<forall>p \<in> set ps. strip_prefix p t = None \<Longrightarrow> first_strip ps t = None" for ps t
    by (induction ps) auto
  ultimately show ?thesis by simp
qed

text \<open>Text with visible ends is its own trimming.\<close>

lemma trim_visible:
  assumes "visible (hd s)" and "visible (last s)"
  shows "trim s = s"
proof (cases s)
  case (Cons c cs)
  have "trim_start s = s" using first_strip_visible [of c cs] assms(1) Cons by (simp add: trim_start.simps [of "c # cs"])
  moreover have r: "rev s = last s # rev (butlast s)"
    using arg_cong [OF append_butlast_last_id [of s], of rev] Cons by simp
  have "trim_end_rev (rev s) = rev s"
    unfolding r using first_strip_rev_visible [OF assms(2), of "rev (butlast s)"]
    by (simp add: trim_end_rev.simps [of "last s # rev (butlast s)"])
  ultimately show ?thesis by (simp add: trim_def)
qed simp

text \<open>\<open>str::contains\<close> for a pattern string.\<close>

fun contains_str :: "string \<Rightarrow> string \<Rightarrow> bool" where
  "contains_str [] p = (p = [])"
| "contains_str (c # cs) p = (starts_with (c # cs) p \<or> contains_str cs p)"

lemma contains_str_iff: "contains_str s p \<longleftrightarrow> (\<exists>a b. s = a @ p @ b)"
proof (induction s)
  case Nil
  then show ?case by simp
next
  case (Cons c cs)
  show ?case
  proof
    assume "contains_str (c # cs) p"
    then consider "starts_with (c # cs) p" | "contains_str cs p" by auto
    then show "\<exists>a b. c # cs = a @ p @ b"
    proof cases
      case 1
      then show ?thesis by (auto simp: starts_with_iff intro: exI [of _ "[]"])
    next
      case 2
      with Cons.IH obtain a b where "cs = a @ p @ b" by auto
      then have "c # cs = (c # a) @ p @ b" by simp
      then show ?thesis by blast
    qed
  next
    assume "\<exists>a b. c # cs = a @ p @ b"
    then obtain a b where ab: "c # cs = a @ p @ b" by blast
    show "contains_str (c # cs) p"
    proof (cases a)
      case Nil
      with ab have "starts_with (c # cs) p" by (auto simp: starts_with_iff)
      then show ?thesis by simp
    next
      case (Cons x xs)
      with ab have "cs = xs @ p @ b" by simp
      with Cons.IH show ?thesis by auto
    qed
  qed
qed

text \<open>Decimal rendering of an unsigned integer, as \<open>format!\<close> writes it.\<close>

fun show_nat :: "nat \<Rightarrow> string" where
  "show_nat n = (if n < 10 then [byte (48 + n)] else show_nat (n div 10) @ [byte (48 + n mod 10)])"

declare show_nat.simps [simp del]

definition show_int :: "int \<Rightarrow> string" where
  "show_int n = (if n < 0 then ''-'' @ show_nat (nat (- n)) else show_nat (nat n))"

text \<open>\<open>Vec<String>::join\<close>.\<close>

fun join_str :: "string \<Rightarrow> string list \<Rightarrow> string" where
  "join_str sep [] = []"
| "join_str sep [s] = s"
| "join_str sep (s # t # ts) = s @ sep @ join_str sep (t # ts)"

end
