(* ===== verification/Float64.thy ===== *)
theory Float64
  imports Prelude "HOL-Library.Log_Nat"
begin

section \<open>Rust's \<open>f64\<close>: IEEE-754 binary64 with round to nearest, ties to even\<close>

text \<open>
  The chart, the ranking and the comparison code compute with \<open>f64\<close>. This theory is an
  executable model of the operations of \<open>core::f64\<close> that the sources use. A finite value is
  its sign bit and its magnitude, an exact rational; every arithmetic operation computes the
  exact rational result and rounds it once. NaN payloads and the sign of a NaN are not
  modelled: no operation of the sources reads them.

  The lemmas state what the component proofs need: the binade of a rational
  (\<open>ilog2\<close>), rounding is monotone, exact on representable values and always representable,
  and the comparisons agree with the rational order on finite values.
\<close>

datatype f64 = F_NaN | F_Inf bool | F_Fin bool rat

subsection \<open>Binades\<close>

definition ilog2 :: "rat \<Rightarrow> int" where
  "ilog2 q = (let (a, b) = quotient_of q; k = bitlen a - bitlen b
              in if 2 powi k \<le> q then k else k - 1)"

lemma powi_two_pos [simp]: "(0::rat) < 2 powi k"
  by (simp add: power_int_def)

lemma powi_two_nonneg [simp]: "(0::rat) \<le> 2 powi k"
  by (simp add: less_imp_le)

lemma powi_two_add: "(2::rat) powi (a + b) = 2 powi a * 2 powi b"
  by (simp add: power_int_add)

lemma powi_two_Suc: "(2::rat) powi (a + 1) = 2 * 2 powi a"
  by (simp add: power_int_add)

lemma powi_two_diff: "(2::rat) powi (a - b) = 2 powi a / 2 powi b"
  by (simp add: power_int_diff)

lemma powi_two_nat: "0 \<le> k \<Longrightarrow> (2::rat) powi k = of_int (2 ^ nat k)"
  by (simp add: power_int_def)

lemma powi_two_quot: "e \<le> k \<Longrightarrow> (2::rat) powi k / 2 powi e = of_int (2 ^ nat (k - e))"
  by (subst powi_two_diff [symmetric]) (rule powi_two_nat, simp)

lemma powi_two_mono: "a \<le> b \<Longrightarrow> (2::rat) powi a \<le> 2 powi b"
  by (simp add: power_int_increasing)

lemma powi_two_less_iff: "(2::rat) powi a < 2 powi b \<longleftrightarrow> a < b"
  by (meson not_le one_less_numeral_iff power_int_strict_increasing powi_two_mono
      semiring_norm(76))

lemma powi_two_bitlen:
  assumes "0 < (a::int)"
  shows "2 powi (bitlen a - 1) \<le> (of_int a :: rat)" and "(of_int a :: rat) < 2 powi bitlen a"
proof -
  have b: "2 ^ nat (bitlen a - 1) \<le> a" "a < 2 ^ nat (bitlen a)"
    using bitlen_bounds [OF assms] by auto
  have pos: "0 < bitlen a" using assms bitlen_nonneg [of a] bitlen_eq_zero_iff [of a] by linarith
  have "(of_int (2 ^ nat (bitlen a - 1)) :: rat) \<le> of_int a" using b(1) by (rule of_int_le_iff [THEN iffD2])
  then show "2 powi (bitlen a - 1) \<le> (of_int a :: rat)" using pos by (simp add: power_int_def)
  have "(of_int a :: rat) < of_int (2 ^ nat (bitlen a))" using b(2) by (rule of_int_less_iff [THEN iffD2])
  then show "(of_int a :: rat) < 2 powi bitlen a" using pos by (simp add: power_int_def)
qed

lemma ilog2_bounds:
  assumes "0 < q"
  shows "2 powi (ilog2 q) \<le> q" and "q < 2 powi (ilog2 q + 1)"
proof -
  obtain a b where ab: "quotient_of q = (a, b)" by fastforce
  have b: "0 < b" using ab by (rule quotient_of_denom_pos)
  have q: "q = of_int a / of_int b" using ab by (rule quotient_of_div)
  have a: "0 < a" using assms b q by (simp add: zero_less_divide_iff)
  let ?k = "bitlen a - bitlen b"
  have up: "q < 2 powi (?k + 1)"
  proof -
    have "q < 2 powi bitlen a / of_int b"
      using powi_two_bitlen(2) [OF a] b q by (simp add: divide_strict_right_mono)
    also have "\<dots> \<le> 2 powi bitlen a / 2 powi (bitlen b - 1)"
      using powi_two_bitlen(1) [OF b] b by (intro divide_left_mono) (auto simp: mult_pos_pos)
    also have "\<dots> = 2 powi (?k + 1)" by (simp add: powi_two_diff powi_two_add)
    finally show ?thesis .
  qed
  have low: "2 powi (?k - 1) \<le> q"
  proof -
    have "2 powi (?k - 1) = 2 powi (bitlen a - 1) / (2 powi bitlen b :: rat)"
      by (simp add: powi_two_diff)
    also have "\<dots> \<le> of_int a / (2 powi bitlen b)"
      using powi_two_bitlen(1) [OF a] by (intro divide_right_mono) auto
    also have "\<dots> \<le> of_int a / of_int b"
      using powi_two_bitlen(2) [OF b] a b by (intro divide_left_mono) auto
    finally show ?thesis using q by simp
  qed
  show "2 powi (ilog2 q) \<le> q" "q < 2 powi (ilog2 q + 1)"
    using up low by (auto simp: ilog2_def ab Let_def)
qed

lemma ilog2_unique:
  assumes "2 powi k \<le> q" and "q < 2 powi (k + 1)"
  shows "ilog2 q = k"
proof -
  have "0 < q" using assms(1) powi_two_pos [of k] by linarith
  note b = ilog2_bounds [OF this]
  have "(2::rat) powi k < 2 powi (ilog2 q + 1)" using assms(1) b(2) by linarith
  moreover have "(2::rat) powi (ilog2 q) < 2 powi (k + 1)" using assms(2) b(1) by linarith
  ultimately show ?thesis by (simp add: powi_two_less_iff)
qed

lemma ilog2_mono: "0 < p \<Longrightarrow> p \<le> q \<Longrightarrow> ilog2 p \<le> ilog2 q"
proof -
  assume a: "0 < p" "p \<le> q"
  then have "(2::rat) powi (ilog2 p) < 2 powi (ilog2 q + 1)"
    using ilog2_bounds(1) [of p] ilog2_bounds(2) [of q] by linarith
  then show ?thesis by (simp add: powi_two_less_iff)
qed

subsection \<open>Rounding\<close>

definition rne :: "rat \<Rightarrow> int" where
  "rne x = (let f = \<lfloor>x\<rfloor>; d = x - of_int f
            in if d < 1 / 2 then f else if 1 / 2 < d then f + 1
               else if even f then f else f + 1)"

lemma rne_of_int [simp]: "rne (of_int n) = n"
  by (simp add: rne_def)

lemma rne_cases: "rne x = \<lfloor>x\<rfloor> \<or> rne x = \<lfloor>x\<rfloor> + 1"
  by (auto simp: rne_def Let_def)

lemma rne_mono: "x \<le> y \<Longrightarrow> rne x \<le> rne y"
proof (cases "\<lfloor>x\<rfloor> = \<lfloor>y\<rfloor>")
  case True
  assume "x \<le> y"
  with True show ?thesis by (auto simp: rne_def Let_def)
next
  case False
  assume "x \<le> y"
  then have "\<lfloor>x\<rfloor> \<le> \<lfloor>y\<rfloor>" by (rule floor_mono)
  with False have "\<lfloor>x\<rfloor> + 1 \<le> \<lfloor>y\<rfloor>" by simp
  then show ?thesis using rne_cases [of x] rne_cases [of y] by linarith
qed

lemma rne_err: "\<bar>of_int (rne x) - x\<bar> \<le> 1 / 2"
proof -
  define d where "d = x - of_int \<lfloor>x\<rfloor>"
  have d: "0 \<le> d" "d < 1" unfolding d_def by linarith+
  have "of_int (rne x) - x = (if d < 1 / 2 \<or> d = 1 / 2 \<and> even \<lfloor>x\<rfloor> then - d else 1 - d)"
    by (auto simp: rne_def Let_def d_def)
  then show ?thesis using d by (auto simp: abs_if)
qed

definition ulp_exp :: "rat \<Rightarrow> int" where
  "ulp_exp q = max (- 1074) (ilog2 q - 52)"

definition round_mag :: "rat \<Rightarrow> rat" where
  "round_mag q = (if q \<le> 0 then 0
                  else of_int (rne (q / 2 powi (ulp_exp q))) * 2 powi (ulp_exp q))"

text \<open>The magnitudes of a 53-bit significand with exponent at least \<open>-1074\<close>.\<close>

definition representable :: "rat \<Rightarrow> bool" where
  "representable q \<longleftrightarrow> q = 0 \<or> 0 < q \<and> q / 2 powi (ulp_exp q) \<in> \<int>"

lemma representable_0 [simp]: "representable 0"
  by (simp add: representable_def)

lemma representable_nonneg: "representable q \<Longrightarrow> 0 \<le> q"
  by (auto simp: representable_def)

lemma round_mag_representable_id: "representable q \<Longrightarrow> round_mag q = q"
proof -
  assume r: "representable q"
  show ?thesis
  proof (cases "q = 0")
    case True
    then show ?thesis by (simp add: round_mag_def)
  next
    case False
    with r obtain n where "q / 2 powi (ulp_exp q) = of_int n" "0 < q"
      by (auto simp: representable_def elim: Ints_cases)
    then show ?thesis
      by (simp add: round_mag_def) (metis less_irrefl nonzero_divide_eq_eq powi_two_pos)
  qed
qed

lemma round_mag_nonneg: "0 \<le> round_mag q"
proof (cases "q \<le> 0")
  case False
  then have "0 \<le> q / 2 powi (ulp_exp q)" by simp
  then have "0 \<le> rne (q / 2 powi (ulp_exp q))" using rne_mono [of 0] rne_of_int [of 0] by simp
  with False show ?thesis by (simp add: round_mag_def)
qed (simp add: round_mag_def)

text \<open>A power of two inside the exponent range bounds the rounding from both sides.\<close>

lemma round_mag_le_powi:
  assumes "0 < q" and "q \<le> 2 powi k" and "- 1074 \<le> k"
  shows "round_mag q \<le> 2 powi k"
proof (cases "q = 2 powi k")
  case True
  then have "ilog2 q = k" by (intro ilog2_unique) (auto simp: powi_two_Suc)
  then have "ulp_exp q = max (- 1074) (k - 52)" by (simp add: ulp_exp_def)
  then have "q / 2 powi (ulp_exp q) = 2 powi (k - max (- 1074) (k - 52))"
    using True by (simp add: powi_two_diff)
  also have "\<dots> = of_int (2 ^ nat (k - max (- 1074) (k - 52)))"
    using assms(3) by (simp add: power_int_def)
  finally have "representable q" using assms(1) by (auto simp: representable_def)
  then show ?thesis using assms(2) by (simp add: round_mag_representable_id)
next
  case False
  with assms(2) have "q < 2 powi k" by simp
  then have "ilog2 q < k"
    using ilog2_bounds(1) [OF assms(1)] powi_two_less_iff [of "ilog2 q" k] by linarith
  then have e: "ulp_exp q \<le> k" using assms(3) by (simp add: ulp_exp_def)
  then have "(2 powi k :: rat) / 2 powi (ulp_exp q) = of_int (2 ^ nat (k - ulp_exp q))"
    by (rule powi_two_quot)
  moreover have "q / 2 powi (ulp_exp q) \<le> 2 powi k / 2 powi (ulp_exp q)"
    using assms(2) by (intro divide_right_mono) auto
  ultimately have "rne (q / 2 powi (ulp_exp q)) \<le> 2 ^ nat (k - ulp_exp q)"
    by (metis rne_mono rne_of_int)
  then have "(of_int (rne (q / 2 powi (ulp_exp q))) :: rat) \<le> of_int (2 ^ nat (k - ulp_exp q))"
    by (rule of_int_le_iff [THEN iffD2])
  also have "\<dots> = 2 powi k / 2 powi (ulp_exp q)"
    using e by (rule powi_two_quot [symmetric])
  finally show ?thesis using assms(1) by (simp add: round_mag_def pos_le_divide_eq)
qed

lemma round_mag_ge_powi:
  assumes "2 powi (ilog2 q) \<le> q" and "- 1022 \<le> ilog2 q"
  shows "2 powi (ilog2 q) \<le> round_mag q"
proof -
  let ?e = "ulp_exp q"
  have q: "0 < q" using assms(1) powi_two_pos [of "ilog2 q"] by linarith
  have e: "?e = ilog2 q - 52" using assms(2) by (simp add: ulp_exp_def)
  have "(2 powi (ilog2 q) :: rat) / 2 powi ?e = of_int (2 ^ 52)"
    by (simp add: e powi_two_diff)
  moreover have "(2 powi (ilog2 q) :: rat) / 2 powi ?e \<le> q / 2 powi ?e"
    using assms(1) by (intro divide_right_mono) auto
  ultimately have "2 ^ 52 \<le> rne (q / 2 powi ?e)" by (metis rne_mono rne_of_int)
  then have "(of_int (2 ^ 52) :: rat) \<le> of_int (rne (q / 2 powi ?e))"
    by (rule of_int_le_iff [THEN iffD2])
  then have "(2 powi (ilog2 q) :: rat) / 2 powi ?e \<le> of_int (rne (q / 2 powi ?e))"
    using \<open>2 powi (ilog2 q) / 2 powi ?e = of_int (2 ^ 52)\<close> by simp
  then show ?thesis using q by (simp add: round_mag_def pos_divide_le_eq)
qed

lemma round_mag_mono: "p \<le> q \<Longrightarrow> round_mag p \<le> round_mag q"
proof -
  assume pq: "p \<le> q"
  show ?thesis
  proof (cases "p \<le> 0")
    case True
    then show ?thesis using round_mag_nonneg by (simp add: round_mag_def)
  next
    case False
    then have p: "0 < p" and q: "0 < q" using pq by auto
    have lg: "ilog2 p \<le> ilog2 q" using p pq by (rule ilog2_mono)
    show ?thesis
    proof (cases "ulp_exp p = ulp_exp q")
      case True
      have "p / 2 powi (ulp_exp q) \<le> q / 2 powi (ulp_exp q)"
        using pq by (intro divide_right_mono) auto
      then have "rne (p / 2 powi (ulp_exp q)) \<le> rne (q / 2 powi (ulp_exp q))"
        by (rule rne_mono)
      then show ?thesis using True p q by (simp add: round_mag_def mult_right_mono)
    next
      case False
      with lg have lt: "ilog2 p < ilog2 q" and big: "- 1022 < ilog2 q"
        by (auto simp: ulp_exp_def)
      have "p < 2 powi (ilog2 p + 1)" using p by (rule ilog2_bounds)
      also have "\<dots> \<le> 2 powi (ilog2 q)" using lt by (intro powi_two_mono) simp
      finally have "round_mag p \<le> 2 powi (ilog2 q)"
        using p big by (intro round_mag_le_powi) auto
      also have "\<dots> \<le> round_mag q"
        using big ilog2_bounds(1) [OF q] by (intro round_mag_ge_powi) auto
      finally show ?thesis .
    qed
  qed
qed

lemma round_mag_representable: "representable (round_mag q)"
proof (cases "q \<le> 0")
  case True
  then show ?thesis by (simp add: round_mag_def)
next
  case False
  then have q: "0 < q" by simp
  let ?e = "ulp_exp q" and ?r = "round_mag q"
  have r: "?r = of_int (rne (q / 2 powi ?e)) * 2 powi ?e" using q by (simp add: round_mag_def)
  show ?thesis
  proof (cases "?r = 0")
    case False
    then have rpos: "0 < ?r" using round_mag_nonneg [of q] by simp
    have "q \<le> 2 powi (ilog2 q + 1)" using ilog2_bounds(2) [OF q] by simp
    then have hi: "?r \<le> 2 powi (max (- 1074) (ilog2 q + 1))"
      using q powi_two_mono [of "ilog2 q + 1" "max (- 1074) (ilog2 q + 1)"]
      by (intro round_mag_le_powi) auto
    show ?thesis
    proof (cases "ulp_exp ?r \<le> ?e")
      case True
      then have two: "(2::rat) powi ?e / 2 powi (ulp_exp ?r) = of_int (2 ^ nat (?e - ulp_exp ?r))"
        by (rule powi_two_quot)
      have "?r / 2 powi (ulp_exp ?r) =
          of_int (rne (q / 2 powi ?e)) * (2 powi ?e / 2 powi (ulp_exp ?r))"
        by (subst (1) r) simp
      then have "?r / 2 powi (ulp_exp ?r) = of_int (rne (q / 2 powi ?e) * 2 ^ nat (?e - ulp_exp ?r))"
        by (simp only: two of_int_mult)
      then show ?thesis using rpos by (auto simp: representable_def simp flip: of_int_mult)
    next
      case False
      then have "ilog2 q < ilog2 ?r" and "- 1022 < ilog2 ?r" by (auto simp: ulp_exp_def)
      then have "?r \<le> 2 powi (ilog2 ?r)"
        using hi powi_two_mono [of "max (- 1074) (ilog2 q + 1)" "ilog2 ?r"] by auto
      then have "?r = 2 powi (ilog2 ?r)" using ilog2_bounds(1) [OF rpos] by simp
      moreover have "ulp_exp ?r = ilog2 ?r - 52"
        using \<open>- 1022 < ilog2 ?r\<close> by (simp add: ulp_exp_def)
      ultimately have "?r / 2 powi (ulp_exp ?r) = 2 powi 52"
        by (metis add_diff_cancel_left' add_diff_eq diff_diff_eq2 powi_two_diff)
      also have "\<dots> = of_int (2 ^ 52)" by simp
      finally show ?thesis using rpos by (auto simp: representable_def)
    qed
  qed simp
qed


subsection \<open>Values and their order\<close>

definition sval :: "bool \<Rightarrow> rat \<Rightarrow> rat" where
  "sval s m = (if s then - m else m)"

fun is_finite :: "f64 \<Rightarrow> bool" where
  "is_finite (F_Fin s m) = True"
| "is_finite F_NaN = False"
| "is_finite (F_Inf s) = False"

fun is_nan :: "f64 \<Rightarrow> bool" where
  "is_nan F_NaN = True"
| "is_nan (F_Inf s) = False"
| "is_nan (F_Fin s m) = False"

fun val :: "f64 \<Rightarrow> rat" where
  "val (F_Fin s m) = sval s m"
| "val F_NaN = 0"
| "val (F_Inf s) = 0"

definition f64_max_bound :: rat where
  "f64_max_bound = 2 powi 1024"

fun wf_f64 :: "f64 \<Rightarrow> bool" where
  "wf_f64 (F_Fin s m) = (representable m \<and> m < f64_max_bound)"
| "wf_f64 F_NaN = True"
| "wf_f64 (F_Inf s) = True"

fun flt :: "f64 \<Rightarrow> f64 \<Rightarrow> bool" where
  "flt (F_Fin s m) (F_Fin t n) = (sval s m < sval t n)"
| "flt (F_Inf s) (F_Inf t) = (s \<and> \<not> t)"
| "flt (F_Inf s) (F_Fin t n) = s"
| "flt (F_Fin s m) (F_Inf t) = (\<not> t)"
| "flt F_NaN y = False"
| "flt x F_NaN = False"

fun feq :: "f64 \<Rightarrow> f64 \<Rightarrow> bool" where
  "feq (F_Fin s m) (F_Fin t n) = (sval s m = sval t n)"
| "feq (F_Inf s) (F_Inf t) = (s = t)"
| "feq (F_Inf s) (F_Fin t n) = False"
| "feq (F_Fin s m) (F_Inf t) = False"
| "feq F_NaN y = False"
| "feq x F_NaN = False"

definition fle :: "f64 \<Rightarrow> f64 \<Rightarrow> bool" where
  "fle x y \<longleftrightarrow> flt x y \<or> feq x y"

text \<open>\<open>f64::total_cmp\<close>: the sign and then the magnitude, so \<open>-0 < +0\<close>; NaN is above \<open>+\<infinity>\<close>.\<close>

fun total_key :: "f64 \<Rightarrow> int \<times> rat" where
  "total_key (F_Inf True) = (- 2, 0)"
| "total_key (F_Fin True m) = (- 1, - m)"
| "total_key (F_Fin False m) = (0, m)"
| "total_key (F_Inf False) = (1, 0)"
| "total_key F_NaN = (2, 0)"

definition total_cmp :: "f64 \<Rightarrow> f64 \<Rightarrow> ordering" where
  "total_cmp x y = then_with (cmp_of (fst (total_key x)) (fst (total_key y)))
                             (cmp_of (snd (total_key x)) (snd (total_key y)))"

lemma feq_finite: "is_finite x \<Longrightarrow> is_finite y \<Longrightarrow> feq x y \<longleftrightarrow> val x = val y"
  by (cases x; cases y) auto

lemma flt_finite: "is_finite x \<Longrightarrow> is_finite y \<Longrightarrow> flt x y \<longleftrightarrow> val x < val y"
  by (cases x; cases y) auto

lemma fle_finite: "is_finite x \<Longrightarrow> is_finite y \<Longrightarrow> fle x y \<longleftrightarrow> val x \<le> val y"
  by (auto simp: fle_def flt_finite feq_finite)

lemmas f64_order = feq_finite flt_finite fle_finite

lemma feq_refl_iff: "feq x x \<longleftrightarrow> \<not> is_nan x"
  by (cases x) auto

lemma feq_sym: "feq x y = feq y x"
  by (cases x; cases y) auto

lemma feq_trans: "feq x y \<Longrightarrow> feq y z \<Longrightarrow> feq x z"
  by (cases x; cases y; cases z) auto

lemma flt_trans: "flt x y \<Longrightarrow> flt y z \<Longrightarrow> flt x z"
  by (cases x; cases y; cases z) auto

lemma flt_irrefl [simp]: "\<not> flt x x"
  by (cases x) auto

lemma flt_not_feq: "flt x y \<Longrightarrow> \<not> feq x y"
  by (cases x; cases y) auto

lemma fle_trans: "fle x y \<Longrightarrow> fle y z \<Longrightarrow> fle x z"
  unfolding fle_def by (cases x; cases y; cases z) auto

lemma fle_not_nan: "fle x y \<Longrightarrow> \<not> is_nan x \<and> \<not> is_nan y"
  by (cases x; cases y) (auto simp: fle_def)

lemma fle_total: "\<not> is_nan x \<Longrightarrow> \<not> is_nan y \<Longrightarrow> fle x y \<or> flt y x"
  by (cases x; cases y) (auto simp: fle_def)

lemma wf_f64_nonneg: "wf_f64 (F_Fin s m) \<Longrightarrow> 0 \<le> m"
  by (auto dest: representable_nonneg)

lemma total_cmp_refl [simp]: "total_cmp x x = Equal"
  by (auto simp: total_cmp_def then_with_eq_Equal)

lemma total_cmp_reverse: "reverse_ord (total_cmp x y) = total_cmp y x"
  by (simp add: total_cmp_def reverse_then_with reverse_cmp_of)

lemma total_cmp_trans:
  "total_cmp x y \<noteq> Greater \<Longrightarrow> total_cmp y z \<noteq> Greater \<Longrightarrow> total_cmp x z \<noteq> Greater"
  by (auto simp: total_cmp_def then_with_eq_Greater)

interpretation total_order_f64: order_cmp total_cmp "\<lambda>_. True"
  by unfold_locales (rule total_cmp_reverse, rule total_cmp_trans)

lemma total_cmp_Less_finite:
  assumes "wf_f64 x" and "wf_f64 y" and "is_finite x" and "is_finite y" and "val x < val y"
  shows "total_cmp x y = Less"
proof -
  obtain s m t n where xy: "x = F_Fin s m" "y = F_Fin t n"
    using assms(3,4) by (cases x; cases y) auto
  have "0 \<le> m" "0 \<le> n" using assms(1,2) xy wf_f64_nonneg by blast+
  then show ?thesis using assms(5) xy
    by (cases s; cases t) (auto simp: total_cmp_def then_with_eq_Less sval_def)
qed

lemma total_cmp_not_Greater_finite:
  assumes "wf_f64 x" and "wf_f64 y" and "is_finite x" and "is_finite y"
    and "total_cmp x y \<noteq> Greater"
  shows "val x \<le> val y"
proof (rule ccontr)
  assume "\<not> val x \<le> val y"
  then have "total_cmp y x = Less" using assms(1-4) by (intro total_cmp_Less_finite) auto
  then have "total_cmp x y = Greater" using total_cmp_reverse [of y x] by simp
  with assms(5) show False by simp
qed

subsection \<open>Rounded arithmetic\<close>

text \<open>\<open>round_to z q\<close> rounds an exact result; \<open>z\<close> is the sign of a zero result.\<close>

definition round_to :: "bool \<Rightarrow> rat \<Rightarrow> f64" where
  "round_to z q =
     (let s = (if q = 0 then z else q < 0); m = round_mag \<bar>q\<bar>
      in if f64_max_bound \<le> m then F_Inf s else F_Fin s m)"

fun fneg :: "f64 \<Rightarrow> f64" where
  "fneg F_NaN = F_NaN"
| "fneg (F_Inf s) = F_Inf (\<not> s)"
| "fneg (F_Fin s m) = F_Fin (\<not> s) m"

fun fabs :: "f64 \<Rightarrow> f64" where
  "fabs F_NaN = F_NaN"
| "fabs (F_Inf s) = F_Inf False"
| "fabs (F_Fin s m) = F_Fin False m"

fun fadd :: "f64 \<Rightarrow> f64 \<Rightarrow> f64" where
  "fadd F_NaN y = F_NaN"
| "fadd x F_NaN = F_NaN"
| "fadd (F_Inf s) (F_Inf t) = (if s = t then F_Inf s else F_NaN)"
| "fadd (F_Inf s) (F_Fin t n) = F_Inf s"
| "fadd (F_Fin s m) (F_Inf t) = F_Inf t"
| "fadd (F_Fin s m) (F_Fin t n) = round_to (s \<and> t) (sval s m + sval t n)"

definition fsub :: "f64 \<Rightarrow> f64 \<Rightarrow> f64" where
  "fsub x y = fadd x (fneg y)"

fun fmul :: "f64 \<Rightarrow> f64 \<Rightarrow> f64" where
  "fmul F_NaN y = F_NaN"
| "fmul x F_NaN = F_NaN"
| "fmul (F_Inf s) (F_Inf t) = F_Inf (s \<noteq> t)"
| "fmul (F_Inf s) (F_Fin t n) = (if n = 0 then F_NaN else F_Inf (s \<noteq> t))"
| "fmul (F_Fin s m) (F_Inf t) = (if m = 0 then F_NaN else F_Inf (s \<noteq> t))"
| "fmul (F_Fin s m) (F_Fin t n) = round_to (s \<noteq> t) (sval s m * sval t n)"

fun fdiv :: "f64 \<Rightarrow> f64 \<Rightarrow> f64" where
  "fdiv F_NaN y = F_NaN"
| "fdiv x F_NaN = F_NaN"
| "fdiv (F_Inf s) (F_Inf t) = F_NaN"
| "fdiv (F_Inf s) (F_Fin t n) = F_Inf (s \<noteq> t)"
| "fdiv (F_Fin s m) (F_Inf t) = F_Fin (s \<noteq> t) 0"
| "fdiv (F_Fin s m) (F_Fin t n) =
     (if n = 0 then (if m = 0 then F_NaN else F_Inf (s \<noteq> t))
      else round_to (s \<noteq> t) (sval s m / sval t n))"

definition fzero :: f64 where
  "fzero = F_Fin False 0"

definition f64_of_int :: "int \<Rightarrow> f64" where
  "f64_of_int n = round_to False (of_int n)"

definition f64_of_rat :: "rat \<Rightarrow> f64" where
  "f64_of_rat q = round_to False q"

text \<open>\<open>min\<close> and \<open>max\<close> ignore a NaN operand; of two equal zeros the second is returned.\<close>

definition fmin :: "f64 \<Rightarrow> f64 \<Rightarrow> f64" where
  "fmin x y = (if is_nan x then y else if is_nan y then x else if flt x y then x else y)"

definition fmax :: "f64 \<Rightarrow> f64 \<Rightarrow> f64" where
  "fmax x y = (if is_nan x then y else if is_nan y then x else if flt y x then x else y)"

text \<open>\<open>f64::clamp\<close> panics, here \<open>None\<close>, unless \<open>min <= max\<close>.\<close>

definition fclamp :: "f64 \<Rightarrow> f64 \<Rightarrow> f64 \<Rightarrow> f64 option" where
  "fclamp x lo hi =
     (if fle lo hi then Some (if flt x lo then lo else if flt hi x then hi else x) else None)"

definition is_sign_negative :: "f64 \<Rightarrow> bool" where
  "is_sign_negative x = (case x of F_NaN \<Rightarrow> False | F_Inf s \<Rightarrow> s | F_Fin s m \<Rightarrow> s)"

text \<open>
  The neighbours: the magnitude grows by one unit in the last place, or shrinks by the unit
  of the binade just below it.
\<close>

definition mag_up :: "rat \<Rightarrow> rat" where
  "mag_up m = (if m = 0 then 2 powi (- 1074) else m + 2 powi (ulp_exp m))"

definition mag_down :: "rat \<Rightarrow> rat" where
  "mag_down m =
     (let e = ulp_exp m in if m = 2 powi (ilog2 m) \<and> - 1074 < e then m - 2 powi (e - 1)
                           else m - 2 powi e)"

fun next_up :: "f64 \<Rightarrow> f64" where
  "next_up F_NaN = F_NaN"
| "next_up (F_Inf False) = F_Inf False"
| "next_up (F_Inf True) = F_Fin True (f64_max_bound - 2 powi 971)"
| "next_up (F_Fin s m) =
     (if m = 0 \<or> \<not> s
      then (if f64_max_bound \<le> mag_up m then F_Inf False else F_Fin False (mag_up m))
      else F_Fin True (mag_down m))"

definition next_down :: "f64 \<Rightarrow> f64" where
  "next_down x = fneg (next_up (fneg x))"

fun ffloor :: "f64 \<Rightarrow> f64" where
  "ffloor (F_Fin s m) = round_to s (of_int \<lfloor>sval s m\<rfloor>)"
| "ffloor F_NaN = F_NaN"
| "ffloor (F_Inf s) = F_Inf s"

fun fceil :: "f64 \<Rightarrow> f64" where
  "fceil (F_Fin s m) = round_to s (of_int \<lceil>sval s m\<rceil>)"
| "fceil F_NaN = F_NaN"
| "fceil (F_Inf s) = F_Inf s"

text \<open>\<open>as i64\<close> truncates towards zero, saturates, and maps NaN to 0.\<close>

definition trunc_rat :: "rat \<Rightarrow> int" where
  "trunc_rat q = (if q < 0 then \<lceil>q\<rceil> else \<lfloor>q\<rfloor>)"

fun f64_to_i64 :: "f64 \<Rightarrow> int" where
  "f64_to_i64 F_NaN = 0"
| "f64_to_i64 (F_Inf s) = (if s then i64_min else i64_max)"
| "f64_to_i64 (F_Fin s m) = max i64_min (min i64_max (trunc_rat (sval s m)))"

subsection \<open>Facts about the arithmetic\<close>

lemma wf_round_to [simp]: "wf_f64 (round_to z q)"
  by (auto simp: round_to_def Let_def round_mag_representable)

lemma wf_fneg [simp]: "wf_f64 (fneg x) = wf_f64 x"
  by (cases x) auto

lemma wf_fzero [simp]: "wf_f64 fzero"
  by (simp add: fzero_def f64_max_bound_def)

lemma wf_fadd [simp]: "wf_f64 (fadd x y)"
  by (cases x; cases y) auto

lemma wf_fsub [simp]: "wf_f64 (fsub x y)"
  by (simp add: fsub_def)

lemma wf_fmul [simp]: "wf_f64 (fmul x y)"
  by (cases x; cases y) auto

lemma wf_fdiv [simp]: "wf_f64 (fdiv x y)"
  by (cases x; cases y) (auto simp: f64_max_bound_def)

lemma wf_f64_of_int [simp]: "wf_f64 (f64_of_int n)"
  by (simp add: f64_of_int_def)

lemma wf_fmin [simp]: "wf_f64 x \<Longrightarrow> wf_f64 y \<Longrightarrow> wf_f64 (fmin x y)"
  by (simp add: fmin_def)

lemma wf_fmax [simp]: "wf_f64 x \<Longrightarrow> wf_f64 y \<Longrightarrow> wf_f64 (fmax x y)"
  by (simp add: fmax_def)

lemma wf_fclamp: "fclamp x lo hi = Some y \<Longrightarrow> wf_f64 x \<Longrightarrow> wf_f64 lo \<Longrightarrow> wf_f64 hi \<Longrightarrow> wf_f64 y"
  by (auto simp: fclamp_def split: if_splits)

lemma is_finite_fneg [simp]: "is_finite (fneg x) = is_finite x"
  by (cases x) auto

lemma val_fneg [simp]: "val (fneg x) = - val x"
  by (cases x) (auto simp: sval_def)

lemma fneg_fneg [simp]: "fneg (fneg x) = x"
  by (cases x) auto

lemma finite_not_nan: "is_finite x \<Longrightarrow> \<not> is_nan x"
  by (cases x) auto

lemma is_finite_fzero [simp]: "is_finite fzero"
  by (simp add: fzero_def)

lemma val_fzero [simp]: "val fzero = 0"
  by (simp add: fzero_def sval_def)

text \<open>The rounded value of an exact rational, and where it overflows.\<close>

definition round_val :: "rat \<Rightarrow> rat" where
  "round_val q = (if q < 0 then - round_mag (- q) else round_mag q)"

lemma round_val_mono: "p \<le> q \<Longrightarrow> round_val p \<le> round_val q"
proof -
  assume pq: "p \<le> q"
  consider "p < 0" "q < 0" | "p < 0" "0 \<le> q" | "0 \<le> p" "0 \<le> q" using pq by linarith
  then show ?thesis
  proof cases
    case 1
    then show ?thesis using round_mag_mono [of "- q" "- p"] pq by (simp add: round_val_def)
  next
    case 2
    then show ?thesis using round_mag_nonneg [of "- p"] round_mag_nonneg [of q]
      by (simp add: round_val_def)
  next
    case 3
    then show ?thesis using round_mag_mono pq by (simp add: round_val_def)
  qed
qed

lemma val_round_to: "is_finite (round_to z q) \<Longrightarrow> val (round_to z q) = round_val q"
proof -
  assume "is_finite (round_to z q)"
  moreover have "round_mag 0 = 0" by (simp add: round_mag_def)
  ultimately show ?thesis
    by (auto simp: round_to_def Let_def sval_def round_val_def abs_if split: if_splits)
qed

lemma round_to_cases:
  "round_to z q = F_Inf (q < 0) \<or> is_finite (round_to z q)"
proof -
  have "\<not> f64_max_bound \<le> round_mag 0" by (simp add: f64_max_bound_def round_mag_def)
  then show ?thesis by (auto simp: round_to_def Let_def)
qed

lemma round_to_not_nan [simp]: "round_to z q \<noteq> F_NaN"
  by (simp add: round_to_def Let_def)

lemma round_val_representable:
  "representable \<bar>q\<bar> \<Longrightarrow> round_val q = q"
  by (auto simp: round_val_def round_mag_representable_id abs_if split: if_splits)

lemma round_to_exact:
  assumes "representable \<bar>q\<bar>" and "\<bar>q\<bar> < f64_max_bound"
  shows "is_finite (round_to z q)" and "val (round_to z q) = q"
proof -
  show "is_finite (round_to z q)"
    using assms by (auto simp: round_to_def Let_def round_mag_representable_id)
  then show "val (round_to z q) = q"
    using assms(1) by (simp add: val_round_to round_val_representable)
qed

lemma wf_val_representable: "wf_f64 x \<Longrightarrow> is_finite x \<Longrightarrow> representable \<bar>val x\<bar>"
proof -
  assume a: "wf_f64 x" "is_finite x"
  then obtain s m where x: "x = F_Fin s m" by (cases x) auto
  with a have "0 \<le> m" using wf_f64_nonneg by blast
  with a x show ?thesis by (auto simp: sval_def)
qed

lemma wf_val_bound: "wf_f64 x \<Longrightarrow> is_finite x \<Longrightarrow> \<bar>val x\<bar> < f64_max_bound"
proof -
  assume a: "wf_f64 x" "is_finite x"
  then obtain s m where x: "x = F_Fin s m" by (cases x) auto
  with a have "0 \<le> m" using wf_f64_nonneg by blast
  with a x show ?thesis by (auto simp: sval_def)
qed

lemma round_val_wf: "wf_f64 x \<Longrightarrow> is_finite x \<Longrightarrow> round_val (val x) = val x"
  by (simp add: round_val_representable wf_val_representable)

lemma val_fadd: "is_finite x \<Longrightarrow> is_finite y \<Longrightarrow> is_finite (fadd x y) \<Longrightarrow>
    val (fadd x y) = round_val (val x + val y)"
  by (cases x; cases y) (auto simp: val_round_to)

lemma val_fsub: "is_finite x \<Longrightarrow> is_finite y \<Longrightarrow> is_finite (fsub x y) \<Longrightarrow>
    val (fsub x y) = round_val (val x - val y)"
  unfolding fsub_def by (subst val_fadd) auto

lemma val_fmul: "is_finite x \<Longrightarrow> is_finite y \<Longrightarrow> is_finite (fmul x y) \<Longrightarrow>
    val (fmul x y) = round_val (val x * val y)"
  by (cases x; cases y) (auto simp: val_round_to)

lemma val_fdiv: "is_finite x \<Longrightarrow> is_finite y \<Longrightarrow> val y \<noteq> 0 \<Longrightarrow> is_finite (fdiv x y) \<Longrightarrow>
    val (fdiv x y) = round_val (val x / val y)"
  by (cases x; cases y) (auto simp: val_round_to sval_def split: if_splits)

lemma fadd_finite_cases: "is_finite x \<Longrightarrow> is_finite y \<Longrightarrow>
    is_finite (fadd x y) \<or> fadd x y = F_Inf (val x + val y < 0)"
proof (cases x; cases y)
  fix s m t n assume "x = F_Fin s m" "y = F_Fin t n"
  then show ?thesis using round_to_cases [of "s \<and> t" "sval s m + sval t n"] by auto
qed auto

lemma fsub_finite_cases: "is_finite x \<Longrightarrow> is_finite y \<Longrightarrow>
    is_finite (fsub x y) \<or> fsub x y = F_Inf (val x - val y < 0)"
  using fadd_finite_cases [of x "fneg y"] by (simp add: fsub_def)

text \<open>A difference of finite values has the sign of the exact difference.\<close>

lemma round_mag_pos: "2 powi (- 1074) \<le> q \<Longrightarrow> 0 < round_mag q"
proof -
  assume q: "2 powi (- 1074) \<le> q"
  have u: "ulp_exp (2 powi (- 1074)) = - 1074"
    using ilog2_unique [of "- 1074" "2 powi (- 1074)"] by (simp add: ulp_exp_def powi_two_Suc)
  have "representable (2 powi (- 1074))" unfolding representable_def u by simp
  then have "round_mag (2 powi (- 1074)) = 2 powi (- 1074)"
    by (rule round_mag_representable_id)
  then have "2 powi (- 1074) \<le> round_mag q" using round_mag_mono [OF q] by simp
  then show ?thesis using powi_two_pos [of "- 1074"] by linarith
qed


lemma round_mag_eval:
  assumes "2 powi k \<le> q" and "q < 2 powi (k + 1)"
  shows "round_mag q = of_int (rne (q / 2 powi (max (- 1074) (k - 52)))) * 2 powi (max (- 1074) (k - 52))"
proof -
  have "0 < q" using assms(1) powi_two_pos [of k] by linarith
  then show ?thesis using ilog2_unique [OF assms] by (simp add: round_mag_def ulp_exp_def)
qed

lemma ulp_exp_eval:
  assumes "2 powi k \<le> q" and "q < 2 powi (k + 1)"
  shows "ulp_exp q = max (- 1074) (k - 52)"
  using ilog2_unique [OF assms] by (simp add: ulp_exp_def)

text \<open>Every representable magnitude is a multiple of the smallest positive value.\<close>

lemma representable_grid:
  assumes "representable q"
  obtains n :: int where "q = of_int n * 2 powi (- 1074)"
proof (cases "q = 0")
  case True
  then show ?thesis using that [of 0] by simp
next
  case False
  with assms obtain m where m: "q / 2 powi (ulp_exp q) = of_int m"
    by (auto simp: representable_def elim: Ints_cases)
  have e: "- 1074 \<le> ulp_exp q" by (simp add: ulp_exp_def)
  have "q = of_int m * 2 powi (ulp_exp q)"
    using m by (metis less_irrefl nonzero_divide_eq_eq powi_two_pos)
  also have "(2::rat) powi (ulp_exp q) = of_int (2 ^ nat (ulp_exp q - (- 1074))) * 2 powi (- 1074)"
    using powi_two_quot [OF e] by (metis less_irrefl nonzero_divide_eq_eq powi_two_pos)
  finally have "q = of_int (m * 2 ^ nat (ulp_exp q - (- 1074))) * 2 powi (- 1074)" by simp
  then show ?thesis by (rule that)
qed

lemma wf_grid:
  assumes "wf_f64 x" and "is_finite x"
  obtains n :: int where "val x = of_int n * 2 powi (- 1074)"
proof -
  obtain n where "\<bar>val x\<bar> = of_int n * 2 powi (- 1074)"
    using representable_grid [OF wf_val_representable [OF assms]] by blast
  then have "val x = of_int n * 2 powi (- 1074) \<or> val x = of_int (- n) * 2 powi (- 1074)"
    by (auto simp: abs_if split: if_splits)
  then show ?thesis using that by blast
qed

lemma grid_diff_gap:
  assumes "wf_f64 x" "is_finite x" "wf_f64 y" "is_finite y" "val y < val x"
  shows "2 powi (- 1074) \<le> val x - val y"
proof -
  obtain n m where nm: "val x = of_int n * 2 powi (- 1074)" "val y = of_int m * 2 powi (- 1074)"
    using wf_grid [OF assms(1,2)] wf_grid [OF assms(3,4)] by metis
  with assms(5) have "m < n" by (simp add: mult_less_cancel_right)
  then have "(1::rat) \<le> of_int n - of_int m" by (simp flip: of_int_diff)
  then have "1 * 2 powi (- 1074) \<le> (of_int n - of_int m) * (2::rat) powi (- 1074)"
    by (intro mult_right_mono) auto
  with nm show ?thesis by (simp add: algebra_simps)
qed

text \<open>The sign of a rounded difference is the sign of the comparison, overflow included.\<close>

lemma round_val_neg_iff:
  assumes "q = 0 \<or> 2 powi (- 1074) \<le> \<bar>q\<bar>"
  shows "round_val q < 0 \<longleftrightarrow> q < 0" and "0 < round_val q \<longleftrightarrow> 0 < q" and "round_val q = 0 \<longleftrightarrow> q = 0"
proof -
  have "(round_val q < 0 \<longleftrightarrow> q < 0) \<and> (0 < round_val q \<longleftrightarrow> 0 < q) \<and> (round_val q = 0 \<longleftrightarrow> q = 0)"
  proof (cases "q = 0")
    case True
    then show ?thesis by (simp add: round_val_def round_mag_def)
  next
    case False
    with assms have g: "2 powi (- 1074) \<le> \<bar>q\<bar>" by simp
    show ?thesis
    proof (cases "q < 0")
      case True
      with g have "2 powi (- 1074) \<le> - q" by linarith
      then have "0 < round_mag (- q)" by (rule round_mag_pos)
      with True show ?thesis by (simp add: round_val_def)
    next
      case False
      with g have "2 powi (- 1074) \<le> q" by linarith
      then have "0 < round_mag q" by (rule round_mag_pos)
      moreover have "0 < q" using False \<open>q \<noteq> 0\<close> by simp
      ultimately show ?thesis by (simp add: round_val_def)
    qed
  qed
  then show "round_val q < 0 \<longleftrightarrow> q < 0" "0 < round_val q \<longleftrightarrow> 0 < q" "round_val q = 0 \<longleftrightarrow> q = 0"
    by blast+
qed

lemma wf_diff_gap:
  assumes "wf_f64 x" "is_finite x" "wf_f64 y" "is_finite y"
  shows "val x - val y = 0 \<or> 2 powi (- 1074) \<le> \<bar>val x - val y\<bar>"
  using grid_diff_gap [OF assms] grid_diff_gap [OF assms(3,4,1,2)]
  by (cases "val x < val y"; cases "val x = val y") auto

lemma fsub_sign:
  assumes "wf_f64 x" "is_finite x" "wf_f64 y" "is_finite y"
  shows "flt (fsub x y) fzero \<longleftrightarrow> val x < val y"
    and "flt fzero (fsub x y) \<longleftrightarrow> val y < val x"
    and "\<not> is_nan (fsub x y)"
proof -
  have gap: "val x - val y = 0 \<or> 2 powi (- 1074) \<le> \<bar>val x - val y\<bar>"
    by (rule wf_diff_gap [OF assms])
  have "is_finite (fsub x y) \<or> fsub x y = F_Inf (val x - val y < 0)"
    using assms by (intro fsub_finite_cases) auto
  moreover have "fsub x y \<noteq> F_Inf s" if "val x = val y" for s
  proof -
    have "is_finite (fsub x y)"
    proof (cases x; cases y)
      fix s m t n assume xy: "x = F_Fin s m" "y = F_Fin t n"
      have "fsub x y = round_to (s \<and> \<not> t) 0"
        using that xy by (simp add: fsub_def sval_def split: if_splits)
      moreover have "is_finite (round_to z 0)" for z
        by (rule round_to_exact) (auto simp: f64_max_bound_def)
      ultimately show ?thesis by simp
    qed (use assms in auto)
    then show ?thesis by (cases "fsub x y") auto
  qed
  ultimately show "flt (fsub x y) fzero \<longleftrightarrow> val x < val y" "flt fzero (fsub x y) \<longleftrightarrow> val y < val x"
      "\<not> is_nan (fsub x y)"
    using val_fsub [of x y] round_val_neg_iff [OF gap] assms
    by (auto simp: flt_finite finite_not_nan fzero_def sval_def)
qed

text \<open>Integers scaled by a power of two are exact up to \<open>2 ^ 53\<close>.\<close>

lemma representable_scaled:
  assumes "\<bar>n\<bar> \<le> 2 ^ 53" and "- 1074 \<le> e"
  shows "representable (of_int \<bar>n\<bar> * 2 powi e)"
proof (cases "n = 0")
  case True
  then show ?thesis by simp
next
  case False
  let ?q = "of_int \<bar>n\<bar> * 2 powi e :: rat"
  have pos: "0 < ?q" using False by simp
  show ?thesis
  proof (cases "ulp_exp ?q \<le> e")
    case True
    have "?q / 2 powi (ulp_exp ?q) = of_int \<bar>n\<bar> * (2 powi e / 2 powi (ulp_exp ?q))" by simp
    also have "\<dots> = of_int (\<bar>n\<bar> * 2 ^ nat (e - ulp_exp ?q))"
      by (simp only: powi_two_quot [OF True] of_int_mult)
    finally show ?thesis using pos by (metis Ints_of_int representable_def)
  next
    case False
    then have big: "e < ilog2 ?q - 52" using assms(2) by (simp add: ulp_exp_def max_def split: if_splits)
    have "2 powi (53 + e) \<le> (2::rat) powi (ilog2 ?q)" using big by (intro powi_two_mono) simp
    also have "\<dots> \<le> ?q" by (rule ilog2_bounds [OF pos])
    finally have "2 powi (53 + e) \<le> ?q" .
    moreover have "?q \<le> of_int (2 ^ 53) * 2 powi e"
      using assms(1) by (intro mult_right_mono) (auto simp flip: of_int_abs simp: of_int_le_iff [symmetric])
    moreover have "of_int (2 ^ 53) * 2 powi e = (2::rat) powi (53 + e)" by (simp add: powi_two_add)
    ultimately have q: "?q = 2 powi (53 + e)" by (intro order.antisym) (assumption | simp only:)+
    have "ilog2 ?q = 53 + e"
      unfolding q by (rule ilog2_unique) (simp_all only: order.refl powi_two_less_iff)
    then have l: "ilog2 ?q = 53 + e" .
    then have u: "ulp_exp ?q = e + 1" using assms(2) by (simp add: ulp_exp_def)
    have "?q / 2 powi (ulp_exp ?q) = of_int (2 ^ nat (53 + e - (e + 1)))"
      unfolding u by (subst q) (rule powi_two_quot, simp)
    then show ?thesis using pos by (metis Ints_of_int representable_def)
  qed
qed

lemma representable_int: "\<bar>n\<bar> \<le> 2 ^ 53 \<Longrightarrow> representable \<bar>of_int n\<bar>"
  using representable_scaled [of n 0] by simp

lemma int_below_bound: "\<bar>n\<bar> \<le> 2 ^ 53 \<Longrightarrow> \<bar>of_int n :: rat\<bar> < f64_max_bound"
proof -
  assume "\<bar>n\<bar> \<le> 2 ^ 53"
  then have "(of_int \<bar>n\<bar> :: rat) \<le> of_int (2 ^ 53)" by (rule of_int_le_iff [THEN iffD2])
  then show ?thesis by (simp add: f64_max_bound_def)
qed

lemma f64_of_int_exact:
  assumes "\<bar>n\<bar> \<le> 2 ^ 53"
  shows "is_finite (f64_of_int n)" and "val (f64_of_int n) = of_int n"
  using round_to_exact [OF representable_int [OF assms] int_below_bound [OF assms]]
  by (simp_all add: f64_of_int_def)

text \<open>An operation whose exact result is representable is exact.\<close>

lemma fadd_exact:
  assumes "is_finite x" "is_finite y" "representable \<bar>val x + val y\<bar>" "\<bar>val x + val y\<bar> < f64_max_bound"
  shows "is_finite (fadd x y)" and "val (fadd x y) = val x + val y"
proof -
  obtain s m t n where "x = F_Fin s m" "y = F_Fin t n" using assms(1,2) by (cases x; cases y) auto
  then show "is_finite (fadd x y)" "val (fadd x y) = val x + val y"
    using round_to_exact [OF assms(3,4)] by simp_all
qed

lemma fsub_exact:
  assumes "is_finite x" "is_finite y" "representable \<bar>val x - val y\<bar>" "\<bar>val x - val y\<bar> < f64_max_bound"
  shows "is_finite (fsub x y)" and "val (fsub x y) = val x - val y"
  using fadd_exact [of x "fneg y"] assms by (simp_all add: fsub_def)

lemma f64_of_int_mono:
  assumes "m \<le> n" and "is_finite (f64_of_int m)" and "is_finite (f64_of_int n)"
  shows "val (f64_of_int m) \<le> val (f64_of_int n)"
  using assms by (simp add: f64_of_int_def val_round_to round_val_mono)

text \<open>Small integer literals are values.\<close>

lemma wf_small_int: "0 \<le> n \<Longrightarrow> n \<le> 2 ^ 53 \<Longrightarrow> wf_f64 (F_Fin s (of_int n))"
  using representable_int [of n] int_below_bound [of n] by simp

lemma representable_numeral [simp]: "numeral k \<le> (2 ^ 53 :: int) \<Longrightarrow> representable (numeral k)"
  using representable_int [of "numeral k"] by simp

lemma numeral_below_bound [simp]: "numeral k \<le> (2 ^ 53 :: int) \<Longrightarrow> numeral k < f64_max_bound"
  using int_below_bound [of "numeral k"] by simp

lemma one_value [simp]: "representable 1" "0 < f64_max_bound" "1 < f64_max_bound"
  using representable_int [of 1] int_below_bound [of 1] int_below_bound [of 0] by simp_all

end
