(* ===== verification/Model_Types.thy ===== *)
theory Model_Types
  imports Float64
begin

section \<open>The product and query types (crate \<open>pulseon-model\<close>)\<close>

text \<open>
  Data types of \<open>metric.rs\<close>, \<open>alignment.rs\<close>, \<open>comparison.rs\<close>, \<open>run.rs\<close> and \<open>types.rs\<close> with their
  constructors and methods. The newtypes over \<open>String\<close> (\<open>RunId\<close>, \<open>MetricKey\<close>, \<open>ProjectId\<close>) are byte
  strings, \<open>Step\<close> is an \<open>i64\<close>. A \<open>DateTime<Utc>\<close> is its number of milliseconds since the epoch: every
  timestamp the program builds comes from \<open>timestamp_from_millis\<close>.
\<close>

type_synonym run_id = string
type_synonym metric_key = string
type_synonym project_id = string
type_synonym step = i64
type_synonym datetime = int

subsection \<open>Runs and projects\<close>

datatype run_status = Running | Finished | Failed

record run =
  r_run_id :: run_id
  r_project_id :: project_id
  r_name :: string
  r_status :: run_status
  r_created_at :: datetime
  r_started_at :: datetime
  r_finished_at :: "datetime option"

definition run_finish :: "run \<Rightarrow> datetime \<Rightarrow> run" where
  "run_finish r t = r\<lparr>r_status := Finished, r_finished_at := Some t\<rparr>"

record project =
  p_project_id :: project_id
  p_name :: string
  p_created_at :: datetime

subsection \<open>Metric points and queries\<close>

record metric_point =
  mp_run_id :: run_id
  mp_metric_key :: metric_key
  mp_step :: step
  mp_timestamp :: datetime
  mp_value :: f64
  mp_ingested_at :: datetime

record metric_aggregate =
  ma_run_id :: run_id
  ma_metric_key :: metric_key
  ma_effective_count :: u64
  ma_last_step :: step
  ma_last_value :: f64
  ma_min_value :: f64
  ma_max_value :: f64

datatype query_error = InvalidStepRange | LttbMaxPointsTooSmall nat | InvalidScreenBudget

datatype reduction_policy =
    RP_Full
  | RP_Lttb nat
  | RP_ScreenBudget u32 u16

abbreviation max_screen_query_points :: nat where
  "max_screen_query_points \<equiv> 1000000"

abbreviation extrema_per_bucket :: nat where
  "extrema_per_bucket \<equiv> 4"

definition rp_lttb :: "nat \<Rightarrow> (query_error, reduction_policy) res" where
  "rp_lttb max_points =
     (if max_points < 2 then Err (LttbMaxPointsTooSmall max_points) else Ok (RP_Lttb max_points))"

definition rp_screen_budget :: "u32 \<Rightarrow> u16 \<Rightarrow> (query_error, reduction_policy) res" where
  "rp_screen_budget pixel_width points_per_pixel =
     (if pixel_width = 0 \<or> points_per_pixel = 0 then Err InvalidScreenBudget
      else Ok (RP_ScreenBudget pixel_width points_per_pixel))"

fun rp_max_points :: "reduction_policy \<Rightarrow> nat option" where
  "rp_max_points RP_Full = None"
| "rp_max_points (RP_Lttb max_points) = Some max_points"
| "rp_max_points (RP_ScreenBudget pixel_width points_per_pixel) =
     Some (clamp_nat extrema_per_bucket max_screen_query_points
             (usize_sat_mul (unat pixel_width) (unat points_per_pixel)))"

record metric_query =
  mq_run_id :: run_id
  mq_metric_key :: metric_key
  mq_start_step :: "step option"
  mq_end_step :: "step option"
  mq_reduction :: reduction_policy

definition metric_query_new ::
  "run_id \<Rightarrow> metric_key \<Rightarrow> step option \<Rightarrow> step option \<Rightarrow> reduction_policy \<Rightarrow>
   (query_error, metric_query) res" where
  "metric_query_new rid key start_step end_step reduction =
     (case (start_step, end_step) of
        (Some s, Some e) \<Rightarrow>
          if e \<le> s then Err InvalidStepRange
          else Ok \<lparr>mq_run_id = rid, mq_metric_key = key, mq_start_step = start_step,
                   mq_end_step = end_step, mq_reduction = reduction\<rparr>
      | _ \<Rightarrow> Ok \<lparr>mq_run_id = rid, mq_metric_key = key, mq_start_step = start_step,
                mq_end_step = end_step, mq_reduction = reduction\<rparr>)"

record metric_query_result =
  mqr_points :: "metric_point list"
  mqr_source_row_count :: u64

text \<open>\<open>points.len() as u64\<close> is the length modulo \<open>2 ^ 64\<close>.\<close>

definition mqr_downsampled :: "metric_query_result \<Rightarrow> bool" where
  "mqr_downsampled r \<longleftrightarrow> of_nat (length (mqr_points r)) < mqr_source_row_count r"

subsection \<open>Aligned queries\<close>

datatype alignment_axis = Axis_Step | Axis_ElapsedTime

datatype alignment_query_error = AQ_InvalidViewport | AQ_InvalidScreenBudget

fun alignment_query_error_display :: "alignment_query_error \<Rightarrow> string" where
  "alignment_query_error_display AQ_InvalidViewport = ''alignment viewport must be a non-decreasing closed range''"
| "alignment_query_error_display AQ_InvalidScreenBudget =
     ''screen query pixel width and point density must be positive''"

record alignment_viewport =
  av_start :: i64
  av_end :: i64

definition viewport_new :: "i64 \<Rightarrow> i64 \<Rightarrow> (alignment_query_error, alignment_viewport) res" where
  "viewport_new s e =
     (if e < s then Err AQ_InvalidViewport else Ok \<lparr>av_start = s, av_end = e\<rparr>)"

record screen_budget =
  sb_pixel_width :: u32
  sb_points_per_pixel :: u16

datatype alignment_reduction = AR_Full | AR_ScreenBudget screen_budget

definition ar_screen_budget ::
  "u32 \<Rightarrow> u16 \<Rightarrow> (alignment_query_error, alignment_reduction) res" where
  "ar_screen_budget pixel_width points_per_pixel =
     (if pixel_width = 0 \<or> points_per_pixel = 0 then Err AQ_InvalidScreenBudget
      else Ok (AR_ScreenBudget \<lparr>sb_pixel_width = pixel_width,
                                sb_points_per_pixel = points_per_pixel\<rparr>))"

fun ar_max_points :: "alignment_reduction \<Rightarrow> nat option" where
  "ar_max_points AR_Full = None"
| "ar_max_points (AR_ScreenBudget b) =
     Some (clamp_nat extrema_per_bucket max_screen_query_points
             (usize_sat_mul (unat (sb_pixel_width b)) (unat (sb_points_per_pixel b))))"

record alignment_query =
  aq_run_id :: run_id
  aq_metric_key :: metric_key
  aq_axis :: alignment_axis
  aq_viewport :: alignment_viewport
  aq_reduction :: alignment_reduction

record aligned_metric_point =
  amp_point :: metric_point
  amp_axis_value :: i64

datatype alignment_reason = AR_MissingRunStart | AR_NegativeAxis | AR_DecreasingAxis

record alignment_query_result =
  aqr_points :: "aligned_metric_point list"
  aqr_source_row_count :: u64
  aqr_reasons :: "alignment_reason list"

definition aqr_downsampled :: "alignment_query_result \<Rightarrow> bool" where
  "aqr_downsampled r \<longleftrightarrow> of_nat (length (aqr_points r)) < aqr_source_row_count r"

subsection \<open>Comparison evidence\<close>

datatype objective_direction = Minimize | Maximize

fun normalize :: "objective_direction \<Rightarrow> f64 \<Rightarrow> f64" where
  "normalize Minimize raw_delta = fneg raw_delta"
| "normalize Maximize raw_delta = raw_delta"

record objective_metric =
  om_metric_key :: metric_key
  om_direction :: objective_direction

datatype evidence_completeness = EC_Complete | EC_Partial | EC_Unavailable | EC_Invalid

datatype evidence_reason =
    MissingMetric | MissingRunStart | NegativeAxis | DecreasingAxis
  | NonFiniteValue | RunRunning | RunFailed

text \<open>The derived \<open>Ord\<close> of \<open>EvidenceCompleteness\<close> follows the order of the variants.\<close>

fun completeness_index :: "evidence_completeness \<Rightarrow> nat" where
  "completeness_index EC_Complete = 0"
| "completeness_index EC_Partial = 1"
| "completeness_index EC_Unavailable = 2"
| "completeness_index EC_Invalid = 3"

lemma completeness_index_inj: "completeness_index a = completeness_index b \<longleftrightarrow> a = b"
  by (cases a; cases b) auto

instantiation evidence_completeness :: linorder
begin

definition less_eq_evidence_completeness :: "evidence_completeness \<Rightarrow> evidence_completeness \<Rightarrow> bool" where
  "less_eq_evidence_completeness a b \<longleftrightarrow> completeness_index a \<le> completeness_index b"

definition less_evidence_completeness :: "evidence_completeness \<Rightarrow> evidence_completeness \<Rightarrow> bool" where
  "less_evidence_completeness a b \<longleftrightarrow> completeness_index a < completeness_index b"

instance
  by standard
     (auto simp: less_eq_evidence_completeness_def less_evidence_completeness_def
                 completeness_index_inj)

end

lemmas completeness_order =
  less_eq_evidence_completeness_def less_evidence_completeness_def

lemma completeness_bot [simp]: "EC_Complete \<le> c"
  by (simp add: completeness_order)

lemma completeness_top [simp]: "c \<le> EC_Invalid"
  by (cases c) (simp_all add: completeness_order)

lemma max_Complete_iff: "max a b = EC_Complete \<longleftrightarrow> a = EC_Complete \<and> b = EC_Complete"
  by (cases a; cases b) (simp_all add: max_def completeness_order)

record aligned_metric_result =
  amr_points :: "aligned_metric_point list"
  amr_source_row_count :: u64
  amr_completeness :: evidence_completeness
  amr_reasons :: "evidence_reason list"

definition amr_downsampled :: "aligned_metric_result \<Rightarrow> bool" where
  "amr_downsampled r \<longleftrightarrow> of_nat (length (amr_points r)) < amr_source_row_count r"

record objective_evidence =
  oe_run_id :: run_id
  oe_run_status :: run_status
  oe_last_step :: "step option"
  oe_last_value :: "f64 option"
  oe_completeness :: evidence_completeness
  oe_reasons :: "evidence_reason list"

definition usable_value :: "objective_evidence \<Rightarrow> f64 option" where
  "usable_value e =
     (case oe_last_value e of
        None \<Rightarrow> None
      | Some v \<Rightarrow> if is_finite v then Some v else None)"

lemma usable_value_finite: "usable_value e = Some v \<Longrightarrow> is_finite v"
  by (auto simp: usable_value_def split: option.splits if_splits)

datatype comparison_outcome = CO_Improved | CO_Regressed | CO_Equal

definition from_normalized_improvement :: "f64 \<Rightarrow> comparison_outcome" where
  "from_normalized_improvement improvement =
     (if flt fzero improvement then CO_Improved
      else if flt improvement fzero then CO_Regressed
      else CO_Equal)"

datatype comparison_preference = CP_Candidate | CP_Reference | CP_NoPreference | CP_Inconclusive

record comparison_result =
  cr_objective :: objective_metric
  cr_candidate :: objective_evidence
  cr_reference :: objective_evidence
  cr_completeness :: evidence_completeness
  cr_raw_delta :: "f64 option"
  cr_relative_delta :: "f64 option"
  cr_normalized_improvement :: "f64 option"
  cr_outcome :: "comparison_outcome option"
  cr_preference :: comparison_preference

record metric_comparison_result =
  mcr_metric_key :: metric_key
  mcr_candidate :: objective_evidence
  mcr_reference :: objective_evidence
  mcr_completeness :: evidence_completeness
  mcr_raw_delta :: "f64 option"
  mcr_relative_delta :: "f64 option"

record comparison_report =
  crp_primary :: comparison_result
  crp_secondary :: "metric_comparison_result list"

record ranking_entry =
  re_evidence :: objective_evidence
  re_rank :: "u64 option"

record ranking_result =
  rr_objective :: objective_metric
  rr_entries :: "ranking_entry list"

subsection \<open>Properties of the constructors\<close>

text \<open>A policy that its constructors accept never asks for fewer points than its algorithm needs.\<close>

lemma screen_points_bounds:
  "extrema_per_bucket \<le> clamp_nat extrema_per_bucket max_screen_query_points n \<and>
   clamp_nat extrema_per_bucket max_screen_query_points n \<le> max_screen_query_points"
  by (rule clamp_nat_bounds) simp

lemma rp_lttb_outcome [outcome_simps]:
  "rp_lttb n = Ok p \<longleftrightarrow> 2 \<le> n \<and> p = RP_Lttb n"
  "rp_lttb n = Err e \<longleftrightarrow> n < 2 \<and> e = LttbMaxPointsTooSmall n"
  by (auto simp: rp_lttb_def)

lemma rp_screen_budget_outcome [outcome_simps]:
  "rp_screen_budget w d = Ok p \<longleftrightarrow> w \<noteq> 0 \<and> d \<noteq> 0 \<and> p = RP_ScreenBudget w d"
  by (auto simp: rp_screen_budget_def)

text \<open>The product of a 32-bit width and a 16-bit density never saturates.\<close>

lemma screen_product_fits:
  "usize_sat_mul (unat (w :: u32)) (unat (d :: u16)) = unat w * unat d"
proof -
  have "unat w < 2 ^ 32" "unat d < 2 ^ 16" using unsigned_less [of w] unsigned_less [of d] by simp_all
  then have "unat w * unat d \<le> (2 ^ 32 - 1) * (2 ^ 16 - 1)" by (intro mult_le_mono) simp_all
  then show ?thesis by (simp add: usize_sat_mul_def)
qed

lemma metric_query_new_Ok:
  "metric_query_new rid key s e r = Ok q \<longleftrightarrow>
   (case (s, e) of (Some a, Some b) \<Rightarrow> a < b | _ \<Rightarrow> True) \<and>
   q = \<lparr>mq_run_id = rid, mq_metric_key = key, mq_start_step = s, mq_end_step = e, mq_reduction = r\<rparr>"
  by (auto simp: metric_query_new_def split: option.splits)

lemma viewport_new_Ok:
  "viewport_new s e = Ok v \<longleftrightarrow> s \<le> e \<and> v = \<lparr>av_start = s, av_end = e\<rparr>"
  by (auto simp: viewport_new_def)

end
