(* ===== verification/Errors.thy ===== *)
theory Errors
  imports Model_Types
begin

section \<open>The error types and their conversions\<close>

text \<open>
  \<open>StorageError\<close> of \<open>pulseon-storage/src/lib.rs\<close> and \<open>EngineError\<close> of
  \<open>pulseon-core/src/engine/mod.rs\<close>, their \<open>Display\<close> strings, and the conversion between them.
  \<open>std::io::Error\<close> is the string it displays; \<open>duckdb::Error\<close> belongs to a library: the code only tells
  apart the variant for an empty \<open>query_row\<close>, and displays every variant.
\<close>

type_synonym io_error = string

datatype duckdb_error =
    QueryReturnedNoRows (duckdb_display: string)
  | DuckDb_Other (duckdb_display: string)

datatype storage_error =
    SE_Io io_error
  | SE_RunAlreadyExists string
  | SE_RunNotFound string
  | SE_RunAlreadyActive string
  | SE_CatalogNotFound string
  | SE_Storage string string io_error
  | SE_StorageDuckDb string string duckdb_error
  | SE_EmptySource
  | SE_InvalidIdentity
  | SE_QueryMaxPointsTooLarge nat
  | SE_LttbExtensionUnavailable string
  | SE_InvalidRunStatus string
  | SE_InvalidTimestamp string i64
  | SE_MissingColumn string
  | SE_DuplicateColumn string
  | SE_IncompatibleColumnType string string string
  | SE_IncompatibleAdditiveColumn string
  | SE_DuckDb duckdb_error

datatype engine_error =
    EE_Io io_error
  | ConnectionLockPoisoned
  | ProjectAlreadyExists string
  | ProjectNotFound string
  | RunAlreadyExists string
  | RunAlreadyActive string
  | RunNotFound string
  | DuplicateRunIdentity string
  | RunClosed string
  | InvalidRunTransition string string string
  | MetricQueryMaxPointsTooSmall nat
  | MetricQueryMaxPointsTooLarge nat
  | MetricQueueFull
  | MetricWriterFailed string
  | MetricDrainTimeout
  | MetricFlush string
  | MetricFlushTimeout
  | ClientClosed
  | EE_CatalogNotFound string
  | EE_Storage string string io_error
  | StorageFailure storage_error
  | StorageLayer string
  | EE_InvalidRunStatus string
  | EE_InvalidTimestamp string i64

fun storage_error_display :: "storage_error \<Rightarrow> string" where
  "storage_error_display (SE_Io e) = ''I/O error: '' @ e"
| "storage_error_display (SE_RunAlreadyExists r) = ''run already exists: '' @ r"
| "storage_error_display (SE_RunNotFound r) = ''run not found: '' @ r"
| "storage_error_display (SE_RunAlreadyActive r) = ''run already has an active writer: '' @ r"
| "storage_error_display (SE_CatalogNotFound n) = ''catalog not found: '' @ n"
| "storage_error_display (SE_Storage operation n src) =
     ''storage operation failed while '' @ operation @ '': '' @ n"
| "storage_error_display (SE_StorageDuckDb operation n src) =
     ''storage operation failed while '' @ operation @ '': '' @ n"
| "storage_error_display SE_EmptySource = ''Parquet source must not be empty''"
| "storage_error_display SE_InvalidIdentity = ''run id and metric key must not be empty''"
| "storage_error_display (SE_QueryMaxPointsTooLarge n) =
     ''metric query max_points is too large for DuckDB: '' @ show_nat n"
| "storage_error_display (SE_LttbExtensionUnavailable m) =
     ''DuckDB LTTB extension is unavailable: '' @ m"
| "storage_error_display (SE_InvalidRunStatus s) = ''invalid stored run status: '' @ s"
| "storage_error_display (SE_InvalidTimestamp field millis) =
     ''invalid stored timestamp for '' @ field @ '': '' @ show_int millis"
| "storage_error_display (SE_MissingColumn n) =
     ''metric_points is missing required column `'' @ n @ ''`''"
| "storage_error_display (SE_DuplicateColumn n) =
     ''metric_points contains duplicate column `'' @ n @ ''`''"
| "storage_error_display (SE_IncompatibleColumnType n expected actual) =
     ''metric_points column `'' @ n @ ''` must be '' @ expected @ '', found '' @ actual"
| "storage_error_display (SE_IncompatibleAdditiveColumn n) =
     ''additive metric_points column `'' @ n @ ''` must be nullable''"
| "storage_error_display (SE_DuckDb e) =
     ''DuckDB storage operation failed: '' @ duckdb_display e"

fun engine_error_display :: "engine_error \<Rightarrow> string" where
  "engine_error_display (EE_Io e) = ''I/O error: '' @ e"
| "engine_error_display ConnectionLockPoisoned = ''native connection lock was poisoned''"
| "engine_error_display (ProjectAlreadyExists p) = ''project already exists: '' @ p"
| "engine_error_display (ProjectNotFound p) = ''project not found: '' @ p"
| "engine_error_display (RunAlreadyExists r) = ''run already exists: '' @ r"
| "engine_error_display (RunAlreadyActive r) = ''run already has an active writer: '' @ r"
| "engine_error_display (RunNotFound r) = ''run not found: '' @ r"
| "engine_error_display (DuplicateRunIdentity r) = ''duplicate run identity in request: '' @ r"
| "engine_error_display (RunClosed r) = ''run is closed for metric reporting: '' @ r"
| "engine_error_display (InvalidRunTransition r a b) =
     ''invalid run transition for '' @ r @ '': '' @ a @ '' -> '' @ b"
| "engine_error_display (MetricQueryMaxPointsTooSmall n) =
     ''metric query max_points must be at least 2, got '' @ show_nat n"
| "engine_error_display (MetricQueryMaxPointsTooLarge n) =
     ''metric query max_points is too large for DuckDB LTTB: '' @ show_nat n"
| "engine_error_display MetricQueueFull = ''metric queue is full''"
| "engine_error_display (MetricWriterFailed m) = ''metric writer failed: '' @ m"
| "engine_error_display MetricDrainTimeout = ''metric drain timed out''"
| "engine_error_display (MetricFlush m) = ''metric flush failed: '' @ m"
| "engine_error_display MetricFlushTimeout = ''metric flush timed out''"
| "engine_error_display ClientClosed = ''client is closed''"
| "engine_error_display (EE_CatalogNotFound n) = ''catalog not found: '' @ n"
| "engine_error_display (EE_Storage operation n src) =
     ''storage operation failed while '' @ operation @ '': '' @ n"
| "engine_error_display (StorageFailure e) = storage_error_display e"
| "engine_error_display (StorageLayer m) = ''storage operation failed: '' @ m"
| "engine_error_display (EE_InvalidRunStatus s) = ''invalid stored run status: '' @ s"
| "engine_error_display (EE_InvalidTimestamp field millis) =
     ''invalid stored timestamp for '' @ field @ '': '' @ show_int millis"

fun engine_error_of :: "storage_error \<Rightarrow> engine_error" where
  "engine_error_of (SE_DuckDb e) = StorageFailure (SE_DuckDb e)"
| "engine_error_of (SE_Io src) = EE_Io src"
| "engine_error_of (SE_RunAlreadyExists r) = RunAlreadyExists r"
| "engine_error_of (SE_RunNotFound r) = RunNotFound r"
| "engine_error_of (SE_RunAlreadyActive r) = RunAlreadyActive r"
| "engine_error_of (SE_CatalogNotFound n) = EE_CatalogNotFound n"
| "engine_error_of (SE_Storage operation n src) = EE_Storage operation n src"
| "engine_error_of (SE_StorageDuckDb operation n src) =
     StorageFailure (SE_StorageDuckDb operation n src)"
| "engine_error_of (SE_QueryMaxPointsTooLarge n) = MetricQueryMaxPointsTooLarge n"
| "engine_error_of (SE_LttbExtensionUnavailable m) =
     StorageFailure (SE_LttbExtensionUnavailable m)"
| "engine_error_of (SE_InvalidRunStatus s) = EE_InvalidRunStatus s"
| "engine_error_of (SE_InvalidTimestamp field millis) = EE_InvalidTimestamp field millis"
| "engine_error_of SE_EmptySource = StorageLayer (storage_error_display SE_EmptySource)"
| "engine_error_of SE_InvalidIdentity = StorageLayer (storage_error_display SE_InvalidIdentity)"
| "engine_error_of (SE_MissingColumn n) = StorageLayer (storage_error_display (SE_MissingColumn n))"
| "engine_error_of (SE_DuplicateColumn n) =
     StorageLayer (storage_error_display (SE_DuplicateColumn n))"
| "engine_error_of (SE_IncompatibleColumnType n x y) =
     StorageLayer (storage_error_display (SE_IncompatibleColumnType n x y))"
| "engine_error_of (SE_IncompatibleAdditiveColumn n) =
     StorageLayer (storage_error_display (SE_IncompatibleAdditiveColumn n))"

text \<open>The conversion keeps a missing run apart from every other failure.\<close>

lemma engine_error_of_RunNotFound [simp]:
  "engine_error_of e = RunNotFound r \<longleftrightarrow> e = SE_RunNotFound r"
  by (cases e) auto

lemma engine_error_of_not_lifecycle [simp]:
  "engine_error_of e \<noteq> MetricDrainTimeout"
  "engine_error_of e \<noteq> ClientClosed"
  "engine_error_of e \<noteq> MetricQueueFull"
  "engine_error_of e \<noteq> RunClosed r"
  "engine_error_of e \<noteq> MetricWriterFailed m"
  "engine_error_of e \<noteq> InvalidRunTransition r a b"
  by (cases e; simp)+

end
