(* ===== verification/Sql_Text.thy ===== *)
theory Sql_Text
  imports Errors
begin

section \<open>Text that reaches file names and SQL\<close>

text \<open>
  \<open>percent_encode_metric_key\<close> (\<open>metric_query.rs\<close>) turns identifiers into partition values and lock
  file names, \<open>string_literal\<close> (\<open>sql.rs\<close>) quotes text for SQL, and \<open>status_as_str\<close> and
  \<open>run_status_from_str\<close> (\<open>rows.rs\<close>) are the stored form of a run status. Each of them has an
  inverse here, which shows that no two inputs share an output.
\<close>

subsection \<open>Percent encoding\<close>

definition char_nat :: "char \<Rightarrow> nat" where
  "char_nat c = of_char c"

lemma char_nat_inj [simp]: "char_nat a = char_nat b \<longleftrightarrow> a = b"
  by (simp add: char_nat_def)

lemma char_nat_less [simp]: "char_nat c < 256"
  by (simp add: char_nat_def)

lemma high_nibble: "char_nat c div 16 < 16"
  by (rule less_mult_imp_div_less) (use char_nat_less [of c] in simp)

lemma char_nat_byte [simp]: "n < 256 \<Longrightarrow> char_nat (byte n) = n"
  by (simp add: char_nat_def byte_def)

lemma byte_char_nat [simp]: "byte (char_nat c) = c"
  by (simp add: char_nat_def byte_def)

definition unreserved :: "char \<Rightarrow> bool" where
  "unreserved c \<longleftrightarrow>
     (let n = char_nat c in (65 \<le> n \<and> n \<le> 90) \<or> (97 \<le> n \<and> n \<le> 122) \<or> (48 \<le> n \<and> n \<le> 57)
        \<or> c \<in> set ''._~-'')"

definition hex_digit :: "nat \<Rightarrow> char" where
  "hex_digit n = (if n < 10 then byte (48 + n) else byte (55 + n))"

definition encode_byte :: "char \<Rightarrow> string" where
  "encode_byte c =
     (if unreserved c then [c]
      else [CHR ''%'', hex_digit (char_nat c div 16), hex_digit (char_nat c mod 16)])"

fun percent_encode_metric_key :: "string \<Rightarrow> string" where
  "percent_encode_metric_key [] = []"
| "percent_encode_metric_key (c # cs) = encode_byte c @ percent_encode_metric_key cs"

definition hex_value :: "char \<Rightarrow> nat" where
  "hex_value c = (let n = char_nat c in if n < 58 then n - 48 else n - 55)"

fun percent_decode :: "string \<Rightarrow> string" where
  "percent_decode [] = []"
| "percent_decode (c # cs) =
     (if c = CHR ''%'' then
        (case cs of
           h # l # rest \<Rightarrow> byte (16 * hex_value h + hex_value l) # percent_decode rest
         | _ \<Rightarrow> [])
      else c # percent_decode cs)"

lemma hex_value_digit: "n < 16 \<Longrightarrow> hex_value (hex_digit n) = n"
  by (simp add: hex_value_def hex_digit_def Let_def)

lemma percent_not_unreserved: "\<not> unreserved (CHR ''%'')"
  by (simp add: unreserved_def char_nat_def)

lemma percent_decode_encode: "percent_decode (percent_encode_metric_key s) = s"
proof (induction s)
  case Nil
  then show ?case by simp
next
  case (Cons c cs)
  show ?case
  proof (cases "unreserved c")
    case True
    then have "c \<noteq> CHR ''%''" using percent_not_unreserved by auto
    with True Cons show ?thesis by (simp add: encode_byte_def)
  next
    case False
    have "16 * (char_nat c div 16) + char_nat c mod 16 = char_nat c" by simp
    moreover have "char_nat c div 16 < 16" by (rule high_nibble)
    ultimately show ?thesis using False Cons
      by (simp add: encode_byte_def hex_value_digit)
  qed
qed

text \<open>The bytes that an encoded text can contain.\<close>

definition encoded_byte :: "char \<Rightarrow> bool" where
  "encoded_byte c \<longleftrightarrow> unreserved c \<or> c = CHR ''%''"

lemma hex_digit_unreserved: "n < 16 \<Longrightarrow> unreserved (hex_digit n)"
  by (simp add: unreserved_def hex_digit_def Let_def)

lemma encoded_bytes: "c \<in> set (percent_encode_metric_key s) \<Longrightarrow> encoded_byte c"
proof (induction s)
  case Nil
  then show ?case by simp
next
  case (Cons b s)
  have "char_nat b div 16 < 16" by (rule high_nibble)
  with Cons show ?case
    by (auto simp: encode_byte_def encoded_byte_def hex_digit_unreserved split: if_splits)
qed

subsection \<open>SQL string literals\<close>

fun double_quotes :: "string \<Rightarrow> string" where
  "double_quotes [] = []"
| "double_quotes (c # cs) = (if c = CHR 0x27 then CHR 0x27 # CHR 0x27 # double_quotes cs
                             else c # double_quotes cs)"

definition string_literal :: "string \<Rightarrow> string" where
  "string_literal value = [CHR 0x27] @ double_quotes value @ [CHR 0x27]"

text \<open>
  The lexical rule of SQL for a quoted string: from an opening quote to the first quote that is
  not doubled. \<open>lex_literal s\<close> is the value and the text after the literal.
\<close>

fun lex_body :: "string \<Rightarrow> (string \<times> string) option" where
  "lex_body [] = None"
| "lex_body (c # cs) =
     (if c = CHR 0x27 then
        (case cs of
           [] \<Rightarrow> Some ([], [])
         | d # ds \<Rightarrow> if d = CHR 0x27 then map_option (\<lambda>(v, r). (CHR 0x27 # v, r)) (lex_body ds)
                     else Some ([], d # ds))
      else map_option (\<lambda>(v, r). (c # v, r)) (lex_body cs))"

definition lex_literal :: "string \<Rightarrow> (string \<times> string) option" where
  "lex_literal s = (case s of [] \<Rightarrow> None | c # cs \<Rightarrow> if c = CHR 0x27 then lex_body cs else None)"

lemma lex_double_quotes:
  assumes "\<not> starts_with rest [CHR 0x27]"
  shows "lex_body (double_quotes v @ CHR 0x27 # rest) = Some (v, rest)"
proof (induction v)
  case Nil
  show ?case
  proof (cases rest)
    case (Cons d ds)
    with assms have "d \<noteq> CHR 0x27" by (auto simp: starts_with_iff)
    with Cons show ?thesis by simp
  qed simp
next
  case (Cons c v)
  then show ?case by simp
qed

lemma lex_string_literal:
  "\<not> starts_with rest [CHR 0x27] \<Longrightarrow> lex_literal (string_literal v @ rest) = Some (v, rest)"
  using lex_double_quotes [of rest v] by (simp add: lex_literal_def string_literal_def)

subsection \<open>Stored run status\<close>

fun status_as_str :: "run_status \<Rightarrow> string" where
  "status_as_str Running = ''running''"
| "status_as_str Finished = ''finished''"
| "status_as_str Failed = ''failed''"

definition run_status_from_str :: "string \<Rightarrow> (storage_error, run_status) res" where
  "run_status_from_str s =
     (if s = ''running'' then Ok Running
      else if s = ''finished'' then Ok Finished
      else if s = ''failed'' then Ok Failed
      else Err (SE_InvalidRunStatus s))"

lemma run_status_round_trip [simp]: "run_status_from_str (status_as_str st) = Ok st"
  by (cases st) (simp_all add: run_status_from_str_def)

lemma run_status_from_str_Ok: "run_status_from_str s = Ok st \<longleftrightarrow> s = status_as_str st"
  by (cases st) (auto simp: run_status_from_str_def)

lemma status_running_iff [simp]: "status_as_str st = ''running'' \<longleftrightarrow> st = Running"
  by (cases st) simp_all

subsection \<open>Properties\<close>

text \<open>The encoded form of an identifier determines it, and consists of unreserved characters
  and percent signs only; in particular it contains no path separator, so that the lock file of
  a run is a direct child of the lock directory and different runs have different lock files.\<close>

theorem percent_encoding_safe:
  "percent_decode (percent_encode_metric_key s) = s \<and>
   (percent_encode_metric_key s = percent_encode_metric_key t \<longleftrightarrow> s = t) \<and>
   CHR ''/'' \<notin> set (percent_encode_metric_key s) \<and> CHR 0x5C \<notin> set (percent_encode_metric_key s)"
proof -
  have "\<not> encoded_byte (CHR ''/'')" "\<not> encoded_byte (CHR 0x5C)"
    by (simp_all add: encoded_byte_def unreserved_def char_nat_def)
  then show ?thesis
    using encoded_bytes percent_decode_encode by metis
qed

text \<open>A quoted text is read back by SQL as one literal with the original value, whatever quotes
  it contains and whatever follows it, so no text can end its own literal.\<close>

theorem string_literal_round_trip:
  assumes "\<not> starts_with rest [CHR 0x27]"
  shows "lex_literal (string_literal v @ rest) = Some (v, rest)"
  using assms by (rule lex_string_literal)

theorem string_literal_round_trip_witness:
  "lex_literal (string_literal [CHR 0x27, CHR ''a''] @ '');'') = Some ([CHR 0x27, CHR ''a''], '');'')"
  by (rule string_literal_round_trip) (simp add: starts_with_def)

end
