(* ===== verification/Bootstrap.thy ===== *)
theory Bootstrap
  imports Sql_Text
begin

section \<open>Opening the native store (\<open>bootstrap.rs\<close>)\<close>

text \<open>
  The statements and file-system calls that open a project, as effects appended to a log. Whether
  an effect fails, and with which message, is a parameter of the world. Paths are UTF-8 strings
  with \<open>/\<close> as separator.
\<close>

subsection \<open>Paths\<close>

type_synonym path = string

definition path_join :: "path \<Rightarrow> path \<Rightarrow> path" where
  "path_join base p =
     (if starts_with p ''/'' then p
      else if base = [] \<or> last base = CHR ''/'' then base @ p else base @ ''/'' @ p)"

fun split_on :: "char \<Rightarrow> string \<Rightarrow> string list" where
  "split_on d [] = [[]]"
| "split_on d (c # cs) =
     (if c = d then [] # split_on d cs
      else case split_on d cs of [] \<Rightarrow> [[c]] | w # ws \<Rightarrow> (c # w) # ws)"

text \<open>The components that \<open>Path::components\<close> yields after the root: empty ones and \<open>.\<close> are
  skipped, except for a \<open>.\<close> that starts a relative path.\<close>

definition path_components :: "path \<Rightarrow> string list" where
  "path_components p =
     (let parts = split_on (CHR ''/'') p; keep = filter (\<lambda>c. c \<noteq> [] \<and> c \<noteq> ''.'') parts
      in if parts \<noteq> [] \<and> hd parts = ''.'' then ''.'' # keep else keep)"

definition path_file_name :: "path \<Rightarrow> string option" where
  "path_file_name p = (case rev (path_components p) of
       [] \<Rightarrow> None
     | c # _ \<Rightarrow> if c = ''..'' \<or> c = ''.'' then None else Some c)"

definition path_basename :: "path \<Rightarrow> string" where
  "path_basename p = (case path_file_name p of None \<Rightarrow> ''storage path'' | Some n \<Rightarrow> n)"

text \<open>\<open>Path::parent\<close>, with the separators between the components written once.\<close>

definition path_parent :: "path \<Rightarrow> path option" where
  "path_parent p = (case path_components p of
       [] \<Rightarrow> None
     | cs \<Rightarrow> Some ((if starts_with p ''/'' then ''/'' else []) @ join_str ''/'' (butlast cs)))"

definition is_s3_data_path :: "path \<Rightarrow> bool" where
  "is_s3_data_path p = starts_with p ''s3://''"

subsection \<open>Configuration of a store\<close>

datatype catalog_backend = Backend_DuckDb | Backend_Sqlite

definition backend_from_name :: "string \<Rightarrow> catalog_backend option" where
  "backend_from_name name =
     (if name = ''duckdb'' then Some Backend_DuckDb
      else if name = ''sqlite'' then Some Backend_Sqlite else None)"

record s3_connection_config =
  s3_endpoint :: string
  s3_access_key_id :: string
  s3_secret_access_key :: string
  s3_session_token :: "string option"
  s3_region :: "string option"
  s3_path_style :: "bool option"
  s3_use_ssl :: "bool option"

record catalog_adapter =
  ca_default_filename :: string
  ca_ducklake_alias :: string
  ca_application_database :: string
  ca_path_prefix :: string
  ca_attach_type_clause :: "string option"

fun adapter :: "catalog_backend \<Rightarrow> catalog_adapter" where
  "adapter Backend_DuckDb =
     \<lparr>ca_default_filename = ''catalog.ducklake'', ca_ducklake_alias = ''dl'',
      ca_application_database = ''pulseon_catalog'', ca_path_prefix = [],
      ca_attach_type_clause = Some ''TYPE ducklake''\<rparr>"
| "adapter Backend_Sqlite =
     \<lparr>ca_default_filename = ''catalog.sqlite'', ca_ducklake_alias = ''dl'',
      ca_application_database = ''pulseon_catalog'', ca_path_prefix = ''ducklake:sqlite:'',
      ca_attach_type_clause = None\<rparr>"

record native_storage_config =
  nc_backend :: catalog_backend
  nc_catalog_path :: path
  nc_data_path :: path
  nc_s3 :: "s3_connection_config option"

definition with_backend_and_s3_config ::
  "catalog_backend \<Rightarrow> path \<Rightarrow> path option \<Rightarrow> path option \<Rightarrow> s3_connection_config option \<Rightarrow> native_storage_config" where
  "with_backend_and_s3_config backend root_path catalog_path data_path s3 =
     (let pulseon = path_join root_path ''.pulseon'' in
      \<lparr>nc_backend = backend,
       nc_catalog_path = (case catalog_path of Some p \<Rightarrow> p
                          | None \<Rightarrow> path_join pulseon (ca_default_filename (adapter backend))),
       nc_data_path = (case data_path of Some p \<Rightarrow> p | None \<Rightarrow> path_join pulseon ''data''),
       nc_s3 = s3\<rparr>)"

subsection \<open>Statements\<close>

abbreviation nl :: string where "nl \<equiv> [CHR 0x0A]"

definition spaces :: "nat \<Rightarrow> string" where
  "spaces n = replicate n (CHR '' '')"

definition attach_ducklake_statement :: "catalog_adapter \<Rightarrow> path \<Rightarrow> path \<Rightarrow> string" where
  "attach_ducklake_statement a catalog_path data_path =
     ''ATTACH '' @ string_literal (ca_path_prefix a @ catalog_path) @ '' AS '' @ ca_ducklake_alias a @ '' ('' @ nl @
     (case ca_attach_type_clause a of None \<Rightarrow> [] | Some clause \<Rightarrow> spaces 17 @ clause @ '','' @ nl) @
     spaces 17 @ ''DATA_PATH '' @ string_literal data_path @ '','' @ nl @
     spaces 17 @ ''OVERRIDE_DATA_PATH true,'' @ nl @
     spaces 17 @ ''METADATA_CATALOG '' @ [CHR 0x27] @ ca_application_database a @ [CHR 0x27] @ nl @
     spaces 13 @ '');''"

definition attach_batch :: "catalog_backend \<Rightarrow> path \<Rightarrow> path \<Rightarrow> string" where
  "attach_batch backend catalog_path data_path =
     ''INSTALL ducklake;'' @ nl @ spaces 9 @ ''LOAD ducklake;'' @ nl @ spaces 9 @
     attach_ducklake_statement (adapter backend) catalog_path data_path"

definition use_statement :: "catalog_backend \<Rightarrow> string" where
  "use_statement backend = ''USE '' @ ca_application_database (adapter backend) @ '';''"

definition option_clause :: "('a \<Rightarrow> string) \<Rightarrow> 'a option \<Rightarrow> string list" where
  "option_clause f v = (case v of None \<Rightarrow> [] | Some x \<Rightarrow> [f x])"

definition s3_secret_options :: "s3_connection_config \<Rightarrow> string list" where
  "s3_secret_options c =
     [''TYPE s3'', ''KEY_ID '' @ string_literal (s3_access_key_id c),
      ''SECRET '' @ string_literal (s3_secret_access_key c), ''ENDPOINT '' @ string_literal (s3_endpoint c)] @
     option_clause (\<lambda>t. ''SESSION_TOKEN '' @ string_literal t) (s3_session_token c) @
     option_clause (\<lambda>r. ''REGION '' @ string_literal r) (s3_region c) @
     option_clause (\<lambda>b. ''URL_STYLE '' @ string_literal (if b then ''path'' else ''vhost'')) (s3_path_style c) @
     option_clause (\<lambda>b. ''USE_SSL '' @ (if b then ''true'' else ''false'')) (s3_use_ssl c)"

definition create_s3_secret_statement :: "s3_connection_config \<Rightarrow> string" where
  "create_s3_secret_statement c =
     ''CREATE OR REPLACE SECRET pulseon_s3 ('' @ nl @ spaces 13 @
     join_str ('','' @ nl @ spaces 13) (s3_secret_options c) @ nl @ spaces 9 @ '');''"

text \<open>The text of \<open>create_v1_tables\<close>, one list element per line with its indentation.\<close>

definition quoted :: "string \<Rightarrow> string" where
  "quoted s = [CHR 0x27] @ s @ [CHR 0x27]"

definition v1_tables :: string where
  "v1_tables = join_str nl
    [''CREATE TABLE IF NOT EXISTS pulseon_projects ('',
     spaces 13 @ ''project_id VARCHAR NOT NULL,'', spaces 13 @ ''name VARCHAR NOT NULL,'',
     spaces 13 @ ''created_at TIMESTAMPTZ NOT NULL'', spaces 9 @ '');'',
     spaces 9 @ ''CREATE TABLE IF NOT EXISTS pulseon_runs ('',
     spaces 13 @ ''run_id VARCHAR NOT NULL,'', spaces 13 @ ''project_id VARCHAR NOT NULL,'',
     spaces 13 @ ''name VARCHAR NOT NULL,'', spaces 13 @ ''status VARCHAR NOT NULL,'',
     spaces 13 @ ''created_at TIMESTAMPTZ NOT NULL,'', spaces 13 @ ''started_at TIMESTAMPTZ NOT NULL,'',
     spaces 13 @ ''finished_at TIMESTAMPTZ'', spaces 9 @ '');'',
     spaces 9 @ ''CREATE TABLE IF NOT EXISTS dl.metric_points ('',
     spaces 13 @ ''run_id VARCHAR NOT NULL,'', spaces 13 @ ''metric_key VARCHAR NOT NULL,'',
     spaces 13 @ ''metric_key_encoded VARCHAR NOT NULL,'', spaces 13 @ ''step BIGINT NOT NULL,'',
     spaces 13 @ ''timestamp TIMESTAMPTZ NOT NULL,'', spaces 13 @ ''value_f64 DOUBLE NOT NULL,'',
     spaces 13 @ ''ingested_at TIMESTAMPTZ NOT NULL'', spaces 9 @ '');'',
     spaces 9 @ ''ALTER TABLE dl.metric_points SET PARTITIONED BY (run_id, metric_key_encoded);'',
     spaces 9 @ ''CALL dl.set_option('', spaces 13 @ quoted ''data_inlining_row_limit'' @ '','',
     spaces 13 @ ''8192,'', spaces 13 @ ''table_name => '' @ quoted ''metric_points'', spaces 9 @ '');'',
     spaces 9 @ ''CREATE TABLE IF NOT EXISTS pulseon_metric_aggregates ('',
     spaces 13 @ ''run_id VARCHAR NOT NULL,'', spaces 13 @ ''metric_key VARCHAR NOT NULL,'',
     spaces 13 @ ''effective_count UBIGINT NOT NULL,'', spaces 13 @ ''last_step BIGINT NOT NULL,'',
     spaces 13 @ ''last_value_f64 DOUBLE NOT NULL,'', spaces 13 @ ''min_value_f64 DOUBLE NOT NULL,'',
     spaces 13 @ ''max_value_f64 DOUBLE NOT NULL'', spaces 9 @ '');'']"

subsection \<open>Opening\<close>

datatype boot_effect =
    Read_Metadata path
  | Create_Dir path
  | Open_Connection bool
  | Batch string

datatype metadata = Md_Found | Md_NotFound | Md_Error io_error

record boot =
  bt_log :: "boot_effect list"
  bt_metadata :: "path \<Rightarrow> metadata"
  bt_fail :: "boot_effect \<Rightarrow> string option"
  bt_lttb_path_set :: bool

definition perform :: "boot_effect \<Rightarrow> (string \<Rightarrow> storage_error) \<Rightarrow> (boot, storage_error, unit) op" where
  "perform e err w =
     ((case bt_fail w e of None \<Rightarrow> Ok () | Some msg \<Rightarrow> Err (err msg)), w\<lparr>bt_log := bt_log w @ [e]\<rparr>)"

definition duck_failure :: "string \<Rightarrow> string \<Rightarrow> string \<Rightarrow> storage_error" where
  "duck_failure operation name msg = SE_StorageDuckDb operation name (DuckDb_Other msg)"

definition verify_catalog_exists :: "path \<Rightarrow> (boot, storage_error, unit) op" where
  "verify_catalog_exists p w =
     ((case bt_metadata w p of
         Md_Found \<Rightarrow> Ok ()
       | Md_NotFound \<Rightarrow> Err (SE_CatalogNotFound (path_basename p))
       | Md_Error e \<Rightarrow> Err (SE_Storage ''checking catalog'' (path_basename p) e)),
      w\<lparr>bt_log := bt_log w @ [Read_Metadata p]\<rparr>)"

definition create_dir_all :: "string \<Rightarrow> path \<Rightarrow> (boot, storage_error, unit) op" where
  "create_dir_all operation p = perform (Create_Dir p) (SE_Storage operation (path_basename p))"

definition open_duckdb_connection :: "(boot, storage_error, unit) op" where
  "open_duckdb_connection w =
     perform (Open_Connection (bt_lttb_path_set w)) (\<lambda>msg. SE_DuckDb (DuckDb_Other msg)) w"

definition configure_s3_connection :: "s3_connection_config \<Rightarrow> (boot, storage_error, unit) op" where
  "configure_s3_connection c =
     bind_op (perform (Batch ''INSTALL httpfs; LOAD httpfs;'')
                (duck_failure ''loading DuckDB HTTPFS extension'' ''s3 data path'')) (\<lambda>_.
     perform (Batch (create_s3_secret_statement c)) (duck_failure ''configuring DuckDB S3 secret'' ''s3 data path''))"

definition attach_ducklake_with_backend :: "catalog_backend \<Rightarrow> path \<Rightarrow> path \<Rightarrow> (boot, storage_error, unit) op" where
  "attach_ducklake_with_backend backend catalog_path data_path =
     perform (Batch (attach_batch backend catalog_path data_path))
       (duck_failure ''attaching DuckLake catalog'' (path_basename catalog_path @ '', '' @ path_basename data_path))"

definition setup_catalog_adapter :: "catalog_backend \<Rightarrow> (boot, storage_error, unit) op" where
  "setup_catalog_adapter backend =
     perform (Batch (use_statement backend))
       (duck_failure ''selecting PulseOn catalog tables'' (ca_application_database (adapter backend)))"

definition create_v1_tables :: "(boot, storage_error, unit) op" where
  "create_v1_tables = perform (Batch v1_tables) (\<lambda>msg. SE_DuckDb (DuckDb_Other msg))"

definition perform_if :: "bool \<Rightarrow> (boot, storage_error, unit) op \<Rightarrow> (boot, storage_error, unit) op" where
  "perform_if c m = (if c then m else ret_op ())"

definition open_native_connection_with_mode :: "native_storage_config \<Rightarrow> bool \<Rightarrow> (boot, storage_error, unit) op" where
  "open_native_connection_with_mode config must_exist =
     bind_op (if must_exist then verify_catalog_exists (nc_catalog_path config)
              else case path_parent (nc_catalog_path config) of
                     None \<Rightarrow> ret_op ()
                   | Some parent \<Rightarrow> create_dir_all ''creating catalog directory'' parent) (\<lambda>_.
     bind_op (perform_if (\<not> must_exist \<and> \<not> is_s3_data_path (nc_data_path config))
                (create_dir_all ''creating data directory'' (nc_data_path config))) (\<lambda>_.
     bind_op open_duckdb_connection (\<lambda>_.
     bind_op (if is_s3_data_path (nc_data_path config)
              then (case nc_s3 config of None \<Rightarrow> ret_op () | Some s3 \<Rightarrow> configure_s3_connection s3)
              else ret_op ()) (\<lambda>_.
     bind_op (attach_ducklake_with_backend (nc_backend config) (nc_catalog_path config) (nc_data_path config)) (\<lambda>_.
     bind_op (setup_catalog_adapter (nc_backend config)) (\<lambda>_.
     perform_if (\<not> must_exist) create_v1_tables))))))"

subsection \<open>The plan\<close>

text \<open>
  What opening means: a list of effects that depends on the configuration only, performed in order
  until one fails.
\<close>

definition open_plan :: "native_storage_config \<Rightarrow> bool \<Rightarrow> bool \<Rightarrow> boot_effect list" where
  "open_plan config must_exist lttb =
     (if must_exist then [Read_Metadata (nc_catalog_path config)]
      else map Create_Dir (case path_parent (nc_catalog_path config) of None \<Rightarrow> [] | Some p \<Rightarrow> [p])) @
     (if \<not> must_exist \<and> \<not> is_s3_data_path (nc_data_path config) then [Create_Dir (nc_data_path config)] else []) @
     [Open_Connection lttb] @
     (case nc_s3 config of
        Some s3 \<Rightarrow> if is_s3_data_path (nc_data_path config)
                   then [Batch ''INSTALL httpfs; LOAD httpfs;'', Batch (create_s3_secret_statement s3)] else []
      | None \<Rightarrow> []) @
     [Batch (attach_batch (nc_backend config) (nc_catalog_path config) (nc_data_path config)),
      Batch (use_statement (nc_backend config))] @
     (if must_exist then [] else [Batch v1_tables])"

definition effect_ok :: "boot \<Rightarrow> boot_effect \<Rightarrow> bool" where
  "effect_ok w e = (case e of Read_Metadata p \<Rightarrow> bt_metadata w p = Md_Found | _ \<Rightarrow> bt_fail w e = None)"

text \<open>\<open>follows lttb plan m\<close>: where the extension path is set or not as \<open>lttb\<close> says, the operation performs \<open>plan\<close> in order up to and including the first effect
  that fails, and succeeds exactly when none does.\<close>

definition follows :: "bool \<Rightarrow> boot_effect list \<Rightarrow> (boot, storage_error, unit) op \<Rightarrow> bool" where
  "follows lttb plan m \<longleftrightarrow> (\<forall>w r w'. bt_lttb_path_set w = lttb \<longrightarrow> m w = (r, w') \<longrightarrow>
     (\<exists>done. w' = w\<lparr>bt_log := bt_log w @ done\<rparr> \<and>
        (r = Ok () \<and> done = plan \<and> list_all (effect_ok w) plan \<or>
         (\<exists>e before failed rest. r = Err e \<and> plan = before @ failed # rest \<and> done = before @ [failed] \<and>
            list_all (effect_ok w) before \<and> \<not> effect_ok w failed))))"

lemma followsI:
  assumes "\<And>w r w'. bt_lttb_path_set w = lttb \<Longrightarrow> m w = (r, w') \<Longrightarrow> \<exists>done. w' = w\<lparr>bt_log := bt_log w @ done\<rparr> \<and>
        (r = Ok () \<and> done = plan \<and> list_all (effect_ok w) plan \<or>
         (\<exists>e before failed rest. r = Err e \<and> plan = before @ failed # rest \<and> done = before @ [failed] \<and>
            list_all (effect_ok w) before \<and> \<not> effect_ok w failed))"
  shows "follows lttb plan m"
  using assms unfolding follows_def by blast

lemma follows_ret: "follows lttb [] (ret_op ())"
  by (rule followsI) auto

lemma follows_perform: "\<forall>p. e \<noteq> Read_Metadata p \<Longrightarrow> follows lttb [e] (perform e err)"
  by (rule followsI) (cases e; auto simp: perform_def effect_ok_def split: option.splits)

lemma follows_metadata: "follows lttb [Read_Metadata p] (verify_catalog_exists p)"
  by (rule followsI) (auto simp: verify_catalog_exists_def effect_ok_def split: metadata.splits)

lemma effect_ok_log [simp]: "effect_ok (w\<lparr>bt_log := l\<rparr>) = effect_ok w"
  by (rule ext) (simp add: effect_ok_def split: boot_effect.split)

lemma follows_bind:
  assumes m: "follows lttb p m" and n: "follows lttb q n"
  shows "follows lttb (p @ q) (bind_op m (\<lambda>_. n))"
proof (rule followsI)
  fix w r w'' assume lttb: "bt_lttb_path_set w = lttb" and run: "bind_op m (\<lambda>_. n) w = (r, w'')"
  show "\<exists>done. w'' = w\<lparr>bt_log := bt_log w @ done\<rparr> \<and>
        (r = Ok () \<and> done = p @ q \<and> list_all (effect_ok w) (p @ q) \<or>
         (\<exists>e before failed rest. r = Err e \<and> p @ q = before @ failed # rest \<and> done = before @ [failed] \<and>
            list_all (effect_ok w) before \<and> \<not> effect_ok w failed))"
    using run
  proof (cases rule: bind_op_cases)
    case (err e)
    then show ?thesis using m [unfolded follows_def, rule_format, OF lttb err(1)] by fastforce
  next
    case (ok u w')
    have w': "w' = w\<lparr>bt_log := bt_log w @ p\<rparr>" "list_all (effect_ok w) p"
      using m [unfolded follows_def, rule_format, OF lttb ok(1)] by auto
    obtain d where d: "w'' = w'\<lparr>bt_log := bt_log w' @ d\<rparr>"
      "r = Ok () \<and> d = q \<and> list_all (effect_ok w) q \<or>
         (\<exists>e before failed rest. r = Err e \<and> q = before @ failed # rest \<and> d = before @ [failed] \<and>
            list_all (effect_ok w) before \<and> \<not> effect_ok w failed)"
      using n [unfolded follows_def, rule_format, OF _ ok(2)] w'(1) lttb by auto
    have "w'' = w\<lparr>bt_log := bt_log w @ (p @ d)\<rparr>" using d(1) w'(1) by simp
    then show ?thesis
      using d(2) w'(2) by (intro exI [of _ "p @ d"]) (auto intro!: exI [of _ "p @ b" for b])
  qed
qed

lemma follows_connection: "follows lttb [Open_Connection lttb] open_duckdb_connection"
proof (rule followsI)
  fix w r w' assume "bt_lttb_path_set w = lttb" and "open_duckdb_connection w = (r, w')"
  then have "perform (Open_Connection lttb) (\<lambda>msg. SE_DuckDb (DuckDb_Other msg)) w = (r, w')"
    by (simp add: open_duckdb_connection_def)
  then show "\<exists>done. w' = w\<lparr>bt_log := bt_log w @ done\<rparr> \<and>
        (r = Ok () \<and> done = [Open_Connection lttb] \<and> list_all (effect_ok w) [Open_Connection lttb] \<or>
         (\<exists>e before failed rest. r = Err e \<and> [Open_Connection lttb] = before @ failed # rest \<and> done = before @ [failed] \<and>
            list_all (effect_ok w) before \<and> \<not> effect_ok w failed))"
    using follows_perform [of "Open_Connection lttb"] \<open>bt_lttb_path_set w = lttb\<close>
    unfolding follows_def by blast
qed

lemmas follows_steps = follows_ret follows_connection follows_metadata
  follows_perform [of "Create_Dir p" for p, simplified] follows_perform [of "Batch sql" for sql, simplified]

lemma open_follows:
  "follows lttb (open_plan config must_exist lttb) (open_native_connection_with_mode config must_exist)"
proof -
  have first: "follows lttb
     (if must_exist then [Read_Metadata (nc_catalog_path config)]
      else map Create_Dir (case path_parent (nc_catalog_path config) of None \<Rightarrow> [] | Some p \<Rightarrow> [p]))
     (if must_exist then verify_catalog_exists (nc_catalog_path config)
              else case path_parent (nc_catalog_path config) of
                     None \<Rightarrow> ret_op ()
                   | Some parent \<Rightarrow> create_dir_all ''creating catalog directory'' parent)"
    by (simp add: follows_steps create_dir_all_def split: option.split)
  have dir: "follows lttb
     (if \<not> must_exist \<and> \<not> is_s3_data_path (nc_data_path config) then [Create_Dir (nc_data_path config)] else [])
     (perform_if (\<not> must_exist \<and> \<not> is_s3_data_path (nc_data_path config))
                (create_dir_all ''creating data directory'' (nc_data_path config)))"
    by (simp add: follows_steps create_dir_all_def perform_if_def)
  have s3: "follows lttb
     (case nc_s3 config of
        Some s3 \<Rightarrow> if is_s3_data_path (nc_data_path config)
                   then [Batch ''INSTALL httpfs; LOAD httpfs;'', Batch (create_s3_secret_statement s3)] else []
      | None \<Rightarrow> [])
     (if is_s3_data_path (nc_data_path config)
              then (case nc_s3 config of None \<Rightarrow> ret_op () | Some s3 \<Rightarrow> configure_s3_connection s3)
              else ret_op ())"
    using follows_bind [OF follows_steps(5) follows_steps(5)]
    by (simp add: follows_steps configure_s3_connection_def split: option.split)
  have tables: "follows lttb (if must_exist then [] else [Batch v1_tables]) (perform_if (\<not> must_exist) create_v1_tables)"
    by (simp add: follows_steps perform_if_def create_v1_tables_def)
  have rest: "follows lttb ([Batch (attach_batch (nc_backend config) (nc_catalog_path config) (nc_data_path config))] @
      [Batch (use_statement (nc_backend config))] @ (if must_exist then [] else [Batch v1_tables]))
     (bind_op (attach_ducklake_with_backend (nc_backend config) (nc_catalog_path config) (nc_data_path config)) (\<lambda>_.
     bind_op (setup_catalog_adapter (nc_backend config)) (\<lambda>_.
     perform_if (\<not> must_exist) create_v1_tables)))"
    unfolding attach_ducklake_with_backend_def setup_catalog_adapter_def
    by (intro follows_bind follows_steps tables)
  show ?thesis
    using follows_bind [OF first follows_bind [OF dir follows_bind [OF follows_connection follows_bind [OF s3 rest]]]]
    unfolding open_plan_def open_native_connection_with_mode_def by simp
qed

subsection \<open>Properties\<close>

definition sample_config :: native_storage_config where
  "sample_config = with_backend_and_s3_config Backend_DuckDb ''/p'' None None None"

definition sample_boot :: boot where
  "sample_boot = \<lparr>bt_log = [], bt_metadata = (\<lambda>_. Md_NotFound), bt_fail = (\<lambda>_. None), bt_lttb_path_set = False\<rparr>"

text \<open>C28: opening a store performs the effects its configuration determines, in their order: it succeeds
  exactly when all of them do, and otherwise ends with the first that fails and performs nothing
  after it.\<close>
theorem open_refines_plan:
  assumes "open_native_connection_with_mode config must_exist w = (r, w')"
  shows "\<exists>done. w' = w\<lparr>bt_log := bt_log w @ done\<rparr> \<and>
    (let plan = open_plan config must_exist (bt_lttb_path_set w) in
     r = Ok () \<and> done = plan \<and> list_all (effect_ok w) plan \<or>
     (\<exists>e before failed rest. r = Err e \<and> plan = before @ failed # rest \<and> done = before @ [failed] \<and>
        list_all (effect_ok w) before \<and> \<not> effect_ok w failed))"
  using open_follows [unfolded follows_def, rule_format, OF refl assms] by (simp add: Let_def)

theorem open_refines_plan_witness:
  "\<exists>w'. open_native_connection_with_mode sample_config False sample_boot = (Ok (), w') \<and>
     bt_log w' = open_plan sample_config False False"
proof -
  obtain r w' where run: "open_native_connection_with_mode sample_config False sample_boot = (r, w')" by fastforce
  have "effect_ok sample_boot e" if "e \<in> set (open_plan sample_config False False)" for e
    using that by (auto simp: open_plan_def effect_ok_def sample_boot_def sample_config_def
        with_backend_and_s3_config_def split: option.splits if_splits)
  then show ?thesis
    using open_refines_plan [OF run] run by (auto simp: Let_def sample_boot_def)
qed

lemma statement_heads:
  "take 8 v1_tables = ''CREATE T''" "take 8 (attach_batch b c d) = ''INSTALL ''"
  "take 8 (use_statement b) = ''USE puls''" "take 8 (create_s3_secret_statement s3) = ''CREATE O''"
proof -
  show "take 8 v1_tables = ''CREATE T''" by (simp add: v1_tables_def)
  show "take 8 (attach_batch b c d) = ''INSTALL ''" by (simp add: attach_batch_def)
  show "take 8 (use_statement b) = ''USE puls''" by (cases b) (simp_all add: use_statement_def)
  show "take 8 (create_s3_secret_statement s3) = ''CREATE O''" by (simp add: create_s3_secret_statement_def)
qed

lemma existing_plan:
  "Create_Dir p \<notin> set (open_plan config True lttb)" "Batch v1_tables \<notin> set (open_plan config True lttb)"
proof -
  have "v1_tables \<noteq> attach_batch b c d" "v1_tables \<noteq> use_statement b" "v1_tables \<noteq> create_s3_secret_statement s3"
 for b c d s3
    using statement_heads(1) statement_heads(2) [of b c d] statement_heads(3) [of b] statement_heads(4) [of s3] by auto
  moreover have "v1_tables \<noteq> ''INSTALL httpfs; LOAD httpfs;''"
  proof
    assume "v1_tables = ''INSTALL httpfs; LOAD httpfs;''"
    then have "take 8 v1_tables = take 8 ''INSTALL httpfs; LOAD httpfs;''" by (rule arg_cong)
    then show False unfolding statement_heads(1) by simp
  qed
  ultimately show "Create_Dir p \<notin> set (open_plan config True lttb)" "Batch v1_tables \<notin> set (open_plan config True lttb)"
    by (simp_all add: open_plan_def split: option.split)
qed

lemma followed_subset:
  assumes "follows lttb plan m" and "bt_lttb_path_set w = lttb" and "m w = (r, w')"
  shows "\<exists>done. bt_log w' = bt_log w @ done \<and> set done \<subseteq> set plan"
  using assms unfolding follows_def by fastforce

text \<open>C29: opening an existing project creates nothing: whatever fails, no directory and no table is
  created; when the catalog is missing nothing but its metadata is touched, and the error names
  the catalog file.\<close>
theorem open_existing_creates_nothing:
  assumes "open_native_connection_with_mode config True w = (r, w')"
  shows "\<exists>done. bt_log w' = bt_log w @ done \<and> (\<forall>p. Create_Dir p \<notin> set done) \<and> Batch v1_tables \<notin> set done \<and>
    (bt_metadata w (nc_catalog_path config) = Md_NotFound \<longrightarrow>
       done = [Read_Metadata (nc_catalog_path config)] \<and>
       r = Err (SE_CatalogNotFound (path_basename (nc_catalog_path config))))"
proof -
  obtain d where d: "bt_log w' = bt_log w @ d" "set d \<subseteq> set (open_plan config True (bt_lttb_path_set w))"
    using followed_subset [OF open_follows refl assms] by blast
  have missing: "d = [Read_Metadata (nc_catalog_path config)] \<and>
       r = Err (SE_CatalogNotFound (path_basename (nc_catalog_path config)))"
    if "bt_metadata w (nc_catalog_path config) = Md_NotFound"
    using assms d(1) that
    by (auto simp: open_native_connection_with_mode_def verify_catalog_exists_def bind_op_def)
  show ?thesis using d existing_plan missing by (intro exI [of _ d]) auto
qed

theorem open_existing_creates_nothing_witness:
  "\<exists>w'. open_native_connection_with_mode sample_config True sample_boot =
       (Err (SE_CatalogNotFound ''catalog.ducklake''), w') \<and> bt_log w' = [Read_Metadata ''/p/.pulseon/catalog.ducklake'']"
proof -
  have path: "nc_catalog_path sample_config = ''/p/.pulseon/catalog.ducklake''"
    by (simp add: sample_config_def with_backend_and_s3_config_def path_join_def starts_with_def)
  have base: "path_basename ''/p/.pulseon/catalog.ducklake'' = ''catalog.ducklake''"
    by (simp add: path_basename_def path_file_name_def path_components_def)
  obtain r w' where run: "open_native_connection_with_mode sample_config True sample_boot = (r, w')" by fastforce
  show ?thesis
    using open_existing_creates_nothing [OF run] run by (auto simp: sample_boot_def path base)
qed


text \<open>A failure while S3 is configured displays a fixed text: neither the credentials nor the
  statement that holds them nor what DuckDB says about it.\<close>
theorem s3_failure_hides_credentials:
  assumes "configure_s3_connection c w = (Err e, w')"
  shows "storage_error_display e \<in>
    {''storage operation failed while loading DuckDB HTTPFS extension: s3 data path'',
     ''storage operation failed while configuring DuckDB S3 secret: s3 data path''}"
  using assms
  by (auto simp: configure_s3_connection_def bind_op_Err perform_def duck_failure_def split: option.splits)

theorem s3_failure_hides_credentials_witness:
  "\<exists>c w e w'. configure_s3_connection c w = (Err e, w') \<and> s3_secret_access_key c = ''hunter2'' \<and>
     storage_error_display e \<noteq> ''hunter2''"
proof -
  let ?c = "\<lparr>s3_endpoint = ''e'', s3_access_key_id = ''k'', s3_secret_access_key = ''hunter2'',
    s3_session_token = None, s3_region = None, s3_path_style = None, s3_use_ssl = None\<rparr>"
  let ?w = "sample_boot\<lparr>bt_fail := (\<lambda>_. Some ''denied'')\<rparr>"
  obtain e w' where run: "configure_s3_connection ?c ?w = (Err e, w')"
    by (simp add: configure_s3_connection_def bind_op_def perform_def)
  then show ?thesis
    using s3_failure_hides_credentials [OF run] by (intro exI [of _ ?c] exI [of _ ?w]) auto
qed

end
