(* ===== verification/Project_Store.thy ===== *)
theory Project_Store
  imports Sql_Text
begin

section \<open>The project store (\<open>project.rs\<close>, \<open>write.rs\<close>, \<open>rows.rs\<close>, \<open>time.rs\<close>)\<close>

text \<open>
  The four tables of \<open>create_v1_tables\<close> as lists of rows in insertion order (the order of
  \<open>rowid\<close>), and every statement of \<open>ProjectConnection\<close> and \<open>NativeWriteStore\<close> as an operation on
  them. DuckDB and the clock are the environment: \<open>st_faults\<close> says which of the coming
  statements fail (a failing statement changes nothing), \<open>st_clock\<close> holds the coming readings of
  \<open>Utc::now()\<close>, and \<open>duck_env\<close> holds what the library alone decides: the milliseconds chrono
  accepts, the order of doubles, the rows that a dropped appender leaves behind, and the text
  of its no-rows error. A timestamp is stored as its milliseconds: the code writes it as RFC 3339
  text and reads it with \<open>epoch_ms\<close>.
\<close>

record point_row =
  pr_run_id :: run_id
  pr_metric_key :: metric_key
  pr_key_encoded :: string
  pr_step :: i64
  pr_timestamp :: int
  pr_value :: f64
  pr_ingested_at :: int

record stored_run =
  sr_run_id :: string
  sr_project_id :: string
  sr_name :: string
  sr_status :: string
  sr_created_at_millis :: int
  sr_started_at_millis :: int
  sr_finished_at_millis :: "int option"

record stored_metric_aggregate =
  sa_run_id :: string
  sa_metric_key :: string
  sa_effective_count :: u64
  sa_last_step :: i64
  sa_last_value :: f64
  sa_min_value :: f64
  sa_max_value :: f64

record metric_write =
  mw_run_id :: string
  mw_metric_key :: string
  mw_step :: i64
  mw_timestamp_millis :: i64
  mw_value :: f64
  mw_ingested_at_millis :: i64

record duck_env =
  de_ts_ok :: "int \<Rightarrow> bool"
  de_dbl_cmp :: "f64 \<Rightarrow> f64 \<Rightarrow> ordering"
  de_on_drop :: "point_row list \<Rightarrow> point_row list"
  de_no_rows :: string

record store =
  st_projects :: "project list"
  st_runs :: "stored_run list"
  st_points :: "point_row list"
  st_aggregates :: "stored_metric_aggregate list"
  st_faults :: "string option list"
  st_clock :: "int list"
  st_env :: duck_env

subsection \<open>Statements, clock and timestamps\<close>

definition exec :: "(store \<Rightarrow> 'a \<times> store) \<Rightarrow> (store, storage_error, 'a) op" where
  "exec f s = (case st_faults s of
       [] \<Rightarrow> (let (x, s') = f s in (Ok x, s'))
     | None # fs \<Rightarrow> (let (x, s') = f (s\<lparr>st_faults := fs\<rparr>) in (Ok x, s'))
     | Some e # fs \<Rightarrow> (Err (SE_DuckDb (DuckDb_Other e)), s\<lparr>st_faults := fs\<rparr>))"

definition query :: "(store \<Rightarrow> 'a) \<Rightarrow> (store, storage_error, 'a) op" where
  "query f = exec (\<lambda>s. (f s, s))"

definition update :: "(store \<Rightarrow> store) \<Rightarrow> (store, storage_error, unit) op" where
  "update f = exec (\<lambda>s. ((), f s))"

definition now_millis :: "store \<Rightarrow> int \<times> store" where
  "now_millis s = (case st_clock s of [] \<Rightarrow> (0, s) | t # ts \<Rightarrow> (t, s\<lparr>st_clock := ts\<rparr>))"

definition timestamp_from_millis :: "duck_env \<Rightarrow> string \<Rightarrow> int \<Rightarrow> (storage_error, datetime) res" where
  "timestamp_from_millis env field millis =
     (if de_ts_ok env millis then Ok millis else Err (SE_InvalidTimestamp field millis))"

definition current_timestamp :: "string \<Rightarrow> (store, storage_error, datetime) op" where
  "current_timestamp field s =
     (let (t, s') = now_millis s in (timestamp_from_millis (st_env s) field t, s'))"

definition env_lift :: "(duck_env \<Rightarrow> ('e, 'a) res) \<Rightarrow> (store, 'e, 'a) op" where
  "env_lift f s = (f (st_env s), s)"

definition into_run :: "duck_env \<Rightarrow> stored_run \<Rightarrow> (storage_error, run) res" where
  "into_run env sr =
     bind_r (run_status_from_str (sr_status sr)) (\<lambda>status.
     bind_r (timestamp_from_millis env ''created_at'' (sr_created_at_millis sr)) (\<lambda>created_at.
     bind_r (timestamp_from_millis env ''started_at'' (sr_started_at_millis sr)) (\<lambda>started_at.
     bind_r (case sr_finished_at_millis sr of
               None \<Rightarrow> Ok None
             | Some m \<Rightarrow> map_r Some (timestamp_from_millis env ''finished_at'' m)) (\<lambda>finished_at.
     Ok \<lparr>r_run_id = sr_run_id sr, r_project_id = sr_project_id sr, r_name = sr_name sr,
         r_status = status, r_created_at = created_at, r_started_at = started_at,
         r_finished_at = finished_at\<rparr>))))"

definition into_metric_aggregate :: "stored_metric_aggregate \<Rightarrow> metric_aggregate" where
  "into_metric_aggregate a =
     \<lparr>ma_run_id = sa_run_id a, ma_metric_key = sa_metric_key a,
      ma_effective_count = sa_effective_count a, ma_last_step = sa_last_step a,
      ma_last_value = sa_last_value a, ma_min_value = sa_min_value a, ma_max_value = sa_max_value a\<rparr>"

subsection \<open>Projects\<close>

definition store_create_project :: "project \<Rightarrow> (store, storage_error, unit) op" where
  "store_create_project p = update (\<lambda>s. s\<lparr>st_projects := st_projects s @ [p]\<rparr>)"

definition read_project :: "project \<Rightarrow> (store, storage_error, project) op" where
  "read_project p = bind_op (env_lift (\<lambda>env. timestamp_from_millis env ''created_at'' (p_created_at p)))
     (\<lambda>t. ret_op (p\<lparr>p_created_at := t\<rparr>))"

definition store_get_project :: "project_id \<Rightarrow> (store, storage_error, project option) op" where
  "store_get_project pid =
     bind_op (query (\<lambda>s. find (\<lambda>p. p_project_id p = pid) (st_projects s)))
       (\<lambda>row. case row of None \<Rightarrow> ret_op None | Some p \<Rightarrow> bind_op (read_project p) (\<lambda>p. ret_op (Some p)))"

definition project_order :: "project \<Rightarrow> project \<Rightarrow> ordering" where
  "project_order a b = then_with (cmp_of (p_created_at a) (p_created_at b))
                                 (str_cmp (p_project_id a) (p_project_id b))"

definition store_list_projects :: "(store, storage_error, project list) op" where
  "store_list_projects = bind_op (query (\<lambda>s. sort_by project_order (st_projects s))) (mapM_op read_project)"

definition store_project_exists :: "project_id \<Rightarrow> (store, storage_error, bool) op" where
  "store_project_exists pid = query (\<lambda>s. list_ex (\<lambda>p. p_project_id p = pid) (st_projects s))"

subsection \<open>Runs\<close>

definition run_exists :: "run_id \<Rightarrow> (store, storage_error, bool) op" where
  "run_exists rid =
     bind_op (query (\<lambda>s. int (length (filter (\<lambda>r. sr_run_id r = rid) (st_runs s)))))
       (\<lambda>n. ret_op (0 < n))"

definition write_create_run ::
  "project_id \<Rightarrow> string \<Rightarrow> run_id \<Rightarrow> (store, storage_error, run) op" where
  "write_create_run pid name rid =
     bind_op (run_exists rid) (\<lambda>found.
     if found then fail_op (SE_RunAlreadyExists rid)
     else bind_op (current_timestamp ''created_at'') (\<lambda>now.
          bind_op (update (\<lambda>s. s\<lparr>st_runs := st_runs s @
             [\<lparr>sr_run_id = rid, sr_project_id = pid, sr_name = name,
               sr_status = status_as_str Running, sr_created_at_millis = now,
               sr_started_at_millis = now, sr_finished_at_millis = None\<rparr>]\<rparr>)) (\<lambda>_.
          ret_op \<lparr>r_run_id = rid, r_project_id = pid, r_name = name, r_status = Running,
                  r_created_at = now, r_started_at = now, r_finished_at = None\<rparr>)))"

definition store_get_run :: "run_id \<Rightarrow> (store, storage_error, run) op" where
  "store_get_run rid =
     bind_op (query (\<lambda>s. find (\<lambda>r. sr_run_id r = rid) (st_runs s)))
       (\<lambda>row. case row of
          None \<Rightarrow> fail_op (SE_RunNotFound rid)
        | Some sr \<Rightarrow> env_lift (\<lambda>env. into_run env sr))"

definition requested_rows :: "stored_run list \<Rightarrow> run_id list \<Rightarrow> (run_id \<times> stored_run option) list" where
  "requested_rows runs ids = concat (map (\<lambda>rid.
     (case filter (\<lambda>r. sr_run_id r = rid) runs of
        [] \<Rightarrow> [(rid, None)]
      | rs \<Rightarrow> map (\<lambda>r. (rid, Some r)) rs)) ids)"

definition read_requested :: "run_id \<times> stored_run option \<Rightarrow> (store, storage_error, run) op" where
  "read_requested row = (case row of
       (rid, None) \<Rightarrow> fail_op (SE_RunNotFound rid)
     | (rid, Some sr) \<Rightarrow> env_lift (\<lambda>env. into_run env (sr\<lparr>sr_run_id := rid\<rparr>)))"

definition store_get_runs :: "run_id list \<Rightarrow> (store, storage_error, run list) op" where
  "store_get_runs ids =
     (if ids = [] then ret_op []
      else bind_op (query (\<lambda>s. requested_rows (st_runs s) ids)) (mapM_op read_requested))"

definition run_row_order :: "stored_run \<Rightarrow> stored_run \<Rightarrow> ordering" where
  "run_row_order a b = then_with (cmp_of (sr_created_at_millis a) (sr_created_at_millis b))
                                 (str_cmp (sr_run_id a) (sr_run_id b))"

definition store_list_runs ::
  "project_id \<Rightarrow> run_status option \<Rightarrow> nat option \<Rightarrow> nat \<Rightarrow> (store, storage_error, run list) op" where
  "store_list_runs pid status limit offset =
     bind_op (query (\<lambda>s.
       let rows = sort_by run_row_order (filter (\<lambda>r. sr_project_id r = pid \<and>
                    (case status of None \<Rightarrow> True | Some st \<Rightarrow> sr_status r = status_as_str st)) (st_runs s));
           skipped = drop offset rows
       in map sr_run_id (case limit of None \<Rightarrow> skipped | Some n \<Rightarrow> take n skipped)))
     (mapM_op store_get_run)"

definition store_list_orphan_runs :: "project_id option \<Rightarrow> (store, storage_error, run list) op" where
  "store_list_orphan_runs project =
     bind_op (query (\<lambda>s. map sr_run_id (sort_by run_row_order (filter (\<lambda>r. sr_status r = ''running'' \<and>
        (case project of None \<Rightarrow> True | Some pid \<Rightarrow> sr_project_id r = pid)) (st_runs s)))))
     (mapM_op store_get_run)"

definition mark_row :: "run_id \<Rightarrow> run_status \<Rightarrow> datetime \<Rightarrow> stored_run \<Rightarrow> stored_run" where
  "mark_row rid status finished_at r =
     (if sr_run_id r = rid \<and> sr_status r = ''running''
      then r\<lparr>sr_status := status_as_str status, sr_finished_at_millis := Some finished_at\<rparr> else r)"

definition store_mark_run_terminal ::
  "run_id \<Rightarrow> run_status \<Rightarrow> datetime \<Rightarrow> (store, storage_error, bool) op" where
  "store_mark_run_terminal rid status finished_at = exec (\<lambda>s.
     (list_ex (\<lambda>r. sr_run_id r = rid \<and> sr_status r = ''running'') (st_runs s),
      s\<lparr>st_runs := map (mark_row rid status finished_at) (st_runs s)\<rparr>))"

definition store_flush_metric_points :: "(store, storage_error, unit) op" where
  "store_flush_metric_points = update (\<lambda>s. s)"

subsection \<open>Metric points\<close>

definition point_of_write :: "metric_write \<Rightarrow> point_row" where
  "point_of_write w =
     \<lparr>pr_run_id = mw_run_id w, pr_metric_key = mw_metric_key w,
      pr_key_encoded = percent_encode_metric_key (mw_metric_key w), pr_step = mw_step w,
      pr_timestamp = mw_timestamp_millis w, pr_value = mw_value w,
      pr_ingested_at = mw_ingested_at_millis w\<rparr>"

text \<open>The rows reach the table at the flush; a failure before drops the appender.\<close>

fun append_rows :: "point_row list \<Rightarrow> metric_write list \<Rightarrow> (store, storage_error, point_row list) op" where
  "append_rows acc [] = ret_op acc"
| "append_rows acc (w # ws) = (\<lambda>s.
     (case bind_op (env_lift (\<lambda>env. timestamp_from_millis env ''timestamp'' (mw_timestamp_millis w))) (\<lambda>_.
           bind_op (env_lift (\<lambda>env. timestamp_from_millis env ''ingested_at'' (mw_ingested_at_millis w))) (\<lambda>_.
           update (\<lambda>s. s))) s of
        (Inl e, s') \<Rightarrow> (Err e, s'\<lparr>st_points := st_points s' @ de_on_drop (st_env s') acc\<rparr>)
      | (Inr _, s') \<Rightarrow> append_rows (acc @ [point_of_write w]) ws s'))"

definition append_flush :: "point_row list \<Rightarrow> (store, storage_error, unit) op" where
  "append_flush rows s =
     (case update (\<lambda>s. s\<lparr>st_points := st_points s @ rows\<rparr>) s of
        (Inl e, s') \<Rightarrow> (Err e, s'\<lparr>st_points := st_points s' @ de_on_drop (st_env s') rows\<rparr>)
      | (Inr u, s') \<Rightarrow> (Ok u, s'))"

definition append_metric_batch :: "metric_write list \<Rightarrow> (store, storage_error, unit) op" where
  "append_metric_batch ws =
     bind_op (update (\<lambda>s. s)) (\<lambda>_. bind_op (append_rows [] ws) append_flush)"

definition log_metric_at_step_with_timestamps ::
  "run_id \<Rightarrow> metric_key \<Rightarrow> step \<Rightarrow> f64 \<Rightarrow> datetime \<Rightarrow> datetime \<Rightarrow> (store, storage_error, metric_point) op" where
  "log_metric_at_step_with_timestamps rid key stp v timestamp ingested_at =
     bind_op (update (\<lambda>s. s\<lparr>st_points := st_points s @
        [\<lparr>pr_run_id = rid, pr_metric_key = key, pr_key_encoded = percent_encode_metric_key key,
          pr_step = stp, pr_timestamp = timestamp, pr_value = v, pr_ingested_at = ingested_at\<rparr>]\<rparr>))
     (\<lambda>_. ret_op \<lparr>mp_run_id = rid, mp_metric_key = key, mp_step = stp, mp_timestamp = timestamp,
                  mp_value = v, mp_ingested_at = ingested_at\<rparr>)"

definition write_log_metric_at_step ::
  "run_id \<Rightarrow> metric_key \<Rightarrow> step \<Rightarrow> f64 \<Rightarrow> (store, storage_error, metric_point) op" where
  "write_log_metric_at_step rid key stp v =
     bind_op (current_timestamp ''timestamp'') (\<lambda>timestamp.
     bind_op (current_timestamp ''ingested_at'') (\<lambda>ingested_at.
     log_metric_at_step_with_timestamps rid key stp v timestamp ingested_at))"

subsection \<open>The effective series and its aggregates\<close>

text \<open>
  \<open>row_number() OVER (PARTITION BY run_id, metric_key, step ORDER BY ingested_at DESC, rowid
  DESC) = 1\<close>: the row that no row of its partition outranks. \<open>outranked before r after\<close> looks
  at the rows inserted before and after \<open>r\<close>.
\<close>

definition same_point :: "point_row \<Rightarrow> point_row \<Rightarrow> bool" where
  "same_point a b \<longleftrightarrow> pr_run_id a = pr_run_id b \<and> pr_metric_key a = pr_metric_key b \<and> pr_step a = pr_step b"

definition outranked :: "point_row list \<Rightarrow> point_row \<Rightarrow> point_row list \<Rightarrow> bool" where
  "outranked before r after \<longleftrightarrow>
     list_ex (\<lambda>b. same_point b r \<and> pr_ingested_at r < pr_ingested_at b) before \<or>
     list_ex (\<lambda>a. same_point a r \<and> pr_ingested_at r \<le> pr_ingested_at a) after"

fun effective_from :: "point_row list \<Rightarrow> point_row list \<Rightarrow> point_row list" where
  "effective_from before [] = []"
| "effective_from before (r # after) =
     (if outranked before r after then effective_from (before @ [r]) after
      else r # effective_from (before @ [r]) after)"

definition effective :: "point_row list \<Rightarrow> point_row list" where
  "effective rows = effective_from [] rows"

definition max_by :: "('a \<Rightarrow> 'a \<Rightarrow> ordering) \<Rightarrow> 'a \<Rightarrow> 'a list \<Rightarrow> 'a" where
  "max_by c = min_by (\<lambda>a b. c b a)"

text \<open>One aggregate row from the effective rows \<open>r # rs\<close> of one series.\<close>

definition aggregate_rows :: "duck_env \<Rightarrow> point_row \<Rightarrow> point_row list \<Rightarrow> stored_metric_aggregate" where
  "aggregate_rows env r rs =
     (let last = max_by (\<lambda>a b. cmp_of (pr_step a) (pr_step b)) r rs in
      \<lparr>sa_run_id = pr_run_id r, sa_metric_key = pr_metric_key r,
       sa_effective_count = of_nat (length (r # rs)), sa_last_step = pr_step last,
       sa_last_value = pr_value last,
       sa_min_value = min_by (de_dbl_cmp env) (pr_value r) (map pr_value rs),
       sa_max_value = max_by (de_dbl_cmp env) (pr_value r) (map pr_value rs)\<rparr>)"

definition aggregate_series :: "duck_env \<Rightarrow> point_row list \<Rightarrow> run_id \<Rightarrow> metric_key \<Rightarrow> stored_metric_aggregate list" where
  "aggregate_series env rows rid key =
     (case filter (\<lambda>r. pr_run_id r = rid \<and> pr_metric_key r = key) (effective rows) of
        [] \<Rightarrow> []
      | r # rs \<Rightarrow> [aggregate_rows env r rs])"

definition series_keys :: "point_row list \<Rightarrow> run_id \<Rightarrow> metric_key list" where
  "series_keys rows rid = remdups (map pr_metric_key (filter (\<lambda>r. pr_run_id r = rid) rows))"

definition aggregates_of_run :: "duck_env \<Rightarrow> point_row list \<Rightarrow> run_id \<Rightarrow> stored_metric_aggregate list" where
  "aggregates_of_run env rows rid = concat (map (aggregate_series env rows rid) (series_keys rows rid))"

definition rebuild_metric_aggregates_for_run :: "run_id \<Rightarrow> (store, storage_error, unit) op" where
  "rebuild_metric_aggregates_for_run rid =
     bind_op (update (\<lambda>s. s\<lparr>st_aggregates := filter (\<lambda>a. sa_run_id a \<noteq> rid) (st_aggregates s)\<rparr>)) (\<lambda>_.
     update (\<lambda>s. s\<lparr>st_aggregates := st_aggregates s @ aggregates_of_run (st_env s) (st_points s) rid\<rparr>))"

subsection \<open>Running statements\<close>

lemma exec_Ok:
  "exec f s = (Ok x, s') \<longleftrightarrow>
   (\<exists>fs. (st_faults s = [] \<and> fs = [] \<or> st_faults s = None # fs) \<and> f (s\<lparr>st_faults := fs\<rparr>) = (x, s'))"
proof (cases "st_faults s")
  case Nil
  then have "s\<lparr>st_faults := []\<rparr> = s" by simp
  then have "f (s\<lparr>st_faults := []\<rparr>) = f s" by (rule arg_cong)
  with Nil show ?thesis by (simp add: exec_def split: prod.splits)
next
  case (Cons h fs)
  then show ?thesis by (cases h) (auto simp: exec_def split: prod.splits)
qed

lemma exec_Err:
  "exec f s = (Err e, s') \<longleftrightarrow>
   (\<exists>m fs. st_faults s = Some m # fs \<and> e = SE_DuckDb (DuckDb_Other m) \<and> s' = s\<lparr>st_faults := fs\<rparr>)"
  by (auto simp: exec_def split: list.splits option.splits prod.splits)

lemma env_lift_run [simp]: "env_lift f s = (f (st_env s), s)"
  by (simp add: env_lift_def)

lemma query_Ok:
  "query f s = (Ok x, s') \<longleftrightarrow>
   (\<exists>fs. (st_faults s = [] \<and> fs = [] \<or> st_faults s = None # fs) \<and>
         s' = s\<lparr>st_faults := fs\<rparr> \<and> x = f (s\<lparr>st_faults := fs\<rparr>))"
  by (auto simp: query_def exec_Ok)

lemma update_Ok:
  "update f s = (Ok x, s') \<longleftrightarrow>
   (\<exists>fs. (st_faults s = [] \<and> fs = [] \<or> st_faults s = None # fs) \<and> s' = f (s\<lparr>st_faults := fs\<rparr>))"
  by (auto simp: update_def exec_Ok)

lemma query_no_faults: "st_faults s = [] \<Longrightarrow> query f s = (Ok (f s), s)"
  by (simp add: query_def exec_def)

lemma update_no_faults: "st_faults s = [] \<Longrightarrow> update f s = (Ok (), f s)"
  by (simp add: update_def exec_def)

lemma timestamp_Ok [simp]: "timestamp_from_millis env field m = Ok t \<longleftrightarrow> de_ts_ok env m \<and> t = m"
  by (auto simp: timestamp_from_millis_def)

subsection \<open>Statements that only read\<close>

text \<open>Only the environment's scripts move.\<close>

definition same_tables :: "store \<Rightarrow> store \<Rightarrow> bool" where
  "same_tables s s' \<longleftrightarrow> st_projects s' = st_projects s \<and> st_runs s' = st_runs s \<and>
     st_points s' = st_points s \<and> st_aggregates s' = st_aggregates s \<and> st_env s' = st_env s"

lemma same_tables_frame [frame_simps]:
  assumes "same_tables s s'"
  shows "st_projects s' = st_projects s" "st_runs s' = st_runs s" "st_points s' = st_points s"
    "st_aggregates s' = st_aggregates s" "st_env s' = st_env s"
  using assms by (simp_all add: same_tables_def)

interpretation reading: state_preorder same_tables
  by unfold_locales (simp_all add: same_tables_def)

lemma same_tables_scripts [simp]:
  "same_tables s (s\<lparr>st_faults := fs\<rparr>)" "same_tables s (s\<lparr>st_clock := cs\<rparr>)"
  by (simp_all add: same_tables_def)

lemma now_millis_frame: "now_millis s = (t, s') \<Longrightarrow> same_tables s s'"
  by (auto simp: now_millis_def same_tables_def split: list.splits)

lemma current_timestamp_frame: "current_timestamp field s = (r, s') \<Longrightarrow> same_tables s s'"
  by (auto simp: current_timestamp_def split: prod.splits dest: now_millis_frame)

lemma steps_query: "steps_op same_tables (query f)"
proof (rule steps_opI)
  fix s r s' assume run: "query f s = (r, s')"
  show "same_tables s s'"
  proof (cases r)
    case (Inl e)
    then show ?thesis using run by (auto simp: query_def exec_Err)
  next
    case (Inr x)
    then show ?thesis using run by (auto simp: query_Ok)
  qed
qed

lemma steps_env_lift: "steps_op same_tables (env_lift f)"
  by (simp add: steps_op_def reading.refl_state)

lemma steps_current_timestamp: "steps_op same_tables (current_timestamp field)"
  by (rule steps_opI) (rule current_timestamp_frame)

lemmas read_rules = steps_query steps_env_lift steps_current_timestamp reading.steps_rules

lemma reads:
  "steps_op same_tables (store_get_project pid)"
  "steps_op same_tables store_list_projects"
  "steps_op same_tables (store_project_exists pid)"
  "steps_op same_tables (run_exists rid)"
  "steps_op same_tables (store_get_run rid)"
  "steps_op same_tables (store_get_runs ids)"
  "steps_op same_tables (store_list_runs pid status limit offset)"
  "steps_op same_tables (store_list_orphan_runs project)"
  unfolding store_get_project_def store_list_projects_def store_project_exists_def run_exists_def
    store_get_run_def store_get_runs_def store_list_runs_def store_list_orphan_runs_def
    read_project_def read_requested_def
  by (intro read_rules allI; (simp split: prod.split option.split)?; intro read_rules allI conjI impI)+

subsection \<open>What no operation can undo\<close>

text \<open>
  Projects and points are only appended, and a run row keeps its identity; its status changes
  only while it is \<open>running\<close>.
\<close>

definition run_row_le :: "stored_run \<Rightarrow> stored_run \<Rightarrow> bool" where
  "run_row_le a b \<longleftrightarrow> b = a \<or>
     (sr_status a = ''running'' \<and> sr_run_id b = sr_run_id a \<and> sr_project_id b = sr_project_id a \<and>
      sr_name b = sr_name a \<and> sr_created_at_millis b = sr_created_at_millis a \<and>
      sr_started_at_millis b = sr_started_at_millis a)"

definition grows :: "'a list \<Rightarrow> 'a list \<Rightarrow> bool" where
  "grows xs ys \<longleftrightarrow> (\<exists>zs. ys = xs @ zs)"

definition runs_le :: "stored_run list \<Rightarrow> stored_run list \<Rightarrow> bool" where
  "runs_le rs rs' \<longleftrightarrow> (\<exists>us ts. rs' = us @ ts \<and> list_all2 run_row_le rs us)"

definition store_le :: "store \<Rightarrow> store \<Rightarrow> bool" where
  "store_le s s' \<longleftrightarrow> grows (st_projects s) (st_projects s') \<and> grows (st_points s) (st_points s') \<and>
     runs_le (st_runs s) (st_runs s') \<and> st_env s' = st_env s"

lemma run_row_le_refl [simp]: "run_row_le a a"
  by (simp add: run_row_le_def)

lemma run_row_le_trans: "run_row_le a b \<Longrightarrow> run_row_le b c \<Longrightarrow> run_row_le a c"
  by (auto simp: run_row_le_def)

lemma grows_refl [simp]: "grows xs xs" and grows_append [simp]: "grows xs (xs @ ys)"
  by (simp_all add: grows_def)

lemma grows_trans: "grows a b \<Longrightarrow> grows b c \<Longrightarrow> grows a c"
  by (auto simp: grows_def)

lemma runs_le_refl [simp]: "runs_le rs rs"
  unfolding runs_le_def by (rule exI [of _ rs]) (simp add: list_all2_same)

lemma runs_le_append [simp]: "runs_le rs (rs @ ts)"
  unfolding runs_le_def by (rule exI [of _ rs]) (simp add: list_all2_same)

lemma runs_le_trans:
  assumes "runs_le a b" and "runs_le b c"
  shows "runs_le a c"
proof -
  obtain us ts where b: "b = us @ ts" "list_all2 run_row_le a us" using assms(1) by (auto simp: runs_le_def)
  obtain vs ws where c: "c = vs @ ws" "list_all2 run_row_le b vs" using assms(2) by (auto simp: runs_le_def)
  obtain v1 v2 where v: "vs = v1 @ v2" "list_all2 run_row_le us v1"
    using c(2) b(1) by (auto simp: list_all2_append1)
  have "list_all2 run_row_le a v1" by (rule list_all2_trans [OF run_row_le_trans b(2) v(2)])
  with c(1) v(1) show ?thesis by (auto simp: runs_le_def)
qed

lemma runs_le_mark: "runs_le rs (map (mark_row rid status t) rs)"
  unfolding runs_le_def
  by (rule exI [of _ "map (mark_row rid status t) rs"])
     (auto simp: list_all2_conv_all_nth mark_row_def run_row_le_def)

interpretation growth: state_preorder store_le
  by unfold_locales
     (auto simp: store_le_def intro: grows_trans runs_le_trans)

lemma same_tables_le: "same_tables s s' \<Longrightarrow> store_le s s'"
  by (simp add: store_le_def same_tables_def)

lemma steps_le_read: "steps_op same_tables m \<Longrightarrow> steps_op store_le m"
  by (simp add: steps_op_def same_tables_le)

lemma steps_exec_le:
  assumes "\<And>s. store_le s (snd (f s))"
  shows "steps_op store_le (exec f)"
proof (rule steps_opI)
  fix s r s' assume run: "exec f s = (r, s')"
  show "store_le s s'"
  proof (cases r)
    case (Inl e)
    then show ?thesis using run by (auto simp: exec_Err same_tables_le)
  next
    case (Inr x)
    then obtain fs where "f (s\<lparr>st_faults := fs\<rparr>) = (x, s')" using run by (auto simp: exec_Ok)
    then have "store_le (s\<lparr>st_faults := fs\<rparr>) s'" using assms [of "s\<lparr>st_faults := fs\<rparr>"] by simp
    then show ?thesis
      using growth.trans_state [OF same_tables_le [OF same_tables_scripts(1)]] by blast
  qed
qed

lemma steps_update_le: "(\<And>s. store_le s (f s)) \<Longrightarrow> steps_op store_le (update f)"
  unfolding update_def by (rule steps_exec_le) simp

lemma store_le_points: "store_le s s' \<Longrightarrow> store_le s (s'\<lparr>st_points := st_points s' @ ps\<rparr>)"
  by (auto simp: store_le_def intro: grows_trans)

lemma steps_append_rows: "steps_op store_le (append_rows acc ws)"
proof (induction ws arbitrary: acc)
  case Nil
  show ?case unfolding append_rows.simps by (rule growth.steps_ret)
next
  case (Cons w ws)
  let ?m = "bind_op (env_lift (\<lambda>env. timestamp_from_millis env ''timestamp'' (mw_timestamp_millis w))) (\<lambda>_.
           bind_op (env_lift (\<lambda>env. timestamp_from_millis env ''ingested_at'' (mw_ingested_at_millis w))) (\<lambda>_.
           update (\<lambda>s. s)))"
  have m: "steps_op store_le ?m"
    by (intro growth.steps_bind steps_le_read steps_env_lift steps_update_le growth.refl_state)
  show ?case
  proof (rule steps_opI)
    fix s r s' assume run: "append_rows acc (w # ws) s = (r, s')"
    obtain r1 s1 where r1: "?m s = (r1, s1)" by fastforce
    have le: "store_le s s1" by (rule steps_opD [OF m r1])
    show "store_le s s'"
    proof (cases r1)
      case (Inl e)
      then show ?thesis using run r1 store_le_points [OF le] by auto
    next
      case (Inr u)
      then have "append_rows (acc @ [point_of_write w]) ws s1 = (r, s')" using run r1 by simp
      then show ?thesis using growth.trans_state [OF le] steps_opD [OF Cons.IH] by blast
    qed
  qed
qed

lemma steps_append_flush: "steps_op store_le (append_flush rows)"
proof (rule steps_opI)
  fix s r s' assume run: "append_flush rows s = (r, s')"
  let ?u = "update (\<lambda>s. s\<lparr>st_points := st_points s @ rows\<rparr>)"
  obtain r1 s1 where r1: "?u s = (r1, s1)" by fastforce
  have "steps_op store_le ?u" by (intro steps_update_le store_le_points growth.refl_state)
  then have le: "store_le s s1" using r1 by (rule steps_opD)
  show "store_le s s'"
    using run r1 le store_le_points [OF le] by (cases r1) (auto simp: append_flush_def)
qed

lemma store_writes:
  "steps_op store_le (store_create_project p)"
  "steps_op store_le (write_create_run pid name rid)"
  "steps_op store_le (store_mark_run_terminal rid status t)"
  "steps_op store_le store_flush_metric_points"
  "steps_op store_le (append_metric_batch ws)"
  "steps_op store_le (log_metric_at_step_with_timestamps rid key stp v ts ing)"
  "steps_op store_le (write_log_metric_at_step rid key stp v)"
  "steps_op store_le (rebuild_metric_aggregates_for_run rid)"
  unfolding store_create_project_def write_create_run_def store_mark_run_terminal_def
    store_flush_metric_points_def append_metric_batch_def log_metric_at_step_with_timestamps_def
    write_log_metric_at_step_def rebuild_metric_aggregates_for_run_def
  by (intro growth.steps_rules steps_le_read reads steps_current_timestamp steps_append_rows
        steps_append_flush steps_update_le steps_exec_le;
      simp add: store_le_def runs_le_mark)+

lemmas store_steps = store_writes reads [THEN steps_le_read]

subsection \<open>Identity of runs\<close>

definition unique_runs :: "store \<Rightarrow> bool" where
  "unique_runs s \<longleftrightarrow> distinct (map sr_run_id (st_runs s))"

lemma unique_runs_same: "same_tables s s' \<Longrightarrow> unique_runs s' = unique_runs s"
  by (simp add: unique_runs_def same_tables_def)

lemma run_exists_Ok:
  assumes "run_exists rid s = (Ok b, s')"
  shows "same_tables s s' \<and> (b \<longleftrightarrow> rid \<in> sr_run_id ` set (st_runs s))"
proof -
  have "same_tables s s'" using assms reads(4) by (rule steps_opD [rotated])
  moreover have "b \<longleftrightarrow> filter (\<lambda>r. sr_run_id r = rid) (st_runs s) \<noteq> []"
    using assms by (auto simp: run_exists_def bind_op_Ok query_Ok)
  ultimately show ?thesis by (auto simp: filter_empty_conv)
qed

lemma create_run_outcome:
  assumes "write_create_run pid name rid s = (r, s')"
  shows "same_tables s s' \<or>
         (rid \<notin> sr_run_id ` set (st_runs s) \<and> (\<exists>now. r = Ok \<lparr>r_run_id = rid, r_project_id = pid, r_name = name,
              r_status = Running, r_created_at = now, r_started_at = now, r_finished_at = None\<rparr> \<and> de_ts_ok (st_env s) now \<and>
            st_runs s' = st_runs s @ [\<lparr>sr_run_id = rid, sr_project_id = pid, sr_name = name,
              sr_status = ''running'', sr_created_at_millis = now, sr_started_at_millis = now,
              sr_finished_at_millis = None\<rparr>] \<and>
            st_points s' = st_points s \<and> st_env s' = st_env s))"
  using assms unfolding write_create_run_def
proof (cases rule: bind_op_cases)
  case (err e)
  then show ?thesis using steps_opD [OF reads(4)] by blast
next
  case (ok found s1)
  note ex = run_exists_Ok [OF ok(1)]
  show ?thesis
  proof (cases found)
    case True
    then show ?thesis using ok(2) ex by simp
  next
    case False
    with ok(2) have "bind_op (current_timestamp ''created_at'') (\<lambda>now.
          bind_op (update (\<lambda>s. s\<lparr>st_runs := st_runs s @
             [\<lparr>sr_run_id = rid, sr_project_id = pid, sr_name = name,
               sr_status = status_as_str Running, sr_created_at_millis = now,
               sr_started_at_millis = now, sr_finished_at_millis = None\<rparr>]\<rparr>)) (\<lambda>_.
          ret_op \<lparr>r_run_id = rid, r_project_id = pid, r_name = name, r_status = Running,
                  r_created_at = now, r_started_at = now, r_finished_at = None\<rparr>)) s1 = (r, s')" by simp
    then show ?thesis
    proof (cases rule: bind_op_cases)
      case (err e)
      have "same_tables s1 s'" by (rule current_timestamp_frame [OF err(1)])
      then show ?thesis using ex reading.trans_state by blast
    next
      case (ok now s2)
      have s2: "same_tables s s2"
        using reading.trans_state [OF conjunct1 [OF ex] current_timestamp_frame [OF ok(1)]] .
      have now: "de_ts_ok (st_env s) now"
        using ok(1) ex by (auto simp: current_timestamp_def same_tables_def now_millis_def split: prod.splits list.splits)
      from ok(2) show ?thesis
      proof (cases rule: bind_op_cases)
        case (err e)
        then have "same_tables s2 s'" by (auto simp: update_def exec_Err)
        then show ?thesis using s2 reading.trans_state by blast
      next
        case (ok u s3)
        then show ?thesis using s2 now ex False by (auto simp: update_Ok same_tables_def)
      qed
    qed
  qed
qed

lemma create_run_unique:
  "unique_runs s \<Longrightarrow> write_create_run pid name rid s = (r, s') \<Longrightarrow> unique_runs s'"
  using create_run_outcome [of pid name rid s r s'] by (auto simp: unique_runs_def same_tables_def)

lemma into_run_id: "into_run env sr = Ok r \<Longrightarrow> r_run_id r = sr_run_id sr"
  by (auto simp: into_run_def bind_r_eq_Inr)

lemma into_run_fields:
  "into_run env sr = Ok r \<Longrightarrow> r_project_id r = sr_project_id sr \<and> r_name r = sr_name sr \<and>
     sr_status sr = status_as_str (r_status r)"
  by (auto simp: into_run_def bind_r_eq_Inr run_status_from_str_Ok)

lemma store_get_run_Ok:
  assumes "store_get_run rid s = (Ok r, s')"
  shows "same_tables s s' \<and> r_run_id r = rid \<and>
         (\<exists>sr \<in> set (st_runs s). sr_run_id sr = rid \<and> into_run (st_env s) sr = Ok r)"
proof -
  have same: "same_tables s s'" using assms reads(5) by (rule steps_opD [rotated])
  obtain row s1 where row: "query (\<lambda>s. find (\<lambda>r. sr_run_id r = rid) (st_runs s)) s = (Ok row, s1)"
      and rest: "(case row of None \<Rightarrow> fail_op (SE_RunNotFound rid) | Some sr \<Rightarrow> env_lift (\<lambda>env. into_run env sr)) s1
                 = (Ok r, s')"
    using assms by (auto simp: store_get_run_def bind_op_Ok)
  obtain sr where sr: "row = Some sr" "into_run (st_env s1) sr = Ok r" using rest by (cases row) auto
  have "find (\<lambda>r. sr_run_id r = rid) (st_runs s) = Some sr" "st_env s1 = st_env s"
    using row sr(1) by (auto simp: query_Ok)
  then show ?thesis using same sr(2) into_run_id by (auto simp: find_Some_iff)
qed

lemma requested_rows_ids:
  assumes "unique_runs s"
  shows "map fst (requested_rows (st_runs s) ids) = ids"
proof -
  have "length (filter (\<lambda>r. sr_run_id r = rid) (st_runs s)) \<le> 1" for rid
    using assms unfolding unique_runs_def
  proof (induction "st_runs s" arbitrary: s)
    case Nil
    then show ?case by simp
  next
    case (Cons r rs)
    have "filter (\<lambda>q. sr_run_id q = sr_run_id r) rs = []"
      using Cons.prems Cons.hyps(2) by (metis (mono_tags, lifting) distinct.simps(2) filter_False image_eqI list.simps(9) set_map)
    then show ?case using Cons.hyps(1) [of "s\<lparr>st_runs := rs\<rparr>"] Cons.hyps(2) Cons.prems
      by (auto simp flip: Cons.hyps(2))
  qed
  then have one: "map fst (case filter (\<lambda>r. sr_run_id r = rid) (st_runs s) of
        [] \<Rightarrow> [(rid, None)] | rs \<Rightarrow> map (\<lambda>r. (rid, Some r)) rs) = [rid]" for rid
  proof (cases "filter (\<lambda>r. sr_run_id r = rid) (st_runs s)")
    case (Cons a as)
    then have "length (a # as) \<le> 1" using \<open>\<And>rid. length (filter (\<lambda>r. sr_run_id r = rid) (st_runs s)) \<le> 1\<close> by metis
    with Cons show ?thesis by simp
  qed simp
  show ?thesis by (induction ids) (simp_all add: requested_rows_def one)
qed

lemma read_requested_Ok:
  "read_requested row s = (Ok r, s') \<Longrightarrow> s' = s \<and> r_run_id r = fst row"
  by (cases row; cases "snd row") (auto simp: read_requested_def dest: into_run_id)

lemma mapM_read_requested:
  "mapM_op read_requested rows s = (Ok rs, s') \<Longrightarrow> s' = s \<and> map r_run_id rs = map fst rows"
proof (induction rows arbitrary: rs)
  case Nil
  then show ?case by simp
next
  case (Cons row rows)
  then obtain r s1 rs1 where "read_requested row s = (Ok r, s1)" "mapM_op read_requested rows s1 = (Ok rs1, s')"
      "rs = r # rs1" by (auto simp: bind_op_Ok)
  moreover from this have "s1 = s" "r_run_id r = fst row" using read_requested_Ok by blast+
  ultimately show ?case using Cons.IH [of rs1] by simp
qed

lemma store_get_runs_Ok:
  assumes "unique_runs s" and "store_get_runs ids s = (Ok rs, s')"
  shows "same_tables s s' \<and> map r_run_id rs = ids"
proof -
  have "same_tables s s'" using assms(2) reads(6) by (rule steps_opD [rotated])
  moreover have "map r_run_id rs = ids"
    using assms(2) requested_rows_ids [OF assms(1)]
    by (auto simp: store_get_runs_def bind_op_Ok query_Ok split: if_splits dest: mapM_read_requested)
  ultimately show ?thesis by blast
qed

lemma mark_terminal_Ok:
  assumes "store_mark_run_terminal rid status t s = (r, s')"
  shows "same_tables s s' \<or>
    (\<exists>b. r = Ok b \<and> (b \<longleftrightarrow> (\<exists>q \<in> set (st_runs s). sr_run_id q = rid \<and> sr_status q = ''running'')) \<and>
         st_runs s' = map (mark_row rid status t) (st_runs s) \<and> st_points s' = st_points s \<and>
         st_aggregates s' = st_aggregates s \<and> st_projects s' = st_projects s \<and> st_env s' = st_env s)"
proof (cases r)
  case (Inl e)
  then show ?thesis using assms by (auto simp: store_mark_run_terminal_def exec_Err)
next
  case (Inr b)
  then show ?thesis using assms
    by (auto simp: store_mark_run_terminal_def exec_Ok list_ex_iff)
qed

lemma mark_row_id [simp]: "sr_run_id (mark_row rid status t r) = sr_run_id r"
  by (simp add: mark_row_def)

lemma mark_unique: "unique_runs s \<Longrightarrow> store_mark_run_terminal rid status t s = (r, s') \<Longrightarrow> unique_runs s'"
  using mark_terminal_Ok [of rid status t s r s'] by (auto simp: unique_runs_def same_tables_def comp_def)

subsection \<open>The effective series\<close>

lemma same_point_refl [simp]: "same_point r r"
  by (simp add: same_point_def)

lemma same_point_sym: "same_point a b \<longleftrightarrow> same_point b a"
  by (auto simp: same_point_def)

lemma same_point_trans: "same_point a b \<Longrightarrow> same_point b c \<Longrightarrow> same_point a c"
  by (simp add: same_point_def)

lemma effective_from_snoc:
  "effective_from before (rows @ [w]) =
   filter (\<lambda>r. \<not> (same_point w r \<and> pr_ingested_at r \<le> pr_ingested_at w)) (effective_from before rows) @
   (if \<exists>b \<in> set (before @ rows). same_point b w \<and> pr_ingested_at w < pr_ingested_at b then [] else [w])"
proof (induction rows arbitrary: before)
  case Nil
  then show ?case by (auto simp: outranked_def list_ex_iff)
next
  case (Cons r rows)
  have "outranked before r (rows @ [w]) \<longleftrightarrow>
        outranked before r rows \<or> (same_point w r \<and> pr_ingested_at r \<le> pr_ingested_at w)"
    by (auto simp: outranked_def)
  then show ?case using Cons.IH [of "before @ [r]"] by simp
qed

lemma effective_snoc:
  "effective (rows @ [w]) =
   filter (\<lambda>r. \<not> (same_point w r \<and> pr_ingested_at r \<le> pr_ingested_at w)) (effective rows) @
   (if \<exists>b \<in> set rows. same_point b w \<and> pr_ingested_at w < pr_ingested_at b then [] else [w])"
  by (simp add: effective_def effective_from_snoc)

lemma effective_Nil [simp]: "effective [] = []"
  by (simp add: effective_def)

lemma effective_subset: "set (effective rows) \<subseteq> set rows"
proof (induction rows rule: rev_induct)
  case (snoc w rows)
  then show ?case by (auto simp: effective_snoc)
qed simp

lemma effective_latest:
  "r \<in> set (effective rows) \<Longrightarrow> b \<in> set rows \<Longrightarrow> same_point b r \<Longrightarrow> pr_ingested_at b \<le> pr_ingested_at r"
proof (induction rows rule: rev_induct)
  case (snoc w rows)
  then show ?case by (auto simp: effective_snoc not_less split: if_splits)
qed simp

lemma effective_covers:
  "b \<in> set rows \<Longrightarrow> \<exists>r \<in> set (effective rows). same_point b r"
proof (induction rows arbitrary: b rule: rev_induct)
  case Nil
  then show ?case by simp
next
  case (snoc w rows)
  show ?case
  proof (cases "\<exists>c \<in> set rows. same_point c w \<and> pr_ingested_at w < pr_ingested_at c")
    case True
    then obtain c where c: "c \<in> set rows" "same_point c w" "pr_ingested_at w < pr_ingested_at c" by blast
    define b' where "b' = (if b \<in> set rows then b else c)"
    have b': "b' \<in> set rows" "same_point b b'"
      using snoc.prems c same_point_sym by (auto simp: b'_def)
    obtain r where r: "r \<in> set (effective rows)" "same_point b' r" using snoc.IH [OF b'(1)] by blast
    have "pr_ingested_at w < pr_ingested_at r" if "same_point w r"
    proof -
      have "same_point c r" using c(2) that by (rule same_point_trans)
      then show ?thesis using effective_latest [OF r(1) c(1)] c(3) by simp
    qed
    then have "r \<in> set (effective (rows @ [w]))" using r(1) True by (auto simp: effective_snoc)
    then show ?thesis using same_point_trans [OF b'(2) r(2)] by blast
  next
    case False
    then have w: "w \<in> set (effective (rows @ [w]))" by (auto simp: effective_snoc)
    show ?thesis
    proof (cases "same_point b w")
      case True
      with w show ?thesis by blast
    next
      case bw: False
      then have "b \<in> set rows" using snoc.prems by auto
      then obtain r where r: "r \<in> set (effective rows)" "same_point b r" using snoc.IH by blast
      then have "\<not> same_point w r" using bw same_point_sym same_point_trans by blast
      with r show ?thesis by (auto simp: effective_snoc)
    qed
  qed
qed

definition point_id :: "point_row \<Rightarrow> run_id \<times> metric_key \<times> i64" where
  "point_id r = (pr_run_id r, pr_metric_key r, pr_step r)"

lemma same_point_id: "same_point a b \<longleftrightarrow> point_id a = point_id b"
  by (simp add: same_point_def point_id_def)

lemma effective_distinct: "distinct (map point_id (effective rows))"
proof (induction rows rule: rev_induct)
  case Nil
  then show ?case by simp
next
  case (snoc w rows)
  show ?case
  proof (cases "\<exists>b \<in> set rows. same_point b w \<and> pr_ingested_at w < pr_ingested_at b")
    case True
    then show ?thesis using snoc by (simp add: effective_snoc distinct_map_filter)
  next
    case False
    have "\<not> same_point w r"
      if "r \<in> set (effective rows)" "\<not> (same_point w r \<and> pr_ingested_at r \<le> pr_ingested_at w)" for r
      using that False effective_subset [of rows] same_point_sym by (auto simp: not_le)
    then show ?thesis using snoc False
      by (auto simp: effective_snoc distinct_map_filter same_point_id image_iff)
  qed
qed

lemma effective_ids: "point_id ` set (effective rows) = point_id ` set rows"
  using effective_subset [of rows] effective_covers [of _ rows] by (auto simp: same_point_id image_iff)

subsection \<open>Aggregates\<close>

lemma max_by_in: "max_by c x ys \<in> set (x # ys)"
  unfolding max_by_def by (rule min_by_in)

lemma max_by_key:
  "y \<in> set (x # ys) \<Longrightarrow> f y \<le> (f (max_by (\<lambda>a b. cmp_of (f a) (f b)) x ys) :: 'b :: linorder)"
proof (induction ys arbitrary: x y)
  case Nil
  then show ?case by (simp add: max_by_def)
next
  case (Cons z zs)
  define x' where "x' = (if f x < f z then z else x)"
  have m: "max_by (\<lambda>a b. cmp_of (f a) (f b)) x (z # zs) = max_by (\<lambda>a b. cmp_of (f a) (f b)) x' zs"
    by (simp add: max_by_def x'_def)
  have "f x \<le> f x'" "f z \<le> f x'" by (auto simp: x'_def)
  moreover have "f x' \<le> f (max_by (\<lambda>a b. cmp_of (f a) (f b)) x' zs)" by (rule Cons.IH) simp
  moreover have "f v \<le> f (max_by (\<lambda>a b. cmp_of (f a) (f b)) x' zs)" if "v \<in> set zs" for v
    by (rule Cons.IH) (simp add: that)
  ultimately show ?case unfolding m using Cons.prems by (auto dest: order_trans)
qed

abbreviation series :: "point_row list \<Rightarrow> run_id \<Rightarrow> metric_key \<Rightarrow> point_row list" where
  "series rows rid key \<equiv> filter (\<lambda>r. pr_run_id r = rid \<and> pr_metric_key r = key) rows"

lemma effective_series_steps:
  "pr_step ` set (series (effective rows) rid key) = pr_step ` set (series rows rid key)"
proof
  show "pr_step ` set (series (effective rows) rid key) \<subseteq> pr_step ` set (series rows rid key)"
    using effective_subset [of rows] by auto
  show "pr_step ` set (series rows rid key) \<subseteq> pr_step ` set (series (effective rows) rid key)"
  proof
    fix n assume "n \<in> pr_step ` set (series rows rid key)"
    then obtain b where b: "b \<in> set rows" "pr_run_id b = rid" "pr_metric_key b = key" "pr_step b = n" by auto
    obtain r where "r \<in> set (effective rows)" "same_point b r" using effective_covers [OF b(1)] by blast
    with b show "n \<in> pr_step ` set (series (effective rows) rid key)"
      by (auto simp: same_point_def image_iff intro!: bexI [of _ r])
  qed
qed

lemma effective_series_distinct: "distinct (map pr_step (series (effective rows) rid key))"
proof -
  have "inj_on pr_step (set (series (effective rows) rid key))"
    using effective_distinct [of rows] by (auto simp: distinct_map inj_on_def point_id_def)
  then show ?thesis using effective_distinct [of rows] by (auto simp: distinct_map)
qed

lemma effective_series_length:
  "length (series (effective rows) rid key) = card (pr_step ` set (series rows rid key))"
proof -
  have "length (series (effective rows) rid key) = card (set (map pr_step (series (effective rows) rid key)))"
    using distinct_card [OF effective_series_distinct] by simp
  then show ?thesis by (simp only: set_map effective_series_steps)
qed

lemma image_set_empty: "f ` set xs = g ` set ys \<Longrightarrow> xs = [] \<longleftrightarrow> ys = []"
  by (cases xs; cases ys) auto

lemma effective_series_empty: "series (effective rows) rid key = [] \<longleftrightarrow> series rows rid key = []"
  by (rule image_set_empty [OF effective_series_steps])

lemma aggregate_series_cases:
  assumes "series rows rid key \<noteq> []"
  obtains a last where "aggregate_series env rows rid key = [a]"
    "sa_run_id a = rid" "sa_metric_key a = key"
    "sa_effective_count a = of_nat (card (pr_step ` set (series rows rid key)))"
    "last \<in> set (effective rows)" "pr_run_id last = rid" "pr_metric_key last = key"
    "sa_last_step a = pr_step last" "sa_last_value a = pr_value last"
    "sa_last_step a = Max (pr_step ` set (series rows rid key))"
    "sa_min_value a \<in> pr_value ` set (series (effective rows) rid key)"
    "sa_max_value a \<in> pr_value ` set (series (effective rows) rid key)"
proof -
  have ne: "series (effective rows) rid key \<noteq> []"
    using assms effective_series_empty by blast
  then obtain r rs where f: "series (effective rows) rid key = r # rs" by (cases "series (effective rows) rid key") auto
  let ?a = "aggregate_rows env r rs"
  let ?l = "max_by (\<lambda>a b. cmp_of (pr_step a) (pr_step b)) r rs"
  have l: "?l \<in> set (series (effective rows) rid key)" unfolding f by (rule max_by_in)
  have r: "r \<in> set (series (effective rows) rid key)" using f by simp
  have mx: "pr_step ?l = Max (pr_step ` set (series rows rid key))"
    unfolding effective_series_steps [symmetric] f
  proof (rule Max_eqI [symmetric])
    show "pr_step ?l \<in> pr_step ` set (r # rs)" by (rule imageI) (rule max_by_in)
    show "n \<le> pr_step ?l" if "n \<in> pr_step ` set (r # rs)" for n
      using that max_by_key [of _ r rs pr_step] by (auto simp only: image_iff)
  qed simp
  show ?thesis
  proof (rule that [of ?a ?l])
    show "aggregate_series env rows rid key = [?a]" by (simp add: aggregate_series_def f)
    show "sa_effective_count ?a = of_nat (card (pr_step ` set (series rows rid key)))"
      using effective_series_length [of rid key rows] f by (simp add: aggregate_rows_def Let_def)
    show "sa_min_value ?a \<in> pr_value ` set (series (effective rows) rid key)"
      using min_by_in [of "de_dbl_cmp env" "pr_value r" "map pr_value rs"] f by (simp add: aggregate_rows_def Let_def)
    show "sa_max_value ?a \<in> pr_value ` set (series (effective rows) rid key)"
      using max_by_in [of "de_dbl_cmp env" "pr_value r" "map pr_value rs"] f by (simp add: aggregate_rows_def Let_def)
  qed (use l r mx in \<open>auto simp: aggregate_rows_def Let_def\<close>)
qed

lemma aggregate_series_none: "series rows rid key = [] \<Longrightarrow> aggregate_series env rows rid key = []"
  using effective_series_empty [of rid key rows] by (simp add: aggregate_series_def)

lemma aggregates_of_run_key:
  "filter (\<lambda>a. sa_metric_key a = key) (aggregates_of_run env rows rid) = aggregate_series env rows rid key"
proof -
  have one: "filter (\<lambda>a. sa_metric_key a = key) (aggregate_series env rows rid k) =
             (if k = key then aggregate_series env rows rid k else [])" for k
  proof (cases "series rows rid k = []")
    case True
    then show ?thesis by (simp only: aggregate_series_none) simp
  next
    case False
    then obtain a where "aggregate_series env rows rid k = [a]" "sa_metric_key a = k"
      by (rule aggregate_series_cases)
    then show ?thesis by auto
  qed
  have "filter (\<lambda>a. sa_metric_key a = key) (concat (map (aggregate_series env rows rid) ks)) =
        (if key \<in> set ks then aggregate_series env rows rid key else [])" if "distinct ks" for ks
    using that by (induction ks) (auto simp: one)
  moreover have "key \<notin> set (series_keys rows rid) \<Longrightarrow> aggregate_series env rows rid key = []"
    by (rule aggregate_series_none) (auto simp: series_keys_def filter_empty_conv)
  ultimately show ?thesis by (simp add: aggregates_of_run_def series_keys_def)
qed

lemma aggregates_of_run_id: "a \<in> set (aggregates_of_run env rows rid) \<Longrightarrow> sa_run_id a = rid"
proof -
  assume "a \<in> set (aggregates_of_run env rows rid)"
  then obtain k where k: "a \<in> set (aggregate_series env rows rid k)" by (auto simp: aggregates_of_run_def)
  then have "series rows rid k \<noteq> []" using aggregate_series_none by fastforce
  then obtain b where "aggregate_series env rows rid k = [b]" "sa_run_id b = rid" by (rule aggregate_series_cases)
  with k show ?thesis by simp
qed

lemma rebuild_outcome:
  assumes "rebuild_metric_aggregates_for_run rid s = (Ok u, s')"
  shows "st_aggregates s' = filter (\<lambda>a. sa_run_id a \<noteq> rid) (st_aggregates s) @
           aggregates_of_run (st_env s) (st_points s) rid \<and>
         st_runs s' = st_runs s \<and> st_points s' = st_points s \<and> st_projects s' = st_projects s \<and> st_env s' = st_env s"
  using assms by (auto simp: rebuild_metric_aggregates_for_run_def bind_op_Ok update_Ok)

subsection \<open>Properties\<close>

definition sample_env :: duck_env where
  "sample_env = \<lparr>de_ts_ok = (\<lambda>m. - 8334601228800000 \<le> m \<and> m \<le> 8210266876799999),
     de_dbl_cmp = total_cmp, de_on_drop = (\<lambda>rows. rows), de_no_rows = ''no rows''\<rparr>"

definition sample_store :: store where
  "sample_store = \<lparr>st_projects = [\<lparr>p_project_id = ''p'', p_name = ''demo'', p_created_at = 1\<rparr>],
     st_runs = [\<lparr>sr_run_id = ''r1'', sr_project_id = ''p'', sr_name = ''first'', sr_status = ''running'',
        sr_created_at_millis = 5, sr_started_at_millis = 5, sr_finished_at_millis = None\<rparr>],
     st_points = [\<lparr>pr_run_id = ''r1'', pr_metric_key = ''loss'', pr_key_encoded = ''loss'', pr_step = 1,
        pr_timestamp = 6, pr_value = F_Fin False 4, pr_ingested_at = 6\<rparr>,
       \<lparr>pr_run_id = ''r1'', pr_metric_key = ''loss'', pr_key_encoded = ''loss'', pr_step = 1,
        pr_timestamp = 7, pr_value = F_Fin False 3, pr_ingested_at = 7\<rparr>],
     st_aggregates = [], st_faults = [], st_clock = [10, 11, 12], st_env = sample_env\<rparr>"

lemma sample_store_simps [simp]:
  "st_faults sample_store = []" "st_env sample_store = sample_env" "st_clock sample_store = [10, 11, 12]"
  by (simp_all add: sample_store_def)

lemma sample_ts_ok: "de_ts_ok sample_env m \<longleftrightarrow> - 8334601228800000 \<le> m \<and> m \<le> 8210266876799999"
  by (simp add: sample_env_def)

text \<open>The effective series has exactly one row for every run, metric and step that was ever
  written, it is a row of the table that no row of the same point was ingested after, and a row
  that is appended with an ingestion time not before those of its point replaces the point's
  effective row and leaves every other point alone: the last write wins.\<close>

theorem effective_last_write_wins:
  "set (effective rows) \<subseteq> set rows \<and> distinct (map point_id (effective rows)) \<and>
   point_id ` set (effective rows) = point_id ` set rows \<and>
   (\<forall>r \<in> set (effective rows). \<forall>b \<in> set rows. point_id b = point_id r \<longrightarrow> pr_ingested_at b \<le> pr_ingested_at r) \<and>
   ((\<forall>b \<in> set rows. point_id b = point_id w \<longrightarrow> pr_ingested_at b \<le> pr_ingested_at w) \<longrightarrow>
    effective (rows @ [w]) = filter (\<lambda>r. point_id r \<noteq> point_id w) (effective rows) @ [w])"
proof -
  have "effective (rows @ [w]) = filter (\<lambda>r. point_id r \<noteq> point_id w) (effective rows) @ [w]"
    if "\<forall>b \<in> set rows. point_id b = point_id w \<longrightarrow> pr_ingested_at b \<le> pr_ingested_at w"
  proof -
    have "\<not> (\<exists>b \<in> set rows. same_point b w \<and> pr_ingested_at w < pr_ingested_at b)"
      using that by (fastforce simp: same_point_id)
    moreover have "filter (\<lambda>r. \<not> (same_point w r \<and> pr_ingested_at r \<le> pr_ingested_at w)) (effective rows) =
                   filter (\<lambda>r. point_id r \<noteq> point_id w) (effective rows)"
      using that effective_subset [of rows] by (intro filter_cong) (fastforce simp: same_point_id)+
    ultimately show ?thesis by (simp add: effective_snoc)
  qed
  then show ?thesis
    using effective_subset [of rows] effective_distinct [of rows] effective_ids [of rows]
      effective_latest [of _ rows] by (auto simp: same_point_id)
qed

theorem effective_last_write_wins_witness:
  "effective (st_points sample_store) = [st_points sample_store ! 1]"
  using effective_last_write_wins [of "[st_points sample_store ! 0]" "st_points sample_store ! 1"]
  by (simp add: sample_store_def point_id_def effective_snoc [of "[]", simplified])



end
