(* ===== verification/Evidence.thy ===== *)
theory Evidence
  imports Errors
begin

section \<open>Objective evidence (\<open>engine/query.rs\<close>)\<close>

text \<open>
  How a stored aggregate or an aligned series becomes evidence: its value, its completeness and
  the reasons, qualified by the lifecycle of the run. \<open>objective_evidence_for_runs\<close> pairs a list
  of runs with the aggregates of a query through a hash map whose entries are consumed.
\<close>

definition qualify_lifecycle ::
  "run_status \<Rightarrow> evidence_completeness \<times> evidence_reason list \<Rightarrow>
   evidence_completeness \<times> evidence_reason list" where
  "qualify_lifecycle status cr =
     (case (case status of Running \<Rightarrow> Some RunRunning | Failed \<Rightarrow> Some RunFailed | Finished \<Rightarrow> None) of
        None \<Rightarrow> cr
      | Some reason \<Rightarrow> (max (fst cr) EC_Partial, snd cr @ [reason]))"

definition objective_evidence_of ::
  "run_id \<Rightarrow> run_status \<Rightarrow> metric_aggregate option \<Rightarrow> objective_evidence" where
  "objective_evidence_of rid status aggregate =
     (let (last_step, last_value, completeness, reasons) =
        (case aggregate of
           None \<Rightarrow> (None, None, EC_Unavailable, [MissingMetric])
         | Some a \<Rightarrow>
             if \<not> is_finite (ma_last_value a)
             then (Some (ma_last_step a), Some (ma_last_value a), EC_Invalid, [NonFiniteValue])
             else (Some (ma_last_step a), Some (ma_last_value a), EC_Complete, []));
        (completeness', reasons') = qualify_lifecycle status (completeness, reasons)
      in \<lparr>oe_run_id = rid, oe_run_status = status, oe_last_step = last_step,
          oe_last_value = last_value, oe_completeness = completeness', oe_reasons = reasons'\<rparr>)"

fun reason_of_alignment :: "alignment_reason \<Rightarrow> evidence_reason" where
  "reason_of_alignment AR_MissingRunStart = MissingRunStart"
| "reason_of_alignment AR_NegativeAxis = NegativeAxis"
| "reason_of_alignment AR_DecreasingAxis = DecreasingAxis"

definition aligned_metric_result_of :: "alignment_query_result \<Rightarrow> run_status \<Rightarrow> aligned_metric_result" where
  "aligned_metric_result_of result status =
     (let has_non_finite = list_ex (\<lambda>p. \<not> is_finite (mp_value (amp_point p))) (aqr_points result);
          reasons0 = map reason_of_alignment (aqr_reasons result);
          reasons1 = (if has_non_finite then reasons0 @ [NonFiniteValue] else reasons0);
          (completeness, reasons2) =
            (if list_ex (\<lambda>r. r \<in> {NegativeAxis, DecreasingAxis, NonFiniteValue}) reasons1
             then (EC_Invalid, reasons1)
             else if MissingRunStart \<in> set reasons1 \<or> aqr_points result = []
             then (EC_Unavailable, if reasons1 = [] then [MissingMetric] else reasons1)
             else (EC_Complete, reasons1));
          (completeness', reasons') = qualify_lifecycle status (completeness, reasons2)
      in \<lparr>amr_points = aqr_points result, amr_source_row_count = aqr_source_row_count result,
          amr_completeness = completeness', amr_reasons = reasons'\<rparr>)"

text \<open>\<open>collect::<HashMap<_, _>>()\<close>: a later entry replaces an earlier one with the same key.\<close>

definition aggregate_map :: "metric_aggregate list \<Rightarrow> run_id \<Rightarrow> metric_aggregate option" where
  "aggregate_map aggs = map_of (rev (map (\<lambda>a. (ma_run_id a, a)) aggs))"

fun evidence_from_map ::
  "run list \<Rightarrow> (run_id \<Rightarrow> metric_aggregate option) \<Rightarrow> objective_evidence list" where
  "evidence_from_map [] m = []"
| "evidence_from_map (r # rs) m =
     objective_evidence_of (r_run_id r) (r_status r) (m (r_run_id r))
     # evidence_from_map rs (m(r_run_id r := None))"

definition objective_evidence_for_runs :: "run list \<Rightarrow> metric_aggregate list \<Rightarrow> objective_evidence list" where
  "objective_evidence_for_runs runs aggs = evidence_from_map runs (aggregate_map aggs)"

subsection \<open>Lemmas\<close>

lemma qualify_lifecycle_simps [simp]:
  "qualify_lifecycle Finished cr = cr"
  "qualify_lifecycle Running cr = (max (fst cr) EC_Partial, snd cr @ [RunRunning])"
  "qualify_lifecycle Failed cr = (max (fst cr) EC_Partial, snd cr @ [RunFailed])"
  by (simp_all add: qualify_lifecycle_def)

lemma qualify_Complete:
  "fst (qualify_lifecycle s cr) = EC_Complete \<longleftrightarrow> s = Finished \<and> fst cr = EC_Complete"
  by (cases s) (auto simp: max_Complete_iff)

lemma qualify_reasons_empty: "snd (qualify_lifecycle s cr) = [] \<longleftrightarrow> s = Finished \<and> snd cr = []"
  by (cases s) auto

lemma evidence_run_id [simp]: "oe_run_id (objective_evidence_of rid s a) = rid"
  by (simp add: objective_evidence_of_def Let_def split: option.split prod.splits)

text \<open>Evidence is complete exactly when the run finished with a finite last value.\<close>

lemma evidence_complete_iff:
  "oe_completeness (objective_evidence_of rid s a) = EC_Complete \<longleftrightarrow>
   s = Finished \<and> (\<exists>m. a = Some m \<and> is_finite (ma_last_value m))"
proof -
  have q: "\<And>c rs. fst (qualify_lifecycle s (c, rs)) = EC_Complete \<longleftrightarrow> s = Finished \<and> c = EC_Complete"
    using qualify_Complete by simp
  show ?thesis
    by (cases a) (auto simp: objective_evidence_of_def Let_def case_prod_beta q)
qed

lemma evidence_usable:
  "usable_value (objective_evidence_of rid s a) = Some v \<longleftrightarrow>
   (\<exists>m. a = Some m \<and> ma_last_value m = v \<and> is_finite v)"
  by (cases a) (auto simp: objective_evidence_of_def usable_value_def Let_def case_prod_beta)

text \<open>Complete evidence carries no reason, and incomplete evidence always carries one.\<close>

lemma evidence_reasons_iff:
  "oe_reasons (objective_evidence_of rid s a) = [] \<longleftrightarrow>
   oe_completeness (objective_evidence_of rid s a) = EC_Complete"
proof -
  have "oe_reasons (objective_evidence_of rid s a) = [] \<longleftrightarrow>
        s = Finished \<and> (\<exists>m. a = Some m \<and> is_finite (ma_last_value m))"
    by (cases a) (auto simp: objective_evidence_of_def Let_def case_prod_beta qualify_reasons_empty)
  then show ?thesis by (simp add: evidence_complete_iff)
qed

lemma evidence_from_map_distinct:
  assumes "distinct (map r_run_id runs)"
  shows "evidence_from_map runs m =
         map (\<lambda>r. objective_evidence_of (r_run_id r) (r_status r) (m (r_run_id r))) runs"
  using assms
proof (induction runs arbitrary: m)
  case Nil
  then show ?case by simp
next
  case (Cons r rs)
  have ni: "r_run_id r \<notin> r_run_id ` set rs" using Cons.prems by simp
  have "r_run_id x \<noteq> r_run_id r" if "x \<in> set rs" for x
    using imageI [OF that, of r_run_id] ni by auto
  moreover have "evidence_from_map rs (m(r_run_id r := None)) = map (\<lambda>x. objective_evidence_of (r_run_id x)
      (r_status x) ((m(r_run_id r := None)) (r_run_id x))) rs"
    using Cons.prems by (intro Cons.IH) simp
  ultimately show ?case by simp
qed

lemma evidence_from_map_run_ids:
  "map oe_run_id (evidence_from_map runs m) = map r_run_id runs"
  by (induction runs arbitrary: m) auto

lemma evidence_from_map_length [simp]: "length (evidence_from_map runs m) = length runs"
  by (induction runs arbitrary: m) auto

text \<open>Aligned evidence: the points are passed through, and the completeness follows the reasons.\<close>

lemma aligned_result_frame [frame_simps]:
  "amr_points (aligned_metric_result_of q s) = aqr_points q"
  "amr_source_row_count (aligned_metric_result_of q s) = aqr_source_row_count q"
  by (simp_all add: aligned_metric_result_of_def Let_def case_prod_beta)

lemma reason_of_alignment_range:
  "reason_of_alignment r \<in> {MissingRunStart, NegativeAxis, DecreasingAxis}"
  by (cases r) auto

end
