(* ===== verification/Metric_Reader.thy ===== *)
theory Metric_Reader
  imports Project_Store Evidence "HOL-Library.Sublist"
begin

section \<open>Metric queries (\<open>metric_query.rs\<close>, \<open>query.rs\<close>)\<close>

text \<open>
  The SQL of the metric reader as functions on the relations of the store. A relation is the list
  of its rows in insertion order (\<open>rowid\<close>; for Parquet the order of file name and row number).
  The bucket of a row in the screen reduction is computed in binary64 arithmetic as the query
  does. The aggregate \<open>lttb\<close> of the community extension and the outcome of the batches that load
  it are parameters, fields of the record \<open>lttb_ext\<close>.
\<close>

subsection \<open>Relations and the effective series\<close>

datatype metric_source = Src_Project | Src_Parquet string

fun source_rows :: "(string \<Rightarrow> point_row list) \<Rightarrow> metric_source \<Rightarrow> store \<Rightarrow> point_row list" where
  "source_rows files Src_Project s = st_points s"
| "source_rows files (Src_Parquet location) s = files location"

definition in_query :: "metric_query \<Rightarrow> point_row \<Rightarrow> bool" where
  "in_query q r \<longleftrightarrow> pr_run_id r = mq_run_id q \<and> pr_metric_key r = mq_metric_key q \<and>
     pr_key_encoded r = percent_encode_metric_key (mq_metric_key q) \<and>
     (case mq_start_step q of None \<Rightarrow> True | Some a \<Rightarrow> a \<le> pr_step r) \<and>
     (case mq_end_step q of None \<Rightarrow> True | Some b \<Rightarrow> pr_step r < b)"

definition effective_cte :: "metric_query \<Rightarrow> point_row list \<Rightarrow> point_row list" where
  "effective_cte q rows = effective (filter (in_query q) rows)"

definition step_cmp :: "point_row \<Rightarrow> point_row \<Rightarrow> ordering" where
  "step_cmp a b = cmp_of (pr_step a) (pr_step b)"

definition value_cmp :: "duck_env \<Rightarrow> point_row \<Rightarrow> point_row \<Rightarrow> ordering" where
  "value_cmp env a b = de_dbl_cmp env (pr_value a) (pr_value b)"

definition desc :: "('a \<Rightarrow> 'a \<Rightarrow> ordering) \<Rightarrow> 'a \<Rightarrow> 'a \<Rightarrow> ordering" where
  "desc c a b = c b a"

definition lex_cmp :: "('a \<Rightarrow> 'a \<Rightarrow> ordering) \<Rightarrow> ('a \<Rightarrow> 'a \<Rightarrow> ordering) \<Rightarrow> 'a \<Rightarrow> 'a \<Rightarrow> ordering" where
  "lex_cmp c d a b = then_with (c a b) (d a b)"

subsection \<open>Bucket extrema\<close>

text \<open>
  \<open>floor(ordinal::DOUBLE * buckets::DOUBLE / rows::DOUBLE)\<close>, and the rows that are first in
  their bucket (\<open>row_number() OVER (PARTITION BY bucket ORDER BY c) = 1\<close>) in one of the orders.
\<close>

definition bucket_of :: "nat \<Rightarrow> nat \<Rightarrow> nat \<Rightarrow> nat" where
  "bucket_of ordinal buckets n =
     nat \<lfloor>val (fdiv (fmul (f64_of_int (int ordinal)) (f64_of_int (int buckets))) (f64_of_int (int n)))\<rfloor>"

definition rank_one :: "('a \<Rightarrow> 'a \<Rightarrow> ordering) \<Rightarrow> 'a list \<Rightarrow> 'a \<Rightarrow> bool" where
  "rank_one c part r = (case part of [] \<Rightarrow> False | x # xs \<Rightarrow> r = min_by c x xs)"

definition bucketed :: "nat \<Rightarrow> 'a list \<Rightarrow> (nat \<times> 'a) list" where
  "bucketed buckets rows = zip (map (\<lambda>i. bucket_of i buckets (length rows)) [0..<length rows]) rows"

definition partition_of :: "(nat \<times> 'a) list \<Rightarrow> nat \<Rightarrow> 'a list" where
  "partition_of tagged k = map snd (filter (\<lambda>p. fst p = k) tagged)"

definition bucket_select :: "('a \<Rightarrow> 'a \<Rightarrow> ordering) list \<Rightarrow> (nat \<times> 'a) list \<Rightarrow> 'a list" where
  "bucket_select cs tagged =
     map snd (filter (\<lambda>(k, r). list_ex (\<lambda>c. rank_one c (partition_of tagged k) r) cs) tagged)"

definition metric_orders :: "duck_env \<Rightarrow> (point_row \<Rightarrow> point_row \<Rightarrow> ordering) list" where
  "metric_orders env = [step_cmp, desc step_cmp, lex_cmp (value_cmp env) step_cmp,
                        lex_cmp (desc (value_cmp env)) step_cmp]"

definition screen_rows :: "duck_env \<Rightarrow> nat \<Rightarrow> point_row list \<Rightarrow> point_row list" where
  "screen_rows env buckets eff =
     bucket_select (metric_orders env) (bucketed buckets (sort_by step_cmp eff))"

subsection \<open>The LTTB extension\<close>

text \<open>
  \<open>lx_batch sql available\<close> is the outcome of a batch: the error it displays, if any, and
  whether \<open>lttb\<close> is registered afterwards. \<open>lx_points rows n\<close> are the \<open>x\<close> coordinates of the
  points the aggregate selects.
\<close>

record lttb_ext =
  lx_available :: bool
  lx_path_env :: "string option"
  lx_auto_env :: "string option"
  lx_batch :: "string \<Rightarrow> bool \<Rightarrow> string option \<times> bool"
  lx_points :: "(int \<times> f64) list \<Rightarrow> int \<Rightarrow> int list"

definition execute_lttb_batch :: "string \<Rightarrow> lttb_ext \<Rightarrow> string option \<times> lttb_ext" where
  "execute_lttb_batch sql x =
     (let (e, available) = lx_batch x sql (lx_available x) in (e, x\<lparr>lx_available := available\<rparr>))"

definition lttb_auto_install_allowed :: "string option \<Rightarrow> bool" where
  "lttb_auto_install_allowed v = (case v of None \<Rightarrow> False
     | Some s \<Rightarrow> s \<in> set [''1'', ''true'', ''TRUE'', ''yes'', ''YES'', ''on'', ''ON''])"

definition batch_outcome :: "string \<Rightarrow> string \<Rightarrow> (lttb_ext, storage_error, unit) op" where
  "batch_outcome sql unregistered x =
     (case execute_lttb_batch sql x of
        (None, x') \<Rightarrow> (if lx_available x' then Ok () else Err (SE_LttbExtensionUnavailable unregistered), x')
      | (Some e, x') \<Rightarrow> (Err (SE_LttbExtensionUnavailable e), x'))"

definition install_and_load_lttb_extension :: "(lttb_ext, storage_error, unit) op" where
  "install_and_load_lttb_extension =
     batch_outcome ''INSTALL lttb FROM community; LOAD lttb;'' ''INSTALL/LOAD lttb did not register lttb''"

definition load_lttb_extension_from_path :: "string \<Rightarrow> (lttb_ext, storage_error, unit) op" where
  "load_lttb_extension_from_path path =
     batch_outcome (''LOAD '' @ string_literal path @ '';'')
       ''LOAD lttb from PULSEON_LTTB_EXTENSION_PATH did not register lttb''"

definition lttb_refusal :: string where
  "lttb_refusal = ''lttb is not loaded and PulseOn will not download it automatically; '' @
     ''set PULSEON_LTTB_AUTO_INSTALL=1 to allow INSTALL lttb FROM community, '' @
     ''or set PULSEON_LTTB_EXTENSION_PATH to a local lttb.duckdb_extension''"

definition ensure_lttb_extension_loaded :: "(lttb_ext, storage_error, unit) op" where
  "ensure_lttb_extension_loaded x =
     (if lx_available x then (Ok (), x)
      else case lx_path_env x of
        Some path \<Rightarrow> load_lttb_extension_from_path path x
      | None \<Rightarrow>
          let (load_error, x1) = execute_lttb_batch ''LOAD lttb;'' x
          in if load_error = None \<and> lx_available x1 then (Ok (), x1)
             else if lttb_auto_install_allowed (lx_auto_env x1) then install_and_load_lttb_extension x1
             else (Err (SE_LttbExtensionUnavailable (case load_error of None \<Rightarrow> lttb_refusal
                        | Some e \<Rightarrow> lttb_refusal @ ''; LOAD lttb failed: '' @ e)), x1))"

definition normalized_step :: "point_row list \<Rightarrow> point_row \<Rightarrow> int" where
  "normalized_step eff r = pr_step r - Min (set (map pr_step eff))"

definition lttb_rows :: "lttb_ext \<Rightarrow> int \<Rightarrow> point_row list \<Rightarrow> point_row list" where
  "lttb_rows x max_points eff =
     sort_by step_cmp (concat (map (\<lambda>p. filter (\<lambda>r. normalized_step eff r = p) eff)
       (lx_points x (map (\<lambda>r. (normalized_step eff r, pr_value r)) eff) max_points)))"

subsection \<open>\<open>query_metric\<close>\<close>

datatype query_shape = Shape_Full | Shape_Screen nat | Shape_Lttb int

definition metric_point_of :: "duck_env \<Rightarrow> point_row \<Rightarrow> (storage_error, metric_point) res" where
  "metric_point_of env r =
     bind_r (timestamp_from_millis env ''timestamp'' (pr_timestamp r)) (\<lambda>timestamp.
     bind_r (timestamp_from_millis env ''ingested_at'' (pr_ingested_at r)) (\<lambda>ingested_at.
     Ok \<lparr>mp_run_id = pr_run_id r, mp_metric_key = pr_metric_key r, mp_step = pr_step r,
         mp_timestamp = timestamp, mp_value = pr_value r, mp_ingested_at = ingested_at\<rparr>))"

fun shape_rows :: "duck_env \<Rightarrow> lttb_ext \<Rightarrow> query_shape \<Rightarrow> point_row list \<Rightarrow> point_row list" where
  "shape_rows env x Shape_Full eff = sort_by step_cmp eff"
| "shape_rows env x (Shape_Screen buckets) eff = screen_rows env buckets eff"
| "shape_rows env x (Shape_Lttb max_points) eff = lttb_rows x max_points eff"

fun collect_points ::
  "duck_env \<Rightarrow> (point_row \<times> u64) list \<Rightarrow> metric_point list \<Rightarrow> u64 \<Rightarrow> (storage_error, metric_query_result) res" where
  "collect_points env [] points counted = Ok \<lparr>mqr_points = points, mqr_source_row_count = counted\<rparr>"
| "collect_points env ((r, n) # rows) points counted =
     bind_r (metric_point_of env r) (\<lambda>p. collect_points env rows (points @ [p]) n)"

text \<open>The reader works on the store and the state of the extension.\<close>

type_synonym reader = "store \<times> lttb_ext"

definition on_store :: "(store, 'e, 'a) op \<Rightarrow> (reader, 'e, 'a) op" where
  "on_store m w = (let (r, s) = m (fst w) in (r, (s, snd w)))"

definition on_lttb :: "(lttb_ext, 'e, 'a) op \<Rightarrow> (reader, 'e, 'a) op" where
  "on_lttb m w = (let (r, x) = m (snd w) in (r, (fst w, x)))"

definition shape_params :: "query_shape \<Rightarrow> (storage_error, unit) res" where
  "shape_params shape = (case shape of
       Shape_Screen buckets \<Rightarrow>
         if i64_max < int buckets
         then Err (SE_QueryMaxPointsTooLarge (usize_sat_mul buckets extrema_per_bucket)) else Ok ()
     | _ \<Rightarrow> Ok ())"

definition execute_query ::
  "(string \<Rightarrow> point_row list) \<Rightarrow> metric_source \<Rightarrow> metric_query \<Rightarrow> query_shape \<Rightarrow>
   (reader, storage_error, metric_query_result) op" where
  "execute_query files source q shape w =
     bind_op (lift_op (shape_params shape)) (\<lambda>_.
     bind_op (on_store (query (\<lambda>s. effective_cte q (source_rows files source s)))) (\<lambda>eff.
     lift_op (collect_points (st_env (fst w))
       (map (\<lambda>r. (r, of_nat (length eff))) (shape_rows (st_env (fst w)) (snd w) shape eff)) [] 0))) w"

definition count_effective ::
  "(string \<Rightarrow> point_row list) \<Rightarrow> metric_source \<Rightarrow> metric_query \<Rightarrow> (reader, storage_error, u64) op" where
  "count_effective files source q =
     on_store (query (\<lambda>s. of_nat (length (effective_cte q (source_rows files source s)))))"

definition query_metric ::
  "(string \<Rightarrow> point_row list) \<Rightarrow> metric_source \<Rightarrow> metric_query \<Rightarrow>
   (reader, storage_error, metric_query_result) op" where
  "query_metric files source q =
     (if is_blank (mq_run_id q) \<or> is_blank (mq_metric_key q) then fail_op SE_InvalidIdentity
      else case mq_reduction q of
        RP_Full \<Rightarrow> execute_query files source q Shape_Full
      | RP_ScreenBudget w d \<Rightarrow>
          execute_query files source q
            (Shape_Screen (max (the (rp_max_points (mq_reduction q)) div extrema_per_bucket) 1))
      | RP_Lttb max_points \<Rightarrow>
          bind_op (count_effective files source q) (\<lambda>source_row_count.
          if source_row_count \<le> of_nat max_points then execute_query files source q Shape_Full
          else if i64_max < int max_points then fail_op (SE_QueryMaxPointsTooLarge max_points)
          else bind_op (on_lttb ensure_lttb_extension_loaded) (\<lambda>_.
               execute_query files source q (Shape_Lttb (int max_points)))))"

subsection \<open>Summaries\<close>

definition metric_aggregate_row ::
  "run_id \<Rightarrow> metric_key \<Rightarrow> (store, storage_error, metric_aggregate) op" where
  "metric_aggregate_row rid key =
     bind_op (query (\<lambda>s. (de_no_rows (st_env s),
         find (\<lambda>a. sa_run_id a = rid \<and> sa_metric_key a = key) (st_aggregates s))))
       (\<lambda>(no_rows, row). case row of
          None \<Rightarrow> fail_op (SE_DuckDb (QueryReturnedNoRows no_rows))
        | Some a \<Rightarrow> ret_op (into_metric_aggregate a))"

text \<open>
  The two branches of the \<open>UNION ALL\<close> for one requested id: the materialised rows of a run that
  is no longer running, and one row computed from the effective points of a running one.
\<close>

definition summary_rows :: "store \<Rightarrow> metric_key \<Rightarrow> run_id \<Rightarrow> stored_metric_aggregate list" where
  "summary_rows s key rid =
     (let runs = filter (\<lambda>r. sr_run_id r = rid) (st_runs s);
          points = filter (\<lambda>p. pr_run_id p = rid) (effective (filter (\<lambda>p. pr_metric_key p = key) (st_points s)))
      in concat (map (\<lambda>run. if sr_status run \<noteq> ''running''
                 then filter (\<lambda>a. sa_run_id a = rid \<and> sa_metric_key a = key) (st_aggregates s) else []) runs) @
         (case concat (map (\<lambda>run. if sr_status run = ''running'' then points else []) runs) of
            [] \<Rightarrow> []
          | r # rs \<Rightarrow> [aggregate_rows (st_env s) r rs]))"

definition query_metric_summaries ::
  "run_id list \<Rightarrow> metric_key \<Rightarrow> (store, storage_error, metric_aggregate list) op" where
  "query_metric_summaries rids key =
     (if rids = [] then ret_op []
      else bind_op (query (\<lambda>s. concat (map (summary_rows s key) rids)))
             (\<lambda>rows. ret_op (map into_metric_aggregate rows)))"

definition aggregate_key_cmp :: "stored_metric_aggregate \<Rightarrow> stored_metric_aggregate \<Rightarrow> ordering" where
  "aggregate_key_cmp a b = str_cmp (sa_metric_key a) (sa_metric_key b)"

definition list_metrics :: "run_id \<Rightarrow> run_status \<Rightarrow> (store, storage_error, metric_aggregate list) op" where
  "list_metrics rid status =
     bind_op (query (\<lambda>s. sort_by aggregate_key_cmp (case status of
         Running \<Rightarrow> aggregates_of_run (st_env s) (filter (\<lambda>p. pr_run_id p = rid) (st_points s)) rid
       | _ \<Rightarrow> filter (\<lambda>a. sa_run_id a = rid) (st_aggregates s))))
       (\<lambda>rows. ret_op (map into_metric_aggregate rows))"

subsection \<open>The engine's query store (\<open>engine/query.rs\<close>)\<close>

definition native_query_metric ::
  "(string \<Rightarrow> point_row list) \<Rightarrow> run_id \<Rightarrow> metric_key \<Rightarrow> step option \<Rightarrow> step option \<Rightarrow> nat option \<Rightarrow>
   (reader, engine_error, metric_query_result) op" where
  "native_query_metric files rid key start_step end_step max_points =
     bind_op (lift_op (case max_points of
         None \<Rightarrow> Ok RP_Full
       | Some n \<Rightarrow> map_err (\<lambda>_. MetricQueryMaxPointsTooSmall n) (rp_lttb n))) (\<lambda>reduction.
     map_err_op engine_error_of (query_metric files Src_Project
       \<lparr>mq_run_id = rid, mq_metric_key = key, mq_start_step = start_step, mq_end_step = end_step,
        mq_reduction = reduction\<rparr>))"

definition native_objective_evidence ::
  "run_id \<Rightarrow> run_status \<Rightarrow> objective_metric \<Rightarrow> (store, engine_error, objective_evidence) op" where
  "native_objective_evidence rid status objective =
     bind_op (map_err_op engine_error_of (query_metric_summaries [rid] (om_metric_key objective)))
       (\<lambda>aggs. ret_op (objective_evidence_of rid status (case aggs of [] \<Rightarrow> None | a # _ \<Rightarrow> Some a)))"

definition native_objective_evidence_for_runs ::
  "run list \<Rightarrow> objective_metric \<Rightarrow> (store, engine_error, objective_evidence list) op" where
  "native_objective_evidence_for_runs runs objective =
     bind_op (map_err_op engine_error_of (query_metric_summaries (map r_run_id runs) (om_metric_key objective)))
       (\<lambda>aggs. ret_op (objective_evidence_for_runs runs aggs))"

subsection \<open>Sorting by step\<close>

interpretation step_order: order_cmp step_cmp "\<lambda>_. True"
  by unfold_locales (auto simp: step_cmp_def reverse_cmp_of)

lemma step_cmp_Greater [simp]: "step_cmp a b = Greater \<longleftrightarrow> pr_step b < pr_step a"
  by (simp add: step_cmp_def)

lemma sorted_by_step: "sorted (map pr_step (sort_by step_cmp rows))"
  using step_order.sorted_sort_by [of rows] by (simp add: sorted_map not_less)

lemma distinct_steps_sort: "distinct (map pr_step (sort_by step_cmp rows)) = distinct (map pr_step rows)"
  by (rule mset_eq_imp_distinct_iff) (simp add: mset_map)

lemma strict_steps_sort:
  "distinct (map pr_step rows) \<Longrightarrow> sorted_wrt (<) (map pr_step (sort_by step_cmp rows))"
  using sorted_by_step distinct_steps_sort by (simp add: strict_sorted_iff)

lemma in_query_point_id:
  "in_query q a \<Longrightarrow> in_query q b \<Longrightarrow> point_id a = point_id b \<longleftrightarrow> pr_step a = pr_step b"
  by (auto simp: in_query_def point_id_def)

lemma effective_cte_in: "r \<in> set (effective_cte q rows) \<Longrightarrow> r \<in> set rows \<and> in_query q r"
  using effective_subset [of "filter (in_query q) rows"] by (auto simp: effective_cte_def)

lemma effective_cte_steps_distinct: "distinct (map pr_step (effective_cte q rows))"
proof -
  have "inj_on pr_step (set (effective_cte q rows))"
  proof (rule inj_onI)
    fix a b assume a: "a \<in> set (effective_cte q rows)" and b: "b \<in> set (effective_cte q rows)"
      and "pr_step a = pr_step b"
    then have "point_id a = point_id b" using effective_cte_in in_query_point_id by blast
    then show "a = b"
      using effective_distinct [of "filter (in_query q) rows"] a b
      by (simp add: distinct_map inj_on_def effective_cte_def)
  qed
  moreover have "distinct (effective_cte q rows)"
    using effective_distinct [of "filter (in_query q) rows"] by (simp add: distinct_map effective_cte_def)
  ultimately show ?thesis by (simp add: distinct_map)
qed

lemma effective_cte_latest:
  assumes "r \<in> set (effective_cte q rows)" and "b \<in> set rows" and "in_query q b" and "pr_step b = pr_step r"
  shows "pr_ingested_at b \<le> pr_ingested_at r"
proof -
  have "in_query q r" using effective_cte_in [OF assms(1)] by blast
  then have "same_point b r" using assms(3,4) by (auto simp: same_point_def in_query_def)
  then show ?thesis
    using effective_latest [of r "filter (in_query q) rows" b] assms by (simp add: effective_cte_def)
qed

lemma effective_cte_covers:
  "b \<in> set rows \<Longrightarrow> in_query q b \<Longrightarrow> \<exists>r \<in> set (effective_cte q rows). pr_step r = pr_step b"
  using effective_covers [of b "filter (in_query q) rows"]
  by (auto simp: effective_cte_def same_point_def intro: rev_bexI)

lemma effective_cte_steps: "pr_step ` set (effective_cte q rows) = pr_step ` {r \<in> set rows. in_query q r}"
proof
  show "pr_step ` {r \<in> set rows. in_query q r} \<subseteq> pr_step ` set (effective_cte q rows)"
  proof (rule subsetI, elim imageE)
    fix n b assume n: "n = pr_step b" and "b \<in> {r \<in> set rows. in_query q r}"
    then obtain r where "r \<in> set (effective_cte q rows)" "pr_step r = pr_step b"
      using effective_cte_covers [of b rows q] by auto
    then show "n \<in> pr_step ` set (effective_cte q rows)" unfolding n by (metis imageI)
  qed
qed (use effective_cte_in in auto)

subsection \<open>Reading rows\<close>

definition point_of_row :: "point_row \<Rightarrow> metric_point" where
  "point_of_row r = \<lparr>mp_run_id = pr_run_id r, mp_metric_key = pr_metric_key r, mp_step = pr_step r,
     mp_timestamp = pr_timestamp r, mp_value = pr_value r, mp_ingested_at = pr_ingested_at r\<rparr>"

lemma point_of_row_simps [simp]:
  "mp_step (point_of_row r) = pr_step r" "mp_value (point_of_row r) = pr_value r"
  "mp_ingested_at (point_of_row r) = pr_ingested_at r" "mp_timestamp (point_of_row r) = pr_timestamp r"
  "mp_run_id (point_of_row r) = pr_run_id r" "mp_metric_key (point_of_row r) = pr_metric_key r"
  by (simp_all add: point_of_row_def)

lemma metric_point_of_Ok: "metric_point_of env r = Ok p \<Longrightarrow> p = point_of_row r"
  by (auto simp: metric_point_of_def timestamp_from_millis_def point_of_row_def bind_r_eq_Inr split: if_splits)

lemma collect_points_Ok:
  "collect_points env rows acc counted = Ok res \<Longrightarrow>
   mqr_points res = acc @ map point_of_row (map fst rows) \<and>
   mqr_source_row_count res = (if rows = [] then counted else snd (last rows))"
proof (induction rows arbitrary: acc counted)
  case (Cons row rows)
  obtain r n where row: "row = (r, n)" by (cases row)
  with Cons.prems obtain p where p: "metric_point_of env r = Ok p"
    "collect_points env rows (acc @ [p]) n = Ok res" by (auto simp: bind_r_eq_Inr)
  show ?case using Cons.IH [OF p(2)] metric_point_of_Ok [OF p(1)] row by simp
qed (auto)

text \<open>What a successful query returns, by shape.\<close>

lemma execute_query_Ok:
  assumes "execute_query files source q shape (s, x) = (Ok res, w')"
  shows "same_tables s (fst w') \<and> snd w' = x \<and>
    (let eff = effective_cte q (source_rows files source s); rows = shape_rows (st_env s) x shape eff in
     mqr_points res = map point_of_row rows \<and>
     mqr_source_row_count res = (if rows = [] then 0 else of_nat (length eff)))"
proof -
  obtain eff s1 where e: "query (\<lambda>s. effective_cte q (source_rows files source s)) s = (Ok eff, s1)"
      and c: "collect_points (st_env s) (map (\<lambda>r. (r, of_nat (length eff))) (shape_rows (st_env s) x shape eff)) [] 0 = Ok res"
      and w: "w' = (s1, x)"
    using assms by (auto simp: execute_query_def bind_op_Ok on_store_def lift_op_def split: prod.splits)
  have same: "same_tables s s1" by (rule steps_opD [OF steps_query e])
  obtain fs where "s1 = s\<lparr>st_faults := fs\<rparr>" "eff = effective_cte q (source_rows files source (s\<lparr>st_faults := fs\<rparr>))"
    using e by (auto simp: query_Ok)
  then have "eff = effective_cte q (source_rows files source s)" by (cases source) auto
  then show ?thesis using same w collect_points_Ok [OF c] by (auto simp: Let_def last_map comp_def)
qed

subsection \<open>Bucket extrema: what is kept\<close>

lemma bucketed_snd [simp]: "map snd (bucketed b rows) = rows"
  by (simp add: bucketed_def)

lemma bucketed_fst: "map fst (bucketed b rows) = map (\<lambda>i. bucket_of i b (length rows)) [0..<length rows]"
  by (simp add: bucketed_def)

lemma bucket_select_subseq: "subseq (bucket_select cs tagged) (map snd tagged)"
  unfolding bucket_select_def by (rule subseq_map) (rule subseq_filter_left)

lemma in_partition: "r \<in> set (partition_of tagged k) \<longleftrightarrow> (k, r) \<in> set tagged"
  by (force simp: partition_of_def)

lemma rank_one_in: "rank_one c part r \<Longrightarrow> r \<in> set part"
  using min_by_in [of c "hd part" "tl part"] by (cases part) (simp_all add: rank_one_def)

lemma rank_one_exists: "part \<noteq> [] \<Longrightarrow> \<exists>r. rank_one c part r"
  by (cases part) (auto simp: rank_one_def)

lemma rank_one_unique: "rank_one c part r \<Longrightarrow> rank_one c part r' \<Longrightarrow> r = r'"
  by (auto simp: rank_one_def split: list.splits)

lemma bucket_select_iff:
  "r \<in> set (bucket_select cs tagged) \<longleftrightarrow>
   (\<exists>k c. (k, r) \<in> set tagged \<and> c \<in> set cs \<and> rank_one c (partition_of tagged k) r)"
  by (force simp: bucket_select_def list_ex_iff)

lemma subseq_distinct': "subseq xs ys \<Longrightarrow> distinct ys \<Longrightarrow> distinct xs"
  by (induction rule: list_emb.induct) (auto dest: list_emb_set)

text \<open>At most one row per bucket and order.\<close>

lemma bucket_select_length:
  assumes "distinct (map snd tagged)"
  shows "length (bucket_select cs tagged) \<le> card (fst ` set tagged) * length cs"
proof -
  define pick where "pick = (\<lambda>(k, c). THE r. rank_one c (partition_of tagged k) r)"
  have "r \<in> pick ` (fst ` set tagged \<times> set cs)" if "r \<in> set (bucket_select cs tagged)" for r
  proof -
    obtain k c where kc: "(k, r) \<in> set tagged" "c \<in> set cs" "rank_one c (partition_of tagged k) r"
      using \<open>r \<in> set (bucket_select cs tagged)\<close> by (auto simp: bucket_select_iff)
    then have "pick (k, c) = r" using rank_one_unique by (auto simp: pick_def intro!: the_equality)
    moreover have "k \<in> fst ` set tagged" using kc(1) by force
    ultimately show ?thesis using kc(2) by (intro image_eqI [of _ _ "(k, c)"]) auto
  qed
  then have "set (bucket_select cs tagged) \<subseteq> pick ` (fst ` set tagged \<times> set cs)" by blast
  then have "card (set (bucket_select cs tagged)) \<le> card (fst ` set tagged \<times> set cs)"
    by (rule surj_card_le [rotated]) simp
  also have "\<dots> = card (fst ` set tagged) * card (set cs)" by (rule card_cartesian_product)
  also have "\<dots> \<le> card (fst ` set tagged) * length cs" by (intro mult_le_mono2 card_length)
  finally have "card (set (bucket_select cs tagged)) \<le> card (fst ` set tagged) * length cs" .
  moreover have "distinct (bucket_select cs tagged)"
    using subseq_distinct' [OF bucket_select_subseq] assms by blast
  ultimately show ?thesis by (simp add: distinct_card)
qed

text \<open>Under each of the orders, no row is below all the rows kept.\<close>

context order_cmp
begin

lemma rank_one_le:
  "\<forall>y \<in> set part. ok y \<Longrightarrow> rank_one c part r \<Longrightarrow> y \<in> set part \<Longrightarrow> c r y \<noteq> Greater"
  using min_by_le by (auto simp: rank_one_def split: list.splits)

lemma bucket_select_keeps:
  assumes "c \<in> set cs" and "\<forall>y \<in> snd ` set tagged. ok y" and "y \<in> snd ` set tagged"
  shows "\<exists>r \<in> set (bucket_select cs tagged). c r y \<noteq> Greater"
proof -
  obtain k where k: "(k, y) \<in> set tagged" using assms(3) by auto
  then have y: "y \<in> set (partition_of tagged k)" by (simp add: in_partition)
  then have "partition_of tagged k \<noteq> []" by (cases "partition_of tagged k") simp_all
  then obtain r where r: "rank_one c (partition_of tagged k) r" using rank_one_exists by blast
  then have "(k, r) \<in> set tagged" using rank_one_in [OF r] by (simp add: in_partition)
  then have "r \<in> set (bucket_select cs tagged)" using assms(1) r by (auto simp: bucket_select_iff)
  moreover have "\<forall>y \<in> set (partition_of tagged k). ok y" using assms(2) by (fastforce simp: in_partition)
  ultimately show ?thesis using rank_one_le [OF _ r y] by blast
qed

end

subsection \<open>The number of buckets\<close>

lemma fmul_int_exact:
  assumes "\<bar>a\<bar> \<le> 2 ^ 53" and "\<bar>b\<bar> \<le> 2 ^ 53" and "\<bar>a * b\<bar> \<le> 2 ^ 53"
  shows "is_finite (fmul (f64_of_int a) (f64_of_int b))" and "val (fmul (f64_of_int a) (f64_of_int b)) = of_int (a * b)"
proof -
  obtain s m t n where x: "f64_of_int a = F_Fin s m" and y: "f64_of_int b = F_Fin t n"
    using f64_of_int_exact(1) [OF assms(1)] f64_of_int_exact(1) [OF assms(2)]
    by (cases "f64_of_int a"; cases "f64_of_int b") auto
  have "sval s m * sval t n = of_int (a * b)"
    using f64_of_int_exact(2) [OF assms(1)] f64_of_int_exact(2) [OF assms(2)] x y by simp
  then show "is_finite (fmul (f64_of_int a) (f64_of_int b))" "val (fmul (f64_of_int a) (f64_of_int b)) = of_int (a * b)"
    using round_to_exact [OF representable_int [OF assms(3)] int_below_bound [OF assms(3)]]
    by (simp_all add: x y)
qed

lemma fdiv_val: "is_finite x \<Longrightarrow> is_finite y \<Longrightarrow> val y \<noteq> 0 \<Longrightarrow>
   val (fdiv x y) = (if is_finite (fdiv x y) then round_val (val x / val y) else 0)"
proof -
  assume a: "is_finite x" "is_finite y" "val y \<noteq> 0"
  show ?thesis
  proof (cases "is_finite (fdiv x y)")
    case True
    then show ?thesis using val_fdiv a by simp
  next
    case False
    then show ?thesis by (cases "fdiv x y") simp_all
  qed
qed

text \<open>\<open>(i * b) / n\<close> is at least \<open>b / n\<close> below \<open>b\<close>, and a representable number lies between.\<close>

lemma round_ratio_less:
  assumes "i < n" and "n \<le> 2 ^ 35" and "0 < b" and "b \<le> 250000"
  shows "round_val (of_int (int i * int b) / of_int (int n)) < of_int (int b)"
proof -
  define p :: rat where "p = of_int (int b * 2 ^ 35 - 1) / 2 ^ 35"
  have n: "(0::rat) < of_nat n" "of_nat n \<le> (2::rat) ^ 35"
    using assms(1) of_nat_mono [OF assms(2), where 'a = rat] by simp_all
  have b: "(1::rat) \<le> of_nat b" using assms(3) by simp
  have "of_nat i * of_nat b \<le> (of_nat n - 1) * (of_nat b :: rat)"
    using assms(1) by (intro mult_right_mono) (simp_all flip: of_nat_Suc add: le_diff_eq)
  then have "of_nat i * of_nat b / of_nat n \<le> ((of_nat n - 1) * of_nat b) / (of_nat n :: rat)"
    using n by (intro divide_right_mono) simp_all
  also have "\<dots> = of_nat b - of_nat b / of_nat n" using n by (simp add: field_simps)
  also have "\<dots> \<le> of_nat b - 1 / 2 ^ 35"
  proof -
    have "(1::rat) / 2 ^ 35 \<le> 1 / of_nat n" using n by (intro divide_left_mono) simp_all
    also have "\<dots> \<le> of_nat b / of_nat n" using n b by (intro divide_right_mono) simp_all
    finally show ?thesis by simp
  qed
  also have "of_nat b - 1 / 2 ^ 35 = p" by (simp add: p_def field_simps)
  finally have le: "of_int (int i * int b) / of_int (int n) \<le> p" by simp
  have "int b * 2 ^ 35 - 1 \<le> 2 ^ 53" "0 < int b * 2 ^ 35 - 1" using assms(3,4) by simp_all
  then have "representable (of_int \<bar>int b * 2 ^ 35 - 1\<bar> * 2 powi (- 35))"
    by (intro representable_scaled) simp_all
  moreover have "of_int \<bar>int b * 2 ^ 35 - 1\<bar> * 2 powi (- 35) = p"
    using \<open>0 < int b * 2 ^ 35 - 1\<close> by (simp add: p_def power_int_minus field_simps)
  ultimately have "representable p" by simp
  moreover have "\<bar>p\<bar> = p" using b by (simp add: p_def)
  ultimately have "round_val p = p" using round_val_representable [of p] by simp
  moreover have "p < of_int (int b)" by (simp add: p_def field_simps)
  ultimately show ?thesis using round_val_mono [OF le] by simp
qed

lemma bucket_of_less:
  assumes "i < n" and "n \<le> 2 ^ 35" and "0 < b" and "b \<le> 250000"
  shows "bucket_of i b n < b"
proof -
  have "int i \<le> 2 ^ 35" "int b \<le> 250000" using assms by simp_all
  then have "int i * int b \<le> 2 ^ 35 * 250000" by (rule mult_mono) simp_all
  then have m: "\<bar>int i\<bar> \<le> 2 ^ 53" "\<bar>int b\<bar> \<le> 2 ^ 53" "\<bar>int i * int b\<bar> \<le> 2 ^ 53" "\<bar>int n\<bar> \<le> 2 ^ 53"
    using assms by simp_all
  have "val (f64_of_int (int n)) \<noteq> 0" using f64_of_int_exact(2) [OF m(4)] assms(1) by simp
  note d = fdiv_val [OF fmul_int_exact(1) [OF m(1,2,3)] f64_of_int_exact(1) [OF m(4)] this]
  have "val (fdiv (fmul (f64_of_int (int i)) (f64_of_int (int b))) (f64_of_int (int n))) < of_int (int b)"
    using round_ratio_less [OF assms] assms(3)
    by (simp add: d fmul_int_exact(2) [OF m(1,2,3)] f64_of_int_exact(2) [OF m(4)])
  then have "\<lfloor>val (fdiv (fmul (f64_of_int (int i)) (f64_of_int (int b))) (f64_of_int (int n)))\<rfloor> < int b"
    by (simp add: floor_less_iff)
  then show ?thesis using assms(3) by (simp add: bucket_of_def nat_less_iff)
qed

lemma bucketed_buckets:
  assumes "length rows \<le> 2 ^ 35" and "0 < b" and "b \<le> 250000"
  shows "card (fst ` set (bucketed b rows)) \<le> b"
proof -
  have "fst ` set (bucketed b rows) = set (map fst (bucketed b rows))" by simp
  also have "\<dots> \<subseteq> {..<b}" using bucket_of_less [OF _ assms] by (auto simp: bucketed_fst)
  finally show ?thesis using card_mono [of "{..<b}"] by simp
qed

subsection \<open>What each policy returns\<close>

abbreviation matching :: "(string \<Rightarrow> point_row list) \<Rightarrow> metric_source \<Rightarrow> metric_query \<Rightarrow> store \<Rightarrow> point_row list" where
  "matching files source q s \<equiv> filter (in_query q) (source_rows files source s)"

lemma sort_by_empty [simp]: "sort_by c xs = [] \<longleftrightarrow> xs = []"
  by (metis length_0_conv length_sort_by)

text \<open>The points of the whole effective series, in step order.\<close>

definition full_points :: "metric_query \<Rightarrow> point_row list \<Rightarrow> metric_point list" where
  "full_points q rows = map point_of_row (sort_by step_cmp (effective_cte q rows))"

lemma full_points_steps: "map mp_step (full_points q rows) = map pr_step (sort_by step_cmp (effective_cte q rows))"
  by (simp add: full_points_def)

lemma full_points_length [simp]: "length (full_points q rows) = length (effective_cte q rows)"
  by (simp add: full_points_def)

lemma full_points_sorted: "sorted_wrt (<) (map mp_step (full_points q rows))"
  unfolding full_points_steps by (rule strict_steps_sort [OF effective_cte_steps_distinct])

lemma full_points_set: "set (full_points q rows) = point_of_row ` set (effective_cte q rows)"
  by (simp add: full_points_def)

lemma query_identity: "query_metric files source q w = (Ok res, w') \<Longrightarrow>
  \<not> is_blank (mq_run_id q) \<and> \<not> is_blank (mq_metric_key q)"
  by (auto simp: query_metric_def split: if_splits)

lemma full_query_Ok:
  assumes "execute_query files source q Shape_Full (s, x) = (Ok res, w')"
  shows "mqr_points res = full_points q (source_rows files source s) \<and>
         mqr_source_row_count res = of_nat (length (mqr_points res)) \<and>
         same_tables s (fst w') \<and> snd w' = x"
proof -
  have "sort_by step_cmp (effective_cte q (source_rows files source s)) = [] \<Longrightarrow>
        effective_cte q (source_rows files source s) = []"
    by (metis length_0_conv length_sort_by)
  then show ?thesis using execute_query_Ok [OF assms] by (auto simp: Let_def full_points_def)
qed

lemma metric_orders_set:
  "step_cmp \<in> set (metric_orders env)" "desc step_cmp \<in> set (metric_orders env)"
  "lex_cmp (value_cmp env) step_cmp \<in> set (metric_orders env)"
  "lex_cmp (desc (value_cmp env)) step_cmp \<in> set (metric_orders env)"
  "length (metric_orders env) = 4"
  by (simp_all add: metric_orders_def)

lemma order_cmp_desc: "order_cmp c ok \<Longrightarrow> order_cmp (desc c) ok"
  unfolding order_cmp_def desc_def by blast

lemma order_cmp_lex:
  assumes c: "order_cmp c ok" and d: "order_cmp d ok"
  shows "order_cmp (lex_cmp c d) ok"
proof
  fix x y assume "ok x" "ok y"
  then show "reverse_ord (lex_cmp c d x y) = lex_cmp c d y x"
    using order_cmp.antisym_cmp [OF c] order_cmp.antisym_cmp [OF d]
    by (simp add: lex_cmp_def reverse_then_with)
next
  fix x y z assume ok: "ok x" "ok y" "ok z"
    and xy: "lex_cmp c d x y \<noteq> Greater" and yz: "lex_cmp c d y z \<noteq> Greater"
  have le: "c x y \<noteq> Greater" "c y z \<noteq> Greater"
    using xy yz by (auto simp: lex_cmp_def then_with_eq_Greater)
  then have xz: "c x z \<noteq> Greater" using order_cmp.trans_cmp [OF c ok] by blast
  have "d x z \<noteq> Greater" if eq: "c x z = Equal"
  proof -
    have zx: "c z x \<noteq> Greater" using order_cmp.antisym_cmp [OF c ok(1,3)] eq by auto
    have "c y x \<noteq> Greater" "c z y \<noteq> Greater"
      using order_cmp.trans_cmp [OF c ok(2,3,1) le(2) zx] order_cmp.trans_cmp [OF c ok(3,1,2) zx le(1)] .
    then have "c x y = Equal"
      using le order_cmp.antisym_cmp [OF c ok(1,2)] by (cases "c x y") auto
    moreover have "c y z = Equal"
      using \<open>c z y \<noteq> Greater\<close> le order_cmp.antisym_cmp [OF c ok(2,3)] by (cases "c y z") auto
    ultimately have "d x y \<noteq> Greater" "d y z \<noteq> Greater"
      using xy yz by (auto simp: lex_cmp_def then_with_eq_Greater)
    then show ?thesis using order_cmp.trans_cmp [OF d ok] by blast
  qed
  with xz show "lex_cmp c d x z \<noteq> Greater" by (auto simp: lex_cmp_def then_with_eq_Greater)
qed

lemma value_order: "order_cmp (de_dbl_cmp env) (\<lambda>_. True) \<Longrightarrow> order_cmp (value_cmp env) (\<lambda>_. True)"
  unfolding order_cmp_def value_cmp_def by blast

text \<open>The screen reduction keeps, under each of its orders, a row that none is below.\<close>

lemma screen_rows_keeps:
  assumes "c \<in> set (metric_orders env)" and "order_cmp c (\<lambda>_. True)" and "r \<in> set eff"
  shows "\<exists>k \<in> set (screen_rows env b eff). c k r \<noteq> Greater"
proof -
  have "r \<in> snd ` set (bucketed b (sort_by step_cmp eff))"
    using assms(3) by (metis bucketed_snd set_map set_sort_by)
  then show ?thesis
    unfolding screen_rows_def using order_cmp.bucket_select_keeps [OF assms(2,1)] by simp
qed

lemma screen_rows_subseq: "subseq (screen_rows env b eff) (sort_by step_cmp eff)"
  using bucket_select_subseq [of _ "bucketed b (sort_by step_cmp eff)"] by (simp add: screen_rows_def)

lemma screen_rows_ends:
  assumes "distinct (map pr_step eff)" and "eff \<noteq> []"
  shows "hd (sort_by step_cmp eff) \<in> set (screen_rows env b eff)"
    and "last (sort_by step_cmp eff) \<in> set (screen_rows env b eff)"
proof -
  let ?xs = "sort_by step_cmp eff"
  have ne: "?xs \<noteq> []" using assms(2) by simp
  have in_eff: "hd ?xs \<in> set eff" "last ?xs \<in> set eff"
    using hd_in_set [OF ne] last_in_set [OF ne] by simp_all
  have inj: "k = r" if "k \<in> set eff" "r \<in> set eff" "pr_step k = pr_step r" for k r
    using assms(1) that by (auto simp: distinct_map inj_on_def)
  have sub: "set (screen_rows env b eff) \<subseteq> set eff"
    using list_emb_set [OF screen_rows_subseq, of _ env b eff] by auto
  have le: "pr_step (hd ?xs) \<le> pr_step k \<and> pr_step k \<le> pr_step (last ?xs)" if "k \<in> set eff" for k
  proof -
    have k: "k \<in> set ?xs" using \<open>k \<in> set eff\<close> by simp
    have s: "sorted (map pr_step ?xs)" by (rule sorted_by_step)
    obtain i where i: "i < length ?xs" "k = ?xs ! i"
      using in_set_conv_nth [THEN iffD1, OF k] by blast
    have "map pr_step ?xs ! 0 \<le> map pr_step ?xs ! i" "map pr_step ?xs ! i \<le> map pr_step ?xs ! (length ?xs - 1)"
      using sorted_nth_mono [OF s, of 0 i] sorted_nth_mono [OF s, of i "length ?xs - 1"] i(1) by simp_all
    then show ?thesis using i ne by (simp add: hd_conv_nth last_conv_nth)
  qed
  obtain k where k: "k \<in> set (screen_rows env b eff)" "step_cmp k (hd ?xs) \<noteq> Greater"
    using screen_rows_keeps [OF metric_orders_set(1) step_order.order_cmp_axioms in_eff(1)] by blast
  have "k \<in> set eff" using sub k(1) by blast
  then have "k = hd ?xs" using le [of k] k(2) by (intro inj in_eff(1)) simp_all
  with k show "hd ?xs \<in> set (screen_rows env b eff)" by simp
  obtain l where l: "l \<in> set (screen_rows env b eff)" "desc step_cmp l (last ?xs) \<noteq> Greater"
    using screen_rows_keeps [OF metric_orders_set(2) order_cmp_desc [OF step_order.order_cmp_axioms] in_eff(2)] by blast
  have "l \<in> set eff" using sub l(1) by blast
  then have "l = last ?xs" using le [of l] l(2) by (intro inj in_eff(2)) (simp_all add: desc_def)
  with l show "last ?xs \<in> set (screen_rows env b eff)" by simp
qed

lemma screen_rows_length:
  assumes "distinct eff" and "length eff \<le> 2 ^ 35" and "0 < b" and "b \<le> 250000"
  shows "length (screen_rows env b eff) \<le> b * 4"
proof -
  have "length (screen_rows env b eff) \<le>
        card (fst ` set (bucketed b (sort_by step_cmp eff))) * length (metric_orders env)"
    unfolding screen_rows_def by (rule bucket_select_length) (simp add: assms(1))
  also have "\<dots> \<le> b * 4"
    using bucketed_buckets [of "sort_by step_cmp eff" b] assms by (simp add: metric_orders_set(5))
  finally show ?thesis .
qed

lemma effective_length: "length (effective rows) \<le> length rows"
  by (induction rows rule: rev_induct) (auto simp: effective_snoc intro: le_trans [OF length_filter_le])

lemma effective_cte_length: "length (effective_cte q rows) \<le> length (filter (in_query q) rows)"
  unfolding effective_cte_def by (rule effective_length)

lemma screen_query_Ok:
  assumes "query_metric files source q (s, x) = (Ok res, w')" and "mq_reduction q = RP_ScreenBudget w d"
  shows "execute_query files source q (Shape_Screen (max (the (rp_max_points (RP_ScreenBudget w d)) div 4) 1)) (s, x) = (Ok res, w')"
  using assms by (auto simp: query_metric_def split: if_splits)

lemma screen_buckets_bounds:
  assumes "m = the (rp_max_points (RP_ScreenBudget w d))"
  shows "0 < max (m div 4) 1" and "max (m div 4) 1 \<le> 250000" and "max (m div 4) 1 * 4 \<le> m"
  using screen_points_bounds [of "usize_sat_mul (unat w) (unat d)"] assms by auto

subsection \<open>Properties\<close>

definition sample_lttb :: lttb_ext where
  "sample_lttb = \<lparr>lx_available = False, lx_path_env = None, lx_auto_env = Some ''1'',
     lx_batch = (\<lambda>sql available. if starts_with sql ''INSTALL'' then (None, True) else (Some ''not found'', available)),
     lx_points = (\<lambda>rows n. map fst (take (nat n) rows))\<rparr>"

definition sample_query :: "reduction_policy \<Rightarrow> metric_query" where
  "sample_query policy = \<lparr>mq_run_id = ''r1'', mq_metric_key = ''loss'', mq_start_step = Some 0,
     mq_end_step = Some 9, mq_reduction = policy\<rparr>"

lemma sample_query_simps [simp]:
  "mq_run_id (sample_query policy) = ''r1''" "mq_metric_key (sample_query policy) = ''loss''"
  "mq_reduction (sample_query policy) = policy"
  by (simp_all add: sample_query_def)

lemma sample_identity [simp]: "\<not> is_blank ''r1''" "\<not> is_blank ''loss''"
  using visible_not_blank [of "CHR ''r''" "''r1''"] visible_not_blank [of "CHR ''l''" "''loss''"]
  by (simp_all add: visible_def)

lemma sample_encoded [simp]:
  "encode_byte (CHR ''l'') = ''l''" "encode_byte (CHR ''o'') = ''o''" "encode_byte (CHR ''s'') = ''s''"
  by (simp_all add: encode_byte_def unreserved_def char_nat_def)

lemma sample_matching:
  "filter (in_query (sample_query policy)) (source_rows files Src_Project sample_store) = st_points sample_store"
  by (simp add: sample_store_def in_query_def sample_query_def)

lemma sample_effective:
  "effective_cte (sample_query policy) (st_points sample_store) =
   [\<lparr>pr_run_id = ''r1'', pr_metric_key = ''loss'', pr_key_encoded = ''loss'', pr_step = 1,
     pr_timestamp = 7, pr_value = F_Fin False 3, pr_ingested_at = 7\<rparr>]"
  unfolding effective_cte_def using sample_matching [of policy]
  by (simp add: sample_store_def effective_def outranked_def same_point_def)

text \<open>C24: a query without reduction returns exactly one point for every step of the range that
  has been written, in strictly increasing step order; the point is the latest ingested one, the
  row count is the number of points, and the store is only read.\<close>
theorem query_full_correct:
  assumes "query_metric files source q (s, x) = (Ok res, w')" and "mq_reduction q = RP_Full"
  shows "sorted_wrt (<) (map mp_step (mqr_points res)) \<and>
    mp_step ` set (mqr_points res) = pr_step ` set (matching files source q s) \<and>
    (\<forall>p \<in> set (mqr_points res). \<exists>r \<in> set (matching files source q s). p = point_of_row r \<and>
       (\<forall>b \<in> set (matching files source q s). pr_step b = mp_step p \<longrightarrow> pr_ingested_at b \<le> mp_ingested_at p)) \<and>
    mqr_source_row_count res = of_nat (length (mqr_points res)) \<and> \<not> mqr_downsampled res \<and>
    same_tables s (fst w')"
proof -
  let ?rows = "source_rows files source s"
  have "execute_query files source q Shape_Full (s, x) = (Ok res, w')"
    using assms by (auto simp: query_metric_def split: if_splits)
  note f = full_query_Ok [OF this]
  have steps: "mp_step ` set (full_points q ?rows) = pr_step ` set (filter (in_query q) ?rows)"
    using effective_cte_steps [of q ?rows] by (simp add: full_points_set image_image)
  have latest: "\<exists>r \<in> set (filter (in_query q) ?rows). p = point_of_row r \<and>
      (\<forall>b \<in> set (filter (in_query q) ?rows). pr_step b = mp_step p \<longrightarrow> pr_ingested_at b \<le> mp_ingested_at p)"
    if "p \<in> set (full_points q ?rows)" for p
  proof -
    obtain r where r: "r \<in> set (effective_cte q ?rows)" "p = point_of_row r"
      using \<open>p \<in> set (full_points q ?rows)\<close> by (auto simp: full_points_set)
    then show ?thesis using effective_cte_in [OF r(1)] effective_cte_latest [OF r(1)] by (intro bexI [of _ r]) auto
  qed
  show ?thesis
    using f full_points_sorted [of q ?rows] steps latest by (simp add: mqr_downsampled_def)
qed

theorem query_full_correct_witness:
  "\<exists>res w'. query_metric (\<lambda>_. []) Src_Project (sample_query RP_Full) (sample_store, sample_lttb) = (Ok res, w') \<and>
     mp_step ` set (mqr_points res) = {1} \<and> mqr_source_row_count res = 1 \<and> length (mqr_points res) = 1"
proof -
  let ?m = "query_metric (\<lambda>_. []) Src_Project (sample_query RP_Full) (sample_store, sample_lttb)"
  obtain res w' where run: "?m = (Ok res, w')" and n: "length (mqr_points res) = 1"
    by (simp add: query_metric_def execute_query_def bind_op_def on_store_def query_no_faults shape_params_def
          sample_effective metric_point_of_def timestamp_from_millis_def sample_ts_ok)
  have "mp_step ` set (mqr_points res) =
        pr_step ` set (matching (\<lambda>_. []) Src_Project (sample_query RP_Full) sample_store)"
    using query_full_correct [OF run sample_query_simps(3)] by blast
  then have "mp_step ` set (mqr_points res) = pr_step ` set (st_points sample_store)"
    unfolding sample_matching .
  then have "mp_step ` set (mqr_points res) = {1}" by (simp add: sample_store_def)
  moreover have "mqr_source_row_count res = 1" using query_full_correct [OF run] n by simp
  ultimately show ?thesis using run n by blast
qed

text \<open>Every row of the series has a kept row with a value no larger and one with a value no smaller.\<close>

lemma screen_rows_extremes:
  assumes dbl: "order_cmp (de_dbl_cmp env) (\<lambda>_. True)" and r: "r \<in> set eff"
  obtains k l where "k \<in> set (screen_rows env b eff)" "l \<in> set (screen_rows env b eff)"
    "value_cmp env k r \<noteq> Greater" "value_cmp env r l \<noteq> Greater"
proof -
  note v = value_order [OF dbl]
  obtain k where "k \<in> set (screen_rows env b eff)" "lex_cmp (value_cmp env) step_cmp k r \<noteq> Greater"
    using screen_rows_keeps [OF metric_orders_set(3) order_cmp_lex [OF v step_order.order_cmp_axioms] r] by blast
  moreover obtain l where "l \<in> set (screen_rows env b eff)" "lex_cmp (desc (value_cmp env)) step_cmp l r \<noteq> Greater"
    using screen_rows_keeps [OF metric_orders_set(4) order_cmp_lex [OF order_cmp_desc [OF v] step_order.order_cmp_axioms] r] by blast
  ultimately show ?thesis using that by (auto simp: lex_cmp_def desc_def then_with_eq_Greater)
qed

lemma screen_rows_empty:
  assumes "screen_rows env b eff = []"
  shows "eff = []"
proof (rule ccontr)
  assume "eff \<noteq> []"
  then have "hd eff \<in> set eff" by simp
  then obtain k where "k \<in> set (screen_rows env b eff)"
    using screen_rows_keeps [OF metric_orders_set(1) step_order.order_cmp_axioms] by blast
  then show False using assms by simp
qed

text \<open>C23: a screen-reduced query returns a subsequence of the unreduced result, with at most as many
  points as the budget, the row count of the whole series, its first and its last point, and for
  every point of the series one kept point with a value no larger and one with a value no smaller,
  so that the extremes survive the reduction.\<close>
theorem query_screen_correct:
  assumes run: "query_metric files source q (s, x) = (Ok res, w')" and budget: "mq_reduction q = RP_ScreenBudget w d"
    and dbl: "order_cmp (de_dbl_cmp (st_env s)) (\<lambda>_. True)"
    and small: "length (matching files source q s) \<le> 2 ^ 35"
  shows "let full = full_points q (source_rows files source s) in
    subseq (mqr_points res) full \<and>
    length (mqr_points res) \<le> the (rp_max_points (RP_ScreenBudget w d)) \<and>
    mqr_source_row_count res = of_nat (length full) \<and>
    (full \<noteq> [] \<longrightarrow> hd full \<in> set (mqr_points res) \<and> last full \<in> set (mqr_points res)) \<and>
    (\<forall>p \<in> set full. \<exists>a \<in> set (mqr_points res). \<exists>b \<in> set (mqr_points res).
       de_dbl_cmp (st_env s) (mp_value a) (mp_value p) \<noteq> Greater \<and>
       de_dbl_cmp (st_env s) (mp_value p) (mp_value b) \<noteq> Greater)"
proof -
  let ?env = "st_env s" and ?eff = "effective_cte q (source_rows files source s)"
  let ?full = "full_points q (source_rows files source s)"
  define b where "b = max (the (rp_max_points (RP_ScreenBudget w d)) div 4) 1"
  note bounds = screen_buckets_bounds [OF refl, of w d, folded b_def]
  have ex: "mqr_points res = map point_of_row (screen_rows ?env b ?eff)"
    "mqr_source_row_count res = (if screen_rows ?env b ?eff = [] then 0 else of_nat (length ?eff))"
    using execute_query_Ok [OF screen_query_Ok [OF run budget, folded b_def]] by (simp_all add: Let_def)
  have sub: "subseq (mqr_points res) (full_points q (source_rows files source s))"
    unfolding ex(1) full_points_def by (rule subseq_map [OF screen_rows_subseq])
  have "length (screen_rows ?env b ?eff) \<le> b * 4"
  proof (rule screen_rows_length)
    show "distinct ?eff" using effective_cte_steps_distinct distinct_map by blast
    show "length ?eff \<le> 2 ^ 35" using effective_cte_length small le_trans by blast
  qed (use bounds in simp_all)
  then have len: "length (mqr_points res) \<le> the (rp_max_points (RP_ScreenBudget w d))"
    using bounds(3) by (simp add: ex(1))
  have cnt: "mqr_source_row_count res = of_nat (length ?eff)" using screen_rows_empty [of ?env b ?eff] by (auto simp: ex(2))
  have ends: "hd ?full \<in> set (mqr_points res) \<and> last ?full \<in> set (mqr_points res)" if ne: "?full \<noteq> []"
  proof -
    have "?eff \<noteq> []" "sort_by step_cmp ?eff \<noteq> []" using ne by (auto simp: full_points_def)
    then show ?thesis
      using screen_rows_ends [OF effective_cte_steps_distinct, of q "source_rows files source s" ?env b]
      by (simp add: ex(1) full_points_def hd_map last_map)
  qed
  have extremes: "\<exists>k \<in> set (mqr_points res). \<exists>l \<in> set (mqr_points res).
      de_dbl_cmp ?env (mp_value k) (mp_value p) \<noteq> Greater \<and> de_dbl_cmp ?env (mp_value p) (mp_value l) \<noteq> Greater"
    if "p \<in> set ?full" for p
  proof -
    obtain r where r: "r \<in> set ?eff" "p = point_of_row r" using \<open>p \<in> set ?full\<close> by (auto simp: full_points_set)
    obtain k l where kl: "k \<in> set (screen_rows ?env b ?eff)" "l \<in> set (screen_rows ?env b ?eff)"
      "value_cmp ?env k r \<noteq> Greater" "value_cmp ?env r l \<noteq> Greater"
      by (rule screen_rows_extremes [OF dbl r(1)])
    then have "point_of_row k \<in> set (mqr_points res)" "point_of_row l \<in> set (mqr_points res)" by (simp_all add: ex(1))
    moreover have "de_dbl_cmp ?env (mp_value (point_of_row k)) (mp_value p) \<noteq> Greater"
      "de_dbl_cmp ?env (mp_value p) (mp_value (point_of_row l)) \<noteq> Greater"
      using kl(3,4) by (auto simp: r(2) value_cmp_def)
    ultimately show ?thesis by blast
  qed
  show ?thesis
    using sub len cnt ends extremes by (simp add: Let_def)
qed

theorem query_screen_correct_witness:
  "\<exists>res w'. query_metric (\<lambda>_. []) Src_Project (sample_query (RP_ScreenBudget 1 1)) (sample_store, sample_lttb) = (Ok res, w') \<and>
     length (mqr_points res) \<le> 4 \<and> mqr_source_row_count res = 1 \<and>
     hd (full_points (sample_query (RP_ScreenBudget 1 1)) (st_points sample_store)) \<in> set (mqr_points res)"
proof -
  let ?q = "sample_query (RP_ScreenBudget 1 1)"
  let ?m = "query_metric (\<lambda>_. []) Src_Project ?q (sample_store, sample_lttb)"
  have four: "the (rp_max_points (RP_ScreenBudget 1 1)) = 4"
    by (simp add: clamp_nat_def usize_sat_mul_def)
  obtain res w' where run: "?m = (Ok res, w')"
    using four
    by (simp add: query_metric_def execute_query_def bind_op_def on_store_def query_no_faults shape_params_def
          sample_effective metric_point_of_def timestamp_from_millis_def sample_ts_ok screen_rows_def
          bucketed_def bucket_select_def partition_of_def rank_one_def metric_orders_def)
  have dbl: "order_cmp (de_dbl_cmp (st_env sample_store)) (\<lambda>_. True)"
    using total_order_f64.order_cmp_axioms by (simp add: sample_env_def)
  have small: "length (matching (\<lambda>_. []) Src_Project ?q sample_store) \<le> 2 ^ 35"
    unfolding sample_matching by (simp add: sample_store_def)
  have full: "full_points ?q (source_rows (\<lambda>_. []) Src_Project sample_store) = full_points ?q (st_points sample_store)"
    "length (full_points ?q (st_points sample_store)) = 1" "full_points ?q (st_points sample_store) \<noteq> []"
    by (simp_all add: sample_effective full_points_def)
  note q = query_screen_correct [OF run sample_query_simps(3) dbl small, unfolded four full(1) Let_def]
  have "length (mqr_points res) \<le> 4" "hd (full_points ?q (st_points sample_store)) \<in> set (mqr_points res)"
    using q full(3) by blast+
  moreover have "mqr_source_row_count res = 1" using q full(2) by simp
  ultimately show ?thesis using run by blast
qed

lemma batch_outcome_Ok: "batch_outcome sql m x = (Ok u, x') \<Longrightarrow> lx_available x' \<and> lx_points x' = lx_points x"
  by (auto simp: batch_outcome_def execute_lttb_batch_def split: prod.splits option.splits if_splits)

lemma ensure_lttb_Ok:
  "ensure_lttb_extension_loaded x = (Ok u, x') \<Longrightarrow> lx_available x' \<and> lx_points x' = lx_points x"
  by (auto simp: ensure_lttb_extension_loaded_def install_and_load_lttb_extension_def
        load_lttb_extension_from_path_def execute_lttb_batch_def
      split: prod.splits option.splits if_splits dest!: batch_outcome_Ok)

lemma count_effective_Ok:
  "count_effective files source q (s, x) = (Ok n, w') \<Longrightarrow>
   n = of_nat (length (effective_cte q (source_rows files source s))) \<and>
   (\<exists>fs. w' = (s\<lparr>st_faults := fs\<rparr>, x))"
  by (cases source) (auto simp: count_effective_def on_store_def query_Ok split: prod.splits)

lemma lttb_rows_subset: "set (lttb_rows x n eff) \<subseteq> set eff"
  by (auto simp: lttb_rows_def)

text \<open>An LTTB query whose series fits the limit returns the unreduced series and never touches
  the extension; a larger series is answered only with the extension registered, by points of the
  series in step order.\<close>
theorem query_lttb_correct:
  assumes run: "query_metric files source q (s, x) = (Ok res, w')" and lttb: "mq_reduction q = RP_Lttb n"
    and small: "length (matching files source q s) < 2 ^ 63" and limit: "n < 2 ^ 63"
  shows "let full = full_points q (source_rows files source s) in
    if length full \<le> n then mqr_points res = full \<and> snd w' = x
    else lx_available (snd w') \<and> set (mqr_points res) \<subseteq> set full \<and> sorted (map mp_step (mqr_points res))"
proof -
  let ?eff = "effective_cte q (source_rows files source s)"
  obtain m w1 where m: "count_effective files source q (s, x) = (Ok m, w1)"
    and rest: "(if m \<le> of_nat n then execute_query files source q Shape_Full
       else if i64_max < int n then fail_op (SE_QueryMaxPointsTooLarge n)
       else bind_op (on_lttb ensure_lttb_extension_loaded) (\<lambda>_. execute_query files source q (Shape_Lttb (int n)))) w1
       = (Ok res, w')"
    using run lttb by (auto simp: query_metric_def bind_op_Ok split: if_splits)
  obtain fs where w1: "w1 = (s\<lparr>st_faults := fs\<rparr>, x)" and cnt: "m = of_nat (length ?eff)"
    using count_effective_Ok [OF m] by blast
  have len: "length ?eff < 2 ^ 63" using effective_cte_length small le_less_trans by blast
  have le: "m \<le> of_nat n \<longleftrightarrow> length ?eff \<le> n"
    using len limit by (simp add: cnt word_le_nat_alt unsigned_of_nat take_bit_nat_eq_self)
  have rows: "source_rows files source (s\<lparr>st_faults := fs\<rparr>) = source_rows files source s" by (cases source) auto
  show ?thesis
  proof (cases "length ?eff \<le> n")
    case True
    then show ?thesis using rest le full_query_Ok [of files source q "s\<lparr>st_faults := fs\<rparr>" x res w'] w1 rows
      by (simp add: Let_def)
  next
    case False
    then obtain u x' where x': "ensure_lttb_extension_loaded x = (Ok u, x')"
      and ex: "execute_query files source q (Shape_Lttb (int n)) (s\<lparr>st_faults := fs\<rparr>, x') = (Ok res, w')"
      using rest le w1 by (auto simp: bind_op_Ok on_lttb_def split: if_splits prod.splits)
    have "mqr_points res = map point_of_row (lttb_rows x' (int n) ?eff)" "snd w' = x'"
      using execute_query_Ok [OF ex] rows by (simp_all add: Let_def)
    then show ?thesis
      using False ensure_lttb_Ok [OF x'] lttb_rows_subset [of x' "int n" ?eff] sorted_by_step
      by (auto simp: Let_def full_points_set lttb_rows_def comp_def)
  qed
qed

theorem query_lttb_correct_witness:
  "\<exists>res w'. query_metric (\<lambda>_. []) Src_Project (sample_query (RP_Lttb 2)) (sample_store, sample_lttb) = (Ok res, w') \<and>
     length (mqr_points res) = 1 \<and> snd w' = sample_lttb"
proof -
  let ?q = "sample_query (RP_Lttb 2)"
  obtain res w' where run: "query_metric (\<lambda>_. []) Src_Project ?q (sample_store, sample_lttb) = (Ok res, w')"
    by (simp add: query_metric_def count_effective_def execute_query_def bind_op_def on_store_def query_no_faults
          shape_params_def sample_effective metric_point_of_def timestamp_from_millis_def sample_ts_ok)
  have "length (matching (\<lambda>_. []) Src_Project ?q sample_store) < 2 ^ 63"
    unfolding sample_matching by (simp add: sample_store_def)
  then show ?thesis
    using query_lttb_correct [OF run sample_query_simps(3)] run by (simp add: Let_def sample_effective)
qed

subsection \<open>Summaries before and after a run ends\<close>

lemma effective_filter:
  assumes "\<And>a b. same_point a b \<Longrightarrow> P a = P b"
  shows "effective (filter P rows) = filter P (effective rows)"
proof (induction rows rule: rev_induct)
  case Nil
  then show ?case by simp
next
  case (snoc w rows)
  show ?case
  proof (cases "P w")
    case True
    have "(\<exists>b \<in> set (filter P rows). same_point b w \<and> pr_ingested_at w < pr_ingested_at b) \<longleftrightarrow>
          (\<exists>b \<in> set rows. same_point b w \<and> pr_ingested_at w < pr_ingested_at b)"
      using assms True by auto
    then show ?thesis using True snoc by (simp add: effective_snoc conj_commute)
  next
    case False
    have "filter (\<lambda>r. P r \<and> \<not> (same_point w r \<and> pr_ingested_at r \<le> pr_ingested_at w)) (effective rows) =
          filter P (effective rows)"
      using assms False by (intro filter_cong) auto
    then show ?thesis using False snoc by (simp add: effective_snoc conj_commute)
  qed
qed

lemma effective_filter_run: "effective (filter (\<lambda>p. pr_run_id p = rid) rows) = filter (\<lambda>p. pr_run_id p = rid) (effective rows)"
  and effective_filter_key: "effective (filter (\<lambda>p. pr_metric_key p = key) rows) = filter (\<lambda>p. pr_metric_key p = key) (effective rows)"
  by (rule effective_filter; simp add: same_point_def)+

lemma aggregates_of_run_filter:
  "aggregates_of_run env (filter (\<lambda>p. pr_run_id p = rid) rows) rid = aggregates_of_run env rows rid"
proof -
  have "aggregate_series env (filter (\<lambda>p. pr_run_id p = rid) rows) rid = aggregate_series env rows rid"
    by (rule ext) (simp add: aggregate_series_def effective_filter_run)
  then show ?thesis by (simp add: aggregates_of_run_def series_keys_def)
qed

lemma unique_run_filter:
  assumes "unique_runs s" and "sr \<in> set (st_runs s)" and "sr_run_id sr = rid"
  shows "filter (\<lambda>r. sr_run_id r = rid) (st_runs s) = [sr]"
proof -
  have "distinct (map sr_run_id rs) \<Longrightarrow> sr \<in> set rs \<Longrightarrow> filter (\<lambda>r. sr_run_id r = rid) rs = [sr]" for rs
    by (induction rs) (use assms(3) in \<open>auto simp: filter_empty_conv image_iff\<close>)
  then show ?thesis using assms by (simp add: unique_runs_def)
qed

lemma live_summary:
  assumes "filter (\<lambda>r. sr_run_id r = rid) (st_runs s) = [sr]" and "sr_status sr = ''running''"
  shows "summary_rows s key rid = aggregate_series (st_env s) (st_points s) rid key"
  using assms by (simp add: summary_rows_def aggregate_series_def effective_filter_key conj_commute)

lemma stored_summary:
  assumes "filter (\<lambda>r. sr_run_id r = rid) (st_runs s) = [sr]" and "sr_status sr \<noteq> ''running''"
  shows "summary_rows s key rid = filter (\<lambda>a. sa_run_id a = rid \<and> sa_metric_key a = key) (st_aggregates s)"
  using assms by (simp add: summary_rows_def)

lemma rebuilt_rows:
  assumes "rebuild_metric_aggregates_for_run rid s = (Ok u, s')"
  shows "filter (\<lambda>a. sa_run_id a = rid) (st_aggregates s') = aggregates_of_run (st_env s) (st_points s) rid"
    and "filter (\<lambda>a. sa_run_id a = rid \<and> sa_metric_key a = key) (st_aggregates s') =
         aggregate_series (st_env s) (st_points s) rid key"
proof -
  have agg: "st_aggregates s' = filter (\<lambda>a. sa_run_id a \<noteq> rid) (st_aggregates s) @
      aggregates_of_run (st_env s) (st_points s) rid"
    using rebuild_outcome [OF assms] by simp
  show all: "filter (\<lambda>a. sa_run_id a = rid) (st_aggregates s') = aggregates_of_run (st_env s) (st_points s) rid"
    using aggregates_of_run_id by (simp add: agg filter_empty_conv filter_id_conv)
  have "filter (\<lambda>a. sa_run_id a = rid \<and> sa_metric_key a = key) (st_aggregates s') =
        filter (\<lambda>a. sa_metric_key a = key) (filter (\<lambda>a. sa_run_id a = rid) (st_aggregates s'))"
    by simp
  also have "\<dots> = aggregate_series (st_env s) (st_points s) rid key"
    by (simp only: all aggregates_of_run_key)
  finally show "filter (\<lambda>a. sa_run_id a = rid \<and> sa_metric_key a = key) (st_aggregates s') =
        aggregate_series (st_env s) (st_points s) rid key" .
qed

lemma query_summary_Ok:
  assumes "query_metric_summaries rids key s = (Ok aggs, s')"
  shows "aggs = map into_metric_aggregate (concat (map (summary_rows s key) rids))"
proof (cases "rids = []")
  case True
  then show ?thesis using assms by (simp add: query_metric_summaries_def)
next
  case False
  have "summary_rows (s\<lparr>st_faults := fs\<rparr>) = summary_rows s" for fs by (intro ext) (simp add: summary_rows_def Let_def cong: if_cong list.case_cong)
  then show ?thesis using assms False by (auto simp: query_metric_summaries_def bind_op_Ok query_Ok)
qed

lemma list_metrics_Ok:
  assumes "list_metrics rid status s = (Ok aggs, s')"
  shows "aggs = map into_metric_aggregate (sort_by aggregate_key_cmp
    (if status = Running then aggregates_of_run (st_env s) (st_points s) rid
     else filter (\<lambda>a. sa_run_id a = rid) (st_aggregates s)))"
  using assms
  by (cases status) (auto simp: list_metrics_def bind_op_Ok query_Ok aggregates_of_run_filter)

text \<open>C22: ending a run does not change what is reported about it: after its aggregates have been
  rebuilt and its row has been marked, the summaries read from the materialised table are the ones
  that were computed from the points while the run was live, for every metric, and so is the list
  of its metrics.\<close>
theorem summaries_survive_the_end:
  assumes unique: "unique_runs s" and sr: "sr \<in> set (st_runs s)" "sr_run_id sr = rid" "sr_status sr = ''running''"
    and rebuild: "rebuild_metric_aggregates_for_run rid s = (Ok u, s1)"
    and mark: "store_mark_run_terminal rid status t s1 = (Ok b, s2)" and final: "status \<noteq> Running"
  shows "(query_metric_summaries [rid] key s = (Ok live, l') \<and> query_metric_summaries [rid] key s2 = (Ok stored, s3) \<longrightarrow> live = stored) \<and>
    (list_metrics rid Running s = (Ok live, l') \<and> list_metrics rid status s2 = (Ok stored, s3) \<longrightarrow> live = stored)"
proof -
  have s1: "st_runs s1 = st_runs s" "st_points s1 = st_points s" "st_env s1 = st_env s"
    using rebuild_outcome [OF rebuild] by simp_all
  have s2: "st_runs s2 = map (mark_row rid status t) (st_runs s)" "st_aggregates s2 = st_aggregates s1"
    using mark s1 by (auto simp: store_mark_run_terminal_def exec_Ok)
  have one: "filter (\<lambda>r. sr_run_id r = rid) (st_runs s) = [sr]"
    by (rule unique_run_filter [OF unique sr(1,2)])
  have marked: "filter (\<lambda>r. sr_run_id r = rid) (st_runs s2) = [mark_row rid status t sr]"
    using one by (simp add: s2(1) filter_map comp_def)
  have "sr_status (mark_row rid status t sr) \<noteq> ''running''" using sr final by (simp add: mark_row_def)
  then have "summary_rows s2 key rid = summary_rows s key rid"
    using live_summary [OF one sr(3)] stored_summary [OF marked] rebuilt_rows(2) [OF rebuild] s2(2) by simp
  moreover have "filter (\<lambda>a. sa_run_id a = rid) (st_aggregates s2) = aggregates_of_run (st_env s) (st_points s) rid"
    using rebuilt_rows(1) [OF rebuild] s2(2) by simp
  ultimately show ?thesis
    using query_summary_Ok [of "[rid]" key s live l'] query_summary_Ok [of "[rid]" key s2 stored s3]
      list_metrics_Ok [of rid Running s live l'] list_metrics_Ok [of rid status s2 stored s3] final by auto
qed

theorem summaries_survive_the_end_witness:
  "\<exists>s1 s2 live stored. rebuild_metric_aggregates_for_run ''r1'' sample_store = (Ok (), s1) \<and>
     store_mark_run_terminal ''r1'' Finished 20 s1 = (Ok True, s2) \<and>
     query_metric_summaries [''r1''] ''loss'' sample_store = (Ok live, sample_store) \<and>
     query_metric_summaries [''r1''] ''loss'' s2 = (Ok stored, s2) \<and> live = stored \<and> length live = 1"
proof -
  obtain s1 where s1: "rebuild_metric_aggregates_for_run ''r1'' sample_store = (Ok (), s1)"
    and f1: "st_faults s1 = []" and r1: "st_runs s1 = st_runs sample_store"
    by (simp add: rebuild_metric_aggregates_for_run_def bind_op_def update_no_faults)
  obtain s2 where s2: "store_mark_run_terminal ''r1'' Finished 20 s1 = (Ok True, s2)" and f2: "st_faults s2 = []"
    using f1 r1 by (simp add: store_mark_run_terminal_def exec_def sample_store_def)
  obtain live where live: "query_metric_summaries [''r1''] ''loss'' sample_store = (Ok live, sample_store)"
    and n: "length live = 1"
    by (simp add: query_metric_summaries_def bind_op_def query_no_faults)
       (simp add: summary_rows_def sample_store_def effective_def outranked_def same_point_def)
  obtain stored where stored: "query_metric_summaries [''r1''] ''loss'' s2 = (Ok stored, s2)"
    using f2 by (simp add: query_metric_summaries_def bind_op_def query_no_faults)
  have "unique_runs sample_store" "hd (st_runs sample_store) \<in> set (st_runs sample_store)"
    "sr_run_id (hd (st_runs sample_store)) = ''r1''" "sr_status (hd (st_runs sample_store)) = ''running''"
    by (simp_all add: sample_store_def unique_runs_def)
  then have "live = stored"
    using summaries_survive_the_end [OF _ _ _ _ s1 s2, of "hd (st_runs sample_store)" "''loss''" live sample_store stored s2]
      live stored by simp
  then show ?thesis using s1 s2 live stored n by blast
qed

end
