(* ===== verification/Alignment_Reader.thy ===== *)
theory Alignment_Reader
  imports Metric_Reader
begin

section \<open>Aligned metric queries (\<open>alignment_query.rs\<close>)\<close>

text \<open>
  The points of a series on a derived axis, inside a closed viewport with the nearest neighbour
  on either side, with the screen reduction of the points inside. \<open>By_Step\<close> and
  \<open>By_Elapsed start\<close> are the two axes with the parameter that the second one binds.
\<close>

datatype axis_binding = By_Step | By_Elapsed int

record aligned_row =
  al_row :: point_row
  al_axis :: int
  al_previous :: "int option"

fun axis_value :: "axis_binding \<Rightarrow> point_row \<Rightarrow> int" where
  "axis_value By_Step r = pr_step r"
| "axis_value (By_Elapsed start) r = pr_timestamp r - start"

text \<open>\<open>lag(axis_value) OVER (ORDER BY step)\<close> on rows in step order.\<close>

fun with_lag :: "axis_binding \<Rightarrow> int option \<Rightarrow> point_row list \<Rightarrow> aligned_row list" where
  "with_lag axis previous [] = []"
| "with_lag axis previous (r # rs) =
     \<lparr>al_row = r, al_axis = axis_value axis r, al_previous = previous\<rparr>
     # with_lag axis (Some (axis_value axis r)) rs"

definition in_alignment :: "alignment_query \<Rightarrow> point_row \<Rightarrow> bool" where
  "in_alignment q r \<longleftrightarrow> pr_run_id r = aq_run_id q \<and> pr_metric_key r = aq_metric_key q \<and>
     pr_key_encoded r = percent_encode_metric_key (aq_metric_key q)"

definition ordered_ctes :: "axis_binding \<Rightarrow> alignment_query \<Rightarrow> point_row list \<Rightarrow> aligned_row list" where
  "ordered_ctes axis q rows = with_lag axis None (sort_by step_cmp (effective (filter (in_alignment q) rows)))"

definition has_negative_axis :: "aligned_row list \<Rightarrow> bool" where
  "has_negative_axis rows = list_ex (\<lambda>a. al_axis a < 0) rows"

definition has_decreasing_axis :: "aligned_row list \<Rightarrow> bool" where
  "has_decreasing_axis rows =
     list_ex (\<lambda>a. case al_previous a of None \<Rightarrow> False | Some p \<Rightarrow> al_axis a < p) rows"

definition al_step_cmp :: "aligned_row \<Rightarrow> aligned_row \<Rightarrow> ordering" where
  "al_step_cmp a b = step_cmp (al_row a) (al_row b)"

definition al_axis_cmp :: "aligned_row \<Rightarrow> aligned_row \<Rightarrow> ordering" where
  "al_axis_cmp = lex_cmp (\<lambda>a b. cmp_of (al_axis a) (al_axis b)) al_step_cmp"

definition al_value_cmp :: "duck_env \<Rightarrow> aligned_row \<Rightarrow> aligned_row \<Rightarrow> ordering" where
  "al_value_cmp env a b = value_cmp env (al_row a) (al_row b)"

definition first_of :: "('a \<Rightarrow> 'a \<Rightarrow> ordering) \<Rightarrow> 'a list \<Rightarrow> 'a list" where
  "first_of c rows = (case rows of [] \<Rightarrow> [] | x # xs \<Rightarrow> [min_by c x xs])"

definition inside :: "alignment_viewport \<Rightarrow> aligned_row list \<Rightarrow> aligned_row list" where
  "inside v rows = filter (\<lambda>a. av_start v \<le> al_axis a \<and> al_axis a \<le> av_end v) rows"

definition left_neighbor :: "alignment_viewport \<Rightarrow> aligned_row list \<Rightarrow> aligned_row list" where
  "left_neighbor v rows = first_of (desc al_axis_cmp) (filter (\<lambda>a. al_axis a < av_start v) rows)"

definition right_neighbor :: "alignment_viewport \<Rightarrow> aligned_row list \<Rightarrow> aligned_row list" where
  "right_neighbor v rows = first_of al_axis_cmp (filter (\<lambda>a. av_end v < al_axis a) rows)"

definition visible_source :: "alignment_viewport \<Rightarrow> aligned_row list \<Rightarrow> aligned_row list" where
  "visible_source v rows = inside v rows @ left_neighbor v rows @ right_neighbor v rows"

definition alignment_orders :: "duck_env \<Rightarrow> (aligned_row \<Rightarrow> aligned_row \<Rightarrow> ordering) list" where
  "alignment_orders env = [al_axis_cmp, desc al_axis_cmp, lex_cmp (al_value_cmp env) al_axis_cmp,
                           lex_cmp (desc (al_value_cmp env)) al_axis_cmp]"

text \<open>\<open>screen\<close> holds the bucket count and the point limit of a screen budget.\<close>

definition selected :: "duck_env \<Rightarrow> (nat \<times> nat) option \<Rightarrow> alignment_viewport \<Rightarrow> aligned_row list \<Rightarrow> aligned_row list" where
  "selected env screen v rows = (case screen of
       None \<Rightarrow> visible_source v rows
     | Some (buckets, max_points) \<Rightarrow>
         (let ins = inside v rows in
          (if (of_nat (length ins) :: u64) \<le> of_nat max_points then ins
           else bucket_select (alignment_orders env) (bucketed buckets ins))
          @ left_neighbor v rows @ right_neighbor v rows))"

definition aligned_point_of :: "duck_env \<Rightarrow> aligned_row \<Rightarrow> (storage_error, aligned_metric_point) res" where
  "aligned_point_of env a =
     bind_r (metric_point_of env (al_row a)) (\<lambda>p. Ok \<lparr>amp_point = p, amp_axis_value = al_axis a\<rparr>)"

text \<open>The rows of \<open>source_stats CROSS JOIN axis_stats LEFT JOIN selected\<close> in step order.\<close>

definition result_rows :: "duck_env \<Rightarrow> (nat \<times> nat) option \<Rightarrow> alignment_viewport \<Rightarrow> aligned_row list \<Rightarrow>
    (aligned_row option \<times> u64 \<times> bool \<times> bool) list" where
  "result_rows env screen v rows =
     (let stats = (of_nat (length (visible_source v rows)), has_negative_axis rows, has_decreasing_axis rows)
      in case sort_by al_step_cmp (selected env screen v rows) of
           [] \<Rightarrow> [(None, stats)]
         | sel \<Rightarrow> map (\<lambda>a. (Some a, stats)) sel)"

fun collect_aligned ::
  "duck_env \<Rightarrow> (aligned_row option \<times> u64 \<times> bool \<times> bool) list \<Rightarrow> aligned_metric_point list \<Rightarrow> u64 \<Rightarrow> bool \<Rightarrow> bool \<Rightarrow>
   (storage_error, alignment_query_result) res" where
  "collect_aligned env [] points counted negative decreasing =
     Ok \<lparr>aqr_points = points, aqr_source_row_count = counted,
         aqr_reasons = (if negative then [AR_NegativeAxis] else []) @ (if decreasing then [AR_DecreasingAxis] else [])\<rparr>"
| "collect_aligned env ((row, n, neg, dec) # rows) points counted negative decreasing =
     (case row of
        None \<Rightarrow> collect_aligned env rows points n neg dec
      | Some a \<Rightarrow> bind_r (aligned_point_of env a) (\<lambda>p. collect_aligned env rows (points @ [p]) n neg dec))"

definition screen_limits :: "alignment_reduction \<Rightarrow> (nat \<times> nat) option" where
  "screen_limits reduction = (case reduction of AR_Full \<Rightarrow> None
     | AR_ScreenBudget b \<Rightarrow> (let m = the (ar_max_points reduction) in Some (max (m div extrema_per_bucket) 1, m)))"

definition screen_params :: "(nat \<times> nat) option \<Rightarrow> (storage_error, unit) res" where
  "screen_params screen = (case screen of None \<Rightarrow> Ok ()
     | Some (buckets, max_points) \<Rightarrow>
         if i64_max < int buckets then Err (SE_QueryMaxPointsTooLarge (usize_sat_mul buckets extrema_per_bucket))
         else if i64_max < int max_points then Err (SE_QueryMaxPointsTooLarge max_points) else Ok ())"

definition validate_alignment_identity :: "alignment_query \<Rightarrow> (storage_error, unit) res" where
  "validate_alignment_identity q =
     (if is_blank (aq_run_id q) \<or> is_blank (aq_metric_key q) then Err SE_InvalidIdentity else Ok ())"

definition query_aligned_rows ::
  "(string \<Rightarrow> point_row list) \<Rightarrow> metric_source \<Rightarrow> alignment_query \<Rightarrow> axis_binding \<Rightarrow>
   (store, storage_error, alignment_query_result) op" where
  "query_aligned_rows files source q axis =
     bind_op (lift_op (validate_alignment_identity q)) (\<lambda>_.
     bind_op (lift_op (screen_params (screen_limits (aq_reduction q)))) (\<lambda>_.
     bind_op (query (\<lambda>s. result_rows (st_env s) (screen_limits (aq_reduction q)) (aq_viewport q)
                            (ordered_ctes axis q (source_rows files source s)))) (\<lambda>rows.
     env_lift (\<lambda>env. collect_aligned env rows [] 0 False False))))"

subsection \<open>The readers\<close>

definition run_start_millis :: "run_id \<Rightarrow> (store, storage_error, int) op" where
  "run_start_millis rid =
     bind_op (query (\<lambda>s. find (\<lambda>r. sr_run_id r = rid) (st_runs s)))
       (\<lambda>row. case row of None \<Rightarrow> fail_op (SE_RunNotFound rid) | Some sr \<Rightarrow> ret_op (sr_started_at_millis sr))"

definition project_query_aligned :: "alignment_query \<Rightarrow> (store, storage_error, alignment_query_result) op" where
  "project_query_aligned q =
     bind_op (lift_op (validate_alignment_identity q)) (\<lambda>_.
     bind_op (case aq_axis q of Axis_Step \<Rightarrow> ret_op By_Step
              | Axis_ElapsedTime \<Rightarrow> bind_op (run_start_millis (aq_run_id q)) (\<lambda>t. ret_op (By_Elapsed t))) (\<lambda>axis.
     query_aligned_rows (\<lambda>_. []) Src_Project q axis))"

definition parquet_query_aligned ::
  "(string \<Rightarrow> point_row list) \<Rightarrow> string \<Rightarrow> alignment_query \<Rightarrow> (store, storage_error, alignment_query_result) op" where
  "parquet_query_aligned files location q =
     bind_op (lift_op (validate_alignment_identity q)) (\<lambda>_.
     case aq_axis q of
       Axis_ElapsedTime \<Rightarrow> ret_op \<lparr>aqr_points = [], aqr_source_row_count = 0, aqr_reasons = [AR_MissingRunStart]\<rparr>
     | Axis_Step \<Rightarrow> query_aligned_rows files (Src_Parquet location) q By_Step)"

definition native_query_aligned ::
  "alignment_query \<Rightarrow> run_status \<Rightarrow> (store, engine_error, aligned_metric_result) op" where
  "native_query_aligned q status =
     bind_op (map_err_op engine_error_of (project_query_aligned q))
       (\<lambda>result. ret_op (aligned_metric_result_of result status))"

subsection \<open>The ordered relation\<close>

lemma with_lag_rows [simp]: "map al_row (with_lag axis prev rs) = rs"
  by (induction axis prev rs rule: with_lag.induct) auto

lemma with_lag_axis: "a \<in> set (with_lag axis prev rs) \<Longrightarrow> al_axis a = axis_value axis (al_row a)"
  by (induction axis prev rs rule: with_lag.induct) auto

lemma with_lag_empty [simp]: "with_lag axis prev rs = [] \<longleftrightarrow> rs = []"
  by (cases rs) auto

text \<open>The axis is reported as decreasing exactly when it is not sorted in step order.\<close>

lemma has_decreasing_with_lag:
  "has_decreasing_axis (with_lag axis prev rs) \<longleftrightarrow>
   \<not> sorted ((case prev of None \<Rightarrow> [] | Some p \<Rightarrow> [p]) @ map (axis_value axis) rs)"
proof (induction axis prev rs rule: with_lag.induct)
  case (1 axis prev)
  then show ?case by (cases prev) (simp_all add: has_decreasing_axis_def)
next
  case (2 axis prev r rs)
  have "has_decreasing_axis (with_lag axis prev (r # rs)) \<longleftrightarrow>
      (case prev of None \<Rightarrow> False | Some p \<Rightarrow> axis_value axis r < p) \<or>
      has_decreasing_axis (with_lag axis (Some (axis_value axis r)) rs)"
    by (cases prev) (simp_all add: has_decreasing_axis_def)
  also have "\<dots> \<longleftrightarrow> \<not> ((case prev of None \<Rightarrow> True | Some p \<Rightarrow> p \<le> axis_value axis r) \<and>
      sorted (map (axis_value axis) (r # rs)))"
    using 2 by (cases prev) (auto simp: not_less not_le)
  also have "\<dots> \<longleftrightarrow> \<not> sorted ((case prev of None \<Rightarrow> [] | Some p \<Rightarrow> [p]) @ map (axis_value axis) (r # rs))"
    by (cases prev) (auto intro: order_trans)
  finally show ?case .
qed

lemma in_alignment_point_id:
  "in_alignment q a \<Longrightarrow> in_alignment q b \<Longrightarrow> point_id a = point_id b \<longleftrightarrow> pr_step a = pr_step b"
  by (auto simp: in_alignment_def point_id_def)

lemma alignment_steps_distinct: "distinct (map pr_step (effective (filter (in_alignment q) rows)))"
proof -
  let ?e = "effective (filter (in_alignment q) rows)"
  have in_q: "a \<in> set ?e \<Longrightarrow> in_alignment q a" for a
    using effective_subset [of "filter (in_alignment q) rows"] by auto
  have "inj_on pr_step (set ?e)"
  proof (rule inj_onI)
    fix a b assume a: "a \<in> set ?e" and b: "b \<in> set ?e" and "pr_step a = pr_step b"
    then have "point_id a = point_id b" using in_q in_alignment_point_id by blast
    then show "a = b"
      using effective_distinct [of "filter (in_alignment q) rows"] a b by (simp add: distinct_map inj_on_def)
  qed
  moreover have "distinct ?e"
    using effective_distinct [of "filter (in_alignment q) rows"] by (simp add: distinct_map)
  ultimately show ?thesis by (simp add: distinct_map)
qed

definition al_step :: "aligned_row \<Rightarrow> int" where
  "al_step a = pr_step (al_row a)"

lemma ordered_steps: "map al_step (ordered_ctes axis q rows) = map pr_step (sort_by step_cmp (effective (filter (in_alignment q) rows)))"
proof -
  have "map al_step (ordered_ctes axis q rows) = map pr_step (map al_row (ordered_ctes axis q rows))"
    by (simp add: al_step_def)
  also have "map al_row (ordered_ctes axis q rows) = sort_by step_cmp (effective (filter (in_alignment q) rows))"
    unfolding ordered_ctes_def by (rule with_lag_rows)
  finally show ?thesis .
qed

lemma ordered_strict: "sorted_wrt (<) (map al_step (ordered_ctes axis q rows))"
  unfolding ordered_steps by (rule strict_steps_sort [OF alignment_steps_distinct])

lemma ordered_inj:
  "a \<in> set (ordered_ctes axis q rows) \<Longrightarrow> b \<in> set (ordered_ctes axis q rows) \<Longrightarrow> al_step a = al_step b \<Longrightarrow> a = b"
  using ordered_strict [of axis q rows] by (auto simp: strict_sorted_iff distinct_map inj_on_def)

lemma ordered_distinct: "distinct (ordered_ctes axis q rows)"
  using ordered_strict [of axis q rows] by (auto simp: strict_sorted_iff distinct_map)

subsection \<open>The orders\<close>

lemma order_cmp_of: "order_cmp (\<lambda>a b. cmp_of (f a :: 'b :: linorder) (f b)) (\<lambda>_. True)"
  by unfold_locales (auto simp: reverse_cmp_of)

interpretation al_step_order: order_cmp al_step_cmp "\<lambda>_. True"
  unfolding al_step_cmp_def [abs_def] step_cmp_def by (rule order_cmp_of)

interpretation al_axis_order: order_cmp al_axis_cmp "\<lambda>_. True"
  unfolding al_axis_cmp_def by (intro order_cmp_lex order_cmp_of al_step_order.order_cmp_axioms)

lemma al_value_order: "order_cmp (de_dbl_cmp env) (\<lambda>_. True) \<Longrightarrow> order_cmp (al_value_cmp env) (\<lambda>_. True)"
  unfolding order_cmp_def al_value_cmp_def value_cmp_def by blast

lemma al_step_cmp_Greater: "al_step_cmp a b = Greater \<longleftrightarrow> al_step b < al_step a"
  by (simp add: al_step_cmp_def al_step_def)

lemma al_axis_cmp_Greater:
  "al_axis_cmp a b = Greater \<longleftrightarrow> al_axis b < al_axis a \<or> al_axis a = al_axis b \<and> al_step b < al_step a"
  by (auto simp: al_axis_cmp_def lex_cmp_def then_with_eq_Greater al_step_cmp_Greater)

lemma sorted_al_step: "sorted (map al_step (sort_by al_step_cmp rows))"
  using al_step_order.sorted_sort_by [of rows] by (simp add: sorted_map al_step_cmp_Greater not_less)

lemma strict_al_step: "distinct (map al_step rows) \<Longrightarrow> sorted_wrt (<) (map al_step (sort_by al_step_cmp rows))"
  using sorted_al_step [of rows] mset_eq_imp_distinct_iff [of "map al_step (sort_by al_step_cmp rows)" "map al_step rows"]
  by (simp add: strict_sorted_iff mset_map)

lemma first_of_min:
  assumes "order_cmp c (\<lambda>_. True)"
  shows "r \<in> set (first_of c rows) \<Longrightarrow> r \<in> set rows \<and> (\<forall>x \<in> set rows. c r x \<noteq> Greater)"
    and "rows \<noteq> [] \<Longrightarrow> first_of c rows \<noteq> []" and "length (first_of c rows) \<le> 1"
proof -
  show "r \<in> set rows \<and> (\<forall>x \<in> set rows. c r x \<noteq> Greater)" if r: "r \<in> set (first_of c rows)"
  proof (cases rows)
    case Nil
    with r show ?thesis by (simp add: first_of_def)
  next
    case (Cons x xs)
    then have "r = min_by c x xs" using r by (simp add: first_of_def)
    then show ?thesis using min_by_in [of c x xs] order_cmp.min_by_le [OF assms, of x xs] Cons by simp
  qed
qed (auto simp: first_of_def split: list.splits)

subsection \<open>The visible rows\<close>

text \<open>The nearest row outside the viewport on either side, the latest step deciding a tie on the left
  and the earliest on the right.\<close>

definition nearest_left :: "alignment_viewport \<Rightarrow> aligned_row list \<Rightarrow> aligned_row \<Rightarrow> bool" where
  "nearest_left v rows a \<longleftrightarrow> al_axis a < av_start v \<and>
     (\<forall>b \<in> set rows. al_axis b < av_start v \<longrightarrow>
        al_axis b < al_axis a \<or> al_axis b = al_axis a \<and> al_step b \<le> al_step a)"

definition nearest_right :: "alignment_viewport \<Rightarrow> aligned_row list \<Rightarrow> aligned_row \<Rightarrow> bool" where
  "nearest_right v rows a \<longleftrightarrow> av_end v < al_axis a \<and>
     (\<forall>b \<in> set rows. av_end v < al_axis b \<longrightarrow>
        al_axis a < al_axis b \<or> al_axis b = al_axis a \<and> al_step a \<le> al_step b)"

lemma first_of_iff:
  assumes c: "order_cmp c (\<lambda>_. True)"
    and inj: "\<And>x y. x \<in> set rows \<Longrightarrow> y \<in> set rows \<Longrightarrow> c x y \<noteq> Greater \<Longrightarrow> c y x \<noteq> Greater \<Longrightarrow> x = y"
  shows "a \<in> set (first_of c rows) \<longleftrightarrow> a \<in> set rows \<and> (\<forall>b \<in> set rows. c a b \<noteq> Greater)"
proof
  assume "a \<in> set (first_of c rows)"
  then show "a \<in> set rows \<and> (\<forall>b \<in> set rows. c a b \<noteq> Greater)" by (rule first_of_min(1) [OF c])
next
  assume a: "a \<in> set rows \<and> (\<forall>b \<in> set rows. c a b \<noteq> Greater)"
  then have "first_of c rows \<noteq> []" by (intro first_of_min(2) [OF c]) auto
  then obtain m where m: "m \<in> set (first_of c rows)" by (cases "first_of c rows") auto
  then have "a = m" using first_of_min(1) [OF c m] a inj by blast
  with m show "a \<in> set (first_of c rows)" by simp
qed

lemma al_axis_cmp_inj:
  assumes "\<And>a b. a \<in> set rows \<Longrightarrow> b \<in> set rows \<Longrightarrow> al_step a = al_step b \<Longrightarrow> a = b"
    and "a \<in> set rows" "b \<in> set rows" "al_axis_cmp a b \<noteq> Greater" "al_axis_cmp b a \<noteq> Greater"
  shows "a = b"
  using assms(2-) by (intro assms(1)) (auto simp: al_axis_cmp_Greater)

lemma left_neighbor_iff:
  assumes inj: "\<And>a b. a \<in> set rows \<Longrightarrow> b \<in> set rows \<Longrightarrow> al_step a = al_step b \<Longrightarrow> a = b"
  shows "a \<in> set (left_neighbor v rows) \<longleftrightarrow> a \<in> set rows \<and> nearest_left v rows a"
proof -
  let ?l = "filter (\<lambda>a. al_axis a < av_start v) rows"
  have "a \<in> set (first_of (desc al_axis_cmp) ?l) \<longleftrightarrow> a \<in> set ?l \<and> (\<forall>b \<in> set ?l. desc al_axis_cmp a b \<noteq> Greater)"
  proof (rule first_of_iff [OF order_cmp_desc [OF al_axis_order.order_cmp_axioms]])
    fix x y assume "x \<in> set ?l" "y \<in> set ?l" "desc al_axis_cmp x y \<noteq> Greater" "desc al_axis_cmp y x \<noteq> Greater"
    then show "x = y" by (intro al_axis_cmp_inj [OF inj]) (auto simp: desc_def)
  qed
  then show ?thesis by (auto simp: left_neighbor_def nearest_left_def desc_def al_axis_cmp_Greater not_less le_less)
qed

lemma right_neighbor_iff:
  assumes inj: "\<And>a b. a \<in> set rows \<Longrightarrow> b \<in> set rows \<Longrightarrow> al_step a = al_step b \<Longrightarrow> a = b"
  shows "a \<in> set (right_neighbor v rows) \<longleftrightarrow> a \<in> set rows \<and> nearest_right v rows a"
proof -
  let ?l = "filter (\<lambda>a. av_end v < al_axis a) rows"
  have "a \<in> set (first_of al_axis_cmp ?l) \<longleftrightarrow> a \<in> set ?l \<and> (\<forall>b \<in> set ?l. al_axis_cmp a b \<noteq> Greater)"
  proof (rule first_of_iff [OF al_axis_order.order_cmp_axioms])
    fix x y assume "x \<in> set ?l" "y \<in> set ?l" "al_axis_cmp x y \<noteq> Greater" "al_axis_cmp y x \<noteq> Greater"
    then show "x = y" by (intro al_axis_cmp_inj [OF inj]) auto
  qed
  then show ?thesis by (auto simp: right_neighbor_def nearest_right_def al_axis_cmp_Greater not_less le_less)
qed

lemma visible_iff:
  assumes "\<And>a b. a \<in> set rows \<Longrightarrow> b \<in> set rows \<Longrightarrow> al_step a = al_step b \<Longrightarrow> a = b"
  shows "a \<in> set (visible_source v rows) \<longleftrightarrow> a \<in> set rows \<and>
    (av_start v \<le> al_axis a \<and> al_axis a \<le> av_end v \<or> nearest_left v rows a \<or> nearest_right v rows a)"
  using left_neighbor_iff [of rows a v] right_neighbor_iff [of rows a v] assms
  by (auto simp: visible_source_def inside_def)

lemma left_neighbor_in: "a \<in> set (left_neighbor v rows) \<Longrightarrow> a \<in> set rows \<and> al_axis a < av_start v"
  using first_of_min(1) [OF order_cmp_desc [OF al_axis_order.order_cmp_axioms], of a "filter (\<lambda>a. al_axis a < av_start v) rows"]
  by (simp add: left_neighbor_def)

lemma right_neighbor_in: "a \<in> set (right_neighbor v rows) \<Longrightarrow> a \<in> set rows \<and> av_end v < al_axis a"
  using first_of_min(1) [OF al_axis_order.order_cmp_axioms, of a "filter (\<lambda>a. av_end v < al_axis a) rows"]
  by (simp add: right_neighbor_def)

lemma neighbors_length: "length (left_neighbor v rows @ right_neighbor v rows) \<le> 2"
  using first_of_min(3) [OF order_cmp_desc [OF al_axis_order.order_cmp_axioms], of "filter (\<lambda>a. al_axis a < av_start v) rows"]
    first_of_min(3) [OF al_axis_order.order_cmp_axioms, of "filter (\<lambda>a. av_end v < al_axis a) rows"]
  by (simp add: left_neighbor_def right_neighbor_def)

lemma short_distinct: "length xs \<le> 1 \<Longrightarrow> distinct xs"
  by (cases xs; cases "tl xs") auto

lemma first_of_distinct: "order_cmp c (\<lambda>_. True) \<Longrightarrow> distinct (first_of c rows)"
  by (rule short_distinct) (rule first_of_min(3))

lemma neighbors_distinct:
  assumes "av_start v \<le> av_end v"
  shows "distinct (left_neighbor v rows @ right_neighbor v rows)"
proof -
  have "distinct (left_neighbor v rows)" "distinct (right_neighbor v rows)"
    unfolding left_neighbor_def right_neighbor_def
    by (intro first_of_distinct order_cmp_desc al_axis_order.order_cmp_axioms)+
  moreover have "set (left_neighbor v rows) \<inter> set (right_neighbor v rows) = {}"
    using assms left_neighbor_in [of _ v rows] right_neighbor_in [of _ v rows] by fastforce
  ultimately show ?thesis by simp
qed

lemma selected_distinct:
  assumes "distinct rows" and "av_start v \<le> av_end v"
  shows "distinct (selected env screen v rows)"
proof -
  have part: "distinct (xs @ left_neighbor v rows @ right_neighbor v rows)" if xs: "subseq xs (inside v rows)" for xs
  proof -
    have "distinct (inside v rows)" using assms(1) by (simp add: inside_def)
    then have "distinct xs" using xs subseq_distinct' by blast
    moreover have "a \<in> set xs \<Longrightarrow> av_start v \<le> al_axis a \<and> al_axis a \<le> av_end v" for a
      using xs list_emb_set [OF xs, of a] by (auto simp: inside_def)
    ultimately show ?thesis
      using neighbors_distinct [OF assms(2), of rows] left_neighbor_in [of _ v rows] right_neighbor_in [of _ v rows]
      by fastforce
  qed
  have "subseq (bucket_select (alignment_orders env) (bucketed b (inside v rows))) (inside v rows)" for b
    using bucket_select_subseq [of _ "bucketed b (inside v rows)"] by simp
  then show ?thesis using part by (cases screen) (auto simp: selected_def visible_source_def Let_def simp del: distinct_append)
qed

subsection \<open>What a query returns\<close>

definition aligned_point :: "aligned_row \<Rightarrow> aligned_metric_point" where
  "aligned_point a = \<lparr>amp_point = point_of_row (al_row a), amp_axis_value = al_axis a\<rparr>"

lemma aligned_point_simps [simp]:
  "amp_axis_value (aligned_point a) = al_axis a" "amp_point (aligned_point a) = point_of_row (al_row a)"
  by (simp_all add: aligned_point_def)

lemma aligned_point_of_Ok: "aligned_point_of env a = Ok p \<Longrightarrow> p = aligned_point a"
  by (auto simp: aligned_point_of_def bind_r_eq_Inr aligned_point_def dest: metric_point_of_Ok)

definition flag_reasons :: "bool \<Rightarrow> bool \<Rightarrow> alignment_reason list" where
  "flag_reasons negative decreasing =
     (if negative then [AR_NegativeAxis] else []) @ (if decreasing then [AR_DecreasingAxis] else [])"

lemma collect_aligned_rows:
  "collect_aligned env (map (\<lambda>a. (Some a, n, neg, dec)) sel) acc c g d = Ok res \<Longrightarrow>
   aqr_points res = acc @ map aligned_point sel \<and>
   (sel = [] \<or> aqr_source_row_count res = n \<and> aqr_reasons res = flag_reasons neg dec) \<and>
   (sel = [] \<longrightarrow> aqr_source_row_count res = c \<and> aqr_reasons res = flag_reasons g d)"
proof (induction sel arbitrary: acc c g d)
  case Nil
  then show ?case by (auto simp: flag_reasons_def)
next
  case (Cons a sel)
  then obtain p where p: "aligned_point_of env a = Ok p"
    and rest: "collect_aligned env (map (\<lambda>a. (Some a, n, neg, dec)) sel) (acc @ [p]) n neg dec = Ok res"
    by (auto simp: bind_r_eq_Inr)
  show ?case using Cons.IH [OF rest] aligned_point_of_Ok [OF p] by auto
qed

lemma collect_result_rows:
  assumes "collect_aligned env (result_rows env screen v rows) [] 0 False False = Ok res"
  shows "aqr_points res = map aligned_point (sort_by al_step_cmp (selected env screen v rows)) \<and>
    aqr_source_row_count res = of_nat (length (visible_source v rows)) \<and>
    aqr_reasons res = flag_reasons (has_negative_axis rows) (has_decreasing_axis rows)"
proof (cases "sort_by al_step_cmp (selected env screen v rows)")
  case Nil
  then show ?thesis using assms by (auto simp: result_rows_def Let_def flag_reasons_def simp del: sort_by_empty)
next
  case (Cons a sel)
  then have "collect_aligned env (map (\<lambda>a. (Some a, of_nat (length (visible_source v rows)),
      has_negative_axis rows, has_decreasing_axis rows)) (a # sel)) [] 0 False False = Ok res"
    using assms by (simp add: result_rows_def Let_def)
  from collect_aligned_rows [OF this] Cons show ?thesis by simp
qed

lemma query_aligned_rows_Ok:
  assumes "query_aligned_rows files source q axis s = (Ok res, s')"
  defines "rows \<equiv> ordered_ctes axis q (source_rows files source s)"
  shows "collect_aligned (st_env s) (result_rows (st_env s) (screen_limits (aq_reduction q)) (aq_viewport q) rows)
           [] 0 False False = Ok res \<and> same_tables s s'"
proof -
  obtain rs s1 where r: "query (\<lambda>s. result_rows (st_env s) (screen_limits (aq_reduction q)) (aq_viewport q)
        (ordered_ctes axis q (source_rows files source s))) s = (Ok rs, s1)"
      and c: "collect_aligned (st_env s1) rs [] 0 False False = Ok res" and s': "s' = s1"
    using assms(1) by (auto simp: query_aligned_rows_def bind_op_Ok env_lift_def)
  have same: "same_tables s s1" by (rule steps_opD [OF steps_query r])
  obtain fs where "rs = result_rows (st_env s) (screen_limits (aq_reduction q)) (aq_viewport q)
        (ordered_ctes axis q (source_rows files source (s\<lparr>st_faults := fs\<rparr>)))"
    using r by (auto simp: query_Ok)
  moreover have "source_rows files source (s\<lparr>st_faults := fs\<rparr>) = source_rows files source s" for fs
    by (cases source) auto
  ultimately show ?thesis using c same s' by (simp add: rows_def same_tables_def)
qed

abbreviation al_steps :: "aligned_metric_point list \<Rightarrow> int list" where
  "al_steps ps \<equiv> map (\<lambda>p. mp_step (amp_point p)) ps"

lemma aligned_steps_sorted:
  assumes "distinct rows" and "\<And>a b. a \<in> set rows \<Longrightarrow> b \<in> set rows \<Longrightarrow> al_step a = al_step b \<Longrightarrow> a = b"
  shows "sorted_wrt (<) (al_steps (map aligned_point (sort_by al_step_cmp rows)))"
proof -
  have "distinct (map al_step rows)" using assms by (auto simp: distinct_map inj_on_def)
  from strict_al_step [OF this] show ?thesis by (simp add: al_step_def [abs_def] comp_def)
qed

lemma subseq_subset: "subseq xs ys \<Longrightarrow> set xs \<subseteq> set ys"
  by (induction rule: list_emb.induct) auto

lemma selected_subset:
  "set (selected env screen v rows) \<subseteq> set (visible_source v rows)"
  "set (left_neighbor v rows) \<union> set (right_neighbor v rows) \<subseteq> set (selected env screen v rows)"
proof -
  have sub: "set (bucket_select (alignment_orders env) (bucketed b (inside v rows))) \<subseteq> set (inside v rows)" for b
    using subseq_subset [OF bucket_select_subseq [of _ "bucketed b (inside v rows)"]] by simp
  then show "set (selected env screen v rows) \<subseteq> set (visible_source v rows)"
    by (auto simp: selected_def visible_source_def Let_def split: option.splits if_splits)
  show "set (left_neighbor v rows) \<union> set (right_neighbor v rows) \<subseteq> set (selected env screen v rows)"
    by (auto simp: selected_def visible_source_def Let_def split: option.splits)
qed

lemma visible_subset: "set (visible_source v rows) \<subseteq> set rows"
  using left_neighbor_in [of _ v rows] right_neighbor_in [of _ v rows]
  by (auto simp: visible_source_def inside_def)

lemma selected_inj:
  assumes "a \<in> set (selected env screen v (ordered_ctes axis q rows))"
    and "b \<in> set (selected env screen v (ordered_ctes axis q rows))" and "al_step a = al_step b"
  shows "a = b"
  using assms selected_subset(1) [of env screen v "ordered_ctes axis q rows"] visible_subset [of v "ordered_ctes axis q rows"]
  by (intro ordered_inj [of a axis q rows b]) auto

lemma with_lag_axes: "map al_axis (with_lag axis prev rs) = map (axis_value axis) rs"
  by (induction axis prev rs rule: with_lag.induct) auto

lemma ordered_decreasing: "has_decreasing_axis (ordered_ctes axis q rows) \<longleftrightarrow> \<not> sorted (map al_axis (ordered_ctes axis q rows))"
  unfolding ordered_ctes_def has_decreasing_with_lag with_lag_axes by simp

lemma ordered_by_step: "\<not> has_decreasing_axis (ordered_ctes By_Step q rows)"
proof -
  have "axis_value By_Step = pr_step" by (rule ext) simp
  then show ?thesis unfolding ordered_ctes_def has_decreasing_with_lag using sorted_by_step by simp
qed

lemma flag_reasons_in [simp]:
  "AR_NegativeAxis \<in> set (flag_reasons g d) \<longleftrightarrow> g" "AR_DecreasingAxis \<in> set (flag_reasons g d) \<longleftrightarrow> d"
  by (simp_all add: flag_reasons_def)

subsection \<open>Properties\<close>

definition sample_alignment :: "alignment_reduction \<Rightarrow> alignment_query" where
  "sample_alignment reduction = \<lparr>aq_run_id = ''r1'', aq_metric_key = ''loss'', aq_axis = Axis_Step,
     aq_viewport = \<lparr>av_start = 2, av_end = 4\<rparr>, aq_reduction = reduction\<rparr>"

lemma sample_alignment_simps [simp]:
  "aq_run_id (sample_alignment r) = ''r1''" "aq_metric_key (sample_alignment r) = ''loss''"
  "aq_reduction (sample_alignment r) = r" "aq_axis (sample_alignment r) = Axis_Step"
  "aq_viewport (sample_alignment r) = \<lparr>av_start = 2, av_end = 4\<rparr>"
  by (simp_all add: sample_alignment_def)

abbreviation sample_point :: point_row where
  "sample_point \<equiv> \<lparr>pr_run_id = ''r1'', pr_metric_key = ''loss'', pr_key_encoded = ''loss'', pr_step = 1,
     pr_timestamp = 7, pr_value = F_Fin False 3, pr_ingested_at = 7\<rparr>"

lemma sample_ordered:
  "ordered_ctes By_Step (sample_alignment r) (st_points sample_store) =
   [\<lparr>al_row = sample_point, al_axis = 1, al_previous = None\<rparr>]"
proof -
  have "filter (in_alignment (sample_alignment r)) (st_points sample_store) = st_points sample_store"
    by (simp add: sample_store_def in_alignment_def)
  then show ?thesis
    by (simp add: ordered_ctes_def) (simp add: sample_store_def effective_def outranked_def same_point_def)
qed

text \<open>C25: an unreduced aligned query returns, in strictly increasing step order, exactly the effective
  points on the closed viewport and the nearest point on either side of it, counts them, and
  reports a negative axis exactly when some point of the series lies below zero and a decreasing
  one exactly when the axis is not sorted in step order, which never happens on the step axis.\<close>
theorem aligned_full_correct:
  assumes run: "query_aligned_rows files source q axis s = (Ok res, s')" and full: "aq_reduction q = AR_Full"
    and viewport: "av_start (aq_viewport q) \<le> av_end (aq_viewport q)"
  shows "let rows = ordered_ctes axis q (source_rows files source s); v = aq_viewport q in
    sorted_wrt (<) (al_steps (aqr_points res)) \<and>
    set (aqr_points res) = aligned_point ` {a \<in> set rows. av_start v \<le> al_axis a \<and> al_axis a \<le> av_end v \<or>
        nearest_left v rows a \<or> nearest_right v rows a} \<and>
    aqr_source_row_count res = of_nat (length (aqr_points res)) \<and> \<not> aqr_downsampled res \<and>
    (AR_NegativeAxis \<in> set (aqr_reasons res) \<longleftrightarrow> (\<exists>a \<in> set rows. al_axis a < 0)) \<and>
    (AR_DecreasingAxis \<in> set (aqr_reasons res) \<longleftrightarrow> \<not> sorted (map al_axis rows)) \<and>
    (axis = By_Step \<longrightarrow> AR_DecreasingAxis \<notin> set (aqr_reasons res)) \<and> same_tables s s'"
proof -
  let ?rows = "ordered_ctes axis q (source_rows files source s)" and ?v = "aq_viewport q"
  have limits: "screen_limits (aq_reduction q) = None" by (simp add: full screen_limits_def)
  note ok = query_aligned_rows_Ok [OF run]
  note res = collect_result_rows [OF conjunct1 [OF ok], unfolded limits]
  have sel: "selected (st_env s) None ?v ?rows = visible_source ?v ?rows" by (simp add: selected_def)
  have "set (aqr_points res) = aligned_point ` set (visible_source ?v ?rows)" using res sel by simp
  also have "set (visible_source ?v ?rows) = {a \<in> set ?rows. av_start ?v \<le> al_axis a \<and> al_axis a \<le> av_end ?v \<or>
        nearest_left ?v ?rows a \<or> nearest_right ?v ?rows a}"
    using visible_iff [of ?rows _ ?v] ordered_inj by blast
  finally have pts: "set (aqr_points res) = aligned_point ` {a \<in> set ?rows. av_start ?v \<le> al_axis a \<and> al_axis a \<le> av_end ?v \<or>
        nearest_left ?v ?rows a \<or> nearest_right ?v ?rows a}" .
  have "sorted_wrt (<) (al_steps (map aligned_point (sort_by al_step_cmp (selected (st_env s) None ?v ?rows))))"
    by (intro aligned_steps_sorted selected_distinct [OF ordered_distinct viewport]) (rule selected_inj)
  then have sorted: "sorted_wrt (<) (al_steps (aqr_points res))" using res sel by simp
  have count: "aqr_source_row_count res = of_nat (length (aqr_points res))" using res sel by simp
  have neg: "AR_NegativeAxis \<in> set (aqr_reasons res) \<longleftrightarrow> (\<exists>a \<in> set ?rows. al_axis a < 0)"
    using res by (simp add: has_negative_axis_def list_ex_iff)
  have dec: "AR_DecreasingAxis \<in> set (aqr_reasons res) \<longleftrightarrow> \<not> sorted (map al_axis ?rows)"
    using res ordered_decreasing by simp
  have never: "axis = By_Step \<Longrightarrow> AR_DecreasingAxis \<notin> set (aqr_reasons res)" using res ordered_by_step by simp
  show ?thesis
    unfolding Let_def
    by (intro conjI impI sorted pts count neg dec conjunct2 [OF ok] never) (simp add: aqr_downsampled_def count)
qed

theorem aligned_full_correct_witness:
  "\<exists>res. query_aligned_rows (\<lambda>_. []) Src_Project (sample_alignment AR_Full) By_Step sample_store = (Ok res, sample_store) \<and>
     al_steps (aqr_points res) = [1] \<and> AR_DecreasingAxis \<notin> set (aqr_reasons res) \<and>
     aqr_source_row_count res = 1"
proof -
  obtain res where run: "query_aligned_rows (\<lambda>_. []) Src_Project (sample_alignment AR_Full) By_Step sample_store = (Ok res, sample_store)"
    and p: "al_steps (aqr_points res) = [1]"
    by (simp add: query_aligned_rows_def validate_alignment_identity_def screen_params_def screen_limits_def
         bind_op_def query_no_faults sample_ordered env_lift_def result_rows_def selected_def visible_source_def
         inside_def left_neighbor_def right_neighbor_def first_of_def aligned_point_of_def metric_point_of_def
         timestamp_from_millis_def sample_ts_ok)
  have "length (aqr_points res) = 1" using arg_cong [OF p, of length] by simp
  moreover have "AR_DecreasingAxis \<notin> set (aqr_reasons res)" "aqr_source_row_count res = of_nat (length (aqr_points res))"
    using aligned_full_correct [OF run sample_alignment_simps(3)] unfolding Let_def by auto
  ultimately show ?thesis using run p by auto
qed

text \<open>The rows inside the viewport that a screen budget of \<open>m\<close> points in \<open>b\<close> buckets keeps.\<close>

definition kept_inside :: "duck_env \<Rightarrow> nat \<Rightarrow> nat \<Rightarrow> aligned_row list \<Rightarrow> aligned_row list" where
  "kept_inside env b m ins =
     (if length ins \<le> m then ins else bucket_select (alignment_orders env) (bucketed b ins))"

lemma selected_kept:
  assumes "length (inside v rows) \<le> 2 ^ 35" and "m \<le> 1000000"
  shows "selected env (Some (b, m)) v rows = kept_inside env b m (inside v rows) @ left_neighbor v rows @ right_neighbor v rows"
proof -
  have "(of_nat (length (inside v rows)) :: u64) \<le> of_nat m \<longleftrightarrow> length (inside v rows) \<le> m"
    using assms by (simp add: word_le_nat_alt unsigned_of_nat take_bit_nat_eq_self)
  then show ?thesis by (simp add: selected_def kept_inside_def Let_def)
qed

lemma kept_inside_length:
  assumes "distinct ins" and "length ins \<le> 2 ^ 35" and "0 < b" "b \<le> 250000" "b * 4 \<le> m"
  shows "length (kept_inside env b m ins) \<le> m"
proof (cases "length ins \<le> m")
  case False
  have "length (bucket_select (alignment_orders env) (bucketed b ins)) \<le>
      card (fst ` set (bucketed b ins)) * length (alignment_orders env)"
    using assms(1) by (intro bucket_select_length) simp
  also have "\<dots> \<le> b * 4" using bucketed_buckets [OF assms(2-4)] by (simp add: alignment_orders_def)
  finally show ?thesis using False assms(5) by (simp add: kept_inside_def)
qed (simp add: kept_inside_def)

lemma kept_inside_keeps:
  assumes "c \<in> set (alignment_orders env)" and "order_cmp c (\<lambda>_. True)" and "r \<in> set ins"
  shows "\<exists>k \<in> set (kept_inside env b m ins). c k r \<noteq> Greater"
proof (cases "length ins \<le> m")
  case True
  then show ?thesis using assms(3) order_cmp.refl_cmp [OF assms(2), of r] by (force simp: kept_inside_def)
next
  case False
  have "r \<in> snd ` set (bucketed b ins)" using assms(3) by (metis bucketed_snd set_map)
  then show ?thesis using order_cmp.bucket_select_keeps [OF assms(2,1)] False by (simp add: kept_inside_def)
qed

lemma kept_inside_extremes:
  assumes dbl: "order_cmp (de_dbl_cmp env) (\<lambda>_. True)" and r: "r \<in> set ins"
  obtains k l where "k \<in> set (kept_inside env b m ins)" "l \<in> set (kept_inside env b m ins)"
    "al_value_cmp env k r \<noteq> Greater" "al_value_cmp env r l \<noteq> Greater"
proof -
  note v = al_value_order [OF dbl]
  have orders: "lex_cmp (al_value_cmp env) al_axis_cmp \<in> set (alignment_orders env)"
    "lex_cmp (desc (al_value_cmp env)) al_axis_cmp \<in> set (alignment_orders env)"
    by (simp_all add: alignment_orders_def)
  obtain k where "k \<in> set (kept_inside env b m ins)" "lex_cmp (al_value_cmp env) al_axis_cmp k r \<noteq> Greater"
    using kept_inside_keeps [OF orders(1) order_cmp_lex [OF v al_axis_order.order_cmp_axioms] r] by blast
  moreover obtain l where "l \<in> set (kept_inside env b m ins)" "lex_cmp (desc (al_value_cmp env)) al_axis_cmp l r \<noteq> Greater"
    using kept_inside_keeps [OF orders(2) order_cmp_lex [OF order_cmp_desc [OF v] al_axis_order.order_cmp_axioms] r] by blast
  ultimately show ?thesis using that by (auto simp: lex_cmp_def desc_def then_with_eq_Greater)
qed

text \<open>C26: reducing an aligned query to a screen budget changes only which points inside the viewport
  are returned: the row count and the reasons are those of the unreduced query, the points are
  among its points and in step order, both neighbours stay, at most two points more than the budget
  are returned, a series that fits the budget is returned whole, and for every point inside the
  viewport a kept point has a value no larger and one a value no smaller.\<close>
theorem aligned_screen_correct:
  assumes run: "query_aligned_rows files source q axis s = (Ok res, s')"
    and screen: "aq_reduction q = AR_ScreenBudget budget" and m: "m = the (ar_max_points (AR_ScreenBudget budget))"
    and viewport: "av_start (aq_viewport q) \<le> av_end (aq_viewport q)"
    and dbl: "order_cmp (de_dbl_cmp (st_env s)) (\<lambda>_. True)"
    and small: "length (inside (aq_viewport q) (ordered_ctes axis q (source_rows files source s))) \<le> 2 ^ 35"
  shows "let rows = ordered_ctes axis q (source_rows files source s); v = aq_viewport q; points = set (aqr_points res) in
    aqr_source_row_count res = of_nat (length (visible_source v rows)) \<and>
    aqr_reasons res = flag_reasons (has_negative_axis rows) (has_decreasing_axis rows) \<and>
    sorted_wrt (<) (al_steps (aqr_points res)) \<and> points \<subseteq> aligned_point ` set (visible_source v rows) \<and>
    aligned_point ` set (left_neighbor v rows @ right_neighbor v rows) \<subseteq> points \<and>
    length (aqr_points res) \<le> m + 2 \<and>
    (length (inside v rows) \<le> m \<longrightarrow> points = aligned_point ` set (visible_source v rows)) \<and>
    (\<forall>r \<in> set (inside v rows). \<exists>a \<in> points. \<exists>b \<in> points.
       de_dbl_cmp (st_env s) (mp_value (amp_point a)) (pr_value (al_row r)) \<noteq> Greater \<and>
       de_dbl_cmp (st_env s) (pr_value (al_row r)) (mp_value (amp_point b)) \<noteq> Greater)"
proof -
  let ?rows = "ordered_ctes axis q (source_rows files source s)" and ?v = "aq_viewport q" and ?env = "st_env s"
  define b where "b = max (m div 4) 1"
  let ?sel = "selected ?env (Some (b, m)) ?v ?rows" and ?kept = "kept_inside ?env b m (inside ?v ?rows)"
  have bounds: "0 < b" "b \<le> 250000" "b * 4 \<le> m" "m \<le> 1000000"
    using screen_points_bounds [of "usize_sat_mul (unat (sb_pixel_width budget)) (unat (sb_points_per_pixel budget))"]
    by (auto simp: b_def m)
  have limits: "screen_limits (aq_reduction q) = Some (b, m)"
    by (simp add: screen screen_limits_def b_def m Let_def)
  note res = collect_result_rows [OF conjunct1 [OF query_aligned_rows_Ok [OF run]], unfolded limits]
  note sel = selected_kept [OF small bounds(4), of ?env b]
  have pts: "set (aqr_points res) = aligned_point ` set ?sel" using res by simp
  have "distinct (inside ?v ?rows)" using ordered_distinct by (simp add: inside_def)
  note len = kept_inside_length [OF this small bounds(1-3), of ?env]
  have "length ?sel \<le> m + 2" using len neighbors_length [of ?v ?rows] by (simp add: sel)
  then have size: "length (aqr_points res) \<le> m + 2" using res by simp
  have "sorted_wrt (<) (al_steps (map aligned_point (sort_by al_step_cmp ?sel)))"
    by (intro aligned_steps_sorted selected_distinct [OF ordered_distinct viewport]) (rule selected_inj)
  then have sorted: "sorted_wrt (<) (al_steps (aqr_points res))" using res by simp
  have whole: "length (inside ?v ?rows) \<le> m \<Longrightarrow> set (aqr_points res) = aligned_point ` set (visible_source ?v ?rows)"
    using pts by (simp add: sel visible_source_def kept_inside_def)
  have extremes: "\<exists>a \<in> set (aqr_points res). \<exists>c \<in> set (aqr_points res).
       de_dbl_cmp ?env (mp_value (amp_point a)) (pr_value (al_row r)) \<noteq> Greater \<and>
       de_dbl_cmp ?env (pr_value (al_row r)) (mp_value (amp_point c)) \<noteq> Greater"
    if r: "r \<in> set (inside ?v ?rows)" for r
  proof -
    obtain k l where kl: "k \<in> set ?kept" "l \<in> set ?kept" "al_value_cmp ?env k r \<noteq> Greater" "al_value_cmp ?env r l \<noteq> Greater"
      by (rule kept_inside_extremes [OF dbl r])
    then have "aligned_point k \<in> set (aqr_points res)" "aligned_point l \<in> set (aqr_points res)"
      unfolding pts sel by simp_all
    moreover have "de_dbl_cmp ?env (mp_value (amp_point (aligned_point k))) (pr_value (al_row r)) \<noteq> Greater"
      "de_dbl_cmp ?env (pr_value (al_row r)) (mp_value (amp_point (aligned_point l))) \<noteq> Greater"
      using kl(3,4) by (simp_all add: al_value_cmp_def value_cmp_def)
    ultimately show ?thesis by blast
  qed
  show ?thesis
    unfolding Let_def using res selected_subset(1) [of ?env "Some (b, m)" ?v ?rows] selected_subset(2) [of ?v ?rows ?env "Some (b, m)"] pts sorted size whole extremes by auto
qed

theorem aligned_screen_correct_witness:
  "\<exists>res. query_aligned_rows (\<lambda>_. []) Src_Project
       (sample_alignment (AR_ScreenBudget \<lparr>sb_pixel_width = 1, sb_points_per_pixel = 1\<rparr>)) By_Step sample_store = (Ok res, sample_store) \<and>
     length (aqr_points res) \<le> 6 \<and> aqr_source_row_count res = 1"
proof -
  let ?b = "\<lparr>sb_pixel_width = 1, sb_points_per_pixel = 1\<rparr>"
  let ?q = "sample_alignment (AR_ScreenBudget ?b)"
  have four: "4 = the (ar_max_points (AR_ScreenBudget ?b))" by (simp add: clamp_nat_def usize_sat_mul_def)
  obtain res where run: "query_aligned_rows (\<lambda>_. []) Src_Project ?q By_Step sample_store = (Ok res, sample_store)"
    by (simp add: query_aligned_rows_def validate_alignment_identity_def screen_params_def screen_limits_def
         bind_op_def query_no_faults sample_ordered env_lift_def result_rows_def selected_def visible_source_def
         inside_def left_neighbor_def right_neighbor_def first_of_def aligned_point_of_def metric_point_of_def
         timestamp_from_millis_def sample_ts_ok clamp_nat_def usize_sat_mul_def)
  have dbl: "order_cmp (de_dbl_cmp (st_env sample_store)) (\<lambda>_. True)"
    using total_order_f64.order_cmp_axioms by (simp add: sample_env_def)
  have small: "length (inside (aq_viewport ?q) (ordered_ctes By_Step ?q (source_rows (\<lambda>_. []) Src_Project sample_store))) \<le> 2 ^ 35"
    by (simp add: sample_ordered inside_def)
  have v: "av_start (aq_viewport ?q) \<le> av_end (aq_viewport ?q)" by simp
  have one: "length (visible_source (aq_viewport ?q) (ordered_ctes By_Step ?q (st_points sample_store))) = 1"
    by (simp add: sample_ordered visible_source_def inside_def left_neighbor_def right_neighbor_def first_of_def)
  show ?thesis
    using aligned_screen_correct [OF run sample_alignment_simps(3) four v dbl small] run one by (auto simp: Let_def)
qed

end
