(* ===== verification/Comparison.thy ===== *)
theory Comparison
  imports Evidence
begin

section \<open>Comparing runs (\<open>engine/comparison.rs\<close>)\<close>

text \<open>
  The scalar comparison of two pieces of evidence, the reports that combine the primary and the
  secondary metrics of a request, and the two client methods that build them. The evidence
  comes from the client through an operation that is an argument here; the locale
  \<open>evidence_source\<close> states what the methods rely on, and the client theory interprets it.
\<close>

definition zip_usable :: "objective_evidence \<Rightarrow> objective_evidence \<Rightarrow> (f64 \<times> f64) option" where
  "zip_usable candidate reference =
     (case (usable_value candidate, usable_value reference) of
        (Some c, Some r) \<Rightarrow> Some (c, r)
      | _ \<Rightarrow> None)"

definition relative_delta_of :: "f64 \<Rightarrow> f64 \<Rightarrow> f64 option" where
  "relative_delta_of raw reference =
     (if \<not> feq reference fzero then Some (fdiv raw (fabs reference)) else None)"

definition compare_metric_evidence ::
  "metric_key \<Rightarrow> objective_evidence \<Rightarrow> objective_evidence \<Rightarrow> metric_comparison_result" where
  "compare_metric_evidence key candidate reference =
     (let completeness = max (oe_completeness candidate) (oe_completeness reference);
          (raw, relative) =
            (case zip_usable candidate reference of
               None \<Rightarrow> (None, None)
             | Some (c, r) \<Rightarrow> (let raw = fsub c r in (Some raw, relative_delta_of raw r)))
      in \<lparr>mcr_metric_key = key, mcr_candidate = candidate, mcr_reference = reference,
          mcr_completeness = completeness, mcr_raw_delta = raw, mcr_relative_delta = relative\<rparr>)"

definition preference_of ::
  "evidence_completeness \<Rightarrow> comparison_outcome option \<Rightarrow> comparison_preference" where
  "preference_of completeness outcome =
     (case (completeness, outcome) of
        (EC_Complete, Some CO_Improved) \<Rightarrow> CP_Candidate
      | (EC_Complete, Some CO_Regressed) \<Rightarrow> CP_Reference
      | (EC_Complete, Some CO_Equal) \<Rightarrow> CP_NoPreference
      | _ \<Rightarrow> CP_Inconclusive)"

definition compare_evidence ::
  "objective_metric \<Rightarrow> objective_evidence \<Rightarrow> objective_evidence \<Rightarrow> comparison_result" where
  "compare_evidence objective candidate reference =
     (let completeness = max (oe_completeness candidate) (oe_completeness reference);
          numeric = (case zip_usable candidate reference of
             None \<Rightarrow> None
           | Some (c, r) \<Rightarrow>
               (let raw = fsub c r;
                    normalized = normalize (om_direction objective) raw
                in Some (raw, relative_delta_of raw r, normalized,
                         from_normalized_improvement normalized)));
          (raw_delta, relative_delta, normalized_improvement, outcome) = (case numeric of
             Some (raw, relative, normalized, outcome) \<Rightarrow>
               (Some raw, relative, Some normalized, Some outcome)
           | None \<Rightarrow> (None, None, None, None))
      in \<lparr>cr_objective = objective, cr_candidate = candidate, cr_reference = reference,
          cr_completeness = completeness, cr_raw_delta = raw_delta,
          cr_relative_delta = relative_delta, cr_normalized_improvement = normalized_improvement,
          cr_outcome = outcome, cr_preference = preference_of completeness outcome\<rparr>)"

record secondary_evidence_set =
  ses_metric_key :: metric_key
  ses_reference :: objective_evidence
  ses_candidates :: "objective_evidence list"

text \<open>\<open>set.candidates[index]\<close> panics out of range, here \<open>None\<close>.\<close>

definition secondary_at :: "nat \<Rightarrow> secondary_evidence_set \<Rightarrow> metric_comparison_result option" where
  "secondary_at index st =
     (if index < length (ses_candidates st)
      then Some (compare_metric_evidence (ses_metric_key st) (ses_candidates st ! index)
                   (ses_reference st))
      else None)"

definition build_reports ::
  "objective_metric \<Rightarrow> objective_evidence \<Rightarrow> objective_evidence list \<Rightarrow>
   secondary_evidence_set list \<Rightarrow> comparison_report list option" where
  "build_reports objective reference candidates secondary =
     those (map (\<lambda>(index, candidate).
       map_option (\<lambda>sec. \<lparr>crp_primary = compare_evidence objective candidate reference,
                         crp_secondary = sec\<rparr>)
         (those (map (secondary_at index) secondary)))
       (enumerate 0 candidates))"

definition reject_duplicate_run_ids :: "run_id list \<Rightarrow> (engine_error, unit) res" where
  "reject_duplicate_run_ids ids =
     (case first_dup {} ids of None \<Rightarrow> Ok () | Some r \<Rightarrow> Err (DuplicateRunIdentity r))"

type_synonym 'w evidence_op =
  "run_id list \<Rightarrow> objective_metric \<Rightarrow> ('w, engine_error, (run \<times> objective_evidence) list) op"

definition secondary_set ::
  "'w evidence_op \<Rightarrow> run_id list \<Rightarrow> objective_direction \<Rightarrow> metric_key \<Rightarrow>
   ('w, engine_error, secondary_evidence_set option) op" where
  "secondary_set ev request direction key =
     bind_op (ev request \<lparr>om_metric_key = key, om_direction = direction\<rparr>)
       (\<lambda>evidence. ret_op (case evidence of
          [] \<Rightarrow> None
        | (_, reference) # rest \<Rightarrow>
            Some \<lparr>ses_metric_key = key, ses_reference = reference, ses_candidates = map snd rest\<rparr>))"

definition flatten_options :: "'a option list \<Rightarrow> 'a list" where
  "flatten_options xs = concat (map (\<lambda>x. case x of None \<Rightarrow> [] | Some y \<Rightarrow> [y]) xs)"

definition comparison_reports ::
  "'w evidence_op \<Rightarrow> run_id list \<Rightarrow> run_id \<Rightarrow> objective_metric \<Rightarrow> metric_key list \<Rightarrow>
   ('w, engine_error, comparison_report list option) op" where
  "comparison_reports ev candidates reference objective secondary_keys =
     (let request = reference # candidates in
      bind_op (lift_op (reject_duplicate_run_ids request)) (\<lambda>_.
      bind_op (ev request objective) (\<lambda>evidence.
        case evidence of
          [] \<Rightarrow> ret_op (Some [])
        | (_, ref_evidence) # rest \<Rightarrow>
            bind_op (mapM_op (secondary_set ev request (om_direction objective)) secondary_keys)
              (\<lambda>sets. ret_op (build_reports objective ref_evidence (map snd rest)
                                (flatten_options sets))))))"

definition compare_runs ::
  "(run_id \<Rightarrow> objective_metric \<Rightarrow> ('w, engine_error, objective_evidence) op) \<Rightarrow>
   run_id \<Rightarrow> run_id \<Rightarrow> objective_metric \<Rightarrow> ('w, engine_error, comparison_result) op" where
  "compare_runs evidence candidate_id reference_id objective =
     (if candidate_id = reference_id then fail_op (DuplicateRunIdentity candidate_id)
      else bind_op (evidence candidate_id objective) (\<lambda>candidate.
           bind_op (evidence reference_id objective) (\<lambda>reference.
           ret_op (compare_evidence objective candidate reference))))"

subsection \<open>The scalar comparison\<close>

lemma zip_usable_Some:
  "zip_usable c r = Some (x, y) \<longleftrightarrow> usable_value c = Some x \<and> usable_value r = Some y"
  by (auto simp: zip_usable_def split: option.splits)

lemma zip_usable_None: "zip_usable c r = None \<longleftrightarrow> usable_value c = None \<or> usable_value r = None"
  by (auto simp: zip_usable_def split: option.splits)

lemma flt_fneg:
  "flt (fneg x) fzero \<longleftrightarrow> flt fzero x" "flt fzero (fneg x) \<longleftrightarrow> flt x fzero"
  by (cases x; auto simp: fzero_def sval_def)+

text \<open>\<open>better d x y\<close>: the value \<open>x\<close> is strictly preferable to \<open>y\<close> under direction \<open>d\<close>.\<close>

definition better :: "objective_direction \<Rightarrow> f64 \<Rightarrow> f64 \<Rightarrow> bool" where
  "better d x y = (case d of Minimize \<Rightarrow> val x < val y | Maximize \<Rightarrow> val y < val x)"

lemma outcome_of_difference:
  assumes "wf_f64 x" "is_finite x" "wf_f64 y" "is_finite y"
  shows "from_normalized_improvement (normalize d (fsub x y)) =
         (if better d x y then CO_Improved else if better d y x then CO_Regressed else CO_Equal)"
  using fsub_sign [OF assms]
  by (cases d) (auto simp: from_normalized_improvement_def better_def flt_fneg)

lemma compare_evidence_numeric:
  assumes "usable_value c = Some x" and "usable_value r = Some y"
  shows "cr_raw_delta (compare_evidence obj c r) = Some (fsub x y)"
    and "cr_outcome (compare_evidence obj c r) =
           Some (from_normalized_improvement (normalize (om_direction obj) (fsub x y)))"
    and "cr_relative_delta (compare_evidence obj c r) = relative_delta_of (fsub x y) y"
  using assms zip_usable_Some [of c r x y] by (simp_all add: compare_evidence_def Let_def)

lemma compare_evidence_missing:
  assumes "usable_value c = None \<or> usable_value r = None"
  shows "cr_raw_delta (compare_evidence obj c r) = None"
    and "cr_outcome (compare_evidence obj c r) = None"
    and "cr_relative_delta (compare_evidence obj c r) = None"
    and "cr_normalized_improvement (compare_evidence obj c r) = None"
  using assms zip_usable_None [of c r] by (simp_all add: compare_evidence_def Let_def)

lemma compare_evidence_frame [frame_simps]:
  "cr_objective (compare_evidence obj c r) = obj"
  "cr_candidate (compare_evidence obj c r) = c"
  "cr_reference (compare_evidence obj c r) = r"
  "cr_completeness (compare_evidence obj c r) = max (oe_completeness c) (oe_completeness r)"
  "cr_preference (compare_evidence obj c r) =
     preference_of (max (oe_completeness c) (oe_completeness r)) (cr_outcome (compare_evidence obj c r))"
  by (simp_all add: compare_evidence_def Let_def split: option.splits prod.splits)

lemma compare_metric_frame [frame_simps]:
  "mcr_metric_key (compare_metric_evidence k c r) = k"
  "mcr_candidate (compare_metric_evidence k c r) = c"
  "mcr_reference (compare_metric_evidence k c r) = r"
  by (simp_all add: compare_metric_evidence_def Let_def split: option.splits prod.splits)

lemma preference_of_iff:
  "preference_of c oc = CP_Candidate \<longleftrightarrow> c = EC_Complete \<and> oc = Some CO_Improved"
  "preference_of c oc = CP_Reference \<longleftrightarrow> c = EC_Complete \<and> oc = Some CO_Regressed"
  "preference_of c oc = CP_NoPreference \<longleftrightarrow> c = EC_Complete \<and> oc = Some CO_Equal"
  by (auto simp: preference_of_def split: evidence_completeness.splits option.splits
                 comparison_outcome.splits)

fun opposite :: "comparison_preference \<Rightarrow> comparison_preference" where
  "opposite CP_Candidate = CP_Reference"
| "opposite CP_Reference = CP_Candidate"
| "opposite CP_NoPreference = CP_NoPreference"
| "opposite CP_Inconclusive = CP_Inconclusive"

text \<open>Evidence whose value is an \<open>f64\<close>.\<close>

definition wf_evidence :: "objective_evidence \<Rightarrow> bool" where
  "wf_evidence e \<longleftrightarrow> (case oe_last_value e of None \<Rightarrow> True | Some v \<Rightarrow> wf_f64 v)"

lemma wf_evidence_usable: "wf_evidence e \<Longrightarrow> usable_value e = Some v \<Longrightarrow> wf_f64 v \<and> is_finite v"
  by (auto simp: wf_evidence_def usable_value_def split: option.splits if_splits)

lemma compare_outcome:
  assumes "wf_evidence c" "wf_evidence r" "usable_value c = Some x" "usable_value r = Some y"
  shows "cr_outcome (compare_evidence obj c r) =
         Some (if better (om_direction obj) x y then CO_Improved
               else if better (om_direction obj) y x then CO_Regressed else CO_Equal)"
  using assms compare_evidence_numeric(2) [of c x r y obj] outcome_of_difference [of x y]
        wf_evidence_usable by simp

lemma better_asym: "better d x y \<Longrightarrow> \<not> better d y x"
  by (cases d) (auto simp: better_def)

subsection \<open>The reports\<close>

lemma reject_duplicates_iff: "reject_duplicate_run_ids ids = Ok u \<longleftrightarrow> distinct ids"
  by (auto simp: reject_duplicate_run_ids_def first_dup_None split: option.splits
           dest: first_dup_Some)

lemma reject_duplicates_Err:
  "reject_duplicate_run_ids ids = Err e \<Longrightarrow> \<not> distinct ids \<and> (\<exists>r \<in> set ids. e = DuplicateRunIdentity r)"
  by (auto simp: reject_duplicate_run_ids_def split: option.splits dest: first_dup_Some)

lemma those_map_Some: "(\<And>x. x \<in> set xs \<Longrightarrow> f x = Some (g x)) \<Longrightarrow> those (map f xs) = Some (map g xs)"
  by (induction xs) auto

text \<open>With one secondary entry per candidate no index is out of range.\<close>

lemma build_reports_total:
  assumes "\<forall>st \<in> set secondary. length (ses_candidates st) = length candidates"
  shows "build_reports obj reference candidates secondary =
    Some (map (\<lambda>(i, c). \<lparr>crp_primary = compare_evidence obj c reference,
              crp_secondary = map (\<lambda>st. compare_metric_evidence (ses_metric_key st)
                                   (ses_candidates st ! i) (ses_reference st)) secondary\<rparr>)
           (enumerate 0 candidates))"
  unfolding build_reports_def
proof (rule those_map_Some)
  fix p assume p: "p \<in> set (enumerate 0 candidates)"
  obtain i c where ic: "p = (i, c)" by (cases p)
  with p have "i < length candidates" by (auto simp: in_set_enumerate_eq)
  then have "those (map (secondary_at i) secondary) =
    Some (map (\<lambda>st. compare_metric_evidence (ses_metric_key st) (ses_candidates st ! i)
                       (ses_reference st)) secondary)"
    using assms by (intro those_map_Some) (simp add: secondary_at_def)
  then show "(case p of (index, candidate) \<Rightarrow>
       map_option (\<lambda>sec. \<lparr>crp_primary = compare_evidence obj candidate reference, crp_secondary = sec\<rparr>)
         (those (map (secondary_at index) secondary))) =
     Some (case p of (i, c) \<Rightarrow> \<lparr>crp_primary = compare_evidence obj c reference,
              crp_secondary = map (\<lambda>st. compare_metric_evidence (ses_metric_key st)
                                   (ses_candidates st ! i) (ses_reference st)) secondary\<rparr>)"
    by (simp add: ic)
qed

text \<open>
  What the report methods need of the client's \<open>ranking_evidence\<close>: in a state that satisfies
  the invariant, one entry for every requested run in the order of the request, whose evidence
  is about that run; and the invariant is kept.
\<close>

locale evidence_source =
  fixes ev :: "'w evidence_op" and inv :: "'w \<Rightarrow> bool"
  assumes ev_inv: "inv w \<Longrightarrow> ev ids obj w = (r, w') \<Longrightarrow> inv w'"
    and ev_ids: "inv w \<Longrightarrow> ev ids obj w = (Ok rs, w') \<Longrightarrow> map (\<lambda>p. r_run_id (fst p)) rs = ids"
    and ev_evidence: "inv w \<Longrightarrow> ev ids obj w = (Ok rs, w') \<Longrightarrow> map (\<lambda>p. oe_run_id (snd p)) rs = ids"
begin

lemma ev_length: "inv w \<Longrightarrow> ev ids obj w = (Ok rs, w') \<Longrightarrow> length rs = length ids"
  using ev_ids length_map by metis

definition aligned_set :: "run_id \<Rightarrow> run_id list \<Rightarrow> metric_key \<Rightarrow> secondary_evidence_set option \<Rightarrow> bool" where
  "aligned_set reference candidates key s \<longleftrightarrow>
     (\<exists>st. s = Some st \<and> ses_metric_key st = key \<and> oe_run_id (ses_reference st) = reference \<and>
           map oe_run_id (ses_candidates st) = candidates)"

lemma secondary_set_aligned:
  assumes "inv w" and "secondary_set ev (reference # candidates) d key w = (Ok s, w')"
  shows "aligned_set reference candidates key s \<and> inv w'"
proof -
  obtain rs where rs: "ev (reference # candidates) \<lparr>om_metric_key = key, om_direction = d\<rparr> w = (Ok rs, w')"
      and s: "s = (case rs of [] \<Rightarrow> None | (_, r) # rest \<Rightarrow>
                Some \<lparr>ses_metric_key = key, ses_reference = r, ses_candidates = map snd rest\<rparr>)"
    using assms(2) by (auto simp: secondary_set_def bind_op_Ok)
  have ids: "map (\<lambda>p. oe_run_id (snd p)) rs = reference # candidates"
    by (rule ev_evidence [OF assms(1) rs])
  then obtain p rest where "rs = p # rest" by (cases rs) auto
  then show ?thesis using s ids ev_inv [OF assms(1) rs]
    by (cases p) (auto simp: aligned_set_def comp_def)
qed

lemma secondary_sets_aligned:
  assumes "inv w" and "mapM_op (secondary_set ev (reference # candidates) d) keys w = (Ok sets, w')"
  shows "list_all2 (aligned_set reference candidates) keys sets \<and> inv w'"
  using assms
proof (induction keys arbitrary: w sets)
  case Nil
  then show ?case by simp
next
  case (Cons k ks)
  then obtain s v ss where "secondary_set ev (reference # candidates) d k w = (Ok s, v)"
      "mapM_op (secondary_set ev (reference # candidates) d) ks v = (Ok ss, w')" "sets = s # ss"
    by (auto simp: bind_op_Ok)
  then show ?case using Cons.IH [of v ss] secondary_set_aligned [OF Cons.prems(1)] by auto
qed

lemma flatten_aligned:
  assumes "list_all2 (aligned_set reference candidates) keys sets"
  shows "map ses_metric_key (flatten_options sets) = keys"
    and "\<forall>st \<in> set (flatten_options sets). oe_run_id (ses_reference st) = reference \<and>
           map oe_run_id (ses_candidates st) = candidates"
  using assms by (induction rule: list_all2_induct) (auto simp: flatten_options_def aligned_set_def)

lemma comparison_reports_sound:
  assumes inv: "inv w" and run: "comparison_reports ev candidates reference obj keys w = (Ok res, w')"
  shows "\<exists>reports. res = Some reports \<and>
           map (\<lambda>r. oe_run_id (cr_candidate (crp_primary r))) reports = candidates \<and>
           (\<forall>r \<in> set reports. oe_run_id (cr_reference (crp_primary r)) = reference \<and>
              map mcr_metric_key (crp_secondary r) = keys \<and>
              (\<forall>s \<in> set (crp_secondary r). oe_run_id (mcr_candidate s) = oe_run_id (cr_candidate (crp_primary r)) \<and>
                 oe_run_id (mcr_reference s) = reference))"
proof -
  let ?req = "reference # candidates"
  obtain evs v where evs: "ev ?req obj w = (Ok evs, v)"
    using run by (auto simp: comparison_reports_def Let_def bind_op_Ok)
  have ids: "map (\<lambda>p. oe_run_id (snd p)) evs = ?req" by (rule ev_evidence [OF inv evs])
  then obtain p rest where evs_eq: "evs = p # rest" by (cases evs) auto
  obtain r0 ref_ev where p: "p = (r0, ref_ev)" by (cases p)
  obtain sets where sets: "mapM_op (secondary_set ev ?req (om_direction obj)) keys v = (Ok sets, w')"
      and res: "res = build_reports obj ref_ev (map snd rest) (flatten_options sets)"
    using run evs evs_eq p by (auto simp: comparison_reports_def Let_def bind_op_Ok)
  have al: "list_all2 (aligned_set reference candidates) keys sets"
    using secondary_sets_aligned [OF ev_inv [OF inv evs] sets] by simp
  note fl = flatten_aligned [OF al]
  have cand: "map oe_run_id (map snd rest) = candidates" and ref: "oe_run_id ref_ev = reference"
    using ids evs_eq p by (simp_all add: comp_def)
  have len: "length candidates = length rest" using cand by (metis length_map)
  have "\<forall>st \<in> set (flatten_options sets). length (ses_candidates st) = length (map snd rest)"
    using fl(2) len by (metis length_map)
  note total = build_reports_total [OF this, of obj ref_ev]
  have nth: "i < length rest \<Longrightarrow> st \<in> set (flatten_options sets) \<Longrightarrow>
      oe_run_id (ses_candidates st ! i) = oe_run_id (snd (rest ! i))" for i st
    using fl(2) cand len by (metis length_map nth_map)
  have candidates_eq: "map (\<lambda>r. oe_run_id (cr_candidate (crp_primary r)))
      (map (\<lambda>(i, c). \<lparr>crp_primary = compare_evidence obj c ref_ev, crp_secondary = f i\<rparr>)
         (enumerate 0 (map snd rest))) = candidates" for f
    unfolding cand [symmetric] by (rule nth_equalityI) (simp_all add: frame_simps nth_enumerate_eq)
  show ?thesis
    unfolding res total
  proof (intro exI conjI ballI)
    fix r
    assume "r \<in> set (map (\<lambda>(i, c). \<lparr>crp_primary = compare_evidence obj c ref_ev,
      crp_secondary = map (\<lambda>st. compare_metric_evidence (ses_metric_key st)
        (ses_candidates st ! i) (ses_reference st)) (flatten_options sets)\<rparr>)
      (enumerate 0 (map snd rest)))"
    then obtain i where i: "i < length rest" and r: "r = \<lparr>crp_primary = compare_evidence obj (snd (rest ! i)) ref_ev,
      crp_secondary = map (\<lambda>st. compare_metric_evidence (ses_metric_key st)
        (ses_candidates st ! i) (ses_reference st)) (flatten_options sets)\<rparr>"
      by (auto simp: enumerate_eq_zip in_set_zip)
    show "oe_run_id (cr_reference (crp_primary r)) = reference" using r ref by (simp add: frame_simps)
    show "map mcr_metric_key (crp_secondary r) = keys"
      unfolding r fl(1) [symmetric] by (simp add: frame_simps comp_def)
    fix s assume "s \<in> set (crp_secondary r)"
    then show "oe_run_id (mcr_candidate s) = oe_run_id (cr_candidate (crp_primary r))"
        and "oe_run_id (mcr_reference s) = reference"
      using r i nth fl(2) by (auto simp: frame_simps)
  qed (simp_all only: candidates_eq)
qed

end

subsection \<open>Properties\<close>

definition sample_evidence :: "run_id \<Rightarrow> f64 \<Rightarrow> objective_evidence" where
  "sample_evidence rid v = objective_evidence_of rid Finished
     (Some \<lparr>ma_run_id = rid, ma_metric_key = ''loss'', ma_effective_count = 1, ma_last_step = 1,
            ma_last_value = v, ma_min_value = v, ma_max_value = v\<rparr>)"

lemma sample_evidence_simps [simp]:
  "is_finite v \<Longrightarrow> usable_value (sample_evidence rid v) = Some v"
  "wf_evidence (sample_evidence rid v) = wf_f64 v"
  "is_finite v \<Longrightarrow> oe_completeness (sample_evidence rid v) = EC_Complete"
  "oe_run_id (sample_evidence rid v) = rid"
  by (simp_all add: sample_evidence_def evidence_usable evidence_complete_iff)
     (simp add: objective_evidence_of_def wf_evidence_def)

text \<open>C7: comparing two runs with usable values reports an improvement exactly when the
  candidate's value is strictly better in the requested direction, a regression exactly when it
  is strictly worse, and equality otherwise, although the decision is taken on a rounded
  difference that may overflow; and the advice follows the outcome exactly when both sides are
  complete, and is inconclusive otherwise.\<close>

theorem comparison_outcome_exact:
  assumes "wf_evidence c" and "wf_evidence r"
    and "usable_value c = Some x" and "usable_value r = Some y"
  shows "cr_outcome (compare_evidence obj c r) =
           Some (if better (om_direction obj) x y then CO_Improved
                 else if better (om_direction obj) y x then CO_Regressed else CO_Equal) \<and>
         cr_preference (compare_evidence obj c r) =
           (if oe_completeness c = EC_Complete \<and> oe_completeness r = EC_Complete
            then (if better (om_direction obj) x y then CP_Candidate
                  else if better (om_direction obj) y x then CP_Reference else CP_NoPreference)
            else CP_Inconclusive)"
proof -
  have "max (oe_completeness c) (oe_completeness r) = EC_Complete \<longleftrightarrow>
        oe_completeness c = EC_Complete \<and> oe_completeness r = EC_Complete"
    by (rule max_Complete_iff)
  then show ?thesis
    using compare_outcome [OF assms, of obj]
    by (cases "max (oe_completeness c) (oe_completeness r)")
       (auto simp: frame_simps preference_of_def)
qed

theorem comparison_outcome_exact_witness:
  "cr_preference (compare_evidence \<lparr>om_metric_key = ''loss'', om_direction = Minimize\<rparr>
      (sample_evidence ''a'' (F_Fin False 3)) (sample_evidence ''b'' (F_Fin False 5))) = CP_Candidate"
  using comparison_outcome_exact [of "sample_evidence ''a'' (F_Fin False 3)" "sample_evidence ''b'' (F_Fin False 5)"
      "F_Fin False 3" "F_Fin False 5" "\<lparr>om_metric_key = ''loss'', om_direction = Minimize\<rparr>"]
  by (simp add: better_def sval_def)

text \<open>Exchanging candidate and reference reverses the advice, whatever the evidence.\<close>

theorem comparison_antisymmetric:
  assumes "wf_evidence c" and "wf_evidence r"
  shows "cr_preference (compare_evidence obj r c) = opposite (cr_preference (compare_evidence obj c r))"
proof (cases "usable_value c = None \<or> usable_value r = None")
  case True
  then have "cr_outcome (compare_evidence obj c r) = None" "cr_outcome (compare_evidence obj r c) = None"
    using compare_evidence_missing(2) by blast+
  then show ?thesis by (simp add: frame_simps preference_of_def split: evidence_completeness.split)
next
  case False
  then obtain x y where xy: "usable_value c = Some x" "usable_value r = Some y" by auto
  have "max (oe_completeness r) (oe_completeness c) = max (oe_completeness c) (oe_completeness r)"
    by (rule max.commute)
  then show ?thesis
    using compare_outcome [OF assms xy, of obj] compare_outcome [OF assms(2,1) xy(2,1), of obj]
      better_asym [of "om_direction obj" x y]
    by (simp add: frame_simps preference_of_def split: evidence_completeness.split)
qed

theorem comparison_antisymmetric_witness:
  "cr_preference (compare_evidence \<lparr>om_metric_key = ''acc'', om_direction = Maximize\<rparr>
      (sample_evidence ''b'' (F_Fin False 5)) (sample_evidence ''a'' (F_Fin True 3))) =
   opposite (cr_preference (compare_evidence \<lparr>om_metric_key = ''acc'', om_direction = Maximize\<rparr>
      (sample_evidence ''a'' (F_Fin True 3)) (sample_evidence ''b'' (F_Fin False 5))))"
  by (rule comparison_antisymmetric) simp_all

end
