(* ===== verification/Ranking.thy ===== *)
theory Ranking
  imports Comparison
begin

section \<open>Ranking runs (\<open>engine/ranking.rs\<close>)\<close>

text \<open>
  Competition ranking of a request's runs: eligible runs (complete, finite evidence) by their
  objective value, then creation time and identifier, then the ineligible ones in request
  order. The comparator is shown to satisfy the contract of \<open>sort_by\<close>, and the ranks are
  characterised by counting the strictly better entries.
\<close>

record ranking_candidate =
  rc_evidence :: objective_evidence
  rc_created_at :: datetime
  rc_ordinal :: nat

definition eligible_value :: "objective_evidence \<Rightarrow> f64 option" where
  "eligible_value e = (if oe_completeness e = EC_Complete then usable_value e else None)"

definition objective_order :: "objective_direction \<Rightarrow> f64 \<Rightarrow> f64 \<Rightarrow> ordering" where
  "objective_order direction l r =
     (if feq l r then Equal
      else case direction of Minimize \<Rightarrow> total_cmp l r | Maximize \<Rightarrow> total_cmp r l)"

definition compare_candidates ::
  "objective_direction \<Rightarrow> ranking_candidate \<Rightarrow> ranking_candidate \<Rightarrow> ordering" where
  "compare_candidates direction left right =
     (case (eligible_value (rc_evidence left), eligible_value (rc_evidence right)) of
        (Some l, Some r) \<Rightarrow>
          then_with (objective_order direction l r)
            (then_with (cmp_of (rc_created_at left) (rc_created_at right))
               (str_cmp (oe_run_id (rc_evidence left)) (oe_run_id (rc_evidence right))))
      | (Some _, None) \<Rightarrow> Less
      | (None, Some _) \<Rightarrow> Greater
      | (None, None) \<Rightarrow> cmp_of (rc_ordinal left) (rc_ordinal right))"

fun assign_ranks :: "nat \<Rightarrow> f64 option \<Rightarrow> u64 \<Rightarrow> ranking_candidate list \<Rightarrow> ranking_entry list" where
  "assign_ranks index previous_value previous_rank [] = []"
| "assign_ranks index previous_value previous_rank (c # cs) =
     (case eligible_value (rc_evidence c) of
        None \<Rightarrow> \<lparr>re_evidence = rc_evidence c, re_rank = None\<rparr>
                # assign_ranks (Suc index) previous_value previous_rank cs
      | Some v \<Rightarrow>
          (if (case previous_value of None \<Rightarrow> True | Some p \<Rightarrow> \<not> feq p v)
           then \<lparr>re_evidence = rc_evidence c, re_rank = Some (of_nat index + 1)\<rparr>
                # assign_ranks (Suc index) (Some v) (of_nat index + 1) cs
           else \<lparr>re_evidence = rc_evidence c, re_rank = Some previous_rank\<rparr>
                # assign_ranks (Suc index) previous_value previous_rank cs))"

definition rank_candidates :: "objective_metric \<Rightarrow> ranking_candidate list \<Rightarrow> ranking_result" where
  "rank_candidates objective candidates =
     \<lparr>rr_objective = objective,
      rr_entries = assign_ranks 0 None 0
        (sort_by (compare_candidates (om_direction objective)) candidates)\<rparr>"

definition candidates_of :: "(run \<times> objective_evidence) list \<Rightarrow> ranking_candidate list" where
  "candidates_of rs = map (\<lambda>(ordinal, (r, e)).
     \<lparr>rc_evidence = e, rc_created_at = r_created_at r, rc_ordinal = ordinal\<rparr>) (enumerate 0 rs)"

definition rank_runs ::
  "'w evidence_op \<Rightarrow> run_id list \<Rightarrow> objective_metric \<Rightarrow> ('w, engine_error, ranking_result) op" where
  "rank_runs ev ids objective =
     (case first_dup {} ids of
        Some r \<Rightarrow> fail_op (DuplicateRunIdentity r)
      | None \<Rightarrow> bind_op (ev ids objective) (\<lambda>rs. ret_op (rank_candidates objective (candidates_of rs))))"

definition best_entry :: "ranking_result \<Rightarrow> run_id option" where
  "best_entry r = map_option (\<lambda>e. oe_run_id (re_evidence e)) (find (\<lambda>e. re_rank e = Some 1) (rr_entries r))"

definition best_eligible_run ::
  "'w evidence_op \<Rightarrow> run_id list \<Rightarrow> objective_metric \<Rightarrow> ('w, engine_error, run_id option) op" where
  "best_eligible_run ev ids objective =
     bind_op (rank_runs ev ids objective) (\<lambda>r. ret_op (best_entry r))"

subsection \<open>The comparator\<close>

definition wf_candidate :: "ranking_candidate \<Rightarrow> bool" where
  "wf_candidate c \<longleftrightarrow> wf_evidence (rc_evidence c)"

abbreviation eligible :: "ranking_candidate \<Rightarrow> bool" where
  "eligible c \<equiv> eligible_value (rc_evidence c) \<noteq> None"

abbreviation cvalue :: "ranking_candidate \<Rightarrow> f64" where
  "cvalue c \<equiv> the (eligible_value (rc_evidence c))"

text \<open>The objective as a number of which less is better.\<close>

definition objective_key :: "objective_direction \<Rightarrow> f64 \<Rightarrow> rat" where
  "objective_key d v = (case d of Minimize \<Rightarrow> val v | Maximize \<Rightarrow> - val v)"

lemma better_key: "better d x y \<longleftrightarrow> objective_key d x < objective_key d y"
  by (cases d) (simp_all add: better_def objective_key_def)

lemma eligible_value_wf:
  "wf_candidate c \<Longrightarrow> eligible_value (rc_evidence c) = Some v \<Longrightarrow> wf_f64 v \<and> is_finite v"
  by (auto simp: wf_candidate_def eligible_value_def wf_evidence_usable split: if_splits)

lemma feq_key:
  assumes "is_finite x" "is_finite y"
  shows "feq x y \<longleftrightarrow> objective_key d x = objective_key d y"
  using assms by (cases d) (simp_all add: feq_finite objective_key_def)

lemma objective_order_key:
  assumes "wf_f64 x" "is_finite x" "wf_f64 y" "is_finite y"
  shows "objective_order d x y = cmp_of (objective_key d x) (objective_key d y)"
proof -
  consider "val x = val y" | "val x < val y" | "val y < val x" by linarith
  then show ?thesis
  proof cases
    case 1
    then show ?thesis using assms
      by (cases d) (simp_all add: objective_order_def objective_key_def feq_finite cmp_of_def)
  next
    case 2
    then have "total_cmp x y = Less" using assms total_cmp_Less_finite by blast
    moreover from this have "total_cmp y x = Greater" using total_cmp_reverse [of x y] by simp
    ultimately show ?thesis using 2 assms
      by (cases d) (simp_all add: objective_order_def objective_key_def feq_finite cmp_of_def)
  next
    case 3
    then have "total_cmp y x = Less" using assms total_cmp_Less_finite by blast
    moreover from this have "total_cmp x y = Greater" using total_cmp_reverse [of y x] by simp
    ultimately show ?thesis using 3 assms
      by (cases d) (simp_all add: objective_order_def objective_key_def feq_finite cmp_of_def)
  qed
qed

definition ckey :: "objective_direction \<Rightarrow> ranking_candidate \<Rightarrow> rat" where
  "ckey d c = objective_key d (cvalue c)"

lemma compare_candidates_eligible:
  assumes "wf_candidate a" "wf_candidate b" "eligible a" "eligible b"
  shows "compare_candidates d a b =
    then_with (cmp_of (ckey d a) (ckey d b))
      (then_with (cmp_of (rc_created_at a) (rc_created_at b))
         (str_cmp (oe_run_id (rc_evidence a)) (oe_run_id (rc_evidence b))))"
proof -
  obtain x y where xy: "eligible_value (rc_evidence a) = Some x" "eligible_value (rc_evidence b) = Some y"
    using assms by auto
  then show ?thesis
    using eligible_value_wf [OF assms(1) xy(1)] eligible_value_wf [OF assms(2) xy(2)]
    by (simp add: compare_candidates_def ckey_def objective_order_key)
qed

lemma compare_candidates_ineligible:
  "\<not> eligible a \<Longrightarrow> eligible b \<Longrightarrow> compare_candidates d a b = Greater"
  "eligible a \<Longrightarrow> \<not> eligible b \<Longrightarrow> compare_candidates d a b = Less"
  "\<not> eligible a \<Longrightarrow> \<not> eligible b \<Longrightarrow> compare_candidates d a b = cmp_of (rc_ordinal a) (rc_ordinal b)"
  by (auto simp: compare_candidates_def)

lemmas compare_candidates_cases = compare_candidates_eligible compare_candidates_ineligible

lemma compare_candidates_reverse:
  assumes "wf_candidate a" "wf_candidate b"
  shows "reverse_ord (compare_candidates d a b) = compare_candidates d b a"
  using assms
  by (cases "eligible a"; cases "eligible b")
     (simp_all add: compare_candidates_cases reverse_then_with reverse_cmp_of str_cmp_reverse)

lemma compare_candidates_trans:
  assumes wf: "wf_candidate a" "wf_candidate b" "wf_candidate c"
    and ab: "compare_candidates d a b \<noteq> Greater" and bc: "compare_candidates d b c \<noteq> Greater"
  shows "compare_candidates d a c \<noteq> Greater"
proof -
  consider "eligible a" "eligible b" "eligible c" | "eligible a" "\<not> eligible c"
    | "\<not> eligible a" "\<not> eligible b" "\<not> eligible c"
    using ab bc compare_candidates_ineligible(1) by blast
  then show ?thesis
  proof cases
    case 1
    note ce = compare_candidates_eligible
    have "\<lbrakk>str_cmp (oe_run_id (rc_evidence a)) (oe_run_id (rc_evidence b)) \<noteq> Greater;
           str_cmp (oe_run_id (rc_evidence b)) (oe_run_id (rc_evidence c)) \<noteq> Greater\<rbrakk> \<Longrightarrow>
          str_cmp (oe_run_id (rc_evidence a)) (oe_run_id (rc_evidence c)) \<noteq> Greater"
      by (rule str_cmp_trans)
    then show ?thesis
      using ab bc 1 wf by (auto simp: ce then_with_eq_Greater)
  next
    case 2
    then show ?thesis by (simp add: compare_candidates_ineligible)
  next
    case 3
    then show ?thesis using ab bc by (simp add: compare_candidates_ineligible)
  qed
qed

interpretation rank_order: order_cmp "compare_candidates d" wf_candidate
  by unfold_locales (rule compare_candidates_reverse, assumption+, rule compare_candidates_trans)

subsection \<open>The ranks\<close>

text \<open>What sortedness means for the candidates: keys do not decrease, ineligible ones last.\<close>

definition ranked :: "objective_direction \<Rightarrow> ranking_candidate list \<Rightarrow> bool" where
  "ranked d cs \<longleftrightarrow> sorted_wrt (\<lambda>a b. (eligible b \<longrightarrow> eligible a \<and> ckey d a \<le> ckey d b)) cs"

lemma ranked_sort_by:
  assumes "\<forall>c \<in> set cs. wf_candidate c"
  shows "ranked d (sort_by (compare_candidates d) cs)"
proof -
  have "eligible b \<longrightarrow> eligible a \<and> ckey d a \<le> ckey d b"
    if "compare_candidates d a b \<noteq> Greater" "wf_candidate a" "wf_candidate b" for a b
  proof
    assume b: "eligible b"
    then have a: "eligible a" using that(1) compare_candidates_ineligible(1) by blast
    show "eligible a \<and> ckey d a \<le> ckey d b"
      using that(1) compare_candidates_eligible [OF that(2,3) a b] a
      by (simp add: then_with_eq_Greater not_less)
  qed
  then show ?thesis
    unfolding ranked_def using assms
    by (intro sorted_wrt_mono_rel [OF _ rank_order.sorted_sort_by [OF assms]]) auto
qed

definition better_count :: "objective_direction \<Rightarrow> ranking_candidate list \<Rightarrow> ranking_candidate \<Rightarrow> nat" where
  "better_count d cs c = length (filter (\<lambda>x. eligible x \<and> ckey d x < ckey d c) cs)"

definition entry_of :: "objective_direction \<Rightarrow> ranking_candidate list \<Rightarrow> ranking_candidate \<Rightarrow> ranking_entry" where
  "entry_of d cs c = \<lparr>re_evidence = rc_evidence c,
     re_rank = (if eligible c then Some (of_nat (better_count d cs c) + 1) else None)\<rparr>"

lemma assign_ranks_ineligible:
  "\<forall>c \<in> set cs. \<not> eligible c \<Longrightarrow> assign_ranks i pv pr cs = map (entry_of d xs) cs"
  by (induction cs arbitrary: i pv pr) (auto simp: entry_of_def)

lemma better_count_last:
  assumes "ranked d (xs @ c # cs)" and "\<forall>x \<in> set xs. eligible x" and "eligible c"
    and "xs \<noteq> [] \<Longrightarrow> ckey d (last xs) < ckey d c"
  shows "better_count d (xs @ c # cs) c = length xs"
proof -
  have le: "\<And>x. x \<in> set xs \<Longrightarrow> ckey d x \<le> ckey d (last xs)"
    using assms(1,2) unfolding ranked_def
    by (cases xs rule: rev_cases) (auto simp: sorted_wrt_append)
  have "\<And>x. x \<in> set xs \<Longrightarrow> ckey d x < ckey d c" using le assms(4) by fastforce
  moreover have "\<And>x. x \<in> set cs \<Longrightarrow> eligible x \<Longrightarrow> ckey d c \<le> ckey d x"
    using assms(1) unfolding ranked_def by (auto simp: sorted_wrt_append)
  ultimately have "filter (\<lambda>x. eligible x \<and> ckey d x < ckey d c) xs = xs"
      "filter (\<lambda>x. eligible x \<and> ckey d x < ckey d c) cs = []"
    unfolding filter_id_conv filter_empty_conv using assms(2) leD by blast+
  then show ?thesis by (simp add: better_count_def del: not_None_eq)
qed

lemma ranked_tail_ineligible:
  assumes "ranked d (xs @ c # cs)" and "\<not> eligible c"
  shows "\<forall>x \<in> set (c # cs). \<not> eligible x"
  using assms unfolding ranked_def by (simp only: sorted_wrt_append sorted_wrt.simps) auto

lemma better_count_cong: "ckey d a = ckey d b \<Longrightarrow> better_count d cs a = better_count d cs b"
  by (simp add: better_count_def)

text \<open>
  The loop invariant of the ranking: \<open>pv\<close> has the key of the last ranked candidate and \<open>pr\<close> is
  one more than the number of candidates strictly better than it.
\<close>

lemma assign_ranks_entries:
  assumes "ranked d (xs @ cs)" and "\<forall>x \<in> set (xs @ cs). wf_candidate x" and "\<forall>x \<in> set xs. eligible x"
    and "xs = [] \<and> pv = None \<or> xs \<noteq> [] \<and> (\<exists>p. pv = Some p \<and> is_finite p \<and> objective_key d p = ckey d (last xs) \<and>
           pr = of_nat (better_count d (xs @ cs) (last xs)) + 1)"
  shows "assign_ranks (length xs) pv pr cs = map (entry_of d (xs @ cs)) cs"
  using assms
proof (induction cs arbitrary: xs pv pr)
  case Nil
  then show ?case by simp
next
  case (Cons c cs)
  show ?case
  proof (cases "eligible c")
    case False
    then show ?thesis
      using assign_ranks_ineligible [OF ranked_tail_ineligible [OF Cons.prems(1)]] by blast
  next
    case el: True
    then obtain v where v: "eligible_value (rc_evidence c) = Some v" by auto
    have fin: "is_finite v" using eligible_value_wf [OF _ v] Cons.prems(2) by simp
    have ck: "ckey d c = objective_key d v" using v by (simp add: ckey_def)
    have step: "assign_ranks (length (xs @ [c])) pv' pr' cs = map (entry_of d (xs @ c # cs)) cs"
      if "is_finite q" "objective_key d q = ckey d c" "pv' = Some q"
         "pr' = of_nat (better_count d (xs @ c # cs) c) + 1" for pv' pr' q
      using Cons.IH [of "xs @ [c]" pv' pr'] Cons.prems(1-3) el that by simp
    show ?thesis
    proof (cases "case pv of None \<Rightarrow> True | Some p \<Rightarrow> \<not> feq p v")
      case True
      have "ckey d (last xs) < ckey d c" if ne: "xs \<noteq> []"
      proof -
        have "ckey d (last xs) \<le> ckey d c"
          using Cons.prems(1) ne el unfolding ranked_def by (simp add: sorted_wrt_append)
        moreover have "ckey d (last xs) \<noteq> ckey d c"
          using Cons.prems(4) ne True fin by (auto simp: feq_key [of _ _ d] ck)
        ultimately show ?thesis by simp
      qed
      then have bc: "better_count d (xs @ c # cs) c = length xs"
        using Cons.prems(1,3) el by (intro better_count_last) auto
      show ?thesis
        using v True bc step [of v "Some v" "of_nat (length xs) + 1"] fin ck
        by (simp add: entry_of_def)
    next
      case False
      then obtain p where p: "pv = Some p" "feq p v" by (auto split: option.splits)
      with Cons.prems(4) have q: "xs \<noteq> []" "is_finite p" "objective_key d p = ckey d (last xs)"
          "pr = of_nat (better_count d (xs @ c # cs) (last xs)) + 1"
        by auto
      have "ckey d (last xs) = ckey d c" using p q fin ck by (simp add: feq_key [of _ _ d])
      then have bc: "pr = of_nat (better_count d (xs @ c # cs) c) + 1" and kp: "objective_key d p = ckey d c"
        using q better_count_cong [of d "last xs" c "xs @ c # cs"] by simp_all
      have "assign_ranks (length xs) pv pr (c # cs) =
          \<lparr>re_evidence = rc_evidence c, re_rank = Some pr\<rparr> # assign_ranks (length (xs @ [c])) pv pr cs"
        using v p by simp
      moreover have "\<lparr>re_evidence = rc_evidence c, re_rank = Some pr\<rparr> = entry_of d (xs @ c # cs) c"
        unfolding bc using el by (simp add: entry_of_def)
      ultimately show ?thesis using step [OF q(2) kp p(1) bc] by (simp only: list.map)
    qed
  qed
qed

lemma better_count_perm: "mset cs = mset cs' \<Longrightarrow> better_count d cs c = better_count d cs' c"
  unfolding better_count_def by (rule mset_eq_length) (simp only: mset_filter)

lemma rank_entries:
  assumes "\<forall>c \<in> set cs. wf_candidate c"
  shows "rr_entries (rank_candidates obj cs) =
         map (entry_of (om_direction obj) cs) (sort_by (compare_candidates (om_direction obj)) cs)"
proof -
  let ?d = "om_direction obj"
  let ?s = "sort_by (compare_candidates ?d) cs"
  have "assign_ranks (length ([] :: ranking_candidate list)) None 0 ?s = map (entry_of ?d ([] @ ?s)) ?s"
    by (rule assign_ranks_entries) (use ranked_sort_by [OF assms, of ?d] assms in auto)
  moreover have "entry_of ?d ?s c = entry_of ?d cs c" for c
    using better_count_perm [of ?s cs] by (simp add: entry_of_def)
  ultimately show ?thesis by (simp add: rank_candidates_def)
qed

text \<open>The best value of a nonempty eligible pool has no strictly better one.\<close>

lemma better_count_zero: "better_count d cs c = 0 \<longleftrightarrow> (\<forall>x \<in> set cs. eligible x \<longrightarrow> ckey d c \<le> ckey d x)"
  by (auto simp: better_count_def filter_empty_conv not_less)

lemma better_count_le: "better_count d cs c \<le> length cs"
  by (simp add: better_count_def)

lemma list_minimum: "xs \<noteq> [] \<Longrightarrow> \<exists>m \<in> set xs. \<forall>x \<in> set xs. (f m :: 'b :: linorder) \<le> f x"
proof (induction xs)
  case (Cons a xs)
  show ?case
  proof (cases "xs = []")
    case False
    with Cons obtain m where m: "m \<in> set xs" "\<forall>x \<in> set xs. f m \<le> f x" by blast
    show ?thesis
    proof (cases "f a \<le> f m")
      case True
      with m show ?thesis by (auto intro!: bexI [of _ a])
    next
      case False
      with m show ?thesis by (auto intro!: bexI [of _ m])
    qed
  qed simp
qed simp

lemma best_entry_Some:
  assumes "best_entry R = Some r"
  shows "\<exists>e \<in> set (rr_entries R). re_rank e = Some 1 \<and> r = oe_run_id (re_evidence e)"
proof -
  obtain e where e: "find (\<lambda>e. re_rank e = Some 1) (rr_entries R) = Some e" "r = oe_run_id (re_evidence e)"
    using assms by (auto simp: best_entry_def)
  then have "e \<in> set (rr_entries R)" "re_rank e = Some 1" by (auto simp: find_Some_iff)
  with e show ?thesis by blast
qed

lemma entry_rank_one:
  assumes "length cs < 2 ^ 64 - 1"
  shows "re_rank (entry_of d cs c) = Some 1 \<longleftrightarrow> eligible c \<and> better_count d cs c = 0"
proof -
  have "(of_nat (better_count d cs c) :: u64) = 0 \<longleftrightarrow> better_count d cs c = 0"
    using better_count_le [of d cs c] assms
    using nat_dvd_not_less [of "better_count d cs c" "2 ^ 64"]
    by (cases "better_count d cs c = 0") (simp_all add: word_of_nat_eq_0_iff)
  then show ?thesis by (auto simp: entry_of_def)
qed

subsection \<open>Independence from the order of the request\<close>

definition unplaced :: "ranking_candidate \<Rightarrow> ranking_candidate" where
  "unplaced c = c\<lparr>rc_ordinal := 0\<rparr>"

lemma unplaced_simps [simp]:
  "rc_evidence (unplaced c) = rc_evidence c"
  "rc_created_at (unplaced c) = rc_created_at c"
  "wf_candidate (unplaced c) = wf_candidate c"
  "ckey d (unplaced c) = ckey d c"
  by (simp_all add: unplaced_def wf_candidate_def ckey_def)

lemma entry_of_unplaced: "entry_of d cs c = entry_of d (map unplaced cs) (unplaced c)"
  by (simp add: entry_of_def better_count_def filter_map comp_def)

lemma entry_of_perm: "mset cs = mset cs' \<Longrightarrow> entry_of d cs c = entry_of d cs' c"
  using better_count_perm [of cs cs'] by (simp add: entry_of_def)

lemma ranked_entries_filter:
  assumes "\<forall>c \<in> set cs. wf_candidate c"
  shows "filter (\<lambda>e. re_rank e \<noteq> None) (rr_entries (rank_candidates obj cs)) =
         map (entry_of (om_direction obj) (map unplaced cs))
             (filter eligible (map unplaced (sort_by (compare_candidates (om_direction obj)) cs)))"
proof -
  have "(\<lambda>e. re_rank e \<noteq> None) \<circ> entry_of d cs = eligible" for d
    by (rule ext) (simp add: entry_of_def)
  then show ?thesis
    by (simp add: rank_entries [OF assms] filter_map comp_def entry_of_unplaced [of _ cs])
qed

lemma eligible_sorted:
  assumes "\<forall>c \<in> set cs. wf_candidate c"
  shows "sorted_wrt (\<lambda>a b. compare_candidates d a b \<noteq> Greater)
           (filter eligible (map unplaced (sort_by (compare_candidates d) cs)))"
proof -
  have "sorted_wrt (\<lambda>a b. compare_candidates d a b \<noteq> Greater)
          (filter eligible (sort_by (compare_candidates d) cs))"
    by (intro sorted_wrt_filter rank_order.sorted_sort_by [OF assms])
  then show ?thesis
    using assms
    by (auto simp: filter_map comp_def sorted_wrt_map compare_candidates_eligible
             elim!: sorted_wrt_mono_rel [rotated])
qed

lemma eligible_order_unique:
  assumes wf: "\<forall>c \<in> set cs. wf_candidate c" and wf': "\<forall>c \<in> set cs'. wf_candidate c"
    and ids: "distinct (map (\<lambda>c. oe_run_id (rc_evidence c)) cs)"
    and perm: "mset (map unplaced cs) = mset (map unplaced cs')"
  shows "filter eligible (map unplaced (sort_by (compare_candidates d) cs)) =
         filter eligible (map unplaced (sort_by (compare_candidates d) cs'))" (is "?xs = ?ys")
proof (rule rank_order.sorted_unique)
  show "mset ?xs = mset ?ys" using perm by (simp only: mset_filter mset_map mset_sort_by)
  show "\<forall>x \<in> set ?xs. wf_candidate x" using wf by auto
  show "sorted_wrt (\<lambda>a b. compare_candidates d a b \<noteq> Greater) ?xs" by (rule eligible_sorted [OF wf])
  show "sorted_wrt (\<lambda>a b. compare_candidates d a b \<noteq> Greater) ?ys" by (rule eligible_sorted [OF wf'])
next
  fix a b assume a: "a \<in> set ?xs" and b: "b \<in> set ?xs" and eq: "compare_candidates d a b = Equal"
  then obtain x y where xy: "x \<in> set cs" "a = unplaced x" "y \<in> set cs" "b = unplaced y" by auto
  have "oe_run_id (rc_evidence a) = oe_run_id (rc_evidence b)"
    using compare_candidates_eligible [of a b d] a b eq wf xy by (auto simp: then_with_eq_Equal)
  then show "a = b" using ids xy by (auto simp: distinct_map dest: inj_onD)
qed

text \<open>The ineligible runs keep the order of the request.\<close>

lemma ineligible_in_order:
  assumes wf: "\<forall>c \<in> set cs. wf_candidate c" and ord: "sorted_wrt (<) (map rc_ordinal cs)"
  shows "filter (\<lambda>c. \<not> eligible c) (sort_by (compare_candidates d) cs) = filter (\<lambda>c. \<not> eligible c) cs"
    (is "?xs = ?ys")
proof (rule rank_order.sorted_unique)
  show "mset ?xs = mset ?ys" by (simp only: mset_filter mset_sort_by)
  show "\<forall>x \<in> set ?xs. wf_candidate x" using wf by auto
  show "sorted_wrt (\<lambda>a b. compare_candidates d a b \<noteq> Greater) ?xs"
    by (intro sorted_wrt_filter rank_order.sorted_sort_by wf)
  have "sorted_wrt (\<lambda>a b. rc_ordinal a < rc_ordinal b) ?ys"
    using ord by (intro sorted_wrt_filter) (simp add: sorted_wrt_map)
  then show "sorted_wrt (\<lambda>a b. compare_candidates d a b \<noteq> Greater) ?ys"
    by (auto simp: compare_candidates_ineligible(3) elim!: sorted_wrt_mono_rel [rotated])
next
  fix a b assume ab: "a \<in> set ?xs" "b \<in> set ?xs" and eq: "compare_candidates d a b = Equal"
  then have "rc_ordinal a = rc_ordinal b" by (simp add: compare_candidates_ineligible(3))
  moreover have "inj_on rc_ordinal (set cs)"
    using ord by (simp only: strict_sorted_iff distinct_map)
  ultimately show "a = b" using ab by (auto dest: inj_onD)
qed

lemma candidates_of_ordinals: "map rc_ordinal (candidates_of rs) = [0..<length rs]"
  by (simp add: candidates_of_def comp_def case_prod_beta enumerate_eq_zip)

lemma candidates_of_evidence: "map rc_evidence (candidates_of rs) = map snd rs"
  by (rule nth_equalityI) (simp_all add: candidates_of_def nth_enumerate_eq case_prod_beta)

lemma candidates_of_wf:
  "(\<forall>c \<in> set (candidates_of rs). wf_candidate c) \<longleftrightarrow> (\<forall>p \<in> set rs. wf_evidence (snd p))"
proof -
  have "(\<forall>c \<in> set (candidates_of rs). wf_candidate c) \<longleftrightarrow> (\<forall>e \<in> set (map rc_evidence (candidates_of rs)). wf_evidence e)"
    by (simp add: wf_candidate_def)
  then show ?thesis by (simp only: candidates_of_evidence) auto
qed

subsection \<open>Properties\<close>

text \<open>C8: ranking keeps every requested run, leaves exactly the ineligible ones without a rank, and
  gives every eligible run the competition rank: one more than the number of eligible runs
  whose value is strictly better.\<close>

theorem rank_candidates_competition:
  assumes "\<forall>c \<in> set cs. wf_candidate c"
  shows "mset (map re_evidence (rr_entries (rank_candidates obj cs))) = mset (map rc_evidence cs) \<and>
         (\<forall>e \<in> set (rr_entries (rank_candidates obj cs)).
            re_rank e = (case eligible_value (re_evidence e) of
              None \<Rightarrow> None
            | Some v \<Rightarrow> Some (of_nat (length (filter
                (\<lambda>c. case eligible_value (rc_evidence c) of
                       None \<Rightarrow> False | Some x \<Rightarrow> better (om_direction obj) x v) cs)) + 1)))"
proof
  have "map re_evidence (rr_entries (rank_candidates obj cs)) =
        map rc_evidence (sort_by (compare_candidates (om_direction obj)) cs)"
    by (simp add: rank_entries [OF assms] entry_of_def)
  then show "mset (map re_evidence (rr_entries (rank_candidates obj cs))) = mset (map rc_evidence cs)"
    by (simp only: mset_map mset_sort_by)
  have count: "better_count (om_direction obj) cs c = length (filter
      (\<lambda>x. case eligible_value (rc_evidence x) of None \<Rightarrow> False | Some u \<Rightarrow> better (om_direction obj) u v) cs)"
    if "eligible_value (rc_evidence c) = Some v" for c v
    unfolding better_count_def using that
    by (intro arg_cong [where f = length] filter_cong) (auto simp: ckey_def better_key split: option.splits)
  show "\<forall>e \<in> set (rr_entries (rank_candidates obj cs)).
            re_rank e = (case eligible_value (re_evidence e) of
              None \<Rightarrow> None
            | Some v \<Rightarrow> Some (of_nat (length (filter
                (\<lambda>c. case eligible_value (rc_evidence c) of
                       None \<Rightarrow> False | Some x \<Rightarrow> better (om_direction obj) x v) cs)) + 1))"
    by (auto simp: rank_entries [OF assms] entry_of_def count split: option.split)
qed

definition sample_candidate :: "run_id \<Rightarrow> f64 \<Rightarrow> nat \<Rightarrow> ranking_candidate" where
  "sample_candidate rid v n = \<lparr>rc_evidence = sample_evidence rid v, rc_created_at = 0, rc_ordinal = n\<rparr>"

lemma sample_candidate_simps [simp]:
  "rc_evidence (sample_candidate rid v n) = sample_evidence rid v"
  "rc_created_at (sample_candidate rid v n) = 0"
  "rc_ordinal (sample_candidate rid v n) = n"
  "wf_candidate (sample_candidate rid v n) = wf_f64 v"
  "is_finite v \<Longrightarrow> eligible_value (sample_evidence rid v) = Some v"
  by (simp_all add: sample_candidate_def wf_candidate_def eligible_value_def)

theorem rank_candidates_competition_witness:
  "\<exists>e \<in> set (rr_entries (rank_candidates \<lparr>om_metric_key = ''loss'', om_direction = Minimize\<rparr>
        [sample_candidate ''a'' (F_Fin False 5) 0, sample_candidate ''b'' (F_Fin False 3) 1])).
     re_evidence e = sample_evidence ''a'' (F_Fin False 5) \<and> re_rank e = Some 2"
proof -
  let ?o = "\<lparr>om_metric_key = ''loss'', om_direction = Minimize\<rparr>"
  let ?cs = "[sample_candidate ''a'' (F_Fin False 5) 0, sample_candidate ''b'' (F_Fin False 3) 1]"
  have wf: "\<forall>c \<in> set ?cs. wf_candidate c" by simp
  note ranks = rank_candidates_competition [OF wf, of ?o]
  have "sample_evidence ''a'' (F_Fin False 5) \<in># mset (map re_evidence (rr_entries (rank_candidates ?o ?cs)))"
    unfolding conjunct1 [OF ranks] by simp
  then obtain e where e: "e \<in> set (rr_entries (rank_candidates ?o ?cs))"
      "re_evidence e = sample_evidence ''a'' (F_Fin False 5)" by auto
  then have "re_rank e = Some 2"
    using bspec [OF conjunct2 [OF ranks] e(1)] by (simp add: better_def sval_def)
  with e show ?thesis by blast
qed

text \<open>The ranked part of the result does not depend on the order in which the runs were
  requested; the unranked runs follow it in request order.\<close>

theorem ranking_order_independent:
  assumes "\<forall>c \<in> set cs. wf_candidate c" and "\<forall>c \<in> set cs'. wf_candidate c"
    and "distinct (map (\<lambda>c. oe_run_id (rc_evidence c)) cs)"
    and "mset (map unplaced cs) = mset (map unplaced cs')"
    and "sorted_wrt (<) (map rc_ordinal cs)"
  shows "filter (\<lambda>e. re_rank e \<noteq> None) (rr_entries (rank_candidates obj cs)) =
         filter (\<lambda>e. re_rank e \<noteq> None) (rr_entries (rank_candidates obj cs')) \<and>
         map re_evidence (filter (\<lambda>e. re_rank e = None) (rr_entries (rank_candidates obj cs))) =
         filter (\<lambda>e. eligible_value e = None) (map rc_evidence cs)"
proof
  have "entry_of d (map unplaced cs) c = entry_of d (map unplaced cs') c" for d c
    by (rule entry_of_perm) (rule assms(4))
  then show "filter (\<lambda>e. re_rank e \<noteq> None) (rr_entries (rank_candidates obj cs)) =
             filter (\<lambda>e. re_rank e \<noteq> None) (rr_entries (rank_candidates obj cs'))"
    unfolding ranked_entries_filter [OF assms(1)] ranked_entries_filter [OF assms(2)]
      eligible_order_unique [OF assms(1-4)] by simp
  have "(\<lambda>e. re_rank e = None) \<circ> entry_of d cs = (\<lambda>c. \<not> eligible c)" for d
    by (rule ext) (simp add: entry_of_def)
  then have "map re_evidence (filter (\<lambda>e. re_rank e = None) (rr_entries (rank_candidates obj cs))) =
        map rc_evidence (filter (\<lambda>c. \<not> eligible c) (sort_by (compare_candidates (om_direction obj)) cs))"
    by (simp add: rank_entries [OF assms(1)] filter_map) (simp add: entry_of_def)
  then show "map re_evidence (filter (\<lambda>e. re_rank e = None) (rr_entries (rank_candidates obj cs))) =
        filter (\<lambda>e. eligible_value e = None) (map rc_evidence cs)"
    by (simp only: ineligible_in_order [OF assms(1,5)]) (simp add: filter_map comp_def)
qed

theorem ranking_order_independent_witness:
  "filter (\<lambda>e. re_rank e \<noteq> None) (rr_entries (rank_candidates \<lparr>om_metric_key = ''loss'', om_direction = Minimize\<rparr>
      [sample_candidate ''a'' (F_Fin False 5) 0, sample_candidate ''b'' (F_Fin False 3) 1])) =
   filter (\<lambda>e. re_rank e \<noteq> None) (rr_entries (rank_candidates \<lparr>om_metric_key = ''loss'', om_direction = Minimize\<rparr>
      [sample_candidate ''b'' (F_Fin False 3) 0, sample_candidate ''a'' (F_Fin False 5) 1]))"
  by (rule conjunct1 [OF ranking_order_independent]) (simp_all add: unplaced_def sample_candidate_def wf_candidate_def)

text \<open>Some eligible candidate has no better one, so the pool has no winner only when it is empty.\<close>

lemma undominated_exists:
  assumes "c \<in> set cs" and "eligible c" and wf: "\<forall>c \<in> set cs. wf_candidate c"
  shows "\<exists>m \<in> set cs. eligible m \<and> better_count d cs m = 0"
proof -
  have "filter eligible cs \<noteq> []" using assms(1,2) by (metis (mono_tags, lifting) filter_empty_conv)
  from list_minimum [OF this, of "ckey d"]
  obtain m where "m \<in> set (filter eligible cs)" "\<forall>x \<in> set (filter eligible cs). ckey d m \<le> ckey d x" by blast
  then show ?thesis by (auto simp: better_count_zero)
qed

lemma no_best_entry:
  assumes wf: "\<forall>c \<in> set cs. wf_candidate c" and len: "length cs < 2 ^ 64 - 1"
    and none: "best_entry (rank_candidates obj cs) = None" and c: "c \<in> set cs"
  shows "\<not> eligible c"
proof
  assume "eligible c"
  then obtain m where m: "m \<in> set cs" "eligible m" "better_count (om_direction obj) cs m = 0"
    using undominated_exists [OF c _ wf] by blast
  have "\<forall>c \<in> set cs. \<not> (eligible c \<and> better_count (om_direction obj) cs c = 0)"
    using none entry_rank_one [OF len] by (auto simp: best_entry_def find_None_iff rank_entries [OF wf])
  with m show False by blast
qed

lemma best_entry_undominated:
  assumes wf: "\<forall>c \<in> set cs. wf_candidate c" and len: "length cs < 2 ^ 64 - 1"
    and best: "best_entry (rank_candidates obj cs) = Some r"
  obtains c x where "c \<in> set cs" "r = oe_run_id (rc_evidence c)" "eligible_value (rc_evidence c) = Some x"
    "\<And>b y. b \<in> set cs \<Longrightarrow> eligible_value (rc_evidence b) = Some y \<Longrightarrow> \<not> better (om_direction obj) y x"
proof -
  let ?d = "om_direction obj"
  obtain e where e: "e \<in> set (rr_entries (rank_candidates obj cs))" "re_rank e = Some 1" "r = oe_run_id (re_evidence e)"
    using best best_entry_Some by metis
  then obtain c where c: "c \<in> set cs" "e = entry_of ?d cs c" by (auto simp: rank_entries [OF wf])
  then have el: "eligible c" "better_count ?d cs c = 0" using entry_rank_one [OF len] e(2) by auto
  then obtain x where x: "eligible_value (rc_evidence c) = Some x" by auto
  have "\<not> better ?d y x" if "b \<in> set cs" "eligible_value (rc_evidence b) = Some y" for b y
    using el(2) that x by (auto simp: better_count_zero ckey_def better_key)
  moreover have "r = oe_run_id (rc_evidence c)" using e(3) c(2) by (simp add: entry_of_def)
  ultimately show ?thesis using that c(1) x by blast
qed

text \<open>C21: \<open>best_eligible_run\<close> answers with a run of the request whose evidence is eligible and whose
  value no other eligible run of the request beats, and answers with none only when no run is
  eligible.\<close>

theorem best_eligible_run_optimal:
  assumes run: "best_eligible_run ev ids obj w = (Ok best, w')"
    and source: "ev ids obj w = (Ok rs, v)" and wf: "\<forall>p \<in> set rs. wf_evidence (snd p)"
    and small: "length rs < 2 ^ 64 - 1"
  shows "case best of
           None \<Rightarrow> \<forall>p \<in> set rs. eligible_value (snd p) = None
         | Some r \<Rightarrow> \<exists>p \<in> set rs. oe_run_id (snd p) = r \<and>
             (\<exists>x. eligible_value (snd p) = Some x \<and>
                (\<forall>q \<in> set rs. \<forall>y. eligible_value (snd q) = Some y \<longrightarrow> \<not> better (om_direction obj) y x))"
proof -
  let ?cs = "candidates_of rs"
  have wfc: "\<forall>c \<in> set ?cs. wf_candidate c" using wf candidates_of_wf by simp
  have len: "length ?cs < 2 ^ 64 - 1" using small by (simp add: candidates_of_def)
  have evs: "rc_evidence ` set ?cs = snd ` set rs" using candidates_of_evidence [of rs] by (metis set_map)
  have best: "best = best_entry (rank_candidates obj ?cs)"
    using run source by (auto simp: best_eligible_run_def rank_runs_def bind_op_Ok split: option.splits)
  have of_cs: "\<exists>c \<in> set ?cs. rc_evidence c = snd p" if "p \<in> set rs" for p
    using evs imageI [OF that, of snd] by (metis imageE)
  show ?thesis
  proof (cases best)
    case None
    have "eligible_value (snd p) = None" if p: "p \<in> set rs" for p
    proof -
      obtain c where c: "c \<in> set ?cs" "rc_evidence c = snd p" using of_cs [OF p] by blast
      from no_best_entry [OF wfc len best [symmetric, unfolded None] c(1)] c(2) show ?thesis by simp
    qed
    then show ?thesis using None by simp
  next
    case (Some r)
    obtain c x where c: "c \<in> set ?cs" "r = oe_run_id (rc_evidence c)" "eligible_value (rc_evidence c) = Some x"
      "\<And>b y. b \<in> set ?cs \<Longrightarrow> eligible_value (rc_evidence b) = Some y \<Longrightarrow> \<not> better (om_direction obj) y x"
      using best_entry_undominated [OF wfc len best [symmetric, unfolded Some]] by metis
    obtain p where p: "p \<in> set rs" "snd p = rc_evidence c" using evs imageI [OF c(1), of rc_evidence] by auto
    have "\<forall>q \<in> set rs. \<forall>y. eligible_value (snd q) = Some y \<longrightarrow> \<not> better (om_direction obj) y x"
      using of_cs c(4) by metis
    then have "oe_run_id (snd p) = r \<and> (\<exists>x. eligible_value (snd p) = Some x \<and>
        (\<forall>q \<in> set rs. \<forall>y. eligible_value (snd q) = Some y \<longrightarrow> \<not> better (om_direction obj) y x))"
      using c(2,3) p(2) by simp
    then show ?thesis using Some p(1) by auto
  qed
qed

definition sample_source :: "unit evidence_op" where
  "sample_source ids obj = ret_op (map (\<lambda>i. (\<lparr>r_run_id = i, r_project_id = ''p'', r_name = ''n'', r_status = Finished,
     r_created_at = 0, r_started_at = 0, r_finished_at = Some 1\<rparr>, sample_evidence i (F_Fin False 2))) ids)"

theorem best_eligible_run_optimal_witness:
  "\<exists>best w'. best_eligible_run sample_source [''a''] \<lparr>om_metric_key = ''loss'', om_direction = Minimize\<rparr> () = (Ok best, w') \<and>
     best \<noteq> None"
proof -
  let ?o = "\<lparr>om_metric_key = ''loss'', om_direction = Minimize\<rparr>"
  obtain rs where rs: "sample_source [''a''] ?o () = (Ok rs, ())" "length rs = 1"
      "\<forall>p \<in> set rs. wf_evidence (snd p) \<and> eligible_value (snd p) \<noteq> None"
    by (simp add: sample_source_def)
  then have "\<exists>b. best_eligible_run sample_source [''a''] ?o () = (Ok b, ())"
    by (simp add: best_eligible_run_def rank_runs_def bind_op_run)
  then obtain b where b: "best_eligible_run sample_source [''a''] ?o () = (Ok b, ())" by blast
  have "rs \<noteq> []" using rs(2) by auto
  then have "b \<noteq> None"
    using best_eligible_run_optimal [OF b rs(1)] rs(2,3) by (cases b) (auto simp: neq_Nil_conv)
  then show ?thesis using b by blast
qed

end
