(* ===== verification/Reporter.thy ===== *)
theory Reporter
  imports Project_Store
begin

section \<open>The metric reporter (\<open>engine/reporting.rs\<close>)\<close>

text \<open>
  Reports are accepted into a bounded channel and written by one background worker in batches.
  The first part models the diagnostics, \<open>report_metric\<close>, the retry loop, \<open>write_metric_batch\<close>,
  the observations of \<open>drain_through\<close> and \<open>shutdown\<close> as functions. The second part models the
  interleaving of a reporting thread with the worker as a step relation whose steps are the
  atomic accesses of the code; the sender's mutex serialises the reporting threads, so that one
  program counter describes whichever of them holds it. Nothing panics while a lock is held, so
  the branches for a poisoned lock are unreachable and are left out. \<open>Ordering::Relaxed\<close> accesses
  to one location are totally ordered; the model orders accesses to different ones as the code
  writes them.
\<close>

subsection \<open>Diagnostics\<close>

abbreviation writer_running :: u64 where "writer_running \<equiv> 0"
abbreviation writer_retrying :: u64 where "writer_retrying \<equiv> 1"
abbreviation writer_failed :: u64 where "writer_failed \<equiv> 2"
abbreviation writer_closed :: u64 where "writer_closed \<equiv> 3"
abbreviation flush_running :: u64 where "flush_running \<equiv> 1"
abbreviation flush_succeeded :: u64 where "flush_succeeded \<equiv> 2"
abbreviation flush_failed :: u64 where "flush_failed \<equiv> 3"
abbreviation flush_timed_out :: u64 where "flush_timed_out \<equiv> 4"
abbreviation metric_batch_max_reports :: nat where "metric_batch_max_reports \<equiv> 8192"
abbreviation writer_max_retries :: nat where "writer_max_retries \<equiv> 5"
abbreviation writer_initial_retry_backoff :: nat where "writer_initial_retry_backoff \<equiv> 50"
abbreviation writer_max_retry_backoff :: nat where "writer_max_retry_backoff \<equiv> 1000"

record diagnostics_inner =
  d_pending :: u64
  d_queue_full :: u64
  d_persisted :: u64
  d_writer_state :: u64
  d_last_write_error :: "string option"
  d_last_flush_run_id :: "string option"
  d_last_flush_status :: u64
  d_last_flush_error :: "string option"
  d_persisted_through :: u64

definition diagnostics_default :: diagnostics_inner where
  "diagnostics_default = \<lparr>d_pending = 0, d_queue_full = 0, d_persisted = 0, d_writer_state = 0,
     d_last_write_error = None, d_last_flush_run_id = None, d_last_flush_status = 0,
     d_last_flush_error = None, d_persisted_through = 0\<rparr>"

definition set_writer_state :: "u64 \<Rightarrow> diagnostics_inner \<Rightarrow> diagnostics_inner" where
  "set_writer_state st d = d\<lparr>d_writer_state := st\<rparr>"

definition increment_accepted :: "diagnostics_inner \<Rightarrow> diagnostics_inner" where
  "increment_accepted d = set_writer_state writer_running d"

definition increment_queue_full :: "diagnostics_inner \<Rightarrow> diagnostics_inner" where
  "increment_queue_full d = d\<lparr>d_queue_full := d_queue_full d + 1\<rparr>"

definition increment_persisted_by :: "u64 \<Rightarrow> diagnostics_inner \<Rightarrow> diagnostics_inner" where
  "increment_persisted_by n d = d\<lparr>d_persisted := d_persisted d + n\<rparr>"

definition set_persisted_through_sequence :: "u64 \<Rightarrow> diagnostics_inner \<Rightarrow> diagnostics_inner" where
  "set_persisted_through_sequence n d = d\<lparr>d_persisted_through := max (d_persisted_through d) n\<rparr>"

definition set_last_write_error :: "string \<Rightarrow> diagnostics_inner \<Rightarrow> diagnostics_inner" where
  "set_last_write_error m d = d\<lparr>d_last_write_error := Some m\<rparr>"

definition set_last_flush_run_id :: "run_id \<Rightarrow> diagnostics_inner \<Rightarrow> diagnostics_inner" where
  "set_last_flush_run_id rid d = d\<lparr>d_last_flush_run_id := Some rid\<rparr>"

definition set_flush_status :: "u64 \<Rightarrow> run_id \<Rightarrow> diagnostics_inner \<Rightarrow> diagnostics_inner" where
  "set_flush_status st rid d = (set_last_flush_run_id rid d)\<lparr>d_last_flush_status := st\<rparr>"

definition set_flush_failed :: "run_id \<Rightarrow> string \<Rightarrow> diagnostics_inner \<Rightarrow> diagnostics_inner" where
  "set_flush_failed rid m d =
     ((set_last_flush_run_id rid d)\<lparr>d_last_flush_error := Some m\<rparr>)\<lparr>d_last_flush_status := flush_failed\<rparr>"

definition increment_pending :: "diagnostics_inner \<Rightarrow> diagnostics_inner" where
  "increment_pending d = d\<lparr>d_pending := d_pending d + 1\<rparr>"

definition decrement_pending_by :: "u64 \<Rightarrow> diagnostics_inner \<Rightarrow> diagnostics_inner" where
  "decrement_pending_by n d = d\<lparr>d_pending := d_pending d - n\<rparr>"

definition is_writer_failed :: "diagnostics_inner \<Rightarrow> bool" where
  "is_writer_failed d \<longleftrightarrow> (ucast (d_writer_state d) :: u8) = 2"

definition writer_failure :: "diagnostics_inner \<Rightarrow> engine_error" where
  "writer_failure d = MetricWriterFailed
     (case d_last_write_error d of None \<Rightarrow> ''metric writer failed'' | Some m \<Rightarrow> m)"

record reporter_diagnostics =
  rd_pending_reports :: u64
  rd_queue_full_errors :: u64
  rd_persisted_reports :: u64
  rd_writer_state :: string
  rd_last_write_error :: "string option"
  rd_last_flush_run_id :: "string option"
  rd_last_flush_status :: string
  rd_last_flush_error :: "string option"

definition snapshot :: "diagnostics_inner \<Rightarrow> reporter_diagnostics" where
  "snapshot d =
     (let w = (ucast (d_writer_state d) :: u8); f = (ucast (d_last_flush_status d) :: u8) in
      \<lparr>rd_pending_reports = d_pending d, rd_queue_full_errors = d_queue_full d,
       rd_persisted_reports = d_persisted d,
       rd_writer_state = (if w = 1 then ''retrying'' else if w = 2 then ''failed''
         else if w = 3 then ''closed'' else if d_pending d = 0 then ''drained'' else ''running''),
       rd_last_write_error = d_last_write_error d, rd_last_flush_run_id = d_last_flush_run_id d,
       rd_last_flush_status = (if f = 1 then ''running'' else if f = 2 then ''succeeded''
         else if f = 3 then ''failed'' else if f = 4 then ''timed_out'' else ''none''),
       rd_last_flush_error = d_last_flush_error d\<rparr>)"

subsection \<open>The queue\<close>

record metric_report =
  rpt_run_id :: run_id
  rpt_metric_key :: metric_key
  rpt_step :: step
  rpt_value :: f64
  rpt_timestamp_millis :: i64
  rpt_seq :: u64

text \<open>
  \<open>rep_sender\<close> says that the mutex still holds the sender, \<open>rep_receiver\<close> that the worker has not
  dropped its receiver, \<open>rep_worker\<close> that the join handle has not been taken.
\<close>

record reporter =
  rep_queue :: "metric_report list"
  rep_capacity :: nat
  rep_sender :: bool
  rep_receiver :: bool
  rep_worker :: bool
  rep_diag :: diagnostics_inner
  rep_next_seq :: u64

definition open_with_capacity :: "nat \<Rightarrow> reporter" where
  "open_with_capacity capacity =
     \<lparr>rep_queue = [], rep_capacity = capacity, rep_sender = True, rep_receiver = True,
      rep_worker = True, rep_diag = diagnostics_default, rep_next_seq = 1\<rparr>"

definition on_diag :: "(diagnostics_inner \<Rightarrow> diagnostics_inner) \<Rightarrow> reporter \<Rightarrow> reporter" where
  "on_diag f rep = rep\<lparr>rep_diag := f (rep_diag rep)\<rparr>"

definition make_report :: "reporter \<Rightarrow> run_id \<Rightarrow> metric_key \<Rightarrow> step \<Rightarrow> f64 \<Rightarrow> int \<Rightarrow> metric_report" where
  "make_report rep rid key stp v now =
     \<lparr>rpt_run_id = rid, rpt_metric_key = key, rpt_step = stp, rpt_value = v,
      rpt_timestamp_millis = now, rpt_seq = rep_next_seq rep\<rparr>"

text \<open>\<open>report_metric\<close> without interference; \<open>now\<close> is the reading of the clock.\<close>

definition report_metric ::
  "run_id \<Rightarrow> metric_key \<Rightarrow> step \<Rightarrow> f64 \<Rightarrow> int \<Rightarrow> (reporter, engine_error, unit) op" where
  "report_metric rid key stp v now rep =
     (if \<not> rep_sender rep then (Err ClientClosed, rep)
      else if is_writer_failed (rep_diag rep) then (Err (writer_failure (rep_diag rep)), rep)
      else
        (let report = make_report rep rid key stp v now;
             counted = on_diag increment_pending rep
         in if \<not> rep_receiver rep then (Err ClientClosed, on_diag (decrement_pending_by 1) counted)
            else if rep_capacity rep \<le> length (rep_queue rep)
            then (Err MetricQueueFull, on_diag (increment_queue_full \<circ> decrement_pending_by 1) counted)
            else (Ok (), on_diag increment_accepted
                   (counted\<lparr>rep_queue := rep_queue rep @ [report], rep_next_seq := rep_next_seq rep + 1\<rparr>))))"

definition enqueue_barrier_sequence :: "reporter \<Rightarrow> u64" where
  "enqueue_barrier_sequence rep = u64_sat_sub (rep_next_seq rep) 1"

subsection \<open>Draining\<close>

text \<open>
  What one iteration of the loop in \<open>drain_through\<close> sees: the diagnostics when it compares the
  sequence, those when it checks for failure, and whether the deadline has passed. \<open>None\<close> means
  that the loop has not returned after these observations.
\<close>

record drain_observation =
  do_loop :: diagnostics_inner
  do_check :: diagnostics_inner
  do_expired :: bool

fun drain_through :: "u64 \<Rightarrow> drain_observation list \<Rightarrow> (engine_error, unit) res option" where
  "drain_through barrier [] = None"
| "drain_through barrier (obs # later) =
     (if d_persisted_through (do_loop obs) < barrier then
        (if is_writer_failed (do_check obs) then Some (Err (writer_failure (do_check obs)))
         else if do_expired obs then Some (Err MetricDrainTimeout)
         else drain_through barrier later)
      else if is_writer_failed (do_check obs) then Some (Err (writer_failure (do_check obs)))
      else Some (Ok ()))"

subsection \<open>Writing a batch\<close>

fun batch_rows :: "int \<Rightarrow> metric_report list \<Rightarrow> metric_write list" where
  "batch_rows ingested_at [] = []"
| "batch_rows ingested_at (r # rs) =
     \<lparr>mw_run_id = rpt_run_id r, mw_metric_key = rpt_metric_key r, mw_step = rpt_step r,
      mw_timestamp_millis = rpt_timestamp_millis r, mw_value = rpt_value r,
      mw_ingested_at_millis = ingested_at\<rparr> # batch_rows (ingested_at + 1) rs"

definition write_metric_batch :: "metric_report list \<Rightarrow> int \<Rightarrow> (store, engine_error, int) op" where
  "write_metric_batch batch next_ingested s =
     (let (now, s1) = now_millis s; first = max next_ingested now in
      bind_op (map_err_op engine_error_of (append_metric_batch (batch_rows first batch)))
        (\<lambda>_. ret_op (first + int (length batch))) s1)"

definition sanitize_metric_write_error :: "engine_error \<Rightarrow> string" where
  "sanitize_metric_write_error e = (case e of
       StorageFailure (SE_DuckDb _) \<Rightarrow> ''append metric batch failed''
     | EE_Storage operation _ _ \<Rightarrow> ''metric writer storage operation failed while '' @ operation
     | _ \<Rightarrow> engine_error_display e)"

text \<open>
  The retry loop threads the state of the writer, the diagnostics and the record of its sleeps
  (in milliseconds).
\<close>

type_synonym 'w retry_state = "'w \<times> diagnostics_inner \<times> nat list"

function retry_loop ::
  "('w, engine_error, int) op \<Rightarrow> nat \<Rightarrow> nat \<Rightarrow> ('w retry_state, engine_error, int) op" where
  "retry_loop wr retry_count backoff (w, d, sleeps) =
     (case wr w of
        (Inr next_millis, w') \<Rightarrow> (Ok next_millis, (w', set_writer_state writer_running d, sleeps))
      | (Inl e, w') \<Rightarrow>
          if retry_count < writer_max_retries
          then retry_loop wr (retry_count + 1) (min (backoff * 2) writer_max_retry_backoff)
                 (w', set_writer_state writer_retrying
                        (set_last_write_error (sanitize_metric_write_error e) d), sleeps @ [backoff])
          else (Err e, (w', d, sleeps)))"
  by pat_completeness auto
termination
  by (relation "measure (\<lambda>(_, k, _, _). writer_max_retries - k)") auto

declare retry_loop.simps [simp del]

definition retry_metric_batch_write ::
  "('w, engine_error, int) op \<Rightarrow> ('w retry_state, engine_error, int) op" where
  "retry_metric_batch_write wr = retry_loop wr 0 writer_initial_retry_backoff"

subsection \<open>Lemmas on the diagnostics and the batch\<close>

lemmas diag_defs = set_writer_state_def increment_accepted_def increment_queue_full_def
  increment_persisted_by_def set_persisted_through_sequence_def set_last_write_error_def
  increment_pending_def decrement_pending_by_def set_last_flush_run_id_def set_flush_status_def
  set_flush_failed_def

lemma writer_failed_set [simp]:
  "is_writer_failed (set_writer_state writer_running d) = False"
  "is_writer_failed (set_writer_state writer_retrying d) = False"
  "is_writer_failed (set_writer_state writer_failed d) = True"
  "is_writer_failed (set_writer_state writer_closed d) = False"
  by (simp_all add: is_writer_failed_def set_writer_state_def)

lemma writer_failed_frame [simp]:
  "is_writer_failed (increment_pending d) = is_writer_failed d"
  "is_writer_failed (decrement_pending_by n d) = is_writer_failed d"
  "is_writer_failed (increment_queue_full d) = is_writer_failed d"
  "is_writer_failed (increment_persisted_by n d) = is_writer_failed d"
  "is_writer_failed (set_persisted_through_sequence n d) = is_writer_failed d"
  "is_writer_failed (set_last_write_error m d) = is_writer_failed d"
  "is_writer_failed (increment_accepted d) = False"
  by (simp_all add: is_writer_failed_def diag_defs)

lemma batch_rows_length [simp]: "length (batch_rows n rs) = length rs"
  by (induction rs arbitrary: n) auto

lemma batch_rows_nth:
  "i < length rs \<Longrightarrow> batch_rows n rs ! i =
     \<lparr>mw_run_id = rpt_run_id (rs ! i), mw_metric_key = rpt_metric_key (rs ! i), mw_step = rpt_step (rs ! i),
      mw_timestamp_millis = rpt_timestamp_millis (rs ! i), mw_value = rpt_value (rs ! i),
      mw_ingested_at_millis = n + int i\<rparr>"
proof (induction rs arbitrary: n i)
  case (Cons r rs)
  then show ?case by (cases i) simp_all
qed simp

lemma append_rows_Ok:
  "append_rows acc ws s = (Ok rows, s') \<Longrightarrow> same_tables s s' \<and> rows = acc @ map point_of_write ws"
proof (induction ws arbitrary: acc s)
  case Nil
  then show ?case by (simp add: reading.refl_state)
next
  case (Cons w ws)
  let ?m = "bind_op (env_lift (\<lambda>env. timestamp_from_millis env ''timestamp'' (mw_timestamp_millis w))) (\<lambda>_.
           bind_op (env_lift (\<lambda>env. timestamp_from_millis env ''ingested_at'' (mw_ingested_at_millis w))) (\<lambda>_.
           update (\<lambda>s. s)))"
  obtain r1 s1 where r1: "?m s = (r1, s1)" by fastforce
  then obtain u where u: "r1 = Ok u" "append_rows (acc @ [point_of_write w]) ws s1 = (Ok rows, s')"
    using Cons.prems by (cases r1) auto
  have "same_tables s s1" using r1 u(1) by (auto simp: bind_op_Ok update_Ok)
  then show ?case using Cons.IH [OF u(2)] reading.trans_state by auto
qed

lemma append_metric_batch_Ok:
  assumes "append_metric_batch ws s = (Ok u, s')"
  shows "st_points s' = st_points s @ map point_of_write ws \<and> st_runs s' = st_runs s \<and>
         st_projects s' = st_projects s \<and> st_aggregates s' = st_aggregates s \<and> st_env s' = st_env s"
proof -
  obtain v s1 rows s2 where steps: "update (\<lambda>s. s) s = (Ok v, s1)" "append_rows [] ws s1 = (Ok rows, s2)"
      "append_flush rows s2 = (Ok u, s')"
    using assms by (auto simp: append_metric_batch_def bind_op_Ok)
  have "same_tables s s1" using steps(1) by (auto simp: update_Ok)
  moreover note append_rows_Ok [OF steps(2)]
  moreover have "update (\<lambda>s. s\<lparr>st_points := st_points s @ rows\<rparr>) s2 = (Ok u, s')"
    using steps(3) by (auto simp: append_flush_def split: prod.splits sum.splits)
  ultimately show ?thesis by (auto simp: update_Ok same_tables_def)
qed

lemma append_steps: "steps_op store_le (append_metric_batch ws)"
  by (rule store_writes)

lemma write_metric_batch_Ok:
  assumes "write_metric_batch batch n s = (Ok n', s')"
  shows "\<exists>first \<ge> n. n' = first + int (length batch) \<and>
           st_points s' = st_points s @ map point_of_write (batch_rows first batch) \<and>
           st_runs s' = st_runs s \<and> st_env s' = st_env s"
proof -
  obtain now s1 where now: "now_millis s = (now, s1)" by fastforce
  then have "same_tables s s1" by (rule now_millis_frame)
  moreover obtain u where "append_metric_batch (batch_rows (max n now) batch) s1 = (Ok u, s')"
      "n' = max n now + int (length batch)"
    using assms now by (auto simp: write_metric_batch_def Let_def bind_op_Ok map_err_op_Ok)
  ultimately show ?thesis
    using append_metric_batch_Ok [of "batch_rows (max n now) batch" s1 u s'] by (auto simp: same_tables_def)
qed

lemma write_metric_batch_steps: "write_metric_batch batch n s = (r, s') \<Longrightarrow> store_le s s'"
proof -
  assume run: "write_metric_batch batch n s = (r, s')"
  obtain now s1 where now: "now_millis s = (now, s1)" by fastforce
  have "steps_op store_le (bind_op (map_err_op engine_error_of (append_metric_batch (batch_rows (max n now) batch)))
        (\<lambda>_. ret_op (max n now + int (length batch))))"
    by (intro growth.steps_rules append_steps)
  then have "store_le s1 s'" using run now by (auto simp: write_metric_batch_def Let_def intro: steps_opD)
  then show ?thesis
    using growth.trans_state [OF same_tables_le [OF now_millis_frame [OF now]]] by blast
qed

subsection \<open>The retry loop\<close>

text \<open>The sleeps that remain at retry \<open>k\<close>.\<close>

fun backoffs :: "nat \<Rightarrow> nat \<Rightarrow> nat list" where
  "backoffs 0 b = []"
| "backoffs (Suc n) b = b # backoffs n (min (b * 2) writer_max_retry_backoff)"

text \<open>Running \<open>wr\<close> until it succeeds, \<open>n + 1\<close> times at most: the errors and the last result.\<close>

fun attempts :: "('w, 'e, int) op \<Rightarrow> nat \<Rightarrow> 'w \<Rightarrow> 'e list \<times> ('e, int) res \<times> 'w" where
  "attempts wr n w =
     (case wr w of
        (Inr x, w') \<Rightarrow> ([], Ok x, w')
      | (Inl e, w') \<Rightarrow> (case n of
            0 \<Rightarrow> ([], Err e, w')
          | Suc m \<Rightarrow> (let (es, r, w'') = attempts wr m w' in (e # es, r, w''))))"

declare attempts.simps [simp del]

lemma attempts_length: "attempts wr n w = (es, r, w') \<Longrightarrow> length es \<le> n \<and> (\<forall>e. r = Err e \<longrightarrow> length es = n)"
proof (induction n arbitrary: w es r w')
  case 0
  then show ?case by (auto simp: attempts.simps [of wr 0] split: prod.splits sum.splits)
next
  case (Suc n)
  obtain v v' where wr: "wr w = (v, v')" by fastforce
  show ?case
  proof (cases v)
    case (Inl e)
    obtain es' r' w'' where rest: "attempts wr n v' = (es', r', w'')" by (metis prod_cases3)
    then show ?thesis using Suc.prems Suc.IH [OF rest] wr Inl by (auto simp: attempts.simps [of wr "Suc n"])
  next
    case (Inr x)
    then show ?thesis using Suc.prems wr by (auto simp: attempts.simps [of wr "Suc n"])
  qed
qed

lemma retry_loop_attempts:
  assumes "attempts wr n w = (es, r, w')" and "n = writer_max_retries - k" and "k \<le> writer_max_retries"
  shows "\<exists>d'. retry_loop wr k b (w, d, sl) = (r, (w', d', sl @ take (length es) (backoffs n b))) \<and>
           (case r of
              Inr x \<Rightarrow> d' = set_writer_state writer_running
                 (if es = [] then d else set_last_write_error (sanitize_metric_write_error (last es))
                                         (set_writer_state writer_retrying d))
            | Inl e \<Rightarrow> d' = (if es = [] then d else set_writer_state writer_retrying
                 (set_last_write_error (sanitize_metric_write_error (last es)) d)))"
  using assms
proof (induction n arbitrary: w es r w' k b d sl)
  case 0
  then show ?case
    by (auto simp: attempts.simps [of wr 0] retry_loop.simps [of wr 5] split: prod.splits sum.splits)
next
  case (Suc n)
  obtain v v' where wr: "wr w = (v, v')" by fastforce
  show ?case
  proof (cases v)
    case (Inr x)
    then have "es = []" "r = Ok x" "w' = v'"
      using Suc.prems(1) wr by (auto simp: attempts.simps [of wr "Suc n"])
    then show ?thesis using wr Inr by (simp add: retry_loop.simps [of wr k])
  next
    case (Inl e)
    obtain es' r' w'' where rest: "attempts wr n v' = (es', r', w'')" by (metis prod_cases3)
    have k: "k < writer_max_retries" "n = writer_max_retries - (k + 1)" "k + 1 \<le> writer_max_retries"
      using Suc.prems by auto
    have out: "es = e # es'" "r = r'" "w' = w''"
      using Suc.prems(1) wr Inl rest by (auto simp: attempts.simps [of wr "Suc n"])
    let ?d = "set_writer_state writer_retrying (set_last_write_error (sanitize_metric_write_error e) d)"
    have step: "retry_loop wr k b (w, d, sl) =
        retry_loop wr (k + 1) (min (b * 2) writer_max_retry_backoff) (v', ?d, sl @ [b])"
      using k wr Inl by (simp add: retry_loop.simps [of wr k])
    show ?thesis
      using Suc.IH [OF rest k(2,3), of "min (b * 2) writer_max_retry_backoff" ?d "sl @ [b]"]
      by (cases r') (auto simp: step out set_writer_state_def set_last_write_error_def)
  qed
qed

lemma default_backoffs: "backoffs 5 50 = [50, 100, 200, 400, 800]"
  by (simp add: numeral_eq_Suc)

subsection \<open>The reporting thread and the worker as a system\<close>

datatype producer =
    P_Idle
  | P_Checked metric_report
  | P_Counted metric_report
  | P_Sent
  | P_Bumped

datatype worker =
    W_Recv
  | W_Collect "metric_report list"
  | W_Write "metric_report list" nat nat
  | W_Persisted "metric_report list"
  | W_Counted "metric_report list"
  | W_Marked "metric_report list"
  | W_Failed
  | W_Dropped
  | W_Done

text \<open>
  \<open>sys_accepted\<close> and \<open>sys_written\<close> are histories: the reports that entered the channel and those
  whose batch was written.
\<close>

record system =
  sys_store :: store
  sys_rep :: reporter
  sys_prod :: producer
  sys_worker :: worker
  sys_next_ingested :: int
  sys_accepted :: "metric_report list"
  sys_written :: "metric_report list"

definition sys_diag :: "(diagnostics_inner \<Rightarrow> diagnostics_inner) \<Rightarrow> system \<Rightarrow> system" where
  "sys_diag f y = y\<lparr>sys_rep := on_diag f (sys_rep y)\<rparr>"

abbreviation diag_of :: "system \<Rightarrow> diagnostics_inner" where
  "diag_of y \<equiv> rep_diag (sys_rep y)"

inductive sys_step :: "system \<Rightarrow> system \<Rightarrow> bool" where
  p_check: "sys_prod y = P_Idle \<Longrightarrow> rep_sender (sys_rep y) \<Longrightarrow> \<not> is_writer_failed (diag_of y) \<Longrightarrow>
     sys_step y (y\<lparr>sys_prod := P_Checked (make_report (sys_rep y) rid key stp v now)\<rparr>)"
| p_count: "sys_prod y = P_Checked r \<Longrightarrow>
     sys_step y ((sys_diag increment_pending y)\<lparr>sys_prod := P_Counted r\<rparr>)"
| p_send: "sys_prod y = P_Counted r \<Longrightarrow> rep_receiver (sys_rep y) \<Longrightarrow>
     length (rep_queue (sys_rep y)) < rep_capacity (sys_rep y) \<Longrightarrow>
     sys_step y (y\<lparr>sys_prod := P_Sent, sys_accepted := sys_accepted y @ [r],
                   sys_rep := (sys_rep y)\<lparr>rep_queue := rep_queue (sys_rep y) @ [r]\<rparr>\<rparr>)"
| p_full: "sys_prod y = P_Counted r \<Longrightarrow> rep_receiver (sys_rep y) \<Longrightarrow>
     rep_capacity (sys_rep y) \<le> length (rep_queue (sys_rep y)) \<Longrightarrow>
     sys_step y ((sys_diag (increment_queue_full \<circ> decrement_pending_by 1) y)\<lparr>sys_prod := P_Idle\<rparr>)"
| p_disconnected: "sys_prod y = P_Counted r \<Longrightarrow> \<not> rep_receiver (sys_rep y) \<Longrightarrow>
     sys_step y ((sys_diag (decrement_pending_by 1) y)\<lparr>sys_prod := P_Idle\<rparr>)"
| p_bump: "sys_prod y = P_Sent \<Longrightarrow>
     sys_step y (y\<lparr>sys_prod := P_Bumped,
                   sys_rep := (sys_rep y)\<lparr>rep_next_seq := rep_next_seq (sys_rep y) + 1\<rparr>\<rparr>)"
| p_accept: "sys_prod y = P_Bumped \<Longrightarrow>
     sys_step y ((sys_diag increment_accepted y)\<lparr>sys_prod := P_Idle\<rparr>)"
| p_close: "sys_prod y = P_Idle \<Longrightarrow>
     sys_step y (y\<lparr>sys_rep := (sys_rep y)\<lparr>rep_sender := False\<rparr>\<rparr>)"
| w_recv: "sys_worker y = W_Recv \<Longrightarrow> rep_queue (sys_rep y) = r # q \<Longrightarrow>
     sys_step y (y\<lparr>sys_worker := W_Collect [r], sys_rep := (sys_rep y)\<lparr>rep_queue := q\<rparr>\<rparr>)"
| w_stop: "sys_worker y = W_Recv \<Longrightarrow> rep_queue (sys_rep y) = [] \<Longrightarrow> \<not> rep_sender (sys_rep y) \<Longrightarrow>
     sys_step y (y\<lparr>sys_worker := W_Done, sys_rep := (sys_rep y)\<lparr>rep_receiver := False\<rparr>\<rparr>)"
| w_collect: "sys_worker y = W_Collect b \<Longrightarrow> length b < metric_batch_max_reports \<Longrightarrow>
     rep_queue (sys_rep y) = r # q \<Longrightarrow>
     sys_step y (y\<lparr>sys_worker := W_Collect (b @ [r]), sys_rep := (sys_rep y)\<lparr>rep_queue := q\<rparr>\<rparr>)"
| w_ready: "sys_worker y = W_Collect b \<Longrightarrow>
     metric_batch_max_reports \<le> length b \<or> rep_queue (sys_rep y) = [] \<Longrightarrow>
     sys_step y (y\<lparr>sys_worker := W_Write b 0 writer_initial_retry_backoff\<rparr>)"
| w_write: "sys_worker y = W_Write b k backoff \<Longrightarrow>
     write_metric_batch b (sys_next_ingested y) ((sys_store y)\<lparr>st_faults := fs, st_clock := cs\<rparr>) = (Ok n, s') \<Longrightarrow>
     sys_step y ((sys_diag (set_writer_state writer_running) y)
       \<lparr>sys_worker := W_Persisted b, sys_store := s', sys_next_ingested := n,
        sys_written := sys_written y @ b\<rparr>)"
| w_retry: "sys_worker y = W_Write b k backoff \<Longrightarrow> k < writer_max_retries \<Longrightarrow>
     write_metric_batch b (sys_next_ingested y) ((sys_store y)\<lparr>st_faults := fs, st_clock := cs\<rparr>) = (Err e, s') \<Longrightarrow>
     sys_step y ((sys_diag (set_writer_state writer_retrying \<circ>
                            set_last_write_error (sanitize_metric_write_error e)) y)
       \<lparr>sys_worker := W_Write b (k + 1) (min (backoff * 2) writer_max_retry_backoff), sys_store := s'\<rparr>)"
| w_fail: "sys_worker y = W_Write b k backoff \<Longrightarrow> writer_max_retries \<le> k \<Longrightarrow>
     write_metric_batch b (sys_next_ingested y) ((sys_store y)\<lparr>st_faults := fs, st_clock := cs\<rparr>) = (Err e, s') \<Longrightarrow>
     sys_step y ((sys_diag (set_writer_state writer_failed \<circ>
                            set_last_write_error (sanitize_metric_write_error e)) y)
       \<lparr>sys_worker := W_Failed, sys_store := s'\<rparr>)"
| w_drop: "sys_worker y = W_Failed \<Longrightarrow>
     sys_step y (y\<lparr>sys_worker := W_Dropped, sys_rep := (sys_rep y)\<lparr>rep_receiver := False, rep_queue := []\<rparr>\<rparr>)"
| w_latch: "sys_worker y = W_Dropped \<Longrightarrow>
     sys_step y ((sys_diag (set_writer_state writer_failed) y)\<lparr>sys_worker := W_Done\<rparr>)"
| w_persisted: "sys_worker y = W_Persisted b \<Longrightarrow>
     sys_step y ((sys_diag (increment_persisted_by (of_nat (length b))) y)\<lparr>sys_worker := W_Counted b\<rparr>)"
| w_through: "sys_worker y = W_Counted b \<Longrightarrow>
     sys_step y ((sys_diag (if b = [] then id else set_persisted_through_sequence (rpt_seq (last b))) y)
       \<lparr>sys_worker := W_Marked b\<rparr>)"
| w_pending: "sys_worker y = W_Marked b \<Longrightarrow>
     sys_step y ((sys_diag (decrement_pending_by (of_nat (length b))) y)\<lparr>sys_worker := W_Recv\<rparr>)"

abbreviation sys_steps :: "system \<Rightarrow> system \<Rightarrow> bool" where
  "sys_steps \<equiv> sys_step\<^sup>*\<^sup>*"

definition sys_init :: "store \<Rightarrow> nat \<Rightarrow> int \<Rightarrow> system" where
  "sys_init s capacity start =
     \<lparr>sys_store = s, sys_rep = open_with_capacity capacity, sys_prod = P_Idle, sys_worker = W_Recv,
      sys_next_ingested = start, sys_accepted = [], sys_written = []\<rparr>"

definition reachable :: "system \<Rightarrow> bool" where
  "reachable y \<longleftrightarrow> (\<exists>s capacity start. sys_steps (sys_init s capacity start) y)"

text \<open>The batch the worker holds before it is written, and the parts of it not yet accounted for.\<close>

fun in_flight :: "worker \<Rightarrow> metric_report list" where
  "in_flight (W_Collect b) = b"
| "in_flight (W_Write b k backoff) = b"
| "in_flight w = []"

fun unmarked :: "worker \<Rightarrow> metric_report list" where
  "unmarked (W_Persisted b) = b"
| "unmarked (W_Counted b) = b"
| "unmarked w = []"

fun unsettled :: "worker \<Rightarrow> metric_report list" where
  "unsettled (W_Persisted b) = b"
| "unsettled (W_Counted b) = b"
| "unsettled (W_Marked b) = b"
| "unsettled w = []"

fun uncounted :: "worker \<Rightarrow> metric_report list" where
  "uncounted (W_Persisted b) = b"
| "uncounted w = []"

fun crashed :: "worker \<Rightarrow> bool" where
  "crashed W_Failed = True"
| "crashed W_Dropped = True"
| "crashed W_Done = True"
| "crashed w = False"

subsection \<open>Invariants of the system\<close>

lemma sys_diag_simps [simp]:
  "sys_store (sys_diag f y) = sys_store y" "sys_prod (sys_diag f y) = sys_prod y"
  "sys_worker (sys_diag f y) = sys_worker y" "sys_next_ingested (sys_diag f y) = sys_next_ingested y"
  "sys_accepted (sys_diag f y) = sys_accepted y" "sys_written (sys_diag f y) = sys_written y"
  "rep_diag (sys_rep (sys_diag f y)) = f (rep_diag (sys_rep y))"
  "rep_queue (sys_rep (sys_diag f y)) = rep_queue (sys_rep y)"
  "rep_capacity (sys_rep (sys_diag f y)) = rep_capacity (sys_rep y)"
  "rep_sender (sys_rep (sys_diag f y)) = rep_sender (sys_rep y)"
  "rep_receiver (sys_rep (sys_diag f y)) = rep_receiver (sys_rep y)"
  "rep_next_seq (sys_rep (sys_diag f y)) = rep_next_seq (sys_rep y)"
  by (simp_all add: sys_diag_def on_diag_def)

lemma make_report_seq [simp]: "rpt_seq (make_report rep rid key stp v now) = rep_next_seq rep"
  by (simp add: make_report_def)

text \<open>Sequence numbers are the positions of acceptance, starting at 1.\<close>

definition inv_seq :: "system \<Rightarrow> bool" where
  "inv_seq y \<longleftrightarrow>
     map rpt_seq (sys_accepted y) = map (\<lambda>i. of_nat (Suc i)) [0..<length (sys_accepted y)] \<and>
     rep_next_seq (sys_rep y) = of_nat (length (sys_accepted y) + (if sys_prod y = P_Sent then 0 else 1)) \<and>
     (\<forall>r. sys_prod y = P_Checked r \<or> sys_prod y = P_Counted r \<longrightarrow> rpt_seq r = rep_next_seq (sys_rep y))"

lemma inv_seq_step: "sys_step y y' \<Longrightarrow> inv_seq y \<Longrightarrow> inv_seq y'"
  by (induction rule: sys_step.cases) (auto simp: inv_seq_def)

text \<open>Acceptance order: written, then in the worker's hands, then in the channel.\<close>

definition inv_fifo :: "system \<Rightarrow> bool" where
  "inv_fifo y \<longleftrightarrow> grows (sys_written y) (sys_accepted y) \<and>
     (\<not> crashed (sys_worker y) \<longrightarrow>
        sys_accepted y = sys_written y @ in_flight (sys_worker y) @ rep_queue (sys_rep y)) \<and>
     (rep_receiver (sys_rep y) \<longrightarrow> sys_worker y \<noteq> W_Dropped \<and> sys_worker y \<noteq> W_Done)"

lemma inv_fifo_step: "sys_step y y' \<Longrightarrow> inv_fifo y \<Longrightarrow> inv_fifo y'"
  by (induction rule: sys_step.cases) (auto simp: inv_fifo_def grows_def)

text \<open>Every written report has a row of its own in the store.\<close>

definition row_of_report :: "metric_report \<Rightarrow> point_row \<Rightarrow> bool" where
  "row_of_report r row \<longleftrightarrow> pr_run_id row = rpt_run_id r \<and> pr_metric_key row = rpt_metric_key r \<and>
     pr_step row = rpt_step r \<and> pr_value row = rpt_value r \<and> pr_timestamp row = rpt_timestamp_millis r"

definition report_stored :: "store \<Rightarrow> metric_report \<Rightarrow> bool" where
  "report_stored s r \<longleftrightarrow> (\<exists>row \<in> set (st_points s). row_of_report r row)"

definition inv_stored :: "system \<Rightarrow> bool" where
  "inv_stored y \<longleftrightarrow> (\<forall>r \<in> set (sys_written y). report_stored (sys_store y) r)"

lemma report_stored_mono: "store_le s s' \<Longrightarrow> report_stored s r \<Longrightarrow> report_stored s' r"
  by (auto simp: report_stored_def store_le_def grows_def)

lemma store_le_scripts: "store_le s (s\<lparr>st_faults := fs, st_clock := cs\<rparr>)"
  by (simp add: store_le_def)

lemma write_scripted_le:
  "write_metric_batch b n (s\<lparr>st_faults := fs, st_clock := cs\<rparr>) = (r, s') \<Longrightarrow> store_le s s'"
  using growth.trans_state [OF store_le_scripts write_metric_batch_steps] by blast

lemma write_stores_batch:
  assumes "write_metric_batch b n s = (Ok n', s')" and "r \<in> set b"
  shows "report_stored s' r"
proof -
  obtain first where pts: "st_points s' = st_points s @ map point_of_write (batch_rows first b)"
    using write_metric_batch_Ok [OF assms(1)] by blast
  obtain i where i: "i < length b" "b ! i = r" using assms(2) by (auto simp: in_set_conv_nth)
  have "point_of_write (batch_rows first b ! i) \<in> set (st_points s')"
    using i(1) by (auto simp: pts)
  moreover have "row_of_report r (point_of_write (batch_rows first b ! i))"
    using i by (simp add: row_of_report_def point_of_write_def batch_rows_nth)
  ultimately show ?thesis by (auto simp: report_stored_def)
qed

lemma inv_stored_step:
  assumes "sys_step y y'" and "inv_stored y"
  shows "inv_stored y'"
  using assms
proof (induction rule: sys_step.cases)
  case (w_write y b k backoff fs cs n s')
  then show ?case
    using report_stored_mono [OF write_scripted_le [OF w_write(4)]] write_stores_batch [OF w_write(4)]
    by (auto simp: inv_stored_def)
next
  case (w_retry y b k backoff fs cs e s')
  then show ?case using report_stored_mono [OF write_scripted_le] by (auto simp: inv_stored_def)
next
  case (w_fail y b k backoff fs cs e s')
  then show ?case using report_stored_mono [OF write_scripted_le] by (auto simp: inv_stored_def)
qed (auto simp: inv_stored_def)

text \<open>The counters, as equations between words.\<close>

definition inv_counters :: "system \<Rightarrow> bool" where
  "inv_counters y \<longleftrightarrow>
     d_pending (diag_of y) + of_nat (length (sys_written y)) =
       of_nat (length (sys_accepted y)) + of_nat (length (unsettled (sys_worker y))) +
       (case sys_prod y of P_Counted r \<Rightarrow> 1 | _ \<Rightarrow> 0) \<and>
     d_persisted (diag_of y) + of_nat (length (uncounted (sys_worker y))) = of_nat (length (sys_written y))"

lemma counters_frame [simp]:
  "d_pending (increment_pending d) = d_pending d + 1" "d_persisted (increment_pending d) = d_persisted d"
  "d_pending (decrement_pending_by n d) = d_pending d - n" "d_persisted (decrement_pending_by n d) = d_persisted d"
  "d_pending (increment_queue_full d) = d_pending d" "d_persisted (increment_queue_full d) = d_persisted d"
  "d_pending (increment_persisted_by n d) = d_pending d" "d_persisted (increment_persisted_by n d) = d_persisted d + n"
  "d_pending (set_persisted_through_sequence n d) = d_pending d"
  "d_persisted (set_persisted_through_sequence n d) = d_persisted d"
  "d_pending (set_last_write_error m d) = d_pending d" "d_persisted (set_last_write_error m d) = d_persisted d"
  "d_pending (set_writer_state st d) = d_pending d" "d_persisted (set_writer_state st d) = d_persisted d"
  "d_pending (increment_accepted d) = d_pending d" "d_persisted (increment_accepted d) = d_persisted d"
  by (simp_all add: diag_defs)

lemma through_frame [simp]:
  "d_persisted_through (increment_pending d) = d_persisted_through d"
  "d_persisted_through (decrement_pending_by n d) = d_persisted_through d"
  "d_persisted_through (increment_queue_full d) = d_persisted_through d"
  "d_persisted_through (increment_persisted_by n d) = d_persisted_through d"
  "d_persisted_through (set_persisted_through_sequence n d) = max (d_persisted_through d) n"
  "d_persisted_through (set_last_write_error m d) = d_persisted_through d"
  "d_persisted_through (set_writer_state st d) = d_persisted_through d"
  "d_persisted_through (increment_accepted d) = d_persisted_through d"
  by (simp_all add: diag_defs)

lemma inv_counters_step: "sys_step y y' \<Longrightarrow> inv_counters y \<Longrightarrow> inv_counters y'"
  by (induction rule: sys_step.cases) (auto simp: inv_counters_def algebra_simps)

text \<open>The bounds on the batch, the retries and the queue.\<close>

fun batch_ok :: "worker \<Rightarrow> bool" where
  "batch_ok (W_Collect b) = (b \<noteq> [] \<and> length b \<le> metric_batch_max_reports)"
| "batch_ok (W_Write b k backoff) = (b \<noteq> [] \<and> length b \<le> metric_batch_max_reports \<and> k \<le> writer_max_retries)"
| "batch_ok (W_Persisted b) = (b \<noteq> [] \<and> length b \<le> metric_batch_max_reports)"
| "batch_ok (W_Counted b) = (b \<noteq> [] \<and> length b \<le> metric_batch_max_reports)"
| "batch_ok (W_Marked b) = (b \<noteq> [] \<and> length b \<le> metric_batch_max_reports)"
| "batch_ok w = True"

definition inv_bounds :: "system \<Rightarrow> bool" where
  "inv_bounds y \<longleftrightarrow> batch_ok (sys_worker y) \<and> length (rep_queue (sys_rep y)) \<le> rep_capacity (sys_rep y)"

lemma inv_bounds_step: "sys_step y y' \<Longrightarrow> inv_bounds y \<Longrightarrow> inv_bounds y'"
  by (induction rule: sys_step.cases) (auto simp: inv_bounds_def)

text \<open>What \<open>persisted_through_sequence\<close> says: exactly the marked prefix of the written reports.\<close>

definition inv_through :: "system \<Rightarrow> bool" where
  "inv_through y \<longleftrightarrow> (length (sys_accepted y) < 2 ^ 64 \<longrightarrow>
     (\<exists>m. sys_written y = m @ unmarked (sys_worker y) \<and> d_persisted_through (diag_of y) = of_nat (length m)))"

definition sys_inv :: "system \<Rightarrow> bool" where
  "sys_inv y \<longleftrightarrow> inv_seq y \<and> inv_fifo y \<and> inv_stored y \<and> inv_counters y \<and> inv_bounds y \<and> inv_through y"

lemma unat_of_nat_u64: "n < 2 ^ 64 \<Longrightarrow> unat (of_nat n :: u64) = n"
  by (simp add: unsigned_of_nat take_bit_nat_eq_self)

lemma of_nat_u64_le: "m \<le> n \<Longrightarrow> n < 2 ^ 64 \<Longrightarrow> (of_nat m :: u64) \<le> of_nat n"
  by (simp add: word_le_nat_alt unat_of_nat_u64)

lemma accepted_seq:
  assumes "inv_seq y" and "i < length (sys_accepted y)"
  shows "rpt_seq (sys_accepted y ! i) = of_nat (Suc i)"
proof -
  have "map rpt_seq (sys_accepted y) ! i = map (\<lambda>i. of_nat (Suc i)) [0..<length (sys_accepted y)] ! i"
    using assms(1) by (simp add: inv_seq_def)
  with assms(2) show ?thesis by simp
qed

lemma written_seq:
  assumes "inv_seq y" "inv_fifo y" and "i < length (sys_written y)"
  shows "rpt_seq (sys_written y ! i) = of_nat (Suc i)"
proof -
  obtain zs where "sys_accepted y = sys_written y @ zs" using assms(2) by (auto simp: inv_fifo_def grows_def)
  then have "i < length (sys_accepted y)" "sys_written y ! i = sys_accepted y ! i"
    using assms(3) by (simp_all add: nth_append)
  then show ?thesis using accepted_seq [OF assms(1)] by simp
qed

lemma written_le_accepted: "inv_fifo y \<Longrightarrow> length (sys_written y) \<le> length (sys_accepted y)"
  by (auto simp: inv_fifo_def grows_def)

lemma inv_through_marked:
  assumes "inv_seq y" "inv_fifo y" "inv_through y" "sys_worker y = W_Counted b" "b \<noteq> []"
    and "length (sys_accepted y) < 2 ^ 64"
  shows "max (d_persisted_through (diag_of y)) (rpt_seq (last b)) = of_nat (length (sys_written y))"
proof -
  obtain m where m: "sys_written y = m @ b" "d_persisted_through (diag_of y) = of_nat (length m)"
    using assms(3,4,6) by (auto simp: inv_through_def)
  let ?i = "length (sys_written y) - 1"
  have i: "?i < length (sys_written y)" "sys_written y ! ?i = last b"
    using m(1) assms(5) last_conv_nth [of "sys_written y"] by simp_all
  have "Suc ?i = length (sys_written y)" using i(1) by simp
  then have seq: "rpt_seq (last b) = of_nat (length (sys_written y))"
    using written_seq [OF assms(1,2) i(1)] i(2) by simp
  have "length (sys_written y) < 2 ^ 64" using written_le_accepted [OF assms(2)] assms(6) by simp
  then have "(of_nat (length m) :: u64) \<le> of_nat (length (sys_written y))"
    using m(1) by (intro of_nat_u64_le) simp_all
  then show ?thesis using m(2) seq by (simp add: max_def)
qed

lemma inv_through_step:
  assumes "sys_step y y'" and "inv_seq y" "inv_fifo y" "inv_bounds y" "inv_through y"
  shows "inv_through y'"
  using assms
proof (induction rule: sys_step.cases)
  case (w_through y b)
  have "b \<noteq> []" using w_through by (auto simp: inv_bounds_def)
  then show ?case
    using w_through inv_through_marked [of y b] by (auto simp: inv_through_def)
qed (auto simp: inv_through_def)

lemma sys_inv_step: "sys_step y y' \<Longrightarrow> sys_inv y \<Longrightarrow> sys_inv y'"
  by (simp add: sys_inv_def inv_seq_step inv_fifo_step inv_stored_step inv_counters_step
                inv_bounds_step inv_through_step)

lemma sys_inv_init: "sys_inv (sys_init s capacity start)"
  by (simp add: sys_inv_def sys_init_def open_with_capacity_def diagnostics_default_def inv_seq_def
      inv_fifo_def inv_stored_def inv_counters_def inv_bounds_def inv_through_def grows_def)

lemma sys_inv_steps: "sys_steps y y' \<Longrightarrow> sys_inv y \<Longrightarrow> sys_inv y'"
  by (induction rule: rtranclp_induct) (auto intro: sys_inv_step)

lemma reachable_inv: "reachable y \<Longrightarrow> sys_inv y"
  unfolding reachable_def using sys_inv_steps sys_inv_init by blast

lemma reachable_steps: "reachable y \<Longrightarrow> sys_steps y y' \<Longrightarrow> reachable y'"
  unfolding reachable_def by (meson rtranclp_trans)

lemma accepted_grows: "sys_steps y y' \<Longrightarrow> grows (sys_accepted y) (sys_accepted y')"
proof (induction rule: rtranclp_induct)
  case (step y1 y2)
  have "grows (sys_accepted y1) (sys_accepted y2)"
    using step(2) by (cases rule: sys_step.cases) auto
  then show ?case using step(3) grows_trans by blast
qed simp

lemma store_step_le: "sys_step y y' \<Longrightarrow> store_le (sys_store y) (sys_store y')"
  by (induction rule: sys_step.cases) (auto intro: growth.refl_state dest: write_scripted_le)

lemma store_steps_le: "sys_steps y y' \<Longrightarrow> store_le (sys_store y) (sys_store y')"
proof (induction rule: rtranclp_induct)
  case base
  show ?case by (rule growth.refl_state)
next
  case (step y1 y2)
  then show ?case using growth.trans_state store_step_le by blast
qed

subsection \<open>The barrier of a drain\<close>

lemma barrier_value:
  assumes "inv_seq y" and "sys_prod y = P_Idle" and "length (sys_accepted y) + 1 < 2 ^ 64"
  shows "enqueue_barrier_sequence (sys_rep y) = of_nat (length (sys_accepted y))"
proof -
  have n: "rep_next_seq (sys_rep y) = of_nat (length (sys_accepted y) + 1)"
    using assms(1,2) by (simp add: inv_seq_def)
  have "unat (rep_next_seq (sys_rep y)) = length (sys_accepted y) + 1"
    unfolding n by (rule unat_of_nat_u64) (use assms(3) in simp)
  then have "unat (enqueue_barrier_sequence (sys_rep y)) = length (sys_accepted y)"
    by (simp add: enqueue_barrier_sequence_def unat_u64_sat_sub)
  moreover have "unat (of_nat (length (sys_accepted y)) :: u64) = length (sys_accepted y)"
    using assms(3) by (intro unat_of_nat_u64) simp
  ultimately show ?thesis by (simp add: word_unat_eq_iff)
qed

lemma through_stored:
  assumes "sys_inv y" and "length (sys_accepted y) < 2 ^ 64" and "i < length (sys_accepted y)"
    and "of_nat (Suc i) \<le> d_persisted_through (diag_of y)"
  shows "report_stored (sys_store y) (sys_accepted y ! i)"
proof -
  obtain m where m: "sys_written y = m @ unmarked (sys_worker y)" "d_persisted_through (diag_of y) = of_nat (length m)"
    using assms(1,2) by (auto simp: sys_inv_def inv_through_def)
  have fifo: "inv_fifo y" and stored: "inv_stored y" using assms(1) by (simp_all add: sys_inv_def)
  have lm: "length m < 2 ^ 64" using m(1) written_le_accepted [OF fifo] assms(2) by simp
  have "unat (of_nat (Suc i) :: u64) = Suc i" "unat (of_nat (length m) :: u64) = length m"
    using assms(2,3) lm by (simp_all only: unat_of_nat_u64 Suc_leI order.strict_trans1)
  then have "Suc i \<le> length m"
    using assms(4) unfolding m(2) by (simp only: word_le_nat_alt)
  then have i: "i < length (sys_written y)" using m(1) by simp
  moreover obtain zs where "sys_accepted y = sys_written y @ zs" using fifo by (auto simp: inv_fifo_def grows_def)
  ultimately have "sys_accepted y ! i \<in> set (sys_written y)" by (simp add: nth_append)
  then show ?thesis using stored by (simp add: inv_stored_def)
qed

subsection \<open>A failure that is overwritten\<close>

text \<open>The worker is gone, the failure is not latched, and no thread is about to accept.\<close>

definition dead_running :: "system \<Rightarrow> bool" where
  "dead_running y \<longleftrightarrow> sys_worker y = W_Done \<and> \<not> rep_receiver (sys_rep y) \<and>
     \<not> is_writer_failed (diag_of y) \<and> sys_prod y \<noteq> P_Sent \<and> sys_prod y \<noteq> P_Bumped"

lemma dead_running_step:
  "sys_step y y' \<Longrightarrow> dead_running y \<Longrightarrow>
   dead_running y' \<and> d_persisted_through (diag_of y') = d_persisted_through (diag_of y)"
  by (induction rule: sys_step.cases) (auto simp: dead_running_def)

lemma dead_running_steps:
  "sys_steps y y' \<Longrightarrow> dead_running y \<Longrightarrow>
   dead_running y' \<and> d_persisted_through (diag_of y') = d_persisted_through (diag_of y)"
  by (induction rule: rtranclp_induct) (auto dest: dead_running_step)

text \<open>With no thread past its check, a latched failure stays latched.\<close>

definition dead_failed :: "system \<Rightarrow> bool" where
  "dead_failed y \<longleftrightarrow> crashed (sys_worker y) \<and> is_writer_failed (diag_of y) \<and> sys_prod y = P_Idle"

lemma dead_failed_step: "sys_step y y' \<Longrightarrow> dead_failed y \<Longrightarrow> dead_failed y'"
  by (induction rule: sys_step.cases) (auto simp: dead_failed_def)

lemma dead_failed_steps: "sys_steps y y' \<Longrightarrow> dead_failed y \<Longrightarrow> dead_failed y'"
  by (induction rule: rtranclp_induct) (auto intro: dead_failed_step)

subsection \<open>Runs of the system\<close>

lemma write_fails:
  "write_metric_batch b n (s\<lparr>st_faults := [Some m], st_clock := []\<rparr>) =
   (Err (StorageFailure (SE_DuckDb (DuckDb_Other m))), s\<lparr>st_faults := [], st_clock := []\<rparr>)"
  by (simp add: write_metric_batch_def now_millis_def append_metric_batch_def map_err_op_def bind_op_def
                update_def exec_def)

text \<open>Steps of the worker that only its retries and the diagnostics show.\<close>

definition quiet :: "system \<Rightarrow> system \<Rightarrow> bool" where
  "quiet y y' \<longleftrightarrow> sys_prod y' = sys_prod y \<and> sys_accepted y' = sys_accepted y \<and> sys_written y' = sys_written y \<and>
     st_points (sys_store y') = st_points (sys_store y) \<and>
     rep_queue (sys_rep y') = rep_queue (sys_rep y) \<and> rep_capacity (sys_rep y') = rep_capacity (sys_rep y) \<and>
     rep_sender (sys_rep y') = rep_sender (sys_rep y) \<and> rep_receiver (sys_rep y') = rep_receiver (sys_rep y) \<and>
     rep_next_seq (sys_rep y') = rep_next_seq (sys_rep y) \<and>
     d_persisted_through (diag_of y') = d_persisted_through (diag_of y) \<and>
     (is_writer_failed (diag_of y') \<longrightarrow> is_writer_failed (diag_of y))"

lemma quiet_refl: "quiet y y"
  by (simp add: quiet_def)

lemma quiet_trans: "quiet x y \<Longrightarrow> quiet y z \<Longrightarrow> quiet x z"
  by (simp add: quiet_def)

lemma retry_run:
  assumes "sys_worker y = W_Write b k backoff" and "k \<le> writer_max_retries"
  shows "\<exists>y' backoff'. sys_steps y y' \<and> sys_worker y' = W_Write b writer_max_retries backoff' \<and> quiet y y'"
  using assms
proof (induction "writer_max_retries - k" arbitrary: y k backoff)
  case 0
  then show ?case using quiet_refl by auto
next
  case (Suc n)
  then have k: "k < writer_max_retries" by simp
  note step = w_retry [OF Suc.prems(1) k write_fails [where m = "''io''"]]
  let ?y = "(sys_diag (set_writer_state writer_retrying \<circ>
      set_last_write_error (sanitize_metric_write_error (StorageFailure (SE_DuckDb (DuckDb_Other ''io''))))) y)
       \<lparr>sys_worker := W_Write b (k + 1) (min (backoff * 2) writer_max_retry_backoff),
        sys_store := (sys_store y)\<lparr>st_faults := [], st_clock := []\<rparr>\<rparr>"
  have w: "sys_worker ?y = W_Write b (k + 1) (min (backoff * 2) writer_max_retry_backoff)" by simp
  have n: "n = writer_max_retries - (k + 1)" "k + 1 \<le> writer_max_retries" using Suc.hyps(2) k by auto
  obtain y' backoff' where rest: "sys_steps ?y y'" "sys_worker y' = W_Write b writer_max_retries backoff'" "quiet ?y y'"
    using Suc.hyps(1) [OF n(1) w n(2)] by blast
  have "quiet y ?y" by (simp add: quiet_def)
  then have "quiet y y'" using rest(3) by (rule quiet_trans)
  with converse_rtranclp_into_rtranclp [OF step rest(1)] rest(2) show ?case by blast
qed

text \<open>A report that meets a running worker and room in the queue.\<close>

definition reported :: "system \<Rightarrow> metric_report \<Rightarrow> system" where
  "reported y r = y\<lparr>sys_accepted := sys_accepted y @ [r],
     sys_rep := on_diag (increment_accepted \<circ> increment_pending)
       ((sys_rep y)\<lparr>rep_queue := rep_queue (sys_rep y) @ [r], rep_next_seq := rep_next_seq (sys_rep y) + 1\<rparr>)\<rparr>"

lemma report_run:
  assumes "sys_prod y = P_Idle" "rep_sender (sys_rep y)" "\<not> is_writer_failed (diag_of y)"
    "rep_receiver (sys_rep y)" "length (rep_queue (sys_rep y)) < rep_capacity (sys_rep y)"
  shows "sys_steps y (reported y (make_report (sys_rep y) rid key stp v now))"
proof -
  let ?r = "make_report (sys_rep y) rid key stp v now"
  let ?y1 = "y\<lparr>sys_prod := P_Checked ?r\<rparr>"
  let ?y2 = "(sys_diag increment_pending ?y1)\<lparr>sys_prod := P_Counted ?r\<rparr>"
  let ?y3 = "?y2\<lparr>sys_prod := P_Sent, sys_accepted := sys_accepted ?y2 @ [?r],
                 sys_rep := (sys_rep ?y2)\<lparr>rep_queue := rep_queue (sys_rep ?y2) @ [?r]\<rparr>\<rparr>"
  let ?y4 = "?y3\<lparr>sys_prod := P_Bumped,
                 sys_rep := (sys_rep ?y3)\<lparr>rep_next_seq := rep_next_seq (sys_rep ?y3) + 1\<rparr>\<rparr>"
  let ?y5 = "(sys_diag increment_accepted ?y4)\<lparr>sys_prod := P_Idle\<rparr>"
  have 1: "sys_step y ?y1" using assms by (intro p_check)
  have 2: "sys_step ?y1 ?y2" by (intro p_count) simp
  have 3: "sys_step ?y2 ?y3" using assms by (intro p_send) simp_all
  have 4: "sys_step ?y3 ?y4" by (intro p_bump) simp
  have 5: "sys_step ?y4 ?y5" by (intro p_accept) simp
  have "?y5 = reported y ?r" using assms(1) by (simp add: reported_def sys_diag_def on_diag_def)
  moreover have "sys_steps y ?y1" by (rule r_into_rtranclp) (rule 1)
  then have "sys_steps y ?y2" by (rule rtranclp.rtrancl_into_rtrancl) (rule 2)
  then have "sys_steps y ?y3" by (rule rtranclp.rtrancl_into_rtrancl) (rule 3)
  then have "sys_steps y ?y4" by (rule rtranclp.rtrancl_into_rtrancl) (rule 4)
  then have "sys_steps y ?y5" by (rule rtranclp.rtrancl_into_rtrancl) (rule 5)
  ultimately show ?thesis by (simp only:)
qed

text \<open>
  The second report passes its check before the worker latches the failure and is sent before
  the receiver is dropped; its last store then overwrites the failure.
\<close>

lemma lost_failure_tail:
  assumes w: "sys_worker y = W_Write b writer_max_retries backoff" and p: "sys_prod y = P_Idle"
    and open_y: "rep_sender (sys_rep y)" "\<not> is_writer_failed (diag_of y)" "rep_receiver (sys_rep y)"
    and room: "length (rep_queue (sys_rep y)) < rep_capacity (sys_rep y)"
  shows "\<exists>y' r. sys_steps y y' \<and> dead_running y' \<and> sys_prod y' = P_Idle \<and>
           sys_accepted y' = sys_accepted y @ [r] \<and> st_points (sys_store y') = st_points (sys_store y) \<and>
           d_persisted_through (diag_of y') = d_persisted_through (diag_of y)"
proof -
  let ?r = "make_report (sys_rep y) ''r2'' ''loss'' 1 fzero 0"
  let ?e = "StorageFailure (SE_DuckDb (DuckDb_Other ''io''))"
  let ?y1 = "y\<lparr>sys_prod := P_Checked ?r\<rparr>"
  let ?y2 = "(sys_diag increment_pending ?y1)\<lparr>sys_prod := P_Counted ?r\<rparr>"
  let ?y3 = "(sys_diag (set_writer_state writer_failed \<circ> set_last_write_error (sanitize_metric_write_error ?e)) ?y2)
       \<lparr>sys_worker := W_Failed, sys_store := (sys_store ?y2)\<lparr>st_faults := [], st_clock := []\<rparr>\<rparr>"
  let ?y4 = "?y3\<lparr>sys_prod := P_Sent, sys_accepted := sys_accepted ?y3 @ [?r],
                 sys_rep := (sys_rep ?y3)\<lparr>rep_queue := rep_queue (sys_rep ?y3) @ [?r]\<rparr>\<rparr>"
  let ?y5 = "?y4\<lparr>sys_worker := W_Dropped, sys_rep := (sys_rep ?y4)\<lparr>rep_receiver := False, rep_queue := []\<rparr>\<rparr>"
  let ?y6 = "(sys_diag (set_writer_state writer_failed) ?y5)\<lparr>sys_worker := W_Done\<rparr>"
  let ?y7 = "?y6\<lparr>sys_prod := P_Bumped,
                 sys_rep := (sys_rep ?y6)\<lparr>rep_next_seq := rep_next_seq (sys_rep ?y6) + 1\<rparr>\<rparr>"
  let ?y8 = "(sys_diag increment_accepted ?y7)\<lparr>sys_prod := P_Idle\<rparr>"
  have 1: "sys_step y ?y1" using p open_y by (intro p_check)
  have 2: "sys_step ?y1 ?y2" by (intro p_count) simp
  have w2: "sys_worker ?y2 = W_Write b writer_max_retries backoff" using w by simp
  have 3: "sys_step ?y2 ?y3" by (rule w_fail [OF w2 order.refl write_fails])
  have 4: "sys_step ?y3 ?y4" using room open_y by (intro p_send) simp_all
  have 5: "sys_step ?y4 ?y5" by (intro w_drop) simp
  have 6: "sys_step ?y5 ?y6" by (intro w_latch) simp
  have 7: "sys_step ?y6 ?y7" by (intro p_bump) simp
  have 8: "sys_step ?y7 ?y8" by (intro p_accept) simp
  have "sys_steps y ?y1" by (rule r_into_rtranclp) (rule 1)
  then have "sys_steps y ?y2" by (rule rtranclp.rtrancl_into_rtrancl) (rule 2)
  then have "sys_steps y ?y3" by (rule rtranclp.rtrancl_into_rtrancl) (rule 3)
  then have "sys_steps y ?y4" by (rule rtranclp.rtrancl_into_rtrancl) (rule 4)
  then have "sys_steps y ?y5" by (rule rtranclp.rtrancl_into_rtrancl) (rule 5)
  then have "sys_steps y ?y6" by (rule rtranclp.rtrancl_into_rtrancl) (rule 6)
  then have "sys_steps y ?y7" by (rule rtranclp.rtrancl_into_rtrancl) (rule 7)
  then have "sys_steps y ?y8" by (rule rtranclp.rtrancl_into_rtrancl) (rule 8)
  moreover have "dead_running ?y8" "sys_prod ?y8 = P_Idle" "sys_accepted ?y8 = sys_accepted y @ [?r]"
      "st_points (sys_store ?y8) = st_points (sys_store y)"
      "d_persisted_through (diag_of ?y8) = d_persisted_through (diag_of y)"
    by (simp_all add: dead_running_def)
  ultimately show ?thesis by blast
qed

lemma lost_failure_run:
  assumes "st_points s = []"
  shows "\<exists>y. sys_steps (sys_init s 4 0) y \<and> dead_running y \<and> sys_prod y = P_Idle \<and>
           length (sys_accepted y) = 2 \<and> st_points (sys_store y) = [] \<and> d_persisted_through (diag_of y) = 0"
proof -
  let ?y0 = "sys_init s 4 0"
  let ?r = "make_report (sys_rep ?y0) ''r1'' ''loss'' 0 fzero 0"
  let ?y1 = "reported ?y0 ?r"
  have r1: "sys_steps ?y0 ?y1"
    by (rule report_run)
       (simp_all add: sys_init_def open_with_capacity_def diagnostics_default_def is_writer_failed_def)
  let ?y2 = "?y1\<lparr>sys_worker := W_Collect [?r], sys_rep := (sys_rep ?y1)\<lparr>rep_queue := []\<rparr>\<rparr>"
  let ?y3 = "?y2\<lparr>sys_worker := W_Write [?r] 0 writer_initial_retry_backoff\<rparr>"
  have 2: "sys_step ?y1 ?y2"
    by (rule w_recv) (simp_all add: reported_def sys_init_def open_with_capacity_def on_diag_def)
  have 3: "sys_step ?y2 ?y3" by (rule w_ready) simp_all
  have steps3: "sys_steps ?y0 ?y3"
    using r1 2 3 by (meson rtranclp.rtrancl_into_rtrancl)
  have "sys_worker ?y3 = W_Write [?r] 0 writer_initial_retry_backoff" by simp
  then obtain y4 backoff where y4: "sys_steps ?y3 y4" "sys_worker y4 = W_Write [?r] writer_max_retries backoff" "quiet ?y3 y4"
    using retry_run by blast
  have f: "sys_prod y4 = P_Idle" "rep_sender (sys_rep y4)" "\<not> is_writer_failed (diag_of y4)"
      "rep_receiver (sys_rep y4)" "length (rep_queue (sys_rep y4)) < rep_capacity (sys_rep y4)"
      "sys_accepted y4 = [?r]" "st_points (sys_store y4) = []" "d_persisted_through (diag_of y4) = 0"
    using y4(3) assms
    by (auto simp: quiet_def reported_def sys_init_def open_with_capacity_def on_diag_def diagnostics_default_def)
  from lost_failure_tail [OF y4(2) f(1-5)]
  obtain y r where "sys_steps y4 y" "dead_running y" "sys_prod y = P_Idle" "sys_accepted y = sys_accepted y4 @ [r]"
      "st_points (sys_store y) = st_points (sys_store y4)"
      "d_persisted_through (diag_of y) = d_persisted_through (diag_of y4)" by blast
  moreover have "sys_steps ?y0 y4" using steps3 y4(1) by (rule rtranclp_trans)
  ultimately show ?thesis using f(6-8) by (intro exI [of _ y]) (auto intro: rtranclp_trans)
qed

lemma drain_through_Ok:
  "drain_through barrier obs = Some (Ok ()) \<Longrightarrow> \<exists>q \<in> set obs. barrier \<le> d_persisted_through (do_loop q)"
  by (induction barrier obs rule: drain_through.induct) (auto split: if_splits)

lemma drain_through_pending:
  "(\<And>q. q \<in> set obs \<Longrightarrow> d_persisted_through (do_loop q) < barrier \<and> \<not> is_writer_failed (do_check q) \<and> \<not> do_expired q) \<Longrightarrow>
   drain_through barrier obs = None"
  by (induction barrier obs rule: drain_through.induct) auto

subsection \<open>One turn of the worker without interference\<close>

text \<open>
  The loop body of \<open>metric_worker\<close> for a channel that nobody fills meanwhile: \<open>None\<close> when the
  channel is empty, otherwise whether the worker goes on, with the new state.
\<close>

definition worker_iteration :: "store \<Rightarrow> reporter \<Rightarrow> int \<Rightarrow> (bool \<times> store \<times> reporter \<times> int) option" where
  "worker_iteration s rep next_ingested =
     (case rep_queue rep of
        [] \<Rightarrow> None
      | first # waiting \<Rightarrow>
          let batch = first # take (metric_batch_max_reports - 1) waiting;
              rep1 = rep\<lparr>rep_queue := drop (metric_batch_max_reports - 1) waiting\<rparr>;
              batch_len = of_nat (length batch)
          in case retry_metric_batch_write (write_metric_batch batch next_ingested) (s, rep_diag rep1, []) of
               (Inr next_millis, (s', d, _)) \<Rightarrow>
                 Some (True, s', rep1\<lparr>rep_diag := decrement_pending_by batch_len
                     (set_persisted_through_sequence (rpt_seq (last batch)) (increment_persisted_by batch_len d))\<rparr>,
                   next_millis)
             | (Inl e, (s', d, _)) \<Rightarrow>
                 Some (False, s', rep1\<lparr>rep_receiver := False, rep_queue := [],
                     rep_diag := set_writer_state writer_failed (set_writer_state writer_failed
                       (set_last_write_error (sanitize_metric_write_error e) d))\<rparr>, next_ingested))"

lemma store_scripts_id: "s\<lparr>st_faults := st_faults s, st_clock := st_clock s\<rparr> = (s :: store)"
  by simp

lemma retry_refines:
  assumes "retry_loop (write_metric_batch b (sys_next_ingested y)) k backoff (sys_store y, diag_of y, sl) = (r, (s', d', sl'))"
    and "sys_worker y = W_Write b k backoff" and "k \<le> writer_max_retries"
  shows "case r of
           Inr n \<Rightarrow> sys_steps y (y\<lparr>sys_rep := (sys_rep y)\<lparr>rep_diag := d'\<rparr>, sys_worker := W_Persisted b,
                     sys_store := s', sys_next_ingested := n, sys_written := sys_written y @ b\<rparr>)
         | Inl e \<Rightarrow> sys_steps y (y\<lparr>sys_rep := (sys_rep y)\<lparr>rep_diag := set_writer_state writer_failed
                       (set_last_write_error (sanitize_metric_write_error e) d')\<rparr>,
                     sys_worker := W_Failed, sys_store := s'\<rparr>)"
  using assms
proof (induction "writer_max_retries - k" arbitrary: y k backoff sl rule: less_induct)
  case less
  obtain v s1 where v: "write_metric_batch b (sys_next_ingested y) (sys_store y) = (v, s1)" by fastforce
  then have v': "write_metric_batch b (sys_next_ingested y)
      ((sys_store y)\<lparr>st_faults := st_faults (sys_store y), st_clock := st_clock (sys_store y)\<rparr>) = (v, s1)"
    by (simp only: store_scripts_id)
  show ?case
  proof (cases v)
    case (Inr n)
    have "r = Ok n" "s' = s1" "d' = set_writer_state writer_running (diag_of y)"
      using less.prems(1) v Inr by (simp_all add: retry_loop.simps)
    then show ?thesis
      using r_into_rtranclp [of sys_step, OF w_write [OF less.prems(2) v' [unfolded Inr]]]
      by (simp add: sys_diag_def on_diag_def)
  next
    case (Inl e)
    show ?thesis
    proof (cases "k < writer_max_retries")
      case True
      let ?d = "set_writer_state writer_retrying (set_last_write_error (sanitize_metric_write_error e) (diag_of y))"
      let ?y = "(sys_diag (set_writer_state writer_retrying \<circ>
                            set_last_write_error (sanitize_metric_write_error e)) y)
       \<lparr>sys_worker := W_Write b (k + 1) (min (backoff * 2) writer_max_retry_backoff), sys_store := s1\<rparr>"
      have loop: "retry_loop (write_metric_batch b (sys_next_ingested ?y)) (k + 1) (min (backoff * 2) writer_max_retry_backoff)
          (sys_store ?y, diag_of ?y, sl @ [backoff]) = (r, (s', d', sl'))"
        using less.prems(1) v Inl True by (simp add: retry_loop.simps [of _ k])
      have step: "sys_step y ?y" by (rule w_retry [OF less.prems(2) True v' [unfolded Inl]])
      have wy: "sys_worker ?y = W_Write b (k + 1) (min (backoff * 2) writer_max_retry_backoff)" by simp
      have "writer_max_retries - (k + 1) < writer_max_retries - k" "k + 1 \<le> writer_max_retries" using True by auto
      from less.hyps [OF this(1) loop wy this(2)]
      show ?thesis
        using converse_rtranclp_into_rtranclp [of sys_step, OF step] by (cases r) (simp_all add: sys_diag_def on_diag_def)
    next
      case False
      then have k: "writer_max_retries \<le> k" by simp
      have "r = Err e" "s' = s1" "d' = diag_of y"
        using less.prems(1) v Inl False by (simp_all add: retry_loop.simps [of _ k])
      then show ?thesis
        using r_into_rtranclp [of sys_step, OF w_fail [OF less.prems(2) k v' [unfolded Inl]]]
        by (simp add: sys_diag_def on_diag_def)
    qed
  qed
qed

lemma collect_run:
  assumes "sys_worker y = W_Collect b" and "rep_queue (sys_rep y) = c @ q" and "length b + length c \<le> metric_batch_max_reports"
  shows "sys_steps y (y\<lparr>sys_worker := W_Collect (b @ c), sys_rep := (sys_rep y)\<lparr>rep_queue := q\<rparr>\<rparr>)"
  using assms
proof (induction c arbitrary: y b)
  case Nil
  then have "y\<lparr>sys_worker := W_Collect (b @ []), sys_rep := (sys_rep y)\<lparr>rep_queue := q\<rparr>\<rparr> = y" by simp
  then show ?case by (simp only: rtranclp.rtrancl_refl)
next
  case (Cons r c)
  let ?y = "y\<lparr>sys_worker := W_Collect (b @ [r]), sys_rep := (sys_rep y)\<lparr>rep_queue := c @ q\<rparr>\<rparr>"
  have "sys_step y ?y" using Cons.prems by (intro w_collect) simp_all
  moreover have "sys_steps ?y (?y\<lparr>sys_worker := W_Collect ((b @ [r]) @ c), sys_rep := (sys_rep ?y)\<lparr>rep_queue := q\<rparr>\<rparr>)"
    using Cons.prems by (intro Cons.IH) simp_all
  ultimately show ?case using converse_rtranclp_into_rtranclp [of sys_step y ?y] by simp
qed

text \<open>The turn of the worker is a run of the step relation, and writes its batch when it goes on.\<close>

definition turn_batch :: "reporter \<Rightarrow> metric_report list" where
  "turn_batch rep = take metric_batch_max_reports (rep_queue rep)"

lemma worker_iteration_refines:
  assumes it: "worker_iteration (sys_store y) (sys_rep y) (sys_next_ingested y) = Some (alive, s', rep', n)"
    and w: "sys_worker y = W_Recv"
  shows "sys_steps y (y\<lparr>sys_worker := if alive then W_Recv else W_Done, sys_store := s', sys_rep := rep',
           sys_next_ingested := n, sys_written := sys_written y @ (if alive then turn_batch (sys_rep y) else [])\<rparr>)"
proof -
  obtain first waiting where q: "rep_queue (sys_rep y) = first # waiting"
    using it by (auto simp: worker_iteration_def split: list.splits)
  let ?c = "take (metric_batch_max_reports - 1) waiting" and ?q = "drop (metric_batch_max_reports - 1) waiting"
  let ?b = "first # ?c"
  have batch: "turn_batch (sys_rep y) = ?b" using q by (simp add: turn_batch_def take_Cons')
  let ?rep = "(sys_rep y)\<lparr>rep_queue := ?q\<rparr>"
  let ?y1 = "y\<lparr>sys_worker := W_Collect [first], sys_rep := (sys_rep y)\<lparr>rep_queue := waiting\<rparr>\<rparr>"
  let ?y2 = "y\<lparr>sys_worker := W_Collect ?b, sys_rep := ?rep\<rparr>"
  let ?y3 = "?y2\<lparr>sys_worker := W_Write ?b 0 writer_initial_retry_backoff\<rparr>"
  have "sys_step y ?y1" using w q by (intro w_recv)
  moreover have "sys_steps ?y1 ?y2"
    using collect_run [of ?y1 "[first]" ?c ?q] by simp
  moreover have "sys_step ?y2 ?y3"
    by (rule w_ready) (simp_all, linarith)
  ultimately have y3: "sys_steps y ?y3"
    by (meson converse_rtranclp_into_rtranclp rtranclp.rtrancl_into_rtrancl)
  obtain r s1 d1 sl where loop: "retry_loop (write_metric_batch ?b (sys_next_ingested y)) 0 writer_initial_retry_backoff
      (sys_store y, diag_of y, []) = (r, (s1, d1, sl))" by (metis prod_cases3 prod.collapse)
  have "retry_loop (write_metric_batch ?b (sys_next_ingested ?y3)) 0 writer_initial_retry_backoff
      (sys_store ?y3, diag_of ?y3, []) = (r, (s1, d1, sl))" using loop by simp
  note run = retry_refines [OF this]
  show ?thesis
  proof (cases r)
    case (Inr m)
    let ?y4 = "?y3\<lparr>sys_rep := (sys_rep ?y3)\<lparr>rep_diag := d1\<rparr>, sys_worker := W_Persisted ?b, sys_store := s1,
        sys_next_ingested := m, sys_written := sys_written ?y3 @ ?b\<rparr>"
    let ?y5 = "(sys_diag (increment_persisted_by (of_nat (length ?b))) ?y4)\<lparr>sys_worker := W_Counted ?b\<rparr>"
    let ?y6 = "(sys_diag (set_persisted_through_sequence (rpt_seq (last ?b))) ?y5)\<lparr>sys_worker := W_Marked ?b\<rparr>"
    let ?y7 = "(sys_diag (decrement_pending_by (of_nat (length ?b))) ?y6)\<lparr>sys_worker := W_Recv\<rparr>"
    have 4: "sys_steps ?y3 ?y4" using run Inr by simp
    have 5: "sys_step ?y4 ?y5" by (rule w_persisted) simp
    have 6: "sys_step ?y5 ?y6" using w_through [of ?y5 ?b] by simp
    have 7: "sys_step ?y6 ?y7" by (rule w_pending) simp
    have "sys_steps y ?y4" using y3 4 by (rule rtranclp_trans)
    then have "sys_steps y ?y5" by (rule rtranclp.rtrancl_into_rtrancl) (rule 5)
    then have "sys_steps y ?y6" by (rule rtranclp.rtrancl_into_rtrancl) (rule 6)
    then have y7: "sys_steps y ?y7" by (rule rtranclp.rtrancl_into_rtrancl) (rule 7)
    have "?y7 = y\<lparr>sys_worker := if alive then W_Recv else W_Done, sys_store := s', sys_rep := rep',
           sys_next_ingested := n, sys_written := sys_written y @ (if alive then turn_batch (sys_rep y) else [])\<rparr>"
      using it q loop Inr batch by (intro system.equality) (auto simp: worker_iteration_def retry_metric_batch_write_def Let_def sys_diag_def on_diag_def)
    then show ?thesis using y7 by metis
  next
    case (Inl e)
    let ?y4 = "?y3\<lparr>sys_rep := (sys_rep ?y3)\<lparr>rep_diag := set_writer_state writer_failed
                       (set_last_write_error (sanitize_metric_write_error e) d1)\<rparr>,
                     sys_worker := W_Failed, sys_store := s1\<rparr>"
    let ?y5 = "?y4\<lparr>sys_worker := W_Dropped, sys_rep := (sys_rep ?y4)\<lparr>rep_receiver := False, rep_queue := []\<rparr>\<rparr>"
    let ?y6 = "(sys_diag (set_writer_state writer_failed) ?y5)\<lparr>sys_worker := W_Done\<rparr>"
    have 4: "sys_steps ?y3 ?y4" using run Inl by simp
    have 5: "sys_step ?y4 ?y5" by (rule w_drop) simp
    have 6: "sys_step ?y5 ?y6" by (rule w_latch) simp
    have "sys_steps y ?y4" using y3 4 by (rule rtranclp_trans)
    then have "sys_steps y ?y5" by (rule rtranclp.rtrancl_into_rtrancl) (rule 5)
    then have y6: "sys_steps y ?y6" by (rule rtranclp.rtrancl_into_rtrancl) (rule 6)
    have "?y6 = y\<lparr>sys_worker := if alive then W_Recv else W_Done, sys_store := s', sys_rep := rep',
           sys_next_ingested := n, sys_written := sys_written y @ (if alive then turn_batch (sys_rep y) else [])\<rparr>"
      using it q loop Inl batch by (intro system.equality) (auto simp: worker_iteration_def retry_metric_batch_write_def Let_def sys_diag_def on_diag_def)
    then show ?thesis using y6 by metis
  qed
qed

subsection \<open>Ingestion order\<close>

definition upsert :: "point_row list \<Rightarrow> point_row \<Rightarrow> point_row list" where
  "upsert rows w = filter (\<lambda>r. point_id r \<noteq> point_id w) rows @ [w]"

definition ingested_below :: "int \<Rightarrow> store \<Rightarrow> bool" where
  "ingested_below n s \<longleftrightarrow> (\<forall>row \<in> set (st_points s). pr_ingested_at row < n)"

lemma effective_upsert:
  assumes "\<forall>b \<in> set rows. pr_ingested_at b \<le> pr_ingested_at w"
  shows "effective (rows @ [w]) = upsert (effective rows) w"
proof -
  have "\<not> (\<exists>b \<in> set rows. same_point b w \<and> pr_ingested_at w < pr_ingested_at b)"
    using assms by (fastforce simp: not_less)
  moreover have "filter (\<lambda>r. \<not> (same_point w r \<and> pr_ingested_at r \<le> pr_ingested_at w)) (effective rows) =
                 filter (\<lambda>r. point_id r \<noteq> point_id w) (effective rows)"
    using assms effective_subset [of rows] by (intro filter_cong) (auto simp: same_point_id)
  ultimately show ?thesis by (simp add: effective_snoc upsert_def)
qed

lemma effective_batch:
  assumes "\<forall>b \<in> set rows. pr_ingested_at b < n"
  shows "effective (rows @ map point_of_write (batch_rows n rs)) =
         foldl upsert (effective rows) (map point_of_write (batch_rows n rs))"
  using assms
proof (induction rs arbitrary: rows n)
  case Nil
  then show ?case by simp
next
  case (Cons r rs)
  let ?w = "point_of_write (hd (batch_rows n (r # rs)))"
  have w: "pr_ingested_at ?w = n" by (simp add: point_of_write_def)
  have "effective (rows @ [?w]) = upsert (effective rows) ?w"
    using Cons.prems w by (intro effective_upsert) (auto simp: less_imp_le)
  moreover have "\<forall>b \<in> set (rows @ [?w]). pr_ingested_at b < n + 1" using Cons.prems w by auto
  ultimately show ?case using Cons.IH [of "rows @ [?w]" "n + 1"] by simp
qed

lemma batch_ingested: "row \<in> set (map point_of_write (batch_rows n rs)) \<Longrightarrow>
    n \<le> pr_ingested_at row \<and> pr_ingested_at row < n + int (length rs)"
  by (induction rs arbitrary: n) (force simp: point_of_write_def)+

subsection \<open>Properties\<close>

definition sample_system :: system where
  "sample_system = reported (sys_init sample_store 4 0)
     (make_report (open_with_capacity 4) ''r1'' ''loss'' 2 (F_Fin False 1) 8)"

lemma sample_system_simps:
  "sys_prod sample_system = P_Idle" "sys_worker sample_system = W_Recv" "sys_store sample_system = sample_store"
  "sys_accepted sample_system = [make_report (open_with_capacity 4) ''r1'' ''loss'' 2 (F_Fin False 1) 8]"
  "rep_queue (sys_rep sample_system) = [make_report (open_with_capacity 4) ''r1'' ''loss'' 2 (F_Fin False 1) 8]"
  "rep_next_seq (sys_rep sample_system) = 2" "sys_next_ingested sample_system = 0"
  "is_writer_failed (diag_of sample_system) = False" "d_persisted_through (diag_of sample_system) = 0"
  by (simp_all add: sample_system_def reported_def sys_init_def open_with_capacity_def on_diag_def
      diagnostics_default_def)

lemma sample_system_reachable: "reachable sample_system"
proof -
  have "sys_steps (sys_init sample_store 4 0) (reported (sys_init sample_store 4 0)
      (make_report (sys_rep (sys_init sample_store 4 0)) ''r1'' ''loss'' 2 (F_Fin False 1) 8))"
    by (rule report_run)
       (simp_all add: sys_init_def open_with_capacity_def diagnostics_default_def is_writer_failed_def)
  then show ?thesis unfolding reachable_def sample_system_def by (auto simp: sys_init_def)
qed

lemma sample_write: "\<exists>s'. write_metric_batch [make_report (open_with_capacity 4) ''r1'' ''loss'' 2 (F_Fin False 1) 8] 0 sample_store = (Ok 11, s')"
  by (simp add: write_metric_batch_def now_millis_def append_metric_batch_def map_err_op_def bind_op_def
        update_no_faults make_report_def open_with_capacity_def timestamp_from_millis_def sample_ts_ok append_flush_def)

lemma sample_turn:
  "\<exists>s' rep'. worker_iteration (sys_store sample_system) (sys_rep sample_system) (sys_next_ingested sample_system) =
     Some (True, s', rep', 11) \<and> d_persisted_through (rep_diag rep') = 1 \<and> \<not> is_writer_failed (rep_diag rep')"
proof -
  obtain s' where w: "write_metric_batch [make_report (open_with_capacity 4) ''r1'' ''loss'' 2 (F_Fin False 1) 8] 0 sample_store = (Ok 11, s')"
    using sample_write by blast
  have "rpt_seq (make_report (open_with_capacity 4) ''r1'' ''loss'' 2 (F_Fin False 1) 8) = 1"
    by (simp add: open_with_capacity_def)
  then show ?thesis
    by (simp add: worker_iteration_def sample_system_simps retry_metric_batch_write_def
        retry_loop.simps [of _ 0] w Let_def)
qed

lemma sample_drained:
  "\<exists>y' obs. sys_steps sample_system y' \<and> sys_accepted y' = sys_accepted sample_system \<and>
     drain_through (enqueue_barrier_sequence (sys_rep sample_system)) obs = Some (Ok ()) \<and>
     (\<forall>q \<in> set obs. \<exists>z. sys_steps sample_system z \<and> sys_steps z y' \<and> do_loop q = diag_of z)"
proof -
  obtain s' rep' where t: "worker_iteration (sys_store sample_system) (sys_rep sample_system) (sys_next_ingested sample_system) =
     Some (True, s', rep', 11)" "d_persisted_through (rep_diag rep') = 1" "\<not> is_writer_failed (rep_diag rep')"
    using sample_turn by blast
  obtain y' where y': "sys_steps sample_system y'" "sys_accepted y' = sys_accepted sample_system" "sys_rep y' = rep'"
    using worker_iteration_refines [OF t(1) sample_system_simps(2)] by fastforce
  let ?obs = "[\<lparr>do_loop = diag_of y', do_check = diag_of y', do_expired = False\<rparr>]"
  have "enqueue_barrier_sequence (sys_rep sample_system) = 1"
    by (simp add: enqueue_barrier_sequence_def sample_system_simps u64_sat_sub_def)
  then have "drain_through (enqueue_barrier_sequence (sys_rep sample_system)) ?obs = Some (Ok ())"
    using t y'(3) by simp
  with y' show ?thesis by (intro exI [of _ y'] exI [of _ ?obs]) auto
qed

text \<open>C1: a drain keeps its promise. If \<open>drain_through\<close> returns success for the barrier taken in some
  state, whatever the reporting threads and the worker do meanwhile, then every report accepted
  before the barrier has its row in the store when it returns.\<close>

theorem drain_persists_accepted:
  assumes "reachable y" and "sys_prod y = P_Idle" and "sys_steps y y'"
    and "length (sys_accepted y') + 1 < 2 ^ 64"
    and "drain_through (enqueue_barrier_sequence (sys_rep y)) obs = Some (Ok ())"
    and "\<forall>q \<in> set obs. \<exists>z. sys_steps y z \<and> sys_steps z y' \<and> do_loop q = diag_of z"
  shows "\<forall>r \<in> set (sys_accepted y). report_stored (sys_store y') r"
proof
  fix r assume "r \<in> set (sys_accepted y)"
  then obtain i where i: "i < length (sys_accepted y)" "sys_accepted y ! i = r" by (auto simp: in_set_conv_nth)
  obtain q where q: "q \<in> set obs" "enqueue_barrier_sequence (sys_rep y) \<le> d_persisted_through (do_loop q)"
    using drain_through_Ok [OF assms(5)] by blast
  obtain z where z: "sys_steps y z" "sys_steps z y'" "do_loop q = diag_of z" using assms(6) q(1) by blast
  obtain us where us: "sys_accepted z = sys_accepted y @ us" using accepted_grows [OF z(1)] by (auto simp: grows_def)
  obtain vs where vs: "sys_accepted y' = sys_accepted z @ vs" using accepted_grows [OF z(2)] by (auto simp: grows_def)
  have inv: "sys_inv y" "sys_inv z" using assms(1) reachable_inv reachable_steps z(1) by blast+
  have small: "length (sys_accepted y) + 1 < 2 ^ 64" "length (sys_accepted z) < 2 ^ 64"
    using assms(4) us vs by simp_all
  have "enqueue_barrier_sequence (sys_rep y) = of_nat (length (sys_accepted y))"
    using inv(1) assms(2) small(1) by (intro barrier_value) (simp_all add: sys_inv_def)
  then have "(of_nat (Suc i) :: u64) \<le> d_persisted_through (diag_of z)"
    using q(2) z(3) of_nat_u64_le [of "Suc i" "length (sys_accepted y)"] i(1) small(1) by (simp del: of_nat_Suc)
  then have "report_stored (sys_store z) (sys_accepted z ! i)"
    using inv(2) small(2) us i(1) by (intro through_stored) simp_all
  moreover have "sys_accepted z ! i = r" using us i by (simp add: nth_append)
  moreover have "store_le (sys_store z) (sys_store y')" by (rule store_steps_le [OF z(2)])
  ultimately show "report_stored (sys_store y') r" using report_stored_mono by blast
qed

theorem drain_persists_accepted_witness:
  "\<exists>y' r. sys_steps sample_system y' \<and> sys_accepted sample_system = [r] \<and> report_stored (sys_store y') r"
proof -
  obtain y' obs where y': "sys_steps sample_system y'" "sys_accepted y' = sys_accepted sample_system"
     "drain_through (enqueue_barrier_sequence (sys_rep sample_system)) obs = Some (Ok ())"
     "\<forall>q \<in> set obs. \<exists>z. sys_steps sample_system z \<and> sys_steps z y' \<and> do_loop q = diag_of z"
    using sample_drained by blast
  have "length (sys_accepted y') + 1 < 2 ^ 64" using y'(2) by (simp add: sample_system_simps)
  from drain_persists_accepted [OF sample_system_reachable sample_system_simps(1) y'(1) this y'(3,4)]
  have "report_stored (sys_store y') (make_report (open_with_capacity 4) ''r1'' ''loss'' 2 (F_Fin False 1) 8)"
    by (simp add: sample_system_simps)
  then show ?thesis using y'(1) sample_system_simps(4) by blast
qed



text \<open>A batch write is tried until it succeeds but at most six times, with the pauses 50, 100,
  200, 400 and 800 ms between the attempts; it fails only when all six attempts failed, and the
  result is that of the last attempt.\<close>

theorem retry_at_most_six:
  assumes "attempts wr writer_max_retries w = (errors, r, w')"
  shows "\<exists>d'. retry_metric_batch_write wr (w, d, []) =
                (r, (w', d', take (length errors) [50, 100, 200, 400, 800])) \<and>
           length errors \<le> 5 \<and> (\<forall>e. r = Err e \<longrightarrow> length errors = 5) \<and>
           (\<forall>n. r = Ok n \<longrightarrow> \<not> is_writer_failed d')"
proof -
  obtain d' where d: "retry_loop wr 0 50 (w, d, []) = (r, (w', d', [] @ take (length errors) (backoffs 5 50)))"
      "case r of Inr x \<Rightarrow> d' = set_writer_state writer_running
                 (if errors = [] then d else set_last_write_error (sanitize_metric_write_error (last errors))
                                         (set_writer_state writer_retrying d))
            | Inl e \<Rightarrow> d' = (if errors = [] then d else set_writer_state writer_retrying
                 (set_last_write_error (sanitize_metric_write_error (last errors)) d))"
    using retry_loop_attempts [OF assms, of 0 50 d "[]"] by auto
  have "\<forall>n. r = Ok n \<longrightarrow> \<not> is_writer_failed d'" using d(2) by auto
  then show ?thesis
    using d(1) attempts_length [OF assms] unfolding retry_metric_batch_write_def default_backoffs by auto
qed

definition flaky :: "(nat, engine_error, int) op" where
  "flaky n = (if n < 2 then (Err MetricDrainTimeout, n + 1) else (Ok 9, n))"

theorem retry_at_most_six_witness:
  "\<exists>d'. retry_metric_batch_write flaky (0, diagnostics_default, []) = (Ok 9, (2, d', [50, 100]))"
proof -
  have "attempts flaky 5 0 = ([MetricDrainTimeout, MetricDrainTimeout], Ok 9, 2)"
    by (simp add: attempts.simps [of flaky 5] attempts.simps [of flaky 4] attempts.simps [of flaky 3] flaky_def
                  numeral_eq_Suc attempts.simps)
  from retry_at_most_six [OF this, of diagnostics_default] show ?thesis by auto
qed



lemma report_metric_run:
  assumes "sys_prod y = P_Idle" and "report_metric rid key stp v now (sys_rep y) = (r, rep')"
  shows "sys_steps y (y\<lparr>sys_rep := rep', sys_accepted := sys_accepted y @
           (if r = Ok () then [make_report (sys_rep y) rid key stp v now] else [])\<rparr>)"
proof -
  let ?r = "make_report (sys_rep y) rid key stp v now"
  show ?thesis
  proof (cases "rep_sender (sys_rep y) \<and> \<not> is_writer_failed (diag_of y)")
    case False
    then have "rep' = sys_rep y" "r \<noteq> Ok ()" using assms(2) by (auto simp: report_metric_def split: if_splits)
    then show ?thesis by simp
  next
    case open_y: True
    let ?y1 = "y\<lparr>sys_prod := P_Checked ?r\<rparr>"
    let ?y2 = "(sys_diag increment_pending ?y1)\<lparr>sys_prod := P_Counted ?r\<rparr>"
    have "sys_step y ?y1" using assms(1) open_y by (intro p_check) simp_all
    moreover have "sys_step ?y1 ?y2" by (intro p_count) simp
    ultimately have y2: "sys_steps y ?y2" by (meson r_into_rtranclp rtranclp.rtrancl_into_rtrancl)
    consider "\<not> rep_receiver (sys_rep y)"
      | "rep_receiver (sys_rep y)" "rep_capacity (sys_rep y) \<le> length (rep_queue (sys_rep y))"
      | "rep_receiver (sys_rep y)" "length (rep_queue (sys_rep y)) < rep_capacity (sys_rep y)" by linarith
    then show ?thesis
    proof cases
      case 1
      let ?y3 = "(sys_diag (decrement_pending_by 1) ?y2)\<lparr>sys_prod := P_Idle\<rparr>"
      have "sys_step ?y2 ?y3" using 1 by (intro p_disconnected [of _ ?r]) simp_all
      with y2 have "sys_steps y ?y3" by (rule rtranclp.rtrancl_into_rtrancl)
      moreover have "sys_rep ?y3 = rep'" "r \<noteq> Ok ()"
        using assms(2) open_y 1 by (auto simp: report_metric_def sys_diag_def on_diag_def Let_def)
      moreover have "?y3 = y\<lparr>sys_rep := sys_rep ?y3\<rparr>" using assms(1) by (simp add: sys_diag_def on_diag_def)
      ultimately show ?thesis by simp
    next
      case 2
      let ?y3 = "(sys_diag (increment_queue_full \<circ> decrement_pending_by 1) ?y2)\<lparr>sys_prod := P_Idle\<rparr>"
      have "sys_step ?y2 ?y3" using 2 by (intro p_full [of _ ?r]) simp_all
      with y2 have "sys_steps y ?y3" by (rule rtranclp.rtrancl_into_rtrancl)
      moreover have "sys_rep ?y3 = rep'" "r \<noteq> Ok ()"
        using assms(2) open_y 2 by (auto simp: report_metric_def sys_diag_def on_diag_def Let_def)
      moreover have "?y3 = y\<lparr>sys_rep := sys_rep ?y3\<rparr>" using assms(1) by (simp add: sys_diag_def on_diag_def)
      ultimately show ?thesis by simp
    next
      case 3
      have "sys_steps y (reported y ?r)" using assms(1) open_y 3 by (intro report_run) simp_all
      moreover have "sys_rep (reported y ?r) = rep'" "r = Ok ()"
        using assms(2) open_y 3 by (auto simp: report_metric_def reported_def on_diag_def Let_def)
      moreover have "reported y ?r = y\<lparr>sys_rep := sys_rep (reported y ?r), sys_accepted := sys_accepted y @ [?r]\<rparr>"
        by (simp add: reported_def)
      ultimately show ?thesis by (simp only: if_True refl)
    qed
  qed
qed

text \<open>\<open>report_metric\<close> without interference is a run of the step relation: it changes the reporter as
  the steps do, extends the accepted reports exactly when it succeeds, and touches neither the
  store nor the worker.\<close>

theorem report_metric_refines:
  assumes "sys_prod y = P_Idle" and "report_metric rid key stp v now (sys_rep y) = (r, rep')"
  shows "\<exists>y'. sys_steps y y' \<and> sys_rep y' = rep' \<and> sys_prod y' = P_Idle \<and> sys_worker y' = sys_worker y \<and>
           sys_store y' = sys_store y \<and>
           sys_accepted y' = sys_accepted y @ (if r = Ok () then [make_report (sys_rep y) rid key stp v now] else [])"
  using report_metric_run [OF assms] assms(1)
  by (intro exI [of _ "y\<lparr>sys_rep := rep', sys_accepted := sys_accepted y @
      (if r = Ok () then [make_report (sys_rep y) rid key stp v now] else [])\<rparr>"]) simp

theorem report_metric_refines_witness:
  "\<exists>y'. sys_steps sample_system y' \<and> length (sys_accepted y') = 2"
proof -
  obtain rep' where "report_metric ''r1'' ''loss'' 3 fzero 9 (sys_rep sample_system) = (Ok (), rep')"
    by (simp add: report_metric_def sample_system_def reported_def sys_init_def open_with_capacity_def
        on_diag_def diagnostics_default_def Let_def)
  from report_metric_refines [OF sample_system_simps(1) this] show ?thesis
    by (auto simp: sample_system_simps)
qed

text \<open>Once the writer has failed and no reporting thread is past its check, the failure is never
  forgotten: whatever happens next, every report and every drain is answered with an error.\<close>

theorem latched_failure_refuses:
  assumes "crashed (sys_worker y)" and "is_writer_failed (diag_of y)" and "sys_prod y = P_Idle"
    and "sys_steps y y'"
  shows "is_writer_failed (diag_of y') \<and>
         (\<exists>e. fst (report_metric rid key stp v now (sys_rep y')) = Err e \<and>
            (rep_sender (sys_rep y') \<longrightarrow> e = writer_failure (diag_of y'))) \<and>
         drain_through barrier [\<lparr>do_loop = diag_of y', do_check = diag_of y', do_expired = late\<rparr>] =
           Some (Err (writer_failure (diag_of y')))"
proof -
  have "dead_failed y'" using dead_failed_steps [OF assms(4)] assms(1-3) by (simp add: dead_failed_def)
  then show ?thesis by (auto simp: dead_failed_def report_metric_def)
qed

theorem latched_failure_refuses_witness:
  "\<exists>e. fst (report_metric ''r'' ''k'' 0 fzero 0 (sys_rep (sample_system
      \<lparr>sys_worker := W_Done, sys_rep := on_diag (set_writer_state writer_failed) (sys_rep sample_system)\<rparr>))) = Err e"
proof -
  let ?y = "sample_system\<lparr>sys_worker := W_Done, sys_rep := on_diag (set_writer_state writer_failed) (sys_rep sample_system)\<rparr>"
  have "crashed (sys_worker ?y)" "is_writer_failed (diag_of ?y)" "sys_prod ?y = P_Idle" "sys_steps ?y ?y"
    by (simp_all add: on_diag_def sample_system_simps)
  from latched_failure_refuses [OF this, of "''r''" "''k''" 0 fzero 0] show ?thesis by blast
qed

text \<open>C20: a failure of the writer can be lost. There is a run in which a report passes its check before
  the worker latches the failure and stores \<open>RUNNING\<close> after it; from then on accepted reports are
  missing from the store, the failure is not visible, and a drain without a deadline never
  returns, whatever it observes.\<close>

theorem writer_failure_can_be_lost:
  "\<exists>y. reachable y \<and> sys_prod y = P_Idle \<and> (\<exists>r \<in> set (sys_accepted y). \<not> report_stored (sys_store y) r) \<and>
     (\<forall>obs. (\<forall>q \<in> set obs. \<not> do_expired q \<and> (\<exists>z. sys_steps y z \<and> do_loop q = diag_of z) \<and>
                           (\<exists>z. sys_steps y z \<and> do_check q = diag_of z)) \<longrightarrow>
        drain_through (enqueue_barrier_sequence (sys_rep y)) obs = None)"
proof -
  let ?s = "sample_store\<lparr>st_points := []\<rparr>"
  obtain y where y: "sys_steps (sys_init ?s 4 0) y" "dead_running y" "sys_prod y = P_Idle"
      "length (sys_accepted y) = 2" "st_points (sys_store y) = []" "d_persisted_through (diag_of y) = 0"
    using lost_failure_run [of ?s] by auto
  have reach: "reachable y" using y(1) by (auto simp: reachable_def)
  have "enqueue_barrier_sequence (sys_rep y) = of_nat (length (sys_accepted y))"
    using reachable_inv [OF reach] y(3,4) by (intro barrier_value) (simp_all add: sys_inv_def)
  then have barrier: "enqueue_barrier_sequence (sys_rep y) = 2" using y(4) by simp
  have later: "d_persisted_through (diag_of z) = 0 \<and> \<not> is_writer_failed (diag_of z)" if "sys_steps y z" for z
    using dead_running_steps [OF that y(2)] y(6) by (simp add: dead_running_def)
  have "drain_through (enqueue_barrier_sequence (sys_rep y)) obs = None"
    if obs: "\<forall>q \<in> set obs. \<not> do_expired q \<and> (\<exists>z. sys_steps y z \<and> do_loop q = diag_of z) \<and>
                           (\<exists>z. sys_steps y z \<and> do_check q = diag_of z)" for obs
  proof (rule drain_through_pending)
    fix q assume "q \<in> set obs"
    with obs later barrier show "d_persisted_through (do_loop q) < enqueue_barrier_sequence (sys_rep y) \<and>
        \<not> is_writer_failed (do_check q) \<and> \<not> do_expired q" by fastforce
  qed
  moreover have "\<exists>r \<in> set (sys_accepted y). \<not> report_stored (sys_store y) r"
    using y(4,5) by (cases "sys_accepted y") (auto simp: report_stored_def)
  ultimately show ?thesis using reach y(3) by blast
qed

theorem writer_failure_can_be_lost_witness:
  "\<exists>y. reachable y \<and> drain_through (enqueue_barrier_sequence (sys_rep y))
     [\<lparr>do_loop = diag_of y, do_check = diag_of y, do_expired = False\<rparr>] = None"
proof -
  obtain y where y: "reachable y" "\<forall>obs. (\<forall>q \<in> set obs. \<not> do_expired q \<and> (\<exists>z. sys_steps y z \<and> do_loop q = diag_of z) \<and>
                           (\<exists>z. sys_steps y z \<and> do_check q = diag_of z)) \<longrightarrow>
        drain_through (enqueue_barrier_sequence (sys_rep y)) obs = None"
    using writer_failure_can_be_lost by blast
  have "drain_through (enqueue_barrier_sequence (sys_rep y))
      [\<lparr>do_loop = diag_of y, do_check = diag_of y, do_expired = False\<rparr>] = None"
    by (rule y(2) [rule_format]) auto
  with y(1) show ?thesis by blast
qed

end
