(* ===== verification/Client_State.thy ===== *)
theory Client_State
  imports Bootstrap Alignment_Reader Ranking Reporter
begin

section \<open>The state of the client and its run writers (\<open>engine/client.rs\<close>, \<open>lock.rs\<close>)\<close>

text \<open>
  \<open>ActiveRun\<close> objects are shared between the table of active runs and the handles, so they live in
  an explicit store: an \<open>Arc<ActiveRun>\<close> is an index into \<open>cl_objs\<close>. The writer lock of a run is the
  lock file it holds; a lock is taken when another object of this client or another holder
  (\<open>le_held\<close>) has it. Nothing panics while a lock is held, so poisoned mutexes are left out.
\<close>

subsection \<open>Objects\<close>

datatype run_admission = Adm_Open | Adm_Closing | Adm_Terminal

record active_run =
  ar_guard :: "path option"
  ar_admission :: run_admission

definition active_run_open :: "path \<Rightarrow> active_run" where
  "active_run_open guard = \<lparr>ar_guard = Some guard, ar_admission = Adm_Open\<rparr>"

definition active_run_closed :: active_run where
  "active_run_closed = \<lparr>ar_guard = None, ar_admission = Adm_Terminal\<rparr>"

text \<open>\<open>NativeRun\<close>: the fields of the run, and the shared object.\<close>

record native_run =
  nr_run :: run
  nr_active :: nat

text \<open>The file system as the locks see it: what fails, and which lock files others hold.\<close>

record lock_env =
  le_dir :: "io_error option"
  le_open :: "path \<Rightarrow> io_error option"
  le_try :: "path \<Rightarrow> io_error option"
  le_held :: "path list"

text \<open>
  What one flush meets: the attempts on the flush lock as pairs (held by another thread, deadline
  passed), whether the deadline has passed once the lock is held, whether the interrupt timer
  fired before the statement completed, and whether the deadline has passed afterwards.
\<close>

record flush_env =
  fe_attempts :: "(bool \<times> bool) list"
  fe_late :: bool
  fe_interrupted :: bool
  fe_expired :: bool

definition flush_calm :: flush_env where
  "flush_calm = \<lparr>fe_attempts = [], fe_late = False, fe_interrupted = False, fe_expired = False\<rparr>"

text \<open>What happens while a drain sleeps: a turn of the worker, or a report through a handle.\<close>

datatype interference =
    Worker_Turn
  | Handle_Log nat metric_key step f64 int

record client =
  cl_root_path :: path
  cl_sys :: system
  cl_lttb :: lttb_ext
  cl_active_runs :: "(run_id \<times> nat) list"
  cl_objs :: "active_run list"
  cl_handles :: "native_run list"
  cl_is_shutdown :: bool
  cl_locks :: lock_env
  cl_uuids :: "string list"
  cl_flushes :: "flush_env list"
  cl_drains :: "(interference list \<times> bool) list"

type_synonym 'a client_op = "(client, engine_error, 'a) op"

abbreviation client_store :: "client \<Rightarrow> store" where
  "client_store w \<equiv> sys_store (cl_sys w)"

abbreviation client_reporter :: "client \<Rightarrow> reporter" where
  "client_reporter w \<equiv> sys_rep (cl_sys w)"

abbreviation accepted :: "client \<Rightarrow> metric_report list" where
  "accepted w \<equiv> sys_accepted (cl_sys w)"

subsection \<open>Statements on the connection\<close>

definition with_store :: "(store, engine_error, 'a) op \<Rightarrow> 'a client_op" where
  "with_store m w = (let (r, s) = m (client_store w) in (r, w\<lparr>cl_sys := (cl_sys w)\<lparr>sys_store := s\<rparr>\<rparr>))"

definition connection :: "(store, storage_error, 'a) op \<Rightarrow> 'a client_op" where
  "connection m = with_store (map_err_op engine_error_of m)"

definition on_reporter :: "(diagnostics_inner \<Rightarrow> diagnostics_inner) \<Rightarrow> unit client_op" where
  "on_reporter f w = (Ok (), w\<lparr>cl_sys := sys_diag f (cl_sys w)\<rparr>)"

subsection \<open>The lock file of a run\<close>

definition run_lock_dir :: "path \<Rightarrow> path" where
  "run_lock_dir root_path = path_join (path_join (path_join root_path ''.pulseon'') ''locks'') ''runs''"

definition run_lock_path :: "path \<Rightarrow> run_id \<Rightarrow> path" where
  "run_lock_path root_path rid = path_join (run_lock_dir root_path) (percent_encode_metric_key rid @ ''.lock'')"

definition run_writer_guard_acquire :: "path \<Rightarrow> lock_env \<Rightarrow> path list \<Rightarrow> run_id \<Rightarrow> (storage_error, path) res" where
  "run_writer_guard_acquire root_path env held rid =
     (case le_dir env of
        Some e \<Rightarrow> Err (SE_Storage ''creating run lock directory'' (path_basename (run_lock_dir root_path)) e)
      | None \<Rightarrow>
          let lock_path = run_lock_path root_path rid in
          case le_open env lock_path of
            Some e \<Rightarrow> Err (SE_Storage ''opening run lock file'' (path_basename lock_path) e)
          | None \<Rightarrow>
              if lock_path \<in> set held \<or> lock_path \<in> set (le_held env) then Err (SE_RunAlreadyActive rid)
              else case le_try env lock_path of
                     Some e \<Rightarrow> Err (SE_Storage ''locking run lock file'' (path_basename lock_path) e)
                   | None \<Rightarrow> Ok lock_path)"

definition held_locks :: "client \<Rightarrow> path list" where
  "held_locks w = concat (map (\<lambda>ob. case ar_guard ob of None \<Rightarrow> [] | Some p \<Rightarrow> [p]) (cl_objs w))"

subsection \<open>Active runs\<close>

definition on_object :: "nat \<Rightarrow> (active_run \<Rightarrow> active_run) \<Rightarrow> client \<Rightarrow> client" where
  "on_object i f w = w\<lparr>cl_objs := (cl_objs w)[i := f (cl_objs w ! i)]\<rparr>"

definition set_admission :: "run_admission \<Rightarrow> nat \<Rightarrow> unit client_op" where
  "set_admission adm i w = (Ok (), on_object i (\<lambda>ob. ob\<lparr>ar_admission := adm\<rparr>) w)"

abbreviation close_admission :: "nat \<Rightarrow> unit client_op" where
  "close_admission \<equiv> set_admission Adm_Closing"

abbreviation open_admission :: "nat \<Rightarrow> unit client_op" where
  "open_admission \<equiv> set_admission Adm_Open"

abbreviation mark_terminal :: "nat \<Rightarrow> unit client_op" where
  "mark_terminal \<equiv> set_admission Adm_Terminal"

definition drop_guard :: "active_run \<Rightarrow> active_run" where
  "drop_guard ob = ob\<lparr>ar_guard := None\<rparr>"

definition release_lock :: "nat \<Rightarrow> unit client_op" where
  "release_lock i w = (Ok (), on_object i drop_guard w)"

definition acquire_run_writer :: "run_id \<Rightarrow> nat client_op" where
  "acquire_run_writer rid w =
     (case map_of (cl_active_runs w) rid of
        Some i \<Rightarrow> (Ok i, w)
      | None \<Rightarrow>
          case run_writer_guard_acquire (cl_root_path w) (cl_locks w) (held_locks w) rid of
            Inl e \<Rightarrow> (Err (engine_error_of e), w)
          | Inr guard \<Rightarrow> (Ok (length (cl_objs w)),
              w\<lparr>cl_objs := cl_objs w @ [active_run_open guard],
                cl_active_runs := (rid, length (cl_objs w)) # cl_active_runs w\<rparr>))"

definition release_run_writer :: "run_id \<Rightarrow> unit client_op" where
  "release_run_writer rid w =
     (case map_of (cl_active_runs w) rid of
        None \<Rightarrow> (Ok (), w)
      | Some i \<Rightarrow> (Ok (), on_object i drop_guard
           (w\<lparr>cl_active_runs := filter (\<lambda>p. fst p \<noteq> rid) (cl_active_runs w)\<rparr>)))"

definition release_all_run_writers :: "unit client_op" where
  "release_all_run_writers w =
     (Ok (), fold (\<lambda>(_, i). on_object i drop_guard) (cl_active_runs w) (w\<lparr>cl_active_runs := []\<rparr>))"

subsection \<open>Handles\<close>

definition run_handle :: "run \<Rightarrow> client \<Rightarrow> nat \<times> client" where
  "run_handle run w =
     (case map_of (cl_active_runs w) (r_run_id run) of
        Some i \<Rightarrow> (length (cl_handles w),
           w\<lparr>cl_handles := cl_handles w @ [\<lparr>nr_run = run, nr_active = i\<rparr>]\<rparr>)
      | None \<Rightarrow> (length (cl_handles w),
           w\<lparr>cl_objs := cl_objs w @ [active_run_closed],
             cl_handles := cl_handles w @ [\<lparr>nr_run = run, nr_active = length (cl_objs w)\<rparr>]\<rparr>))"

definition with_open_admission :: "nat \<Rightarrow> run_id \<Rightarrow> unit client_op \<Rightarrow> unit client_op" where
  "with_open_admission i rid report w =
     (case ar_admission (cl_objs w ! i) of
        Adm_Open \<Rightarrow> report w
      | Adm_Closing \<Rightarrow> (Err (RunClosed rid), w)
      | Adm_Terminal \<Rightarrow> (Err (RunClosed rid), w))"

text \<open>\<open>report_metric\<close> on the reporter, with the history of accepted reports.\<close>

definition sys_report :: "run_id \<Rightarrow> metric_key \<Rightarrow> step \<Rightarrow> f64 \<Rightarrow> int \<Rightarrow> unit client_op" where
  "sys_report rid key stp v now w =
     (let (r, rep) = report_metric rid key stp v now (client_reporter w) in
      (r, w\<lparr>cl_sys := (cl_sys w)\<lparr>sys_rep := rep, sys_accepted := accepted w @
            (if r = Ok () then [make_report (client_reporter w) rid key stp v now] else [])\<rparr>\<rparr>))"

definition log_metric_at_step :: "native_run \<Rightarrow> metric_key \<Rightarrow> step \<Rightarrow> f64 \<Rightarrow> int \<Rightarrow> unit client_op" where
  "log_metric_at_step h key stp v now =
     with_open_admission (nr_active h) (r_run_id (nr_run h)) (sys_report (r_run_id (nr_run h)) key stp v now)"

subsection \<open>Draining while others run\<close>

text \<open>
  A turn of the worker: it writes the next batch, or ends when the channel is empty and the sender
  is gone. The worker has to be at \<open>recv\<close>.
\<close>

definition worker_turn :: "system \<Rightarrow> system" where
  "worker_turn y =
     (if sys_worker y \<noteq> W_Recv then y
      else case worker_iteration (sys_store y) (sys_rep y) (sys_next_ingested y) of
        Some (alive, s, rep, n) \<Rightarrow>
          y\<lparr>sys_worker := if alive then W_Recv else W_Done, sys_store := s, sys_rep := rep,
            sys_next_ingested := n, sys_written := sys_written y @ (if alive then turn_batch (sys_rep y) else [])\<rparr>
      | None \<Rightarrow>
          if rep_sender (sys_rep y) then y
          else y\<lparr>sys_worker := W_Done, sys_rep := (sys_rep y)\<lparr>rep_receiver := False\<rparr>\<rparr>)"

definition on_worker :: "client \<Rightarrow> client" where
  "on_worker w = w\<lparr>cl_sys := worker_turn (cl_sys w)\<rparr>"

fun interfere :: "interference \<Rightarrow> client \<Rightarrow> client" where
  "interfere Worker_Turn w = on_worker w"
| "interfere (Handle_Log h key stp v now) w =
     (if h < length (cl_handles w) then snd (log_metric_at_step (cl_handles w ! h) key stp v now w) else w)"

text \<open>
  The loop of \<open>drain_through\<close> with the interference of each iteration. \<open>None\<close>: the loop has not
  returned when the script ends.
\<close>

type_synonym 'a client_wait = "client \<Rightarrow> ((engine_error, 'a) res \<times> client) option"

fun drain_loop :: "u64 \<Rightarrow> bool \<Rightarrow> (interference list \<times> bool) list \<Rightarrow> unit client_wait" where
  "drain_loop barrier timed [] w = None"
| "drain_loop barrier timed ((acts, expired) # later) w =
     (let w1 = (fold interfere acts w)\<lparr>cl_drains := later\<rparr>; d = rep_diag (client_reporter w1) in
      if d_persisted_through d < barrier then
        (if is_writer_failed d then Some (Err (writer_failure d), w1)
         else if timed \<and> expired then Some (Err MetricDrainTimeout, w1)
         else drain_loop barrier timed later w1)
      else if is_writer_failed d then Some (Err (writer_failure d), w1)
      else Some (Ok (), w1))"

definition drain :: "nat option \<Rightarrow> unit client_wait" where
  "drain timeout w =
     drain_loop (enqueue_barrier_sequence (client_reporter w)) (timeout \<noteq> None) (cl_drains w) w"

definition bind_wait :: "'a client_op \<Rightarrow> ('a \<Rightarrow> 'b client_wait) \<Rightarrow> 'b client_wait" where
  "bind_wait m f w = (case m w of (Inl e, w') \<Rightarrow> Some (Err e, w') | (Inr x, w') \<Rightarrow> f x w')"

end
