(* ===== verification/Client.thy ===== *)
theory Client
  imports Client_State
begin

section \<open>The operations of the client (\<open>engine/client.rs\<close>)\<close>

text \<open>
  Every method of \<open>NativeClient\<close> as an operation on the client's state, in the order of its
  statements. Other threads act where the code waits for them: in the loop of a drain. \<open>finalize_run\<close>
  and \<open>shutdown\<close> contain that loop, so they may not return, and then their value is \<open>None\<close>.
\<close>

subsection \<open>Opening\<close>

text \<open>What the opened connection finds and the worker's first reading of the clock.\<close>

record open_env =
  oe_store :: store
  oe_start :: int
  oe_lttb :: lttb_ext
  oe_locks :: lock_env
  oe_uuids :: "string list"
  oe_flushes :: "flush_env list"
  oe_drains :: "(interference list \<times> bool) list"

definition new_client :: "path \<Rightarrow> nat \<Rightarrow> open_env \<Rightarrow> client" where
  "new_client root_path capacity env =
     \<lparr>cl_root_path = root_path, cl_sys = sys_init (oe_store env) capacity (oe_start env),
      cl_lttb = oe_lttb env, cl_active_runs = [], cl_objs = [], cl_handles = [], cl_is_shutdown = False,
      cl_locks = oe_locks env, cl_uuids = oe_uuids env, cl_flushes = oe_flushes env, cl_drains = oe_drains env\<rparr>"

definition open_with_catalog_backend_storage_config_mode ::
  "open_env \<Rightarrow> path \<Rightarrow> catalog_backend \<Rightarrow> path option \<Rightarrow> path option \<Rightarrow> s3_connection_config option \<Rightarrow> nat \<Rightarrow> bool \<Rightarrow>
   (boot, engine_error, client) op" where
  "open_with_catalog_backend_storage_config_mode env root_path backend catalog_path data_path s3 capacity must_exist =
     bind_op (map_err_op engine_error_of (open_native_connection_with_mode
         (with_backend_and_s3_config backend root_path catalog_path data_path s3) must_exist)) (\<lambda>_.
     ret_op (new_client root_path capacity env))"

definition open_with_catalog_backend_storage_config where
  "open_with_catalog_backend_storage_config env root_path backend catalog_path data_path s3 capacity =
     open_with_catalog_backend_storage_config_mode env root_path backend catalog_path data_path s3 capacity False"

definition open_existing_with_catalog_backend_storage_config where
  "open_existing_with_catalog_backend_storage_config env root_path backend catalog_path data_path s3 capacity =
     open_with_catalog_backend_storage_config_mode env root_path backend catalog_path data_path s3 capacity True"

definition open_with_storage_config where
  "open_with_storage_config env root_path catalog_path data_path capacity =
     open_with_catalog_backend_storage_config env root_path Backend_DuckDb catalog_path data_path None capacity"

definition open_with_metric_queue_capacity where
  "open_with_metric_queue_capacity env root_path capacity =
     open_with_storage_config env root_path None None capacity"

definition client_open where
  "client_open env root_path = open_with_metric_queue_capacity env root_path 65536"

subsection \<open>Projects\<close>

definition ensure_writeable :: "unit client_op" where
  "ensure_writeable w = (if cl_is_shutdown w then Err ClientClosed else Ok (), w)"

text \<open>\<open>unwrap_or_else\<close> with a fresh UUID; the library's random choices are the list \<open>cl_uuids\<close>.\<close>

definition given_or_uuid :: "string option \<Rightarrow> string client_op" where
  "given_or_uuid given w = (case given of
       Some i \<Rightarrow> (Ok i, w)
     | None \<Rightarrow> (case cl_uuids w of [] \<Rightarrow> (Ok [], w) | u # us \<Rightarrow> (Ok u, w\<lparr>cl_uuids := us\<rparr>)))"

definition project_exists :: "project_id \<Rightarrow> bool client_op" where
  "project_exists pid = connection (store_project_exists pid)"

definition require_project :: "project_id \<Rightarrow> unit client_op" where
  "require_project pid =
     bind_op (project_exists pid) (\<lambda>found. if found then ret_op () else fail_op (ProjectNotFound pid))"

definition create_project :: "string \<Rightarrow> project_id option \<Rightarrow> project client_op" where
  "create_project name given =
     bind_op ensure_writeable (\<lambda>_.
     bind_op (given_or_uuid given) (\<lambda>pid.
     bind_op (project_exists pid) (\<lambda>found.
     if found then fail_op (ProjectAlreadyExists pid)
     else bind_op (connection (current_timestamp ''created_at'')) (\<lambda>created_at.
          let project = \<lparr>p_project_id = pid, p_name = name, p_created_at = created_at\<rparr> in
          bind_op (connection (store_create_project project)) (\<lambda>_. ret_op project)))))"

definition get_project :: "project_id \<Rightarrow> project client_op" where
  "get_project pid =
     bind_op (connection (store_get_project pid)) (\<lambda>found.
     case found of None \<Rightarrow> fail_op (ProjectNotFound pid) | Some p \<Rightarrow> ret_op p)"

definition list_projects :: "project list client_op" where
  "list_projects = connection store_list_projects"

subsection \<open>Runs\<close>

definition run_status_value :: "run_status \<Rightarrow> string" where
  "run_status_value status = (case status of
       Running \<Rightarrow> ''running'' | Finished \<Rightarrow> ''finished'' | Failed \<Rightarrow> ''failed'')"

definition get_run :: "run_id \<Rightarrow> run client_op" where
  "get_run rid = connection (store_get_run rid)"

definition reject_existing_run :: "run_id \<Rightarrow> unit client_op" where
  "reject_existing_run rid w =
     (case get_run rid w of
        (Inr _, w') \<Rightarrow> (Err (RunAlreadyExists rid), w')
      | (Inl e, w') \<Rightarrow> (case e of RunNotFound _ \<Rightarrow> (Ok (), w') | _ \<Rightarrow> (Err e, w')))"

definition create_run :: "project_id \<Rightarrow> string \<Rightarrow> run_id option \<Rightarrow> run client_op" where
  "create_run pid name given =
     bind_op ensure_writeable (\<lambda>_.
     bind_op (require_project pid) (\<lambda>_.
     bind_op (given_or_uuid given) (\<lambda>rid.
     bind_op (reject_existing_run rid) (\<lambda>_.
     bind_op (acquire_run_writer rid) (\<lambda>active.
     catch_op (connection (write_create_run pid name rid)) (\<lambda>e.
       bind_op (release_run_writer rid) (\<lambda>_.
       bind_op (release_lock active) (\<lambda>_. fail_op e))))))))"

definition resume_run :: "run_id \<Rightarrow> run client_op" where
  "resume_run rid =
     bind_op ensure_writeable (\<lambda>_.
     bind_op (get_run rid) (\<lambda>run.
     if r_status run \<noteq> Running
     then fail_op (InvalidRunTransition rid (run_status_value (r_status run)) (run_status_value Running))
     else bind_op (acquire_run_writer rid) (\<lambda>_. ret_op run)))"

definition list_runs_filtered ::
  "project_id \<Rightarrow> run_status option \<Rightarrow> nat option \<Rightarrow> nat \<Rightarrow> run list client_op" where
  "list_runs_filtered pid status limit offset =
     bind_op (require_project pid) (\<lambda>_. connection (store_list_runs pid status limit offset))"

definition list_runs :: "project_id \<Rightarrow> run list client_op" where
  "list_runs pid = list_runs_filtered pid None None 0"

definition list_orphan_runs :: "project_id option \<Rightarrow> run list client_op" where
  "list_orphan_runs project =
     bind_op (case project of None \<Rightarrow> ret_op () | Some pid \<Rightarrow> require_project pid) (\<lambda>_.
     connection (store_list_orphan_runs project))"

subsection \<open>Flushing\<close>

definition next_flush :: "client \<Rightarrow> flush_env \<times> client" where
  "next_flush w = (case cl_flushes w of [] \<Rightarrow> (flush_calm, w) | f # fs \<Rightarrow> (f, w\<lparr>cl_flushes := fs\<rparr>))"

text \<open>Without a deadline the lock is waited for; with one, a script that ends finds the lock free.\<close>

fun flush_lock_attempts :: "(bool \<times> bool) list \<Rightarrow> (engine_error, unit) res" where
  "flush_lock_attempts [] = Ok ()"
| "flush_lock_attempts ((held, expired) # later) =
     (if \<not> held then Ok () else if expired then Err MetricFlushTimeout else flush_lock_attempts later)"

definition acquire_flush_lock :: "bool \<Rightarrow> flush_env \<Rightarrow> (engine_error, unit) res" where
  "acquire_flush_lock deadline f = (if deadline then flush_lock_attempts (fe_attempts f) else Ok ())"

definition flush_timed_out_op :: "run_id \<Rightarrow> 'a client_op" where
  "flush_timed_out_op rid =
     bind_op (on_reporter (set_flush_status flush_timed_out rid)) (\<lambda>_. fail_op MetricFlushTimeout)"

definition flush_with :: "run_id \<Rightarrow> bool \<Rightarrow> flush_env \<Rightarrow> unit client_op" where
  "flush_with rid deadline f =
     bind_op (on_reporter (set_flush_status flush_running rid)) (\<lambda>_.
     bind_op (catch_op (lift_op (acquire_flush_lock deadline f)) (\<lambda>e.
         bind_op (on_reporter (set_flush_status flush_timed_out rid)) (\<lambda>_. fail_op e))) (\<lambda>_.
     if deadline \<and> fe_late f then flush_timed_out_op rid
     else (\<lambda>w. let (result, w1) = connection store_flush_metric_points w in
       (if deadline \<and> (fe_expired f \<or> fe_interrupted f) then flush_timed_out_op rid
        else case result of
          Inr _ \<Rightarrow> on_reporter (set_flush_status flush_succeeded rid)
        | Inl _ \<Rightarrow> bind_op (on_reporter (set_flush_failed rid ''flush metric_points failed''))
                   (\<lambda>_. fail_op (MetricFlush ''flush metric_points failed''))) w1)))"

definition flush_run_data :: "run_id \<Rightarrow> nat option \<Rightarrow> unit client_op" where
  "flush_run_data rid timeout =
     bind_op ensure_writeable (\<lambda>_.
     bind_op (get_run rid) (\<lambda>run.
     if r_status run = Running
     then fail_op (InvalidRunTransition rid (run_status_value (r_status run)) ''flushed'')
     else (\<lambda>w. let (f, w1) = next_flush w in flush_with rid (timeout \<noteq> None) f w1)))"

subsection \<open>Ending a run\<close>

text \<open>The part of \<open>finalize_run\<close> after a successful drain.\<close>

definition complete_finalization :: "run_id \<Rightarrow> run_status \<Rightarrow> nat \<Rightarrow> run client_op" where
  "complete_finalization rid target active =
     bind_op (catch_op (connection (rebuild_metric_aggregates_for_run rid)) (\<lambda>e.
         bind_op (open_admission active) (\<lambda>_. fail_op e))) (\<lambda>_.
     bind_op (connection (current_timestamp ''finished_at'')) (\<lambda>finished_at.
     bind_op (connection (store_mark_run_terminal rid target finished_at)) (\<lambda>updated.
     if updated then
       bind_op (mark_terminal active) (\<lambda>_.
       bind_op (release_lock active) (\<lambda>_.
       bind_op (release_run_writer rid) (\<lambda>_.
       bind_op (flush_run_data rid None) (\<lambda>_.
       get_run rid))))
     else
       bind_op (get_run rid) (\<lambda>run.
       bind_op (open_admission active) (\<lambda>_.
       fail_op (InvalidRunTransition rid (run_status_value (r_status run)) (run_status_value target)))))))"

definition begin_finalization :: "run_id \<Rightarrow> run_status \<Rightarrow> nat client_op" where
  "begin_finalization rid target =
     bind_op ensure_writeable (\<lambda>_.
     bind_op (get_run rid) (\<lambda>run.
     if r_status run \<noteq> Running
     then fail_op (InvalidRunTransition rid (run_status_value (r_status run)) (run_status_value target))
     else bind_op (acquire_run_writer rid) (\<lambda>active.
          bind_op (close_admission active) (\<lambda>_. ret_op active))))"

definition finalize_run :: "run_id \<Rightarrow> run_status \<Rightarrow> nat option \<Rightarrow> run client_wait" where
  "finalize_run rid target timeout =
     bind_wait (begin_finalization rid target) (\<lambda>active w.
     case drain timeout w of
       None \<Rightarrow> None
     | Some (Inl e, w1) \<Rightarrow> Some (bind_op (open_admission active) (\<lambda>_. fail_op e) w1)
     | Some (Inr _, w1) \<Rightarrow> Some (complete_finalization rid target active w1))"

definition finish_run_with_timeout :: "run_id \<Rightarrow> nat option \<Rightarrow> run client_wait" where
  "finish_run_with_timeout rid timeout = finalize_run rid Finished timeout"

definition finish_run :: "run_id \<Rightarrow> run client_wait" where
  "finish_run rid = finish_run_with_timeout rid None"

definition fail_run_with_timeout :: "run_id \<Rightarrow> nat option \<Rightarrow> run client_wait" where
  "fail_run_with_timeout rid timeout = finalize_run rid Failed timeout"

definition fail_run :: "run_id \<Rightarrow> run client_wait" where
  "fail_run rid = fail_run_with_timeout rid None"

subsection \<open>Shutting down\<close>

definition turns_left :: "system \<Rightarrow> nat" where
  "turns_left y = (if sys_worker y = W_Recv then Suc (length (rep_queue (sys_rep y))) else 0)"

lemma worker_iteration_queue:
  "worker_iteration s rep n = Some (True, s', rep', n') \<Longrightarrow>
   rep_queue rep' = drop metric_batch_max_reports (rep_queue rep) \<and> rep_queue rep \<noteq> []"
  by (auto simp: worker_iteration_def Let_def drop_Cons' split: list.splits prod.splits sum.splits)

lemma turn_progress:
  assumes "sys_worker y = W_Recv" and "\<not> rep_sender (sys_rep y)"
  shows "turns_left (worker_turn y) < turns_left y"
proof (cases "worker_iteration (sys_store y) (sys_rep y) (sys_next_ingested y)")
  case None
  then show ?thesis using assms by (simp add: worker_turn_def turns_left_def)
next
  case (Some a)
  then obtain alive s rep n where a: "worker_iteration (sys_store y) (sys_rep y) (sys_next_ingested y) = Some (alive, s, rep, n)"
    by (cases a) auto
  show ?thesis
  proof (cases alive)
    case True
    then have "length (rep_queue rep) < length (rep_queue (sys_rep y))"
      using worker_iteration_queue a by simp
    then show ?thesis using a assms True by (simp add: worker_turn_def turns_left_def)
  next
    case False
    then show ?thesis using a assms by (simp add: worker_turn_def turns_left_def)
  qed
qed

text \<open>
  Joining the worker: with the sender gone it takes turns until the channel is empty or a batch
  fails for good.
\<close>

function join_worker :: "system \<Rightarrow> system" where
  "join_worker y =
     (if sys_worker y = W_Recv \<and> \<not> rep_sender (sys_rep y) then join_worker (worker_turn y) else y)"
  by pat_completeness auto

termination
  by (relation "measure turns_left") (simp_all add: turn_progress)

declare join_worker.simps [simp del]

text \<open>\<open>MetricReporter::shutdown\<close>: taking the sender out of its mutex drops it.\<close>

definition take_sender :: "client \<Rightarrow> client" where
  "take_sender w = w\<lparr>cl_sys := (cl_sys w)\<lparr>sys_rep := (client_reporter w)\<lparr>rep_sender := False\<rparr>\<rparr>\<rparr>"

definition take_worker :: "client \<Rightarrow> client" where
  "take_worker w =
     (if rep_worker (client_reporter w)
      then (let y = join_worker (cl_sys w) in w\<lparr>cl_sys := y\<lparr>sys_rep := (sys_rep y)\<lparr>rep_worker := False\<rparr>\<rparr>\<rparr>)
      else w)"

definition reporter_shutdown :: "nat option \<Rightarrow> unit client_wait" where
  "reporter_shutdown timeout w =
     (case drain timeout w of
        None \<Rightarrow> None
      | Some (r, w1) \<Rightarrow>
          if r = Err MetricDrainTimeout then Some (r, w1)
          else (let w2 = take_worker (take_sender w1) in
                Some (r, if r = Ok () then snd (on_reporter (set_writer_state writer_closed) w2) else w2)))"

definition shutdown :: "nat option \<Rightarrow> unit client_wait" where
  "shutdown timeout w =
     (case reporter_shutdown timeout w of
        None \<Rightarrow> None
      | Some (result, w1) \<Rightarrow>
          let w2 = (if result \<noteq> Err MetricDrainTimeout then snd (release_all_run_writers w1) else w1)
          in Some (result, if result = Ok () then w2\<lparr>cl_is_shutdown := True\<rparr> else w2))"

definition diagnostics :: "client \<Rightarrow> reporter_diagnostics" where
  "diagnostics w = snapshot (rep_diag (client_reporter w))"

subsection \<open>Queries\<close>

definition with_reader :: "(reader, engine_error, 'a) op \<Rightarrow> 'a client_op" where
  "with_reader m w = (let (r, (s, x)) = m (client_store w, cl_lttb w) in
     (r, w\<lparr>cl_sys := (cl_sys w)\<lparr>sys_store := s\<rparr>, cl_lttb := x\<rparr>))"

definition client_query_metric_with_metadata ::
  "run_id \<Rightarrow> metric_key \<Rightarrow> step option \<Rightarrow> step option \<Rightarrow> nat option \<Rightarrow> metric_query_result client_op" where
  "client_query_metric_with_metadata rid key start_step end_step max_points =
     with_reader (native_query_metric (\<lambda>_. []) rid key start_step end_step max_points)"

definition client_query_metric ::
  "run_id \<Rightarrow> metric_key \<Rightarrow> step option \<Rightarrow> step option \<Rightarrow> nat option \<Rightarrow> metric_point list client_op" where
  "client_query_metric rid key start_step end_step max_points =
     bind_op (client_query_metric_with_metadata rid key start_step end_step max_points)
       (\<lambda>result. ret_op (mqr_points result))"

definition client_query_aligned_metric :: "alignment_query \<Rightarrow> aligned_metric_result client_op" where
  "client_query_aligned_metric q =
     bind_op (get_run (aq_run_id q)) (\<lambda>run. with_store (native_query_aligned q (r_status run)))"

definition client_objective_evidence :: "run_id \<Rightarrow> objective_metric \<Rightarrow> objective_evidence client_op" where
  "client_objective_evidence rid objective =
     bind_op (get_run rid) (\<lambda>run. with_store (native_objective_evidence rid (r_status run) objective))"

definition store_ranking_evidence :: "store evidence_op" where
  "store_ranking_evidence ids objective =
     bind_op (map_err_op engine_error_of (store_get_runs ids)) (\<lambda>runs.
     bind_op (native_objective_evidence_for_runs runs objective) (\<lambda>evidence.
     ret_op (zip runs evidence)))"

definition ranking_evidence :: "client evidence_op" where
  "ranking_evidence ids objective = with_store (store_ranking_evidence ids objective)"

definition client_query_metric_summaries :: "run_id list \<Rightarrow> metric_key \<Rightarrow> metric_aggregate list client_op" where
  "client_query_metric_summaries ids key = connection (query_metric_summaries ids key)"

definition client_list_metrics :: "run_id \<Rightarrow> metric_aggregate list client_op" where
  "client_list_metrics rid =
     bind_op (get_run rid) (\<lambda>run. connection (list_metrics rid (r_status run)))"

text \<open>The comparison and ranking methods of the client are those of \<open>Comparison\<close> and \<open>Ranking\<close> on the
  evidence of its own store.\<close>

definition client_comparison_reports ::
  "run_id list \<Rightarrow> run_id \<Rightarrow> objective_metric \<Rightarrow> metric_key list \<Rightarrow> comparison_report list option client_op" where
  "client_comparison_reports = comparison_reports ranking_evidence"

definition client_compare_runs :: "run_id \<Rightarrow> run_id \<Rightarrow> objective_metric \<Rightarrow> comparison_result client_op" where
  "client_compare_runs = compare_runs client_objective_evidence"

definition client_rank_runs :: "run_id list \<Rightarrow> objective_metric \<Rightarrow> ranking_result client_op" where
  "client_rank_runs = rank_runs ranking_evidence"

definition client_best_eligible_run :: "run_id list \<Rightarrow> objective_metric \<Rightarrow> run_id option client_op" where
  "client_best_eligible_run = best_eligible_run ranking_evidence"

end
