(* ===== verification/Client_Runs.thy ===== *)
theory Client_Runs
  imports Client
begin

section \<open>The life of a run in the client\<close>

text \<open>
  The invariant of the client's state, its preservation by every operation and by the threads
  that act during a drain, and the properties of a run from its creation to its end.
\<close>

subsection \<open>Statements that keep the runs\<close>

text \<open>A statement extends the store and never makes two runs share an identity.\<close>

definition store_ok :: "store \<Rightarrow> store \<Rightarrow> bool" where
  "store_ok s s' \<longleftrightarrow> store_le s s' \<and> (unique_runs s \<longrightarrow> unique_runs s')"

interpretation storing: state_preorder store_ok
  by unfold_locales (auto simp: store_ok_def intro: growth.refl_state growth.trans_state)

lemma same_tables_ok: "same_tables s s' \<Longrightarrow> store_ok s s'"
  by (simp add: store_ok_def same_tables_le unique_runs_same)

lemma steps_ok_read: "steps_op same_tables m \<Longrightarrow> steps_op store_ok m"
  by (simp add: steps_op_def same_tables_ok)

text \<open>A statement that leaves the runs alone.\<close>

definition points_le :: "store \<Rightarrow> store \<Rightarrow> bool" where
  "points_le s s' \<longleftrightarrow> grows (st_points s) (st_points s') \<and> st_runs s' = st_runs s \<and>
     st_projects s' = st_projects s \<and> st_aggregates s' = st_aggregates s \<and> st_env s' = st_env s"

interpretation pointing: state_preorder points_le
  by unfold_locales (auto simp: points_le_def intro: grows_trans)

lemma points_le_ok: "points_le s s' \<Longrightarrow> store_ok s s'"
  by (simp add: points_le_def store_ok_def store_le_def unique_runs_def)

lemma same_tables_points: "same_tables s s' \<Longrightarrow> points_le s s'"
  by (simp add: points_le_def same_tables_def)

lemma steps_points_read: "steps_op same_tables m \<Longrightarrow> steps_op points_le m"
  by (simp add: steps_op_def same_tables_points)

lemma steps_points_update:
  assumes "\<And>s. points_le s (f s)"
  shows "steps_op points_le (update f)"
proof (rule steps_opI)
  fix s r s' assume run: "update f s = (r, s')"
  show "points_le s s'"
  proof (cases r)
    case (Inl e)
    then show ?thesis using run by (auto simp: update_def exec_Err intro: same_tables_points)
  next
    case (Inr x)
    then obtain fs where "s' = f (s\<lparr>st_faults := fs\<rparr>)" using run by (auto simp: update_Ok)
    then show ?thesis
      using pointing.trans_state [OF same_tables_points [OF same_tables_scripts(1)] assms] by simp
  qed
qed

lemma points_le_more: "points_le s s' \<Longrightarrow> points_le s (s'\<lparr>st_points := st_points s' @ ps\<rparr>)"
  by (auto simp: points_le_def intro: grows_trans)

lemma steps_points_rows: "steps_op points_le (append_rows acc ws)"
proof (induction ws arbitrary: acc)
  case Nil
  show ?case unfolding append_rows.simps by (rule pointing.steps_ret)
next
  case (Cons w ws)
  let ?m = "bind_op (env_lift (\<lambda>env. timestamp_from_millis env ''timestamp'' (mw_timestamp_millis w))) (\<lambda>_.
           bind_op (env_lift (\<lambda>env. timestamp_from_millis env ''ingested_at'' (mw_ingested_at_millis w))) (\<lambda>_.
           update (\<lambda>s. s)))"
  have m: "steps_op points_le ?m"
    by (intro pointing.steps_rules steps_points_read [OF steps_env_lift] steps_points_update pointing.refl_state)
  show ?case
  proof (rule steps_opI)
    fix s r s' assume run: "append_rows acc (w # ws) s = (r, s')"
    obtain r1 s1 where r1: "?m s = (r1, s1)" by fastforce
    have le: "points_le s s1" by (rule steps_opD [OF m r1])
    show "points_le s s'"
    proof (cases r1)
      case (Inl e)
      then show ?thesis using run r1 points_le_more [OF le] by auto
    next
      case (Inr u)
      then have "append_rows (acc @ [point_of_write w]) ws s1 = (r, s')" using run r1 by simp
      then show ?thesis using pointing.trans_state [OF le] steps_opD [OF Cons.IH] by blast
    qed
  qed
qed

lemma steps_points_flush: "steps_op points_le (append_flush rows)"
proof (rule steps_opI)
  fix s r s' assume run: "append_flush rows s = (r, s')"
  let ?u = "update (\<lambda>s. s\<lparr>st_points := st_points s @ rows\<rparr>)"
  obtain r1 s1 where r1: "?u s = (r1, s1)" by fastforce
  have "steps_op points_le ?u" by (intro steps_points_update points_le_more pointing.refl_state)
  then have le: "points_le s s1" using r1 by (rule steps_opD)
  show "points_le s s'"
    using run r1 le points_le_more [OF le] by (cases r1) (auto simp: append_flush_def)
qed

lemma write_batch_points:
  assumes "write_metric_batch b n (s\<lparr>st_faults := fs, st_clock := cs\<rparr>) = (r, s')"
  shows "points_le s s'"
proof -
  let ?s = "s\<lparr>st_faults := fs, st_clock := cs\<rparr>"
  obtain now s1 where now: "now_millis ?s = (now, s1)" by fastforce
  have "steps_op points_le (bind_op (map_err_op engine_error_of (append_metric_batch (batch_rows (max n now) b)))
        (\<lambda>_. ret_op (max n now + int (length b))))"
    unfolding append_metric_batch_def
    by (intro pointing.steps_rules steps_points_rows steps_points_flush steps_points_update pointing.refl_state)
  then have "points_le s1 s'" using assms now by (auto simp: write_metric_batch_def Let_def intro: steps_opD)
  moreover have "points_le s s1"
    using now_millis_frame [OF now] by (auto simp: points_le_def same_tables_def)
  ultimately show ?thesis using pointing.trans_state by blast
qed

lemma sys_steps_points: "sys_steps y y' \<Longrightarrow> points_le (sys_store y) (sys_store y')"
proof (induction rule: rtranclp_induct)
  case base
  show ?case by (rule pointing.refl_state)
next
  case (step y1 y2)
  have "points_le (sys_store y1) (sys_store y2)"
    using step(2) by (cases rule: sys_step.cases)
      (auto simp: pointing.refl_state dest: write_batch_points)
  then show ?case using pointing.trans_state step(3) by blast
qed

lemma rebuild_ok: "steps_op store_ok (rebuild_metric_aggregates_for_run rid)"
proof (rule steps_opI)
  fix s r s' assume run: "rebuild_metric_aggregates_for_run rid s = (r, s')"
  have "steps_op (\<lambda>s s'. st_runs s' = st_runs s) (rebuild_metric_aggregates_for_run rid)"
    unfolding rebuild_metric_aggregates_for_run_def update_def exec_def bind_op_def steps_op_def
    by (auto split: list.splits option.splits prod.splits sum.splits)
  then have "st_runs s' = st_runs s" using run by (rule steps_opD)
  then show "store_ok s s'"
    using steps_opD [OF store_writes(8) run] by (simp add: store_ok_def unique_runs_def)
qed

lemma create_ok: "steps_op store_ok (write_create_run pid name rid)"
  by (rule steps_opI) (use create_run_unique steps_opD [OF store_writes(2)] in \<open>auto simp: store_ok_def\<close>)

lemma mark_ok: "steps_op store_ok (store_mark_run_terminal rid status t)"
  by (rule steps_opI) (use mark_unique steps_opD [OF store_writes(3)] in \<open>auto simp: store_ok_def\<close>)

lemma other_writes_ok:
  "steps_op store_ok (store_create_project p)" "steps_op store_ok store_flush_metric_points"
proof -
  have "steps_op (\<lambda>s s'. st_runs s' = st_runs s) (store_create_project p)"
       "steps_op (\<lambda>s s'. st_runs s' = st_runs s) store_flush_metric_points"
    unfolding store_create_project_def store_flush_metric_points_def update_def exec_def steps_op_def
    by (auto split: list.splits option.splits)
  then show "steps_op store_ok (store_create_project p)" "steps_op store_ok store_flush_metric_points"
    using store_writes(1,4) by (auto simp: steps_op_def store_ok_def unique_runs_def)
qed

lemmas statements_ok = rebuild_ok create_ok mark_ok other_writes_ok
  reads [THEN steps_ok_read] steps_current_timestamp [THEN steps_ok_read]

lemma store_le_ids: "store_le s s' \<Longrightarrow> sr_run_id ` set (st_runs s) \<subseteq> sr_run_id ` set (st_runs s')"
proof -
  assume "store_le s s'"
  then obtain us ts where u: "st_runs s' = us @ ts" "list_all2 run_row_le (st_runs s) us"
    by (auto simp: store_le_def runs_le_def)
  have "map sr_run_id (st_runs s) = map sr_run_id us"
    using u(2) by (induction rule: list_all2_induct) (auto simp: run_row_le_def)
  then have "sr_run_id ` set (st_runs s) = sr_run_id ` set us" using set_map by metis
  then show ?thesis using u(1) by auto
qed

subsection \<open>Lock files\<close>

lemma starts_slash: "starts_with s ''/'' \<longleftrightarrow> (\<exists>t. s = CHR ''/'' # t)"
  by (simp add: starts_with_iff)

lemma path_join_last: "p \<noteq> [] \<Longrightarrow> path_join base p \<noteq> [] \<and> last (path_join base p) = last p"
  by (simp add: path_join_def)

lemma lock_file_no_slash: "\<not> starts_with (percent_encode_metric_key rid @ ''.lock'') ''/''"
proof
  assume "starts_with (percent_encode_metric_key rid @ ''.lock'') ''/''"
  then have "CHR ''/'' \<in> set (percent_encode_metric_key rid)"
    by (cases "percent_encode_metric_key rid") (auto simp: starts_slash)
  then have "encoded_byte (CHR ''/'')" by (rule encoded_bytes)
  then show False by (simp add: encoded_byte_def unreserved_def char_nat_def)
qed

lemma path_join_relative:
  assumes "base \<noteq> []" and "last base \<noteq> CHR ''/''" and "\<not> starts_with p ''/''"
  shows "path_join base p = base @ ''/'' @ p"
  using assms by (simp add: path_join_def)

lemma run_lock_path_inj: "run_lock_path root_path a = run_lock_path root_path b \<longleftrightarrow> a = b"
proof -
  have dir: "run_lock_dir root_path \<noteq> []" "last (run_lock_dir root_path) \<noteq> CHR ''/''"
    using path_join_last [of "''runs''"] by (simp_all add: run_lock_dir_def)
  have eq: "run_lock_path root_path rid = run_lock_dir root_path @ ''/'' @ percent_encode_metric_key rid @ ''.lock''" for rid
    unfolding run_lock_path_def by (rule path_join_relative [OF dir lock_file_no_slash])
  have "percent_encode_metric_key a = percent_encode_metric_key b \<Longrightarrow> a = b"
    by (metis percent_decode_encode)
  then show ?thesis unfolding eq by auto
qed

subsection \<open>The invariant\<close>

text \<open>Between two steps of a client the reporter is at rest, and its history is sound.\<close>

definition sys_ok :: "system \<Rightarrow> bool" where
  "sys_ok y \<longleftrightarrow> sys_inv y \<and> sys_prod y = P_Idle \<and> (sys_worker y = W_Recv \<or> sys_worker y = W_Done) \<and>
     unique_runs (sys_store y)"

text \<open>
  The table of active runs: every run has one object, which holds the lock file of the run, that
  file is held by nobody else, and no other object holds a file.
\<close>

definition table_ok :: "client \<Rightarrow> bool" where
  "table_ok w \<longleftrightarrow> distinct (map fst (cl_active_runs w)) \<and> distinct (map snd (cl_active_runs w)) \<and>
     (\<forall>(rid, i) \<in> set (cl_active_runs w). i < length (cl_objs w) \<and>
        ar_guard (cl_objs w ! i) = Some (run_lock_path (cl_root_path w) rid) \<and>
        run_lock_path (cl_root_path w) rid \<notin> set (le_held (cl_locks w))) \<and>
     (\<forall>i < length (cl_objs w). ar_guard (cl_objs w ! i) \<noteq> None \<longrightarrow> i \<in> snd ` set (cl_active_runs w))"

text \<open>
  A handle on an active object is a handle of its run; a handle on an object that is no longer
  active is terminal, unless the reporter takes no more reports.
\<close>

definition handles_ok :: "client \<Rightarrow> bool" where
  "handles_ok w \<longleftrightarrow> (\<forall>h \<in> set (cl_handles w). nr_active h < length (cl_objs w) \<and>
     (\<forall>rid. (rid, nr_active h) \<in> set (cl_active_runs w) \<longrightarrow> r_run_id (nr_run h) = rid) \<and>
     (ar_admission (cl_objs w ! nr_active h) \<noteq> Adm_Terminal \<and> nr_active h \<notin> snd ` set (cl_active_runs w) \<longrightarrow>
        \<not> rep_sender (client_reporter w)))"

definition runs_exist :: "client \<Rightarrow> bool" where
  "runs_exist w \<longleftrightarrow> fst ` set (cl_active_runs w) \<subseteq> sr_run_id ` set (st_runs (client_store w))"

definition client_inv :: "client \<Rightarrow> bool" where
  "client_inv w \<longleftrightarrow> sys_ok (cl_sys w) \<and> table_ok w \<and> handles_ok w \<and> runs_exist w"

text \<open>What every operation does to the store and the history, failing or not.\<close>

definition client_le :: "client \<Rightarrow> client \<Rightarrow> bool" where
  "client_le w w' \<longleftrightarrow> store_le (client_store w) (client_store w') \<and> grows (accepted w) (accepted w')"

lemma client_le_refl [simp]: "client_le w w"
  by (simp add: client_le_def growth.refl_state)

lemma client_le_trans: "client_le u v \<Longrightarrow> client_le v w \<Longrightarrow> client_le u w"
  by (auto simp: client_le_def intro: growth.trans_state grows_trans)

subsection \<open>Steps that leave the runs of the client alone\<close>

definition calm :: "client \<Rightarrow> client \<Rightarrow> bool" where
  "calm w w' \<longleftrightarrow> cl_active_runs w' = cl_active_runs w \<and> cl_objs w' = cl_objs w \<and> cl_handles w' = cl_handles w \<and>
     cl_is_shutdown w' = cl_is_shutdown w \<and> cl_locks w' = cl_locks w \<and> cl_root_path w' = cl_root_path w \<and>
     rep_sender (client_reporter w') = rep_sender (client_reporter w) \<and>
     (sys_ok (cl_sys w) \<longrightarrow> sys_ok (cl_sys w')) \<and> client_le w w'"

interpretation calming: state_preorder calm
  by unfold_locales (auto simp: calm_def intro: client_le_trans)

lemma calm_inv:
  assumes "calm w w'" and "client_inv w"
  shows "client_inv w'"
proof -
  have "runs_exist w'"
    using assms store_le_ids [of "client_store w" "client_store w'"] order_trans
    unfolding calm_def client_inv_def runs_exist_def client_le_def by (elim conjE) simp
  with assms show ?thesis
    by (simp add: calm_def client_inv_def table_ok_def handles_ok_def)
qed

lemma sys_inv_store: "sys_inv y \<Longrightarrow> store_le (sys_store y) s \<Longrightarrow> sys_inv (y\<lparr>sys_store := s\<rparr>)"
  using report_stored_mono [of "sys_store y" s]
  by (auto simp: sys_inv_def inv_seq_def inv_fifo_def inv_stored_def inv_counters_def inv_bounds_def inv_through_def)

lemma calm_with_store:
  assumes "steps_op store_ok m"
  shows "steps_op calm (with_store m)"
proof (rule steps_opI)
  fix w r w' assume run: "with_store m w = (r, w')"
  obtain r1 s where s: "m (client_store w) = (r1, s)" by (cases "m (client_store w)")
  have "store_ok (client_store w) s" by (rule steps_opD [OF assms s])
  then have "store_le (client_store w) s" "sys_ok (cl_sys w) \<Longrightarrow> sys_ok ((cl_sys w)\<lparr>sys_store := s\<rparr>)"
    using sys_inv_store [of "cl_sys w" s] by (simp_all add: store_ok_def sys_ok_def)
  moreover have "w' = w\<lparr>cl_sys := (cl_sys w)\<lparr>sys_store := s\<rparr>\<rparr>"
    using run s by (simp add: with_store_def)
  ultimately show "calm w w'" by (simp add: calm_def client_le_def)
qed

lemma calm_connection: "steps_op store_ok m \<Longrightarrow> steps_op calm (connection m)"
  unfolding connection_def by (intro calm_with_store storing.steps_map_err)

lemma flush_setter_frame:
  "d_pending (set_flush_status st rid d) = d_pending d" "d_persisted (set_flush_status st rid d) = d_persisted d"
  "d_persisted_through (set_flush_status st rid d) = d_persisted_through d"
  "d_pending (set_flush_failed rid m d) = d_pending d" "d_persisted (set_flush_failed rid m d) = d_persisted d"
  "d_persisted_through (set_flush_failed rid m d) = d_persisted_through d"
  "d_pending (set_writer_state st d) = d_pending d" "d_persisted (set_writer_state st d) = d_persisted d"
  "d_persisted_through (set_writer_state st d) = d_persisted_through d"
  by (simp_all add: set_flush_status_def set_flush_failed_def set_last_flush_run_id_def set_writer_state_def)

text \<open>The settings of the diagnostics that the client makes do not touch the counters.\<close>

definition uncounted_setting :: "(diagnostics_inner \<Rightarrow> diagnostics_inner) \<Rightarrow> bool" where
  "uncounted_setting f \<longleftrightarrow> (\<forall>d. d_pending (f d) = d_pending d \<and> d_persisted (f d) = d_persisted d \<and>
     d_persisted_through (f d) = d_persisted_through d)"

lemma uncounted_settings [simp]:
  "uncounted_setting (set_flush_status st rid)" "uncounted_setting (set_flush_failed rid m)"
  "uncounted_setting (set_writer_state st)"
  by (simp_all add: uncounted_setting_def flush_setter_frame)

lemma sys_ok_setting: "uncounted_setting f \<Longrightarrow> sys_ok y \<Longrightarrow> sys_ok (sys_diag f y)"
  by (simp add: sys_ok_def sys_inv_def inv_seq_def inv_fifo_def inv_stored_def inv_counters_def inv_bounds_def
      inv_through_def uncounted_setting_def)

lemma calm_on_reporter: "uncounted_setting f \<Longrightarrow> steps_op calm (on_reporter f)"
  by (rule steps_opI) (auto simp: on_reporter_def calm_def client_le_def growth.refl_state sys_ok_setting)

text \<open>Interference during a drain.\<close>

lemma sys_ok_steps:
  "sys_steps y y' \<Longrightarrow> sys_ok y \<Longrightarrow> sys_prod y' = P_Idle \<Longrightarrow> sys_worker y' = W_Recv \<or> sys_worker y' = W_Done \<Longrightarrow> sys_ok y'"
  using sys_inv_steps [of y y'] sys_steps_points [of y y'] by (simp add: sys_ok_def points_le_def unique_runs_def)

lemma worker_iteration_sender:
  "worker_iteration s rep n = Some (alive, s', rep', n') \<Longrightarrow> rep_sender rep' = rep_sender rep"
  by (auto simp: worker_iteration_def Let_def split: list.splits prod.splits sum.splits)

lemma worker_turn_steps: "sys_steps y (worker_turn y)"
proof (cases "sys_worker y = W_Recv")
  case True
  show ?thesis
  proof (cases "worker_iteration (sys_store y) (sys_rep y) (sys_next_ingested y)")
    case None
    then have "rep_queue (sys_rep y) = []"
      by (auto simp: worker_iteration_def Let_def split: list.splits prod.splits sum.splits)
    then have "\<not> rep_sender (sys_rep y) \<Longrightarrow> sys_step y (y\<lparr>sys_worker := W_Done, sys_rep := (sys_rep y)\<lparr>rep_receiver := False\<rparr>\<rparr>)"
      using True by (intro w_stop)
    with None True show ?thesis by (auto simp: worker_turn_def)
  next
    case (Some a)
    then obtain alive s rep n where a: "worker_iteration (sys_store y) (sys_rep y) (sys_next_ingested y) = Some (alive, s, rep, n)"
      by (cases a) auto
    show ?thesis using worker_iteration_refines [OF a True] a True by (simp add: worker_turn_def)
  qed
next
  case False
  then show ?thesis by (simp add: worker_turn_def)
qed

lemma worker_turn_frame [frame_simps]:
  "sys_prod (worker_turn y) = sys_prod y" "sys_accepted (worker_turn y) = sys_accepted y"
  "rep_sender (sys_rep (worker_turn y)) = rep_sender (sys_rep y)"
  "rep_worker (sys_rep (worker_turn y)) = rep_worker (sys_rep y)"
  by (auto simp: worker_turn_def worker_iteration_def Let_def split: option.splits list.splits prod.splits sum.splits)

lemma worker_turn_state:
  "sys_worker y = W_Recv \<or> sys_worker y = W_Done \<Longrightarrow> sys_worker (worker_turn y) = W_Recv \<or> sys_worker (worker_turn y) = W_Done"
  by (auto simp: worker_turn_def split: option.splits prod.splits)

lemma sys_ok_turn: "sys_ok y \<Longrightarrow> sys_ok (worker_turn y)"
  using sys_ok_steps [OF worker_turn_steps, of y] worker_turn_state [of y] by (simp add: sys_ok_def frame_simps)

lemma turn_store_le: "store_le (sys_store y) (sys_store (worker_turn y))"
  by (rule store_steps_le [OF worker_turn_steps])

lemma calm_worker: "calm w (on_worker w)"
  using sys_ok_turn [of "cl_sys w"] turn_store_le [of "cl_sys w"]
  by (simp add: calm_def on_worker_def client_le_def frame_simps)

lemma calm_report: "steps_op calm (sys_report rid key stp v now)"
proof (rule steps_opI)
  fix w r w' assume run: "sys_report rid key stp v now w = (r, w')"
  obtain r1 rep where rep: "report_metric rid key stp v now (client_reporter w) = (r1, rep)"
    by (cases "report_metric rid key stp v now (client_reporter w)")
  let ?acc = "if r1 = Ok () then [make_report (client_reporter w) rid key stp v now] else []"
  let ?y = "(cl_sys w)\<lparr>sys_rep := rep, sys_accepted := accepted w @ ?acc\<rparr>"
  have w': "w' = w\<lparr>cl_sys := ?y\<rparr>" using run rep by (auto simp: sys_report_def split del: if_split)
  have "sys_ok (cl_sys w) \<Longrightarrow> sys_ok ?y"
    using sys_ok_steps [OF report_metric_run [OF _ rep]] by (simp add: sys_ok_def)
  moreover have "rep_sender rep = rep_sender (client_reporter w)"
    using rep by (auto simp: report_metric_def on_diag_def Let_def split: if_splits)
  ultimately show "calm w w'" by (simp add: w' calm_def client_le_def growth.refl_state)
qed

lemma calm_log: "steps_op calm (log_metric_at_step h key stp v now)"
  unfolding log_metric_at_step_def with_open_admission_def
proof (rule steps_opI)
  fix w r w'
  let ?report = "sys_report (r_run_id (nr_run h)) key stp v now"
  assume "(case ar_admission (cl_objs w ! nr_active h) of Adm_Open \<Rightarrow> ?report w
      | Adm_Closing \<Rightarrow> (Err (RunClosed (r_run_id (nr_run h))), w)
      | Adm_Terminal \<Rightarrow> (Err (RunClosed (r_run_id (nr_run h))), w)) = (r, w')"
  then show "calm w w'"
    using steps_opD [OF calm_report, of _ _ _ _ _ w r w'] calming.refl_state
    by (cases "ar_admission (cl_objs w ! nr_active h)") auto
qed

lemma calm_interfere: "calm w (interfere act w)"
proof (cases act)
  case (Handle_Log h key stp v now)
  then show ?thesis using calm_log calming.refl_state by (simp add: steps_op_def)
qed (simp add: calm_worker)

lemma calm_fold: "calm w (fold interfere acts w)"
  by (induction acts arbitrary: w) (auto intro: calming.refl_state calming.trans_state calm_interfere)

lemma calm_script: "calm w (w\<lparr>cl_drains := script\<rparr>)" "calm w (w\<lparr>cl_flushes := fs\<rparr>)" "calm w (w\<lparr>cl_uuids := us\<rparr>)"
  by (simp_all add: calm_def client_le_def growth.refl_state)

lemma calm_drain_loop: "drain_loop barrier timed script w = Some (r, w') \<Longrightarrow> calm w w'"
proof (induction barrier timed script w rule: drain_loop.induct)
  case (2 barrier timed acts expired later w)
  let ?w = "(fold interfere acts w)\<lparr>cl_drains := later\<rparr>"
  have "calm w ?w" using calming.trans_state [OF calm_fold calm_script(1)] .
  moreover have "w' = ?w \<or> calm ?w w'"
    using 2 by (auto simp: Let_def split: if_splits)
  ultimately show ?case using calming.trans_state by blast
qed simp

lemma calm_drain: "drain timeout w = Some (r, w') \<Longrightarrow> calm w w'"
  unfolding drain_def by (rule calm_drain_loop)

subsection \<open>Steps on the table of active runs\<close>

text \<open>The invariant without the runs that the table names: \<open>create_run\<close> takes the lock first.\<close>

definition base_inv :: "client \<Rightarrow> bool" where
  "base_inv w \<longleftrightarrow> sys_ok (cl_sys w) \<and> table_ok w \<and> handles_ok w"

lemma client_inv_base: "client_inv w \<longleftrightarrow> base_inv w \<and> runs_exist w"
  by (auto simp: client_inv_def base_inv_def)

lemma active_entry: "map_of (cl_active_runs w) rid = Some i \<Longrightarrow> (rid, i) \<in> set (cl_active_runs w)"
  by (rule map_of_SomeD)

lemma table_entry:
  assumes "table_ok w" and "map_of (cl_active_runs w) rid = Some i"
  shows "i < length (cl_objs w)" "ar_guard (cl_objs w ! i) = Some (run_lock_path (cl_root_path w) rid)"
    "run_lock_path (cl_root_path w) rid \<notin> set (le_held (cl_locks w))"
  using assms active_entry [OF assms(2)] by (auto simp: table_ok_def)

lemma table_object_once:
  assumes "table_ok w" and "map_of (cl_active_runs w) rid = Some i" and "(rid', i) \<in> set (cl_active_runs w)"
  shows "rid' = rid"
proof -
  have "inj_on snd (set (cl_active_runs w))"
    using assms(1) by (simp add: table_ok_def distinct_map)
  from inj_onD [OF this, of "(rid', i)" "(rid, i)"] show ?thesis
    using assms(3) active_entry [OF assms(2)] by simp
qed

lemma held_locks_set: "p \<in> set (held_locks w) \<longleftrightarrow> (\<exists>i < length (cl_objs w). ar_guard (cl_objs w ! i) = Some p)"
proof -
  have "p \<in> set (held_locks w) \<longleftrightarrow> (\<exists>ob \<in> set (cl_objs w). ar_guard ob = Some p)"
    by (force simp: held_locks_def split: option.splits)
  then show ?thesis by (metis in_set_conv_nth)
qed

lemma held_is_active:
  assumes "table_ok w"
  shows "set (held_locks w) = run_lock_path (cl_root_path w) ` fst ` set (cl_active_runs w)"
proof (intro set_eqI iffI)
  fix p assume "p \<in> set (held_locks w)"
  then obtain i where i: "i < length (cl_objs w)" "ar_guard (cl_objs w ! i) = Some p"
    by (auto simp: held_locks_set)
  then obtain rid where "(rid, i) \<in> set (cl_active_runs w)" using assms by (force simp: table_ok_def)
  then show "p \<in> run_lock_path (cl_root_path w) ` fst ` set (cl_active_runs w)"
    using i assms by (force simp: table_ok_def)
next
  fix p assume "p \<in> run_lock_path (cl_root_path w) ` fst ` set (cl_active_runs w)"
  then obtain rid i where "(rid, i) \<in> set (cl_active_runs w)" "p = run_lock_path (cl_root_path w) rid" by auto
  then show "p \<in> set (held_locks w)" using assms by (auto simp: held_locks_set table_ok_def)
qed

lemma acquire_cases:
  assumes "acquire_run_writer rid w = (r, w')"
  obtains (active) i where "map_of (cl_active_runs w) rid = Some i" "r = Ok i" "w' = w"
    | (refused) e where "map_of (cl_active_runs w) rid = None" "r = Err e" "w' = w"
    | (fresh) "map_of (cl_active_runs w) rid = None" "r = Ok (length (cl_objs w))"
        "run_lock_path (cl_root_path w) rid \<notin> set (held_locks w)"
        "run_lock_path (cl_root_path w) rid \<notin> set (le_held (cl_locks w))"
        "w' = w\<lparr>cl_objs := cl_objs w @ [active_run_open (run_lock_path (cl_root_path w) rid)],
                cl_active_runs := (rid, length (cl_objs w)) # cl_active_runs w\<rparr>"
proof (cases "map_of (cl_active_runs w) rid")
  case (Some i)
  show ?thesis by (rule active [OF Some]) (use assms Some in \<open>simp_all add: acquire_run_writer_def\<close>)
next
  case none: None
  show ?thesis
  proof (cases "run_writer_guard_acquire (cl_root_path w) (cl_locks w) (held_locks w) rid")
    case (Inl e)
    show ?thesis by (rule refused [OF none, of "engine_error_of e"]) (use assms none Inl in \<open>simp_all add: acquire_run_writer_def\<close>)
  next
    case (Inr guard)
    then have g: "guard = run_lock_path (cl_root_path w) rid" "guard \<notin> set (held_locks w)" "guard \<notin> set (le_held (cl_locks w))"
      by (auto simp: run_writer_guard_acquire_def Let_def split: option.splits if_splits)
    show ?thesis by (rule fresh [OF none]) (use assms none Inr g in \<open>simp_all add: acquire_run_writer_def\<close>)
  qed
qed

lemma fresh_base_inv:
  assumes "base_inv w" and "map_of (cl_active_runs w) rid = None"
    and "run_lock_path (cl_root_path w) rid \<notin> set (le_held (cl_locks w))"
  shows "base_inv (w\<lparr>cl_objs := cl_objs w @ [active_run_open (run_lock_path (cl_root_path w) rid)],
                cl_active_runs := (rid, length (cl_objs w)) # cl_active_runs w\<rparr>)" (is "base_inv ?w")
proof -
  have rid: "rid \<notin> fst ` set (cl_active_runs w)" using assms(2) by (simp add: map_of_eq_None_iff)
  have small: "i < length (cl_objs w)" if "(r, i) \<in> set (cl_active_runs w)" for r i
    using assms(1) that by (auto simp: base_inv_def table_ok_def)
  have "table_ok ?w"
    using assms rid small unfolding base_inv_def table_ok_def
    by (auto simp: nth_append active_run_open_def less_Suc_eq)
  moreover have "handles_ok ?w"
    using assms(1) unfolding base_inv_def handles_ok_def by (auto simp: nth_append)
  ultimately show ?thesis using assms(1) by (simp add: base_inv_def)
qed

text \<open>Removing a run from the table and dropping its lock, whatever else happens to the object.\<close>

definition retired :: "run_id \<Rightarrow> nat \<Rightarrow> active_run \<Rightarrow> client \<Rightarrow> client" where
  "retired rid i ob w = w\<lparr>cl_active_runs := filter (\<lambda>p. fst p \<noteq> rid) (cl_active_runs w),
     cl_objs := (cl_objs w)[i := ob]\<rparr>"

lemma retired_base_inv:
  assumes inv: "base_inv w" and i: "map_of (cl_active_runs w) rid = Some i" and ob: "ar_guard ob = None"
    and quiet: "ar_admission ob = Adm_Terminal \<or> \<not> rep_sender (client_reporter w) \<or> (\<forall>h \<in> set (cl_handles w). nr_active h \<noteq> i)"
  shows "base_inv (retired rid i ob w)"
proof -
  have t: "table_ok w" and h: "handles_ok w" using inv by (simp_all add: base_inv_def)
  have once: "r = rid" if "(r, i) \<in> set (cl_active_runs w)" for r
    using table_object_once [OF t i that] .
  have left: "j \<in> snd ` set (filter (\<lambda>p. fst p \<noteq> rid) (cl_active_runs w))" if j: "j \<in> snd ` set (cl_active_runs w)" "j \<noteq> i" for j
  proof -
    obtain r where r: "(r, j) \<in> set (cl_active_runs w)" using j(1) by force
    have "r \<noteq> rid"
      using r j(2) t i eq_key_imp_eq_value [of "cl_active_runs w" r j i] active_entry [OF i] by (auto simp: table_ok_def)
    with r show ?thesis by force
  qed
  have at: "(cl_objs w)[i := ob] ! j = (if j = i then ob else cl_objs w ! j)" for j
    using table_entry(1) [OF t i] by (simp add: nth_list_update)
  have "table_ok (retired rid i ob w)"
    unfolding table_ok_def
  proof (intro conjI)
    show "distinct (map fst (cl_active_runs (retired rid i ob w)))" "distinct (map snd (cl_active_runs (retired rid i ob w)))"
      using t by (simp_all add: table_ok_def retired_def distinct_map_filter)
    show "\<forall>(r, j) \<in> set (cl_active_runs (retired rid i ob w)). j < length (cl_objs (retired rid i ob w)) \<and>
        ar_guard (cl_objs (retired rid i ob w) ! j) = Some (run_lock_path (cl_root_path (retired rid i ob w)) r) \<and>
        run_lock_path (cl_root_path (retired rid i ob w)) r \<notin> set (le_held (cl_locks (retired rid i ob w)))"
      using t once unfolding table_ok_def retired_def by (auto simp: at)
    show "\<forall>j < length (cl_objs (retired rid i ob w)). ar_guard (cl_objs (retired rid i ob w) ! j) \<noteq> None \<longrightarrow>
        j \<in> snd ` set (cl_active_runs (retired rid i ob w))"
    proof (intro allI impI)
      fix j assume j: "j < length (cl_objs (retired rid i ob w))" "ar_guard (cl_objs (retired rid i ob w) ! j) \<noteq> None"
      then have "j \<noteq> i" "j \<in> snd ` set (cl_active_runs w)"
        using t ob by (auto simp: table_ok_def retired_def at split: if_splits)
      from left [OF this(2,1)] show "j \<in> snd ` set (cl_active_runs (retired rid i ob w))" by (simp add: retired_def)
    qed
  qed
  moreover have "handles_ok (retired rid i ob w)"
    unfolding handles_ok_def
  proof
    fix hd assume "hd \<in> set (cl_handles (retired rid i ob w))"
    then have mem: "hd \<in> set (cl_handles w)" by (simp add: retired_def)
    then have hd: "nr_active hd < length (cl_objs w)"
       "\<And>r. (r, nr_active hd) \<in> set (cl_active_runs w) \<Longrightarrow> r_run_id (nr_run hd) = r"
       "ar_admission (cl_objs w ! nr_active hd) \<noteq> Adm_Terminal \<Longrightarrow> nr_active hd \<notin> snd ` set (cl_active_runs w) \<Longrightarrow>
          \<not> rep_sender (client_reporter w)"
      using h unfolding handles_ok_def by blast+
    show "nr_active hd < length (cl_objs (retired rid i ob w)) \<and>
       (\<forall>r. (r, nr_active hd) \<in> set (cl_active_runs (retired rid i ob w)) \<longrightarrow> r_run_id (nr_run hd) = r) \<and>
       (ar_admission (cl_objs (retired rid i ob w) ! nr_active hd) \<noteq> Adm_Terminal \<and>
          nr_active hd \<notin> snd ` set (cl_active_runs (retired rid i ob w)) \<longrightarrow>
          \<not> rep_sender (client_reporter (retired rid i ob w)))"
    proof (cases "nr_active hd = i")
      case True
      then show ?thesis using hd(1,2) quiet mem by (auto simp: retired_def)
    next
      case False
      then show ?thesis using hd left [of "nr_active hd"] by (auto simp: retired_def at)
    qed
  qed
  ultimately show ?thesis using inv by (simp add: base_inv_def retired_def)
qed

lemma retired_runs_exist: "runs_exist w \<Longrightarrow> runs_exist (retired rid i ob w)"
  by (auto simp: runs_exist_def retired_def)

lemma retired_le: "client_le w (retired rid i ob w)"
  by (simp add: client_le_def retired_def growth.refl_state)

lemma map_of_filter_other: "rid' \<noteq> rid \<Longrightarrow> map_of (filter (\<lambda>p. fst p \<noteq> rid) xs) rid' = map_of xs rid'"
  by (induction xs) auto

lemma retired_other: "rid' \<noteq> rid \<Longrightarrow> map_of (cl_active_runs (retired rid i ob w)) rid' = map_of (cl_active_runs w) rid'"
  by (simp add: retired_def map_of_filter_other)

lemma retired_gone: "map_of (cl_active_runs (retired rid i ob w)) rid = None"
  by (auto simp: retired_def map_of_eq_None_iff)

text \<open>Changing the admission of an active run.\<close>

lemma admission_inv:
  assumes "client_inv w" and "map_of (cl_active_runs w) rid = Some i"
  shows "client_inv (on_object i (\<lambda>ob. ob\<lparr>ar_admission := adm\<rparr>) w)"
proof -
  have i: "i \<in> snd ` set (cl_active_runs w)" "i < length (cl_objs w)"
    using active_entry [OF assms(2)] table_entry [OF _ assms(2)] assms(1) by (force simp: client_inv_def)+
  have "ar_guard ((cl_objs w)[i := (cl_objs w ! i)\<lparr>ar_admission := adm\<rparr>] ! j) = ar_guard (cl_objs w ! j)" for j
    using i(2) by (cases "i = j") simp_all
  then have "table_ok (on_object i (\<lambda>ob. ob\<lparr>ar_admission := adm\<rparr>) w)"
    using assms(1) by (simp add: client_inv_def table_ok_def on_object_def)
  moreover have "handles_ok (on_object i (\<lambda>ob. ob\<lparr>ar_admission := adm\<rparr>) w)"
    unfolding handles_ok_def
  proof
    fix h assume "h \<in> set (cl_handles (on_object i (\<lambda>ob. ob\<lparr>ar_admission := adm\<rparr>) w))"
    then have "h \<in> set (cl_handles w)" by (simp add: on_object_def)
    then have "nr_active h < length (cl_objs w) \<and>
     (\<forall>rid. (rid, nr_active h) \<in> set (cl_active_runs w) \<longrightarrow> r_run_id (nr_run h) = rid) \<and>
     (ar_admission (cl_objs w ! nr_active h) \<noteq> Adm_Terminal \<and> nr_active h \<notin> snd ` set (cl_active_runs w) \<longrightarrow>
        \<not> rep_sender (client_reporter w))"
      using assms(1) unfolding client_inv_def handles_ok_def by blast
    then show "nr_active h < length (cl_objs (on_object i (\<lambda>ob. ob\<lparr>ar_admission := adm\<rparr>) w)) \<and>
     (\<forall>rid. (rid, nr_active h) \<in> set (cl_active_runs (on_object i (\<lambda>ob. ob\<lparr>ar_admission := adm\<rparr>) w)) \<longrightarrow>
        r_run_id (nr_run h) = rid) \<and>
     (ar_admission (cl_objs (on_object i (\<lambda>ob. ob\<lparr>ar_admission := adm\<rparr>) w) ! nr_active h) \<noteq> Adm_Terminal \<and>
        nr_active h \<notin> snd ` set (cl_active_runs (on_object i (\<lambda>ob. ob\<lparr>ar_admission := adm\<rparr>) w)) \<longrightarrow>
        \<not> rep_sender (client_reporter (on_object i (\<lambda>ob. ob\<lparr>ar_admission := adm\<rparr>) w)))"
      using i(1) by (cases "nr_active h = i") (simp_all add: on_object_def)
  qed
  ultimately show ?thesis using assms(1) by (auto simp: client_inv_def on_object_def runs_exist_def)
qed

lemma calm_base_inv: "calm w w' \<Longrightarrow> base_inv w \<Longrightarrow> base_inv w'"
  by (simp add: calm_def base_inv_def table_ok_def handles_ok_def)

lemma drop_guard_simps [simp]:
  "ar_guard (drop_guard ob) = None" "ar_admission (drop_guard ob) = ar_admission ob" "drop_guard (drop_guard ob) = drop_guard ob"
  by (simp_all add: drop_guard_def)

lemma release_writer_retired:
  "map_of (cl_active_runs w) rid = Some i \<Longrightarrow>
   release_run_writer rid w = (Ok (), retired rid i (drop_guard (cl_objs w ! i)) w)"
  by (simp add: release_run_writer_def retired_def on_object_def)

lemma release_lock_retired:
  "i < length (cl_objs w) \<Longrightarrow> release_lock i (retired rid i (drop_guard ob) w) = (Ok (), retired rid i (drop_guard ob) w)"
  by (simp add: release_lock_def retired_def on_object_def)

text \<open>The three steps that end the writer of a run.\<close>

lemma end_writer:
  assumes "table_ok w" and "map_of (cl_active_runs w) rid = Some i"
  shows "bind_op (mark_terminal i) (\<lambda>_. bind_op (release_lock i) (\<lambda>_. bind_op (release_run_writer rid) f)) w =
    f () (retired rid i (drop_guard ((cl_objs w ! i)\<lparr>ar_admission := Adm_Terminal\<rparr>)) w)"
  using table_entry(1) [OF assms] assms(2)
  by (simp add: bind_op_def set_admission_def release_lock_def release_run_writer_def on_object_def retired_def)

subsection \<open>Operations that only use the connection\<close>

lemma query_reads:
  "steps_op same_tables (query_metric_summaries ids key)"
  "steps_op same_tables (list_metrics rid status)"
  "steps_op same_tables (project_query_aligned q)"
  unfolding query_metric_summaries_def list_metrics_def project_query_aligned_def query_aligned_rows_def run_start_millis_def
  by (intro read_rules; simp split: alignment_axis.split option.split; intro allI conjI impI read_rules)+

lemma engine_reads:
  "steps_op same_tables (native_query_aligned q status)"
  "steps_op same_tables (native_objective_evidence rid status objective)"
  "steps_op same_tables (native_objective_evidence_for_runs runs objective)"
  "steps_op same_tables (store_ranking_evidence ids objective)"
  unfolding native_query_aligned_def native_objective_evidence_def native_objective_evidence_for_runs_def
    store_ranking_evidence_def
  by (intro read_rules query_reads reads)+

text \<open>The reader's state is the store with the LTTB extension.\<close>

definition reader_same :: "reader \<Rightarrow> reader \<Rightarrow> bool" where
  "reader_same w w' \<longleftrightarrow> same_tables (fst w) (fst w')"

interpretation reader_reading: state_preorder reader_same
  by unfold_locales (auto simp: reader_same_def intro: reading.refl_state reading.trans_state)

lemma reader_on_store: "steps_op same_tables m \<Longrightarrow> steps_op reader_same (on_store m)"
  by (simp add: steps_op_def on_store_def reader_same_def case_prod_beta Let_def)

lemma reader_on_lttb: "steps_op reader_same (on_lttb m)"
  by (simp add: steps_op_def on_lttb_def reader_same_def case_prod_beta Let_def reading.refl_state)

lemma reader_execute: "steps_op reader_same (execute_query files source q shape)"
proof (rule steps_opI)
  fix w r w' assume run: "execute_query files source q shape w = (r, w')"
  have "steps_op reader_same (bind_op (lift_op (shape_params shape)) (\<lambda>_.
     bind_op (on_store (query (\<lambda>s. effective_cte q (source_rows files source s)))) (\<lambda>eff.
     lift_op (collect_points (st_env (fst w))
       (map (\<lambda>r. (r, of_nat (length eff))) (shape_rows (st_env (fst w)) (snd w) shape eff)) [] 0))))"
    by (intro reader_reading.steps_rules reader_on_store steps_query)
  then show "reader_same w w'" using run unfolding execute_query_def by (rule steps_opD)
qed

lemma reader_query: "steps_op reader_same (query_metric files source q)"
  unfolding query_metric_def count_effective_def
  by (cases "mq_reduction q") (simp_all; intro impI conjI reader_reading.steps_rules reader_execute reader_on_store
      reader_on_lttb steps_query)+

lemma reader_native_query: "steps_op reader_same (native_query_metric files rid key a b n)"
  unfolding native_query_metric_def by (intro reader_reading.steps_rules reader_query)

lemma calm_with_reader:
  assumes "steps_op reader_same m"
  shows "steps_op calm (with_reader m)"
proof (rule steps_opI)
  fix w r w' assume run: "with_reader m w = (r, w')"
  obtain r1 s x where m: "m (client_store w, cl_lttb w) = (r1, (s, x))" by (metis prod.collapse)
  have same: "same_tables (client_store w) s"
    using steps_opD [OF assms m] by (simp add: reader_same_def)
  then have ok: "store_ok (client_store w) s" by (rule same_tables_ok)
  then have "store_le (client_store w) s" "sys_ok (cl_sys w) \<Longrightarrow> sys_ok ((cl_sys w)\<lparr>sys_store := s\<rparr>)"
    using sys_inv_store [of "cl_sys w" s] by (simp_all add: store_ok_def sys_ok_def)
  moreover have "w' = w\<lparr>cl_sys := (cl_sys w)\<lparr>sys_store := s\<rparr>, cl_lttb := x\<rparr>"
    using run m by (simp add: with_reader_def)
  ultimately show "calm w w'" by (simp add: calm_def client_le_def)
qed

lemma calm_ensure: "steps_op calm ensure_writeable"
  by (simp add: steps_op_def ensure_writeable_def calming.refl_state)

lemma calm_uuid: "steps_op calm (given_or_uuid given)"
  by (rule steps_opI) (auto simp: given_or_uuid_def calming.refl_state calm_script split: option.splits list.splits)

lemmas calm_rules = calm_connection calm_with_store calm_with_reader calm_ensure calm_uuid statements_ok
  calming.steps_rules

lemma calm_get_run: "steps_op calm (get_run rid)"
  unfolding get_run_def by (intro calm_rules)

lemma calm_project: "steps_op calm (project_exists pid)" "steps_op calm (require_project pid)"
  unfolding require_project_def project_exists_def by (intro calm_rules)+

lemma calm_reject: "steps_op calm (reject_existing_run rid)"
proof (rule steps_opI)
  fix w r w' assume run: "reject_existing_run rid w = (r, w')"
  obtain r1 w1 where g: "get_run rid w = (r1, w1)" by (cases "get_run rid w")
  then have "w' = w1" using run by (auto simp: reject_existing_run_def split: sum.splits engine_error.splits)
  then show "calm w w'" using steps_opD [OF calm_get_run g] by simp
qed

text \<open>
  What a relation between clients has to allow for the flush to stay within it: reading statements,
  settings of the diagnostics, and the environment's scripts.
\<close>

lemma flush_reads: "steps_op same_tables store_flush_metric_points"
  unfolding store_flush_metric_points_def
proof (rule steps_opI)
  fix s r s' assume "update (\<lambda>s. s) s = (r, s')"
  then show "same_tables s s'" by (cases r) (auto simp: update_def exec_Err exec_Ok)
qed

locale client_frame = state_preorder R for R :: "client \<Rightarrow> client \<Rightarrow> bool" +
  assumes frame_store: "same_tables (client_store w) s \<Longrightarrow> R w (w\<lparr>cl_sys := (cl_sys w)\<lparr>sys_store := s\<rparr>\<rparr>)"
    and frame_setting: "uncounted_setting f \<Longrightarrow> steps_op R (on_reporter f)"
    and frame_flushes: "R w (w\<lparr>cl_flushes := fs\<rparr>)"
begin

lemma frame_reads: "steps_op same_tables m \<Longrightarrow> steps_op R (connection m)"
  by (simp add: steps_op_def connection_def with_store_def map_err_op_def case_prod_beta Let_def frame_store)

lemma frame_case_sum:
  "(\<And>e. steps_op R (f e)) \<Longrightarrow> (\<And>x. steps_op R (g x)) \<Longrightarrow> steps_op R (case r of Inl e \<Rightarrow> f e | Inr x \<Rightarrow> g x)"
  by (cases r) simp_all

lemma frame_flush_with: "steps_op R (flush_with rid deadline f)"
proof -
  have "steps_op R (\<lambda>w. let (result, w1) = connection store_flush_metric_points w in
       (if deadline \<and> (fe_expired f \<or> fe_interrupted f) then flush_timed_out_op rid
        else case result of
          Inr _ \<Rightarrow> on_reporter (set_flush_status flush_succeeded rid)
        | Inl _ \<Rightarrow> bind_op (on_reporter (set_flush_failed rid ''flush metric_points failed''))
                   (\<lambda>_. fail_op (MetricFlush ''flush metric_points failed''))) w1)" (is "steps_op R ?m")
  proof (rule steps_opI)
    fix w r w' assume run: "?m w = (r, w')"
    obtain res w1 where c: "connection store_flush_metric_points w = (res, w1)"
      by (cases "connection store_flush_metric_points w")
    have "steps_op R (if deadline \<and> (fe_expired f \<or> fe_interrupted f) then flush_timed_out_op rid
        else case res of
          Inr _ \<Rightarrow> on_reporter (set_flush_status flush_succeeded rid)
        | Inl _ \<Rightarrow> bind_op (on_reporter (set_flush_failed rid ''flush metric_points failed''))
                   (\<lambda>_. fail_op (MetricFlush ''flush metric_points failed'')))"
      unfolding flush_timed_out_op_def by (intro steps_rules frame_case_sum frame_setting uncounted_settings)
    moreover have "(if deadline \<and> (fe_expired f \<or> fe_interrupted f) then flush_timed_out_op rid
        else case res of
          Inr _ \<Rightarrow> on_reporter (set_flush_status flush_succeeded rid)
        | Inl _ \<Rightarrow> bind_op (on_reporter (set_flush_failed rid ''flush metric_points failed''))
                   (\<lambda>_. fail_op (MetricFlush ''flush metric_points failed''))) w1 = (r, w')"
      using run c by simp
    ultimately have "R w1 w'" by (rule steps_opD)
    moreover have "R w w1" by (rule steps_opD [OF frame_reads [OF flush_reads] c])
    ultimately show "R w w'" using trans_state by blast
  qed
  then show ?thesis
    unfolding flush_with_def flush_timed_out_op_def
    by (intro steps_rules frame_setting uncounted_settings)
qed

lemma frame_ensure: "steps_op R ensure_writeable"
  by (simp add: steps_op_def ensure_writeable_def refl_state)

lemma frame_get_run: "steps_op R (get_run rid)"
  unfolding get_run_def by (intro frame_reads reads)

lemma frame_flush: "steps_op R (flush_run_data rid timeout)"
proof -
  have "steps_op R (\<lambda>w. let (f, w1) = next_flush w in flush_with rid deadline f w1)" for deadline
  proof (rule steps_opI)
    fix w r w' assume run: "(let (f, w1) = next_flush w in flush_with rid deadline f w1) = (r, w')"
    obtain f w1 where n: "next_flush w = (f, w1)" by (cases "next_flush w")
    have "R w w1" using n by (auto simp: next_flush_def refl_state frame_flushes split: list.splits)
    moreover have "R w1 w'" using run n by (auto intro: steps_opD [OF frame_flush_with])
    ultimately show "R w w'" using trans_state by blast
  qed
  then show ?thesis unfolding flush_run_data_def by (intro steps_rules frame_ensure frame_get_run)
qed

end

lemma calm_store:
  assumes "store_ok (client_store w) s"
  shows "calm w (w\<lparr>cl_sys := (cl_sys w)\<lparr>sys_store := s\<rparr>\<rparr>)"
  using assms sys_inv_store [of "cl_sys w" s] by (simp add: calm_def client_le_def store_ok_def sys_ok_def)

interpretation calm_frame: client_frame calm
  by unfold_locales (auto intro: calm_store same_tables_ok calm_on_reporter calm_script)

lemmas calm_flush = calm_frame.frame_flush

text \<open>Calls that settle what they find: not even the rows of the store change.\<close>

definition settled :: "client \<Rightarrow> client \<Rightarrow> bool" where
  "settled w w' \<longleftrightarrow> same_tables (client_store w) (client_store w') \<and> accepted w' = accepted w \<and>
     cl_active_runs w' = cl_active_runs w \<and> cl_objs w' = cl_objs w \<and> cl_root_path w' = cl_root_path w \<and>
     cl_handles w' = cl_handles w \<and> cl_is_shutdown w' = cl_is_shutdown w"

interpretation settling: client_frame settled
proof
  show "settled w w" for w by (simp add: settled_def reading.refl_state)
  show "settled w v \<Longrightarrow> settled v u \<Longrightarrow> settled w u" for w v u
    by (auto simp: settled_def intro: reading.trans_state)
  show "same_tables (client_store w) s \<Longrightarrow> settled w (w\<lparr>cl_sys := (cl_sys w)\<lparr>sys_store := s\<rparr>\<rparr>)" for w s
    by (simp add: settled_def)
  show "uncounted_setting f \<Longrightarrow> steps_op settled (on_reporter f)" for f
    by (simp add: steps_op_def settled_def on_reporter_def reading.refl_state)
  show "settled w (w\<lparr>cl_flushes := fs\<rparr>)" for w fs by (simp add: settled_def reading.refl_state)
qed

lemma calm_operations:
  "steps_op calm (create_project name given)" "steps_op calm (get_project pid)" "steps_op calm list_projects"
  "steps_op calm (list_runs_filtered pid status limit offset)" "steps_op calm (list_orphan_runs project)"
  "steps_op calm (client_query_metric rid key a b n)" "steps_op calm (client_query_aligned_metric q)"
  "steps_op calm (client_objective_evidence rid objective)" "steps_op calm (ranking_evidence ids objective)"
  "steps_op calm (client_query_metric_summaries ids key)" "steps_op calm (client_list_metrics rid)"
  unfolding create_project_def get_project_def list_projects_def list_runs_filtered_def list_orphan_runs_def
    client_query_metric_def client_query_metric_with_metadata_def client_query_aligned_metric_def client_objective_evidence_def
    ranking_evidence_def client_query_metric_summaries_def client_list_metrics_def Let_def project_exists_def
  by (intro calm_rules calm_get_run calm_project reader_native_query engine_reads [THEN steps_ok_read]
      query_reads [THEN steps_ok_read])+

subsection \<open>Operations on runs\<close>

definition keeps :: "client \<Rightarrow> client \<Rightarrow> bool" where
  "keeps w w' \<longleftrightarrow> (client_inv w \<longrightarrow> client_inv w' \<and> client_le w w')"

interpretation keeping: state_preorder keeps
  by unfold_locales (auto simp: keeps_def intro: client_le_trans)

lemma calm_keeps: "calm w w' \<Longrightarrow> keeps w w'"
  using calm_inv by (auto simp: keeps_def calm_def)

lemma steps_keeps: "steps_op calm m \<Longrightarrow> steps_op keeps m"
  by (simp add: steps_op_def calm_keeps)

text \<open>The same while a run stays active with its object.\<close>

definition active_keeps :: "run_id \<Rightarrow> nat \<Rightarrow> client \<Rightarrow> client \<Rightarrow> bool" where
  "active_keeps rid i w w' \<longleftrightarrow> (client_inv w \<and> map_of (cl_active_runs w) rid = Some i \<longrightarrow>
     client_inv w' \<and> client_le w w' \<and> map_of (cl_active_runs w') rid = Some i)"

interpretation active_keeping: state_preorder "active_keeps rid i" for rid i
  by unfold_locales (auto simp: active_keeps_def intro: client_le_trans)

lemma calm_active: "calm w w' \<Longrightarrow> active_keeps rid i w w'"
  using calm_inv by (auto simp: active_keeps_def calm_def)

lemma steps_active: "steps_op calm m \<Longrightarrow> steps_op (active_keeps rid i) m"
  by (simp add: steps_op_def calm_active)

lemma set_admission_active: "steps_op (active_keeps rid i) (set_admission adm i)"
proof (rule steps_opI)
  fix w r w' assume "set_admission adm i w = (r, w')"
  then show "active_keeps rid i w w'"
    using admission_inv [of w rid i adm]
    by (auto simp: active_keeps_def set_admission_def on_object_def client_le_def growth.refl_state)
qed

lemma base_inv_runs:
  assumes "base_inv w" and "map_of (cl_active_runs w) rid = Some i" and "rid \<in> sr_run_id ` set (st_runs (client_store w))"
    and "runs_exist (w\<lparr>cl_active_runs := filter (\<lambda>p. fst p \<noteq> rid) (cl_active_runs w)\<rparr>)"
  shows "client_inv w"
proof -
  have "fst ` set (cl_active_runs w) \<subseteq> insert rid (fst ` set (filter (\<lambda>p. fst p \<noteq> rid) (cl_active_runs w)))" by auto
  then show ?thesis using assms by (auto simp: client_inv_base runs_exist_def)
qed

lemma acquire_keeps:
  assumes "acquire_run_writer rid w = (r, w')" and "client_inv w"
    and "rid \<in> sr_run_id ` set (st_runs (client_store w))"
  shows "client_inv w' \<and> cl_sys w' = cl_sys w \<and> (\<forall>i. r = Ok i \<longrightarrow> map_of (cl_active_runs w') rid = Some i)"
  using assms(1)
proof (cases rule: acquire_cases)
  case fresh
  then have "base_inv w'" using fresh_base_inv assms(2) by (simp add: client_inv_base)
  moreover have "runs_exist w'" using assms(2,3) fresh by (simp add: client_inv_base runs_exist_def)
  ultimately show ?thesis using fresh by (simp add: client_inv_base)
qed (use assms(2) in auto)

lemma get_run_Ok:
  assumes "get_run rid w = (Ok run, w')"
  shows "\<exists>sr \<in> set (st_runs (client_store w)). sr_run_id sr = rid \<and> into_run (st_env (client_store w)) sr = Ok run"
    and "r_run_id run = rid" and "same_tables (client_store w) (client_store w')"
    and "accepted w' = accepted w"
proof -
  obtain r s where s: "store_get_run rid (client_store w) = (r, s)" by (cases "store_get_run rid (client_store w)")
  then have r: "r = Ok run" "w' = w\<lparr>cl_sys := (cl_sys w)\<lparr>sys_store := s\<rparr>\<rparr>"
    using assms by (cases r; auto simp: get_run_def connection_def with_store_def map_err_op_def)+
  from store_get_run_Ok [OF s [unfolded r(1)]] r(2)
  show "\<exists>sr \<in> set (st_runs (client_store w)). sr_run_id sr = rid \<and> into_run (st_env (client_store w)) sr = Ok run"
    "r_run_id run = rid" "same_tables (client_store w) (client_store w')"
    "accepted w' = accepted w" by auto
qed

lemma run_exists_after: "get_run rid w = (Ok run, w') \<Longrightarrow> rid \<in> sr_run_id ` set (st_runs (client_store w'))"
  using get_run_Ok(1,3) [of rid w run w'] by (auto simp: same_tables_def)

lemma keeps_resume: "steps_op keeps (resume_run rid)"
proof -
  have "steps_op keeps (bind_op (get_run rid) (\<lambda>run.
     if r_status run \<noteq> Running
     then fail_op (InvalidRunTransition rid (run_status_value (r_status run)) (run_status_value Running))
     else bind_op (acquire_run_writer rid) (\<lambda>_. ret_op run)))" (is "steps_op keeps ?m")
  proof (rule steps_opI)
    fix w r w' assume run: "?m w = (r, w')"
    then show "keeps w w'"
    proof (cases rule: bind_op_cases)
      case (err e)
      then show ?thesis using steps_opD [OF steps_keeps [OF calm_get_run]] by blast
    next
      case (ok run w1)
      have k: "keeps w w1" using ok(1) steps_opD [OF steps_keeps [OF calm_get_run]] by blast
      obtain r2 w2 where a: "acquire_run_writer rid w1 = (r2, w2)" by (cases "acquire_run_writer rid w1")
      have "w' = w1 \<or> w' = w2" using ok(2) a by (auto simp: bind_op_def split: if_splits sum.splits)
      moreover have "keeps w1 w2"
        using acquire_keeps [OF a _ run_exists_after [OF ok(1)]] by (simp add: keeps_def client_le_def growth.refl_state)
      ultimately show ?thesis using k keeping.trans_state by blast
    qed
  qed
  then show ?thesis
    unfolding resume_run_def by (rule keeping.steps_bind [OF steps_keeps [OF calm_ensure]])
qed

lemma reject_existing_Ok:
  assumes "reject_existing_run rid w = (Ok u, w')"
  shows "rid \<notin> sr_run_id ` set (st_runs (client_store w'))"
proof -
  obtain r1 w1 where g: "get_run rid w = (r1, w1)" by (cases "get_run rid w")
  then have w1: "w' = w1" "\<exists>id. r1 = Err (RunNotFound id)"
    using assms by (auto simp: reject_existing_run_def split: sum.splits engine_error.splits)
  obtain r s where s: "store_get_run rid (client_store w) = (r, s)" by (cases "store_get_run rid (client_store w)")
  have e: "\<exists>e id. r = Err e \<and> engine_error_of e = RunNotFound id" "client_store w' = s"
    using g s w1 by (auto simp: get_run_def connection_def with_store_def map_err_op_def map_err_def split: sum.splits)
  obtain sn where q: "query (\<lambda>s. find (\<lambda>r. sr_run_id r = rid) (st_runs s)) (client_store w) =
      (Ok (find (\<lambda>r. sr_run_id r = rid) (st_runs (client_store w))), sn)" "st_env sn = st_env (client_store w)"
    using s e by (auto simp: store_get_run_def bind_op_def query_def exec_def split: list.splits option.splits prod.splits)
  have "same_tables (client_store w) s" using steps_opD [OF reads(5) s] .
  moreover have "find (\<lambda>r. sr_run_id r = rid) (st_runs (client_store w)) = None"
  proof (rule ccontr)
    assume "find (\<lambda>r. sr_run_id r = rid) (st_runs (client_store w)) \<noteq> None"
    then obtain sr where "find (\<lambda>r. sr_run_id r = rid) (st_runs (client_store w)) = Some sr" by blast
    then have "r = into_run (st_env (client_store w)) sr"
      using s q by (simp add: store_get_run_def bind_op_def)
    then show False using e by (auto simp: into_run_def bind_r_eq_Inl map_r_def run_status_from_str_def timestamp_from_millis_def
          split: sum.splits option.splits if_splits)
  qed
  ultimately show ?thesis using e(2) by (auto simp: find_None_iff same_tables_def)
qed

lemma create_Ok_exists:
  assumes "connection (write_create_run pid name rid) w = (Ok run, w')"
  shows "rid \<in> sr_run_id ` set (st_runs (client_store w'))"
proof -
  obtain r s where s: "write_create_run pid name rid (client_store w) = (r, s)"
    by (cases "write_create_run pid name rid (client_store w)")
  then have r: "r = Ok run" "client_store w' = s"
    using assms by (cases r; auto simp: connection_def with_store_def map_err_op_def)+
  obtain found s1 where f: "run_exists rid (client_store w) = (Ok found, s1)" "\<not> found"
    using s [unfolded r(1)] by (auto simp: write_create_run_def bind_op_Ok split: if_splits)
  then obtain now s2 s3 where "update (\<lambda>s. s\<lparr>st_runs := st_runs s @
             [\<lparr>sr_run_id = rid, sr_project_id = pid, sr_name = name,
               sr_status = status_as_str Running, sr_created_at_millis = now,
               sr_started_at_millis = now, sr_finished_at_millis = None\<rparr>]\<rparr>) s2 = (Ok (), s3)" "s = s3"
    using s [unfolded r(1)] by (auto simp: write_create_run_def bind_op_Ok)
  then show ?thesis using r(2) by (auto simp: update_Ok)
qed

lemma fresh_create_keeps:
  assumes inv: "client_inv w" and new: "rid \<notin> sr_run_id ` set (st_runs (client_store w))"
    and run: "bind_op (acquire_run_writer rid) (\<lambda>active. catch_op (connection (write_create_run pid name rid)) (\<lambda>e.
       bind_op (release_run_writer rid) (\<lambda>_. bind_op (release_lock active) (\<lambda>_. fail_op e)))) w = (r, w')"
  shows "client_inv w' \<and> client_le w w'"
proof -
  have none: "map_of (cl_active_runs w) rid = None"
    using inv new by (auto simp: client_inv_def runs_exist_def map_of_eq_None_iff)
  obtain ra wa where a: "acquire_run_writer rid w = (ra, wa)" by (cases "acquire_run_writer rid w")
  from a show ?thesis
  proof (cases rule: acquire_cases)
    case (active i)
    with none show ?thesis by simp
  next
    case (refused e)
    then show ?thesis using run a inv by (simp add: bind_op_def)
  next
    case fresh
    let ?n = "length (cl_objs w)"
    have wa: "base_inv wa" using fresh_base_inv inv fresh by (simp add: client_inv_base)
    obtain rc wc where c: "connection (write_create_run pid name rid) wa = (rc, wc)"
      by (cases "connection (write_create_run pid name rid) wa")
    have calm: "calm wa wc" by (rule steps_opD [OF calm_connection [OF create_ok] c])
    have wc: "base_inv wc" "map_of (cl_active_runs wc) rid = Some ?n" "cl_handles wc = cl_handles w" "?n < length (cl_objs wc)"
      using calm_base_inv [OF calm wa] calm fresh by (auto simp: calm_def)
    have le: "client_le w wc" using calm fresh by (simp add: calm_def client_le_def)
    have old: "fst ` set (cl_active_runs w) \<subseteq> sr_run_id ` set (st_runs (client_store wc))"
    proof (rule order_trans)
      show "fst ` set (cl_active_runs w) \<subseteq> sr_run_id ` set (st_runs (client_store w))"
        using inv by (simp add: client_inv_def runs_exist_def)
      show "sr_run_id ` set (st_runs (client_store w)) \<subseteq> sr_run_id ` set (st_runs (client_store wc))"
        by (rule store_le_ids) (use le in \<open>simp add: client_le_def\<close>)
    qed
    show ?thesis
    proof (cases rc)
      case (Inr x)
      then have "w' = wc" using run a c fresh by (simp add: bind_op_def catch_op_def)
      moreover have "runs_exist wc"
        using create_Ok_exists [OF c [unfolded Inr]] old calm fresh by (auto simp: runs_exist_def calm_def)
      ultimately show ?thesis using wc le by (simp add: client_inv_base)
    next
      case (Inl e)
      let ?w = "retired rid ?n (drop_guard (cl_objs wc ! ?n)) wc"
      have "w' = ?w"
        using run a c fresh Inl release_writer_retired [OF wc(2)] release_lock_retired [OF wc(4)]
        by (simp add: bind_op_def catch_op_def)
      moreover have "\<forall>h \<in> set (cl_handles wc). nr_active h \<noteq> ?n"
        using inv wc(3) by (auto simp: client_inv_def handles_ok_def)
      then have "base_inv ?w" by (intro retired_base_inv [OF wc(1,2)]) simp_all
      moreover have "set (cl_active_runs ?w) \<subseteq> set (cl_active_runs w)"
        using calm fresh by (auto simp: retired_def calm_def)
      then have "runs_exist ?w" using old by (auto simp: runs_exist_def retired_def)
      ultimately show ?thesis
        using client_le_trans [OF le retired_le] by (simp add: client_inv_base)
    qed
  qed
qed

lemma keeps_create: "steps_op keeps (create_run pid name given)"
proof -
  have "steps_op keeps (bind_op (reject_existing_run rid) (\<lambda>_.
     bind_op (acquire_run_writer rid) (\<lambda>active.
     catch_op (connection (write_create_run pid name rid)) (\<lambda>e.
       bind_op (release_run_writer rid) (\<lambda>_.
       bind_op (release_lock active) (\<lambda>_. fail_op e))))))" (is "steps_op keeps ?m") for rid
  proof (rule steps_opI)
    fix w r w' assume run: "?m w = (r, w')"
    then show "keeps w w'"
    proof (cases rule: bind_op_cases)
      case (err e)
      then show ?thesis using steps_opD [OF steps_keeps [OF calm_reject]] by blast
    next
      case (ok u w1)
      have "keeps w w1" using ok(1) steps_opD [OF steps_keeps [OF calm_reject]] by blast
      moreover have "keeps w1 w'"
        using fresh_create_keeps [OF _ reject_existing_Ok [OF ok(1)] ok(2)] by (simp add: keeps_def)
      ultimately show ?thesis using keeping.trans_state by blast
    qed
  qed
  then show ?thesis
    unfolding create_run_def
    by (intro keeping.steps_bind [OF steps_keeps [OF calm_ensure]] keeping.steps_bind [OF steps_keeps [OF calm_project(2)]]
        keeping.steps_bind [OF steps_keeps [OF calm_uuid]])
qed

subsection \<open>Ending a run\<close>

lemma begin_outcome:
  assumes "begin_finalization rid target w = (r, w')" and "client_inv w"
  shows "client_inv w' \<and> client_le w w' \<and> (\<forall>i. r = Ok i \<longrightarrow> map_of (cl_active_runs w') rid = Some i \<and>
           ar_admission (cl_objs w' ! i) = Adm_Closing \<and> accepted w' = accepted w)"
  using assms(1) unfolding begin_finalization_def
proof (cases rule: bind_op_cases)
  case (err e)
  then show ?thesis using steps_opD [OF steps_keeps [OF calm_ensure] err(1)] assms(2) by (simp add: keeps_def)
next
  case (ok u w1)
  have w1: "w1 = w" using ok(1) by (simp add: ensure_writeable_def split: if_splits)
  from ok(2) show ?thesis
  proof (cases rule: bind_op_cases)
    case (err e)
    then show ?thesis using steps_opD [OF steps_keeps [OF calm_get_run] err(1)] assms(2) w1 by (simp add: keeps_def)
  next
    case (ok run w2)
    have w2: "client_inv w2" "client_le w w2" "accepted w2 = accepted w"
      using steps_opD [OF steps_keeps [OF calm_get_run] ok(1)] assms(2) w1 get_run_Ok(4) [OF ok(1)]
      by (simp_all add: keeps_def)
    show ?thesis
    proof (cases "r_status run = Running")
      case False
      then show ?thesis using ok(2) w2 by auto
    next
      case True
      then have "bind_op (acquire_run_writer rid) (\<lambda>active. bind_op (close_admission active) (\<lambda>_. ret_op active)) w2 = (r, w')"
        using ok(2) by simp
      then show ?thesis
      proof (cases rule: bind_op_cases)
        case (err e)
        then show ?thesis
          using acquire_keeps [OF err(1) w2(1) run_exists_after [OF ok(1)]] w2 by (simp add: client_le_def)
      next
        case acq: (ok i w3)
        have w3: "client_inv w3" "map_of (cl_active_runs w3) rid = Some i" "cl_sys w3 = cl_sys w2"
          using acquire_keeps [OF acq(1) w2(1) run_exists_after [OF ok(1)]] by simp_all
        have w': "w' = on_object i (\<lambda>ob. ob\<lparr>ar_admission := Adm_Closing\<rparr>) w3" "r = Ok i"
          using acq(2) by (simp_all add: bind_op_def set_admission_def)
        have "i < length (cl_objs w3)" using table_entry(1) [OF _ w3(2)] w3(1) by (simp add: client_inv_def)
        then show ?thesis
          using admission_inv [OF w3(1,2)] w' w2 w3 by (simp add: on_object_def client_le_def)
      qed
    qed
  qed
qed

lemma complete_keeps:
  assumes "complete_finalization rid target i w = (r, w')" and "client_inv w" and "map_of (cl_active_runs w) rid = Some i"
  shows "client_inv w' \<and> client_le w w'"
proof -
  have rebuild: "steps_op (active_keeps rid i) (catch_op (connection (rebuild_metric_aggregates_for_run rid)) (\<lambda>e.
         bind_op (open_admission i) (\<lambda>_. fail_op e)))"
    by (intro active_keeping.steps_rules steps_active calm_rules set_admission_active)
  have clock: "steps_op (active_keeps rid i) (connection (current_timestamp ''finished_at''))"
    by (intro steps_active calm_rules)
  have mark: "steps_op (active_keeps rid i) (connection (store_mark_run_terminal rid target t))" for t
    by (intro steps_active calm_rules)
  have reopen: "steps_op (active_keeps rid i) (bind_op (get_run rid) (\<lambda>run.
       bind_op (open_admission i) (\<lambda>_.
       fail_op (InvalidRunTransition rid (run_status_value (r_status run)) (run_status_value target)))))"
    by (intro active_keeping.steps_rules steps_active calm_get_run set_admission_active)
  from assms(1) show ?thesis unfolding complete_finalization_def
  proof (cases rule: bind_op_cases)
    case (err e)
    then show ?thesis using steps_opD [OF rebuild err(1)] assms(2,3) by (simp add: active_keeps_def)
  next
    case (ok u w1)
    have 1: "client_inv w1" "client_le w w1" "map_of (cl_active_runs w1) rid = Some i"
      using steps_opD [OF rebuild ok(1)] assms(2,3) by (simp_all add: active_keeps_def)
    from ok(2) show ?thesis
    proof (cases rule: bind_op_cases)
      case (err e)
      then show ?thesis using steps_opD [OF clock err(1)] 1 client_le_trans by (auto simp: active_keeps_def)
    next
      case (ok t w2)
      have 2: "client_inv w2" "client_le w w2" "map_of (cl_active_runs w2) rid = Some i"
        using steps_opD [OF clock ok(1)] 1 client_le_trans by (auto simp: active_keeps_def)
      from ok(2) show ?thesis
      proof (cases rule: bind_op_cases)
        case (err e)
        then show ?thesis using steps_opD [OF mark err(1)] 2 client_le_trans by (auto simp: active_keeps_def)
      next
        case (ok updated w3)
        have 3: "client_inv w3" "client_le w w3" "map_of (cl_active_runs w3) rid = Some i"
          using steps_opD [OF mark ok(1)] 2 client_le_trans by (auto simp: active_keeps_def)
        show ?thesis
        proof (cases updated)
          case False
          then have "bind_op (get_run rid) (\<lambda>run. bind_op (open_admission i) (\<lambda>_.
              fail_op (InvalidRunTransition rid (run_status_value (r_status run)) (run_status_value target)))) w3 = (r, w')"
            using ok(2) by simp
          from steps_opD [OF reopen this] 3 client_le_trans show ?thesis by (auto simp: active_keeps_def)
        next
          case True
          let ?w = "retired rid i (drop_guard ((cl_objs w3 ! i)\<lparr>ar_admission := Adm_Terminal\<rparr>)) w3"
          have t: "table_ok w3" using 3(1) by (simp add: client_inv_def)
          have "bind_op (flush_run_data rid None) (\<lambda>_. get_run rid) ?w = (r, w')"
            using ok(2) True end_writer [OF t 3(3), of "\<lambda>_. bind_op (flush_run_data rid None) (\<lambda>_. get_run rid)"]
            by simp
          moreover have "steps_op keeps (bind_op (flush_run_data rid None) (\<lambda>_. get_run rid))"
            by (intro keeping.steps_bind steps_keeps [OF calm_flush] steps_keeps [OF calm_get_run])
          ultimately have "keeps ?w w'" by (rule steps_opD [rotated])
          moreover have "client_inv ?w"
            using retired_base_inv [OF _ 3(3)] retired_runs_exist 3(1) by (simp add: client_inv_base)
          ultimately show ?thesis
            unfolding keeps_def using client_le_trans [OF client_le_trans [OF 3(2) retired_le]] by blast
        qed
      qed
    qed
  qed
qed

lemma finalize_keeps:
  assumes "finalize_run rid target timeout w = Some (r, w')" and "client_inv w"
  shows "client_inv w' \<and> client_le w w'"
proof -
  obtain rb wb where b: "begin_finalization rid target w = (rb, wb)" by (cases "begin_finalization rid target w")
  note out = begin_outcome [OF b assms(2)]
  show ?thesis
  proof (cases rb)
    case (Inl e)
    then show ?thesis using assms(1) b out by (simp add: finalize_run_def bind_wait_def)
  next
    case (Inr i)
    then obtain rd wd where d: "drain timeout wb = Some (rd, wd)"
      using assms(1) b by (auto simp: finalize_run_def bind_wait_def split: option.splits)
    have wd: "client_inv wd" "client_le w wd" "map_of (cl_active_runs wd) rid = Some i"
      using calm_drain [OF d] calm_inv [OF calm_drain [OF d]] out Inr client_le_trans by (auto simp: calm_def)
    show ?thesis
    proof (cases rd)
      case (Inl e)
      then have run: "bind_op (open_admission i) (\<lambda>_. fail_op e) wd = (r, w')"
        using assms(1) b Inr d by (simp add: finalize_run_def bind_wait_def)
      have "steps_op (active_keeps rid i) (bind_op (open_admission i) (\<lambda>_. fail_op e))"
        by (intro active_keeping.steps_rules set_admission_active)
      from steps_opD [OF this run] wd client_le_trans show ?thesis by (auto simp: active_keeps_def)
    next
      case inr: (Inr u)
      then have "complete_finalization rid target i wd = (r, w')"
        using assms(1) b Inr d by (simp add: finalize_run_def bind_wait_def)
      from complete_keeps [OF this wd(1,3)] wd(2) client_le_trans show ?thesis by blast
    qed
  qed
qed

subsection \<open>Shutting down\<close>

lemma join_worker_steps: "sys_steps y (join_worker y)"
proof (induction y rule: join_worker.induct)
  case (1 y)
  show ?case
  proof (cases "sys_worker y = W_Recv \<and> \<not> rep_sender (sys_rep y)")
    case True
    then have "sys_steps (worker_turn y) (join_worker (worker_turn y))" by (rule 1)
    with worker_turn_steps [of y] have "sys_steps y (join_worker (worker_turn y))" by (rule rtranclp_trans)
    then show ?thesis using True by (simp add: join_worker.simps [of y])
  next
    case False
    then show ?thesis by (auto simp: join_worker.simps [of y])
  qed
qed

lemma join_worker_frame:
  "sys_prod (join_worker y) = sys_prod y \<and> sys_accepted (join_worker y) = sys_accepted y \<and>
   rep_sender (sys_rep (join_worker y)) = rep_sender (sys_rep y) \<and> rep_worker (sys_rep (join_worker y)) = rep_worker (sys_rep y) \<and>
   (sys_worker y = W_Recv \<or> sys_worker y = W_Done \<longrightarrow> sys_worker (join_worker y) = W_Recv \<or> sys_worker (join_worker y) = W_Done)"
proof (induction y rule: join_worker.induct)
  case (1 y)
  show ?case
    using 1 worker_turn_state [of y] by (simp add: join_worker.simps [of y] frame_simps)
qed

lemma join_worker_ends:
  "\<not> rep_sender (sys_rep y) \<Longrightarrow> sys_worker y = W_Recv \<or> sys_worker y = W_Done \<Longrightarrow> sys_worker (join_worker y) = W_Done"
proof (induction y rule: join_worker.induct)
  case (1 y)
  show ?case
    using 1 worker_turn_state [of y] by (auto simp: join_worker.simps [of y] frame_simps)
qed

lemma take_sender_keeps:
  assumes "client_inv w"
  shows "client_inv (take_sender w) \<and> client_le w (take_sender w) \<and> \<not> rep_sender (client_reporter (take_sender w))"
proof -
  have "sys_step (cl_sys w) (cl_sys (take_sender w))"
    using p_close [of "cl_sys w"] assms by (simp add: take_sender_def client_inv_def sys_ok_def)
  then have "sys_ok (cl_sys (take_sender w))"
    using sys_ok_steps [OF r_into_rtranclp, of "cl_sys w" "cl_sys (take_sender w)"] assms
    by (simp add: take_sender_def client_inv_def sys_ok_def)
  then show ?thesis
    using assms
    by (simp add: client_inv_def table_ok_def handles_ok_def runs_exist_def take_sender_def client_le_def growth.refl_state)
qed

lemma sys_inv_worker_handle: "sys_inv y \<Longrightarrow> sys_inv (y\<lparr>sys_rep := (sys_rep y)\<lparr>rep_worker := b\<rparr>\<rparr>)"
  by (simp add: sys_inv_def inv_seq_def inv_fifo_def inv_stored_def inv_counters_def inv_bounds_def inv_through_def)

lemma take_worker_keeps:
  assumes "client_inv w" and "\<not> rep_sender (client_reporter w)"
  shows "client_inv (take_worker w) \<and> client_le w (take_worker w) \<and> \<not> rep_sender (client_reporter (take_worker w)) \<and>
         accepted (take_worker w) = accepted w \<and> cl_active_runs (take_worker w) = cl_active_runs w"
proof (cases "rep_worker (client_reporter w)")
  case True
  let ?y = "join_worker (cl_sys w)"
  have ok: "sys_ok ?y"
    using sys_ok_steps [OF join_worker_steps, of "cl_sys w"] join_worker_frame [of "cl_sys w"] assms(1)
    by (auto simp: client_inv_def sys_ok_def)
  then have "sys_ok (?y\<lparr>sys_rep := (sys_rep ?y)\<lparr>rep_worker := False\<rparr>\<rparr>)"
    using sys_inv_worker_handle [of ?y] by (simp add: sys_ok_def)
  moreover have le: "points_le (client_store w) (sys_store ?y)" by (rule sys_steps_points [OF join_worker_steps])
  moreover have "runs_exist w" using assms(1) by (simp add: client_inv_def)
  ultimately show ?thesis
    using assms join_worker_frame [of "cl_sys w"] store_steps_le [OF join_worker_steps, of "cl_sys w"] True
    by (simp add: take_worker_def Let_def client_inv_def table_ok_def handles_ok_def runs_exist_def client_le_def points_le_def)
next
  case False
  then show ?thesis using assms by (simp add: take_worker_def)
qed

lemma on_object_objs:
  "cl_objs (on_object i f w) ! j = (if j = i \<and> j < length (cl_objs w) then f (cl_objs w ! j) else cl_objs w ! j)"
  "length (cl_objs (on_object i f w)) = length (cl_objs w)"
proof -
  show "length (cl_objs (on_object i f w)) = length (cl_objs w)" by (simp add: on_object_def)
  show "cl_objs (on_object i f w) ! j = (if j = i \<and> j < length (cl_objs w) then f (cl_objs w ! j) else cl_objs w ! j)"
  proof (cases "i < length (cl_objs w)")
    case True
    then show ?thesis by (simp add: on_object_def nth_list_update)
  next
    case False
    then have "cl_objs (on_object i f w) = cl_objs w" by (simp add: on_object_def list_update_beyond)
    then show ?thesis using False by auto
  qed
qed

lemma drop_all_objects:
  "cl_objs (fold (\<lambda>(_, i). on_object i drop_guard) xs w) ! j =
     (if j \<in> snd ` set xs \<and> j < length (cl_objs w) then drop_guard (cl_objs w ! j) else cl_objs w ! j) \<and>
   length (cl_objs (fold (\<lambda>(_, i). on_object i drop_guard) xs w)) = length (cl_objs w)"
proof (induction xs arbitrary: w)
  case (Cons x xs)
  show ?case
    using Cons [of "on_object (snd x) drop_guard w"]
    by (simp add: case_prod_beta on_object_objs)
qed simp

lemma drop_all_frame:
  "cl_sys (fold (\<lambda>(_, i). on_object i drop_guard) xs w) = cl_sys w \<and>
   cl_active_runs (fold (\<lambda>(_, i). on_object i drop_guard) xs w) = cl_active_runs w \<and>
   cl_handles (fold (\<lambda>(_, i). on_object i drop_guard) xs w) = cl_handles w"
  by (induction xs arbitrary: w) (auto simp: on_object_def)

lemma release_all_keeps:
  assumes "client_inv w" and "\<not> rep_sender (client_reporter w)"
  shows "client_inv (snd (release_all_run_writers w)) \<and> client_le w (snd (release_all_run_writers w)) \<and>
         cl_active_runs (snd (release_all_run_writers w)) = [] \<and> cl_sys (snd (release_all_run_writers w)) = cl_sys w"
proof -
  let ?w = "fold (\<lambda>(_, i). on_object i drop_guard) (cl_active_runs w) (w\<lparr>cl_active_runs := []\<rparr>)"
  note fr = drop_all_frame [of "cl_active_runs w" "w\<lparr>cl_active_runs := []\<rparr>"]
  note ob = drop_all_objects [of "cl_active_runs w" "w\<lparr>cl_active_runs := []\<rparr>"]
  have "table_ok ?w"
    using fr ob assms(1) by (auto simp: table_ok_def client_inv_def)
  moreover have "handles_ok ?w"
    using fr ob assms by (simp add: handles_ok_def client_inv_def)
  ultimately show ?thesis
    using fr assms(1) by (simp add: release_all_run_writers_def client_inv_def runs_exist_def client_le_def growth.refl_state)
qed

lemma shutdown_inv_frame: "client_inv (w\<lparr>cl_is_shutdown := b\<rparr>) = client_inv w"
  by (simp add: client_inv_def table_ok_def handles_ok_def runs_exist_def)

lemma reporter_shutdown_outcome:
  assumes "reporter_shutdown timeout w = Some (r, w')" and "client_inv w"
  shows "client_inv w' \<and> client_le w w' \<and> (r \<noteq> Err MetricDrainTimeout \<longrightarrow> \<not> rep_sender (client_reporter w'))"
proof -
  obtain rd wd where d: "drain timeout w = Some (rd, wd)"
    using assms(1) by (auto simp: reporter_shutdown_def split: option.splits)
  have wd: "client_inv wd" "client_le w wd"
    using calm_drain [OF d] calm_inv [OF calm_drain [OF d] assms(2)] by (simp_all add: calm_def)
  let ?w2 = "take_worker (take_sender wd)"
  have r: "r = rd" using assms(1) d by (auto simp: reporter_shutdown_def Let_def split: if_splits)
  show ?thesis
  proof (cases "rd = Err MetricDrainTimeout")
    case True
    then show ?thesis using assms(1) d wd by (simp add: reporter_shutdown_def)
  next
    case False
    have w2: "client_inv ?w2" "client_le w ?w2" "\<not> rep_sender (client_reporter ?w2)"
      using take_sender_keeps [OF wd(1)] take_worker_keeps [of "take_sender wd"] wd(2) client_le_trans by blast+
    have w': "w' = (if rd = Ok () then snd (on_reporter (set_writer_state writer_closed) ?w2) else ?w2)"
      using assms(1) d False by (auto simp: reporter_shutdown_def Let_def)
    have "calm ?w2 (snd (on_reporter (set_writer_state writer_closed) ?w2))"
      using calm_on_reporter uncounted_settings(3) by (auto simp: steps_op_def)
    then have "client_inv w' \<and> client_le ?w2 w' \<and> \<not> rep_sender (client_reporter w')"
      using w' w2 calm_inv by (auto simp: calm_def)
    then show ?thesis using w2(2) client_le_trans by blast
  qed
qed

lemma shutdown_keeps:
  assumes "shutdown timeout w = Some (r, w')" and "client_inv w"
  shows "client_inv w' \<and> client_le w w' \<and> (r \<noteq> Err MetricDrainTimeout \<longrightarrow> cl_active_runs w' = []) \<and>
    (r = Ok () \<longrightarrow> cl_is_shutdown w' \<and> \<not> rep_sender (client_reporter w'))"
proof -
  obtain w1 where w1: "reporter_shutdown timeout w = Some (r, w1)"
    using assms(1) by (auto simp: shutdown_def Let_def split: option.splits)
  note out = reporter_shutdown_outcome [OF w1 assms(2)]
  let ?w2 = "if r \<noteq> Err MetricDrainTimeout then snd (release_all_run_writers w1) else w1"
  have w': "w' = (if r = Ok () then ?w2\<lparr>cl_is_shutdown := True\<rparr> else ?w2)"
    using assms(1) w1 by (simp add: shutdown_def Let_def)
  have w2: "client_inv ?w2" "client_le w ?w2" "r \<noteq> Err MetricDrainTimeout \<longrightarrow> cl_active_runs ?w2 = []"
     "cl_sys ?w2 = cl_sys w1"
    using out release_all_keeps [of w1] client_le_trans by auto
  have "client_le w w'" using w2(2) w' by (auto simp: client_le_def)
  then show ?thesis using w' w2 out shutdown_inv_frame by auto
qed

lemma handle_keeps:
  assumes "run_handle run w = (n, w')" and "client_inv w"
  shows "client_inv w' \<and> client_le w w'"
proof (cases "map_of (cl_active_runs w) (r_run_id run)")
  case None
  let ?o = "length (cl_objs w)"
  have w': "w' = w\<lparr>cl_objs := cl_objs w @ [active_run_closed], cl_handles := cl_handles w @ [\<lparr>nr_run = run, nr_active = ?o\<rparr>]\<rparr>"
    using assms(1) None by (simp add: run_handle_def)
  have small: "i < ?o" if "(r, i) \<in> set (cl_active_runs w)" for r i
    using assms(2) that by (auto simp: client_inv_def table_ok_def)
  have "table_ok w'"
    using assms(2) small by (auto simp: w' client_inv_def table_ok_def nth_append active_run_closed_def less_Suc_eq)
  moreover have "handles_ok w'"
    using assms(2) small by (auto simp: w' client_inv_def handles_ok_def nth_append active_run_closed_def less_Suc_eq)
  ultimately show ?thesis using assms(2) by (simp add: w' client_inv_def runs_exist_def client_le_def growth.refl_state)
next
  case (Some i)
  have w': "w' = w\<lparr>cl_handles := cl_handles w @ [\<lparr>nr_run = run, nr_active = i\<rparr>]\<rparr>"
    using assms(1) Some by (simp add: run_handle_def)
  have t: "table_ok w" using assms(2) by (simp add: client_inv_def)
  have "i < length (cl_objs w)" "\<forall>rid. (rid, i) \<in> set (cl_active_runs w) \<longrightarrow> r_run_id run = rid" "i \<in> snd ` set (cl_active_runs w)"
    using table_entry(1) [OF t Some] table_object_once [OF t Some] active_entry [OF Some] by force+
  then have "handles_ok w'" using assms(2) by (simp add: w' client_inv_def handles_ok_def)
  moreover have "table_ok w'" using t by (simp add: w' table_ok_def)
  ultimately show ?thesis using assms(2) by (simp add: w' client_inv_def runs_exist_def client_le_def growth.refl_state)
qed

subsection \<open>Every reachable client\<close>

text \<open>
  The steps of a client: the calls that return, with any outcome, the turns of the worker, and the
  environment, which chooses the coming outcomes of statements, the clock, the library's random
  choices and what other holders lock, but takes no lock that this client holds.
\<close>

inductive client_step :: "client \<Rightarrow> client \<Rightarrow> bool" where
  st_create_project: "create_project name pid w = (rp, w') \<Longrightarrow> client_step w w'"
| st_get_project: "get_project pid' w = (rp, w') \<Longrightarrow> client_step w w'"
| st_list_projects: "list_projects w = (rps, w') \<Longrightarrow> client_step w w'"
| st_create_run: "create_run pid' name given w = (rr, w') \<Longrightarrow> client_step w w'"
| st_get_run: "get_run rid w = (rr, w') \<Longrightarrow> client_step w w'"
| st_resume_run: "resume_run rid w = (rr, w') \<Longrightarrow> client_step w w'"
| st_list_runs: "list_runs_filtered pid' status limit offset w = (rrs, w') \<Longrightarrow> client_step w w'"
| st_list_orphans: "list_orphan_runs project w = (rrs, w') \<Longrightarrow> client_step w w'"
| st_finish: "finish_run_with_timeout rid timeout w = Some (rr, w') \<Longrightarrow> client_step w w'"
| st_fail: "fail_run_with_timeout rid timeout w = Some (rr, w') \<Longrightarrow> client_step w w'"
| st_flush: "flush_run_data rid timeout w = (ru, w') \<Longrightarrow> client_step w w'"
| st_shutdown: "shutdown timeout w = Some (ru, w') \<Longrightarrow> client_step w w'"
| st_handle: "run_handle run w = (n, w') \<Longrightarrow> client_step w w'"
| st_log: "h \<in> set (cl_handles w) \<Longrightarrow> log_metric_at_step h key stp v now w = (ru, w') \<Longrightarrow> client_step w w'"
| st_query: "client_query_metric rid key a b points w = (rpts, w') \<Longrightarrow> client_step w w'"
| st_aligned: "client_query_aligned_metric q w = (ral, w') \<Longrightarrow> client_step w w'"
| st_evidence: "client_objective_evidence rid objective w = (robj, w') \<Longrightarrow> client_step w w'"
| st_ranking: "ranking_evidence ids objective w = (robjs, w') \<Longrightarrow> client_step w w'"
| st_summaries: "client_query_metric_summaries ids key w = (rags, w') \<Longrightarrow> client_step w w'"
| st_list_metrics: "client_list_metrics rid w = (rags, w') \<Longrightarrow> client_step w w'"
| st_worker: "client_step w (on_worker w)"
| st_environment: "set (le_held env) \<inter> set (held_locks w) = {} \<Longrightarrow>
     client_step w (w\<lparr>cl_locks := env, cl_uuids := uuids, cl_flushes := flushes, cl_drains := drains,
       cl_sys := (cl_sys w)\<lparr>sys_store := (client_store w)\<lparr>st_faults := faults, st_clock := clock\<rparr>\<rparr>\<rparr>)"

abbreviation client_steps :: "client \<Rightarrow> client \<Rightarrow> bool" where
  "client_steps \<equiv> client_step\<^sup>*\<^sup>*"

text \<open>A client starts on a store in which the runs have distinct identities.\<close>

definition reachable_client :: "client \<Rightarrow> bool" where
  "reachable_client w \<longleftrightarrow> (\<exists>root_path capacity env. unique_runs (oe_store env) \<and>
     client_steps (new_client root_path capacity env) w)"

lemma environment_keeps:
  assumes "set (le_held env) \<inter> set (held_locks w) = {}" and "client_inv w"
    and "w' = w\<lparr>cl_locks := env, cl_uuids := uuids, cl_flushes := flushes, cl_drains := drains,
       cl_sys := (cl_sys w)\<lparr>sys_store := (client_store w)\<lparr>st_faults := faults, st_clock := clock\<rparr>\<rparr>\<rparr>"
  shows "client_inv w' \<and> client_le w w'"
proof -
  have le: "store_le (client_store w) ((client_store w)\<lparr>st_faults := faults, st_clock := clock\<rparr>)"
    by (rule store_le_scripts)
  have "sys_ok (cl_sys w')"
    using sys_inv_store [OF _ le] assms(2) by (simp add: assms(3) client_inv_def sys_ok_def unique_runs_def)
  moreover have "run_lock_path (cl_root_path w) rid \<notin> set (le_held env)" if "(rid, i) \<in> set (cl_active_runs w)" for rid i
    using held_is_active [of w] assms(1,2) that by (force simp: client_inv_def)
  then have "table_ok w'" using assms(2) by (auto simp: assms(3) client_inv_def table_ok_def)
  moreover have "handles_ok w'" "runs_exist w'"
    using assms(2) by (simp_all add: assms(3) client_inv_def handles_ok_def runs_exist_def)
  ultimately show ?thesis using le by (simp add: client_inv_def client_le_def assms(3))
qed

lemma client_step_keeps: "client_step w w' \<Longrightarrow> client_inv w \<Longrightarrow> client_inv w' \<and> client_le w w'"
proof (induction rule: client_step.induct)
  case (st_worker w)
  then show ?case using calm_keeps [OF calm_worker] by (auto simp: keeps_def)
next
  case (st_environment env w uuids flushes drains faults clock)
  then show ?case using environment_keeps [OF st_environment(1,2) refl] by blast
next
  case (st_finish rid timeout w rr w')
  then show ?case using finalize_keeps by (simp add: finish_run_with_timeout_def)
next
  case (st_fail rid timeout w rr w')
  then show ?case using finalize_keeps by (simp add: fail_run_with_timeout_def)
next
  case (st_shutdown timeout w ru w')
  then show ?case using shutdown_keeps by blast
next
  case (st_handle run w n w')
  then show ?case using handle_keeps by blast
next
  case (st_create_run pid' name given w rr w')
  then show ?case using steps_opD [OF keeps_create] by (auto simp: keeps_def)
next
  case (st_resume_run rid w rr w')
  then show ?case using steps_opD [OF keeps_resume] by (auto simp: keeps_def)
next
  case (st_get_run rid w rr w')
  then show ?case using steps_opD [OF steps_keeps [OF calm_get_run]] by (auto simp: keeps_def)
next
  case (st_flush rid timeout w ru w')
  then show ?case using steps_opD [OF steps_keeps [OF calm_flush]] by (auto simp: keeps_def)
next
  case (st_log h w key stp v now ru w')
  then show ?case using steps_opD [OF steps_keeps [OF calm_log]] by (auto simp: keeps_def)
qed (use calm_operations [THEN steps_keeps, THEN steps_opD] in \<open>auto simp: keeps_def\<close>)

lemma new_client_inv: "unique_runs (oe_store env) \<Longrightarrow> client_inv (new_client root_path capacity env)"
  using sys_inv_init [of "oe_store env" capacity "oe_start env"]
  by (simp add: client_inv_def sys_ok_def table_ok_def handles_ok_def runs_exist_def new_client_def sys_init_def)

lemma client_steps_keep: "client_steps w w' \<Longrightarrow> client_inv w \<Longrightarrow> client_inv w' \<and> client_le w w'"
proof (induction rule: rtranclp_induct)
  case (step w1 w2)
  then show ?case using client_step_keeps [OF step(2)] client_le_trans by blast
qed simp

lemma reachable_client_inv: "reachable_client w \<Longrightarrow> client_inv w"
  unfolding reachable_client_def using client_steps_keep new_client_inv by blast

lemma reachable_client_steps: "reachable_client w \<Longrightarrow> client_steps w w' \<Longrightarrow> reachable_client w'"
  unfolding reachable_client_def by (meson rtranclp_trans)

end
