(* ===== verification/Client_Guarantees.thy ===== *)
theory Client_Guarantees
  imports Client_Runs
begin

section \<open>What the client guarantees\<close>

text \<open>
  The properties of the client over every reachable state: one writer per run, runs that stay
  ended, the completeness of a run that was finished, the error paths of ending a run, shutting
  down, and comparisons on the client's own evidence.
\<close>

subsection \<open>Reports during a drain\<close>

lemma closing_refuses:
  assumes inv: "client_inv w" and i: "map_of (cl_active_runs w) rid = Some i"
    and closing: "ar_admission (cl_objs w ! i) = Adm_Closing"
    and h: "h \<in> set (cl_handles w)" "r_run_id (nr_run h) = rid"
  shows "accepted (snd (log_metric_at_step h key stp v now w)) = accepted w"
proof (cases "ar_admission (cl_objs w ! nr_active h) = Adm_Open")
  case False
  then show ?thesis
    by (cases "ar_admission (cl_objs w ! nr_active h)") (simp_all add: log_metric_at_step_def with_open_admission_def)
next
  case True
  have "nr_active h \<notin> snd ` set (cl_active_runs w)"
  proof
    assume "nr_active h \<in> snd ` set (cl_active_runs w)"
    then obtain r where r: "(r, nr_active h) \<in> set (cl_active_runs w)" by auto
    then have "r = rid" using inv h by (auto simp: client_inv_def handles_ok_def)
    then have "nr_active h = i"
      using r i inv eq_key_imp_eq_value [of "cl_active_runs w" rid "nr_active h" i] active_entry [OF i]
      by (auto simp: client_inv_def table_ok_def)
    then show False using True closing by simp
  qed
  then have "\<not> rep_sender (client_reporter w)" using True inv h(1) by (auto simp: client_inv_def handles_ok_def)
  then show ?thesis using True by (simp add: log_metric_at_step_def with_open_admission_def sys_report_def report_metric_def)
qed

lemma log_accepts:
  "\<exists>rs. accepted (snd (log_metric_at_step h key stp v now w)) = accepted w @ rs \<and>
        (\<forall>r \<in> set rs. rpt_run_id r = r_run_id (nr_run h))"
  by (cases "ar_admission (cl_objs w ! nr_active h)")
     (auto simp: log_metric_at_step_def with_open_admission_def sys_report_def make_report_def split: prod.splits)

text \<open>What holds between closing the admission of a run and the end of the drain.\<close>

definition closing :: "run_id \<Rightarrow> nat \<Rightarrow> client \<Rightarrow> bool" where
  "closing rid i w \<longleftrightarrow> client_inv w \<and> map_of (cl_active_runs w) rid = Some i \<and>
     ar_admission (cl_objs w ! i) = Adm_Closing"

lemma closing_calm: "calm w w' \<Longrightarrow> closing rid i w \<Longrightarrow> closing rid i w'"
  using calm_inv [of w w'] by (simp add: closing_def calm_def)

definition others_only :: "run_id \<Rightarrow> client \<Rightarrow> client \<Rightarrow> bool" where
  "others_only rid w w' \<longleftrightarrow> (\<exists>rs. accepted w' = accepted w @ rs \<and> (\<forall>r \<in> set rs. rpt_run_id r \<noteq> rid))"

lemma others_only_refl: "accepted w' = accepted w \<Longrightarrow> others_only rid w w'"
  by (simp add: others_only_def)

lemma others_only_trans:
  assumes "others_only rid u v" and "others_only rid v w"
  shows "others_only rid u w"
proof -
  obtain xs where x: "accepted v = accepted u @ xs" "\<forall>r \<in> set xs. rpt_run_id r \<noteq> rid"
    using assms(1) unfolding others_only_def by blast
  obtain ys where y: "accepted w = accepted v @ ys" "\<forall>r \<in> set ys. rpt_run_id r \<noteq> rid"
    using assms(2) unfolding others_only_def by blast
  show ?thesis unfolding others_only_def by (intro exI [of _ "xs @ ys"]) (use x y in auto)
qed

lemma interfere_others:
  assumes "closing rid i w"
  shows "others_only rid w (interfere act w)"
proof (cases act)
  case Worker_Turn
  then show ?thesis by (simp add: others_only_refl on_worker_def frame_simps)
next
  case (Handle_Log k key stp v now)
  show ?thesis
  proof (cases "k < length (cl_handles w)")
    case True
    let ?h = "cl_handles w ! k"
    have h: "?h \<in> set (cl_handles w)" using True by simp
    show ?thesis
    proof (cases "r_run_id (nr_run ?h) = rid")
      case same: True
      then show ?thesis
        using closing_refuses [OF _ _ _ h, of rid i] assms Handle_Log True
        by (simp add: closing_def others_only_refl)
    next
      case False
      then show ?thesis
        using log_accepts [of ?h key stp v now w] Handle_Log True by (auto simp: others_only_def)
    qed
  next
    case False
    then show ?thesis using Handle_Log by (simp add: others_only_refl)
  qed
qed

lemma fold_others: "closing rid i w \<Longrightarrow> others_only rid w (fold interfere acts w)"
proof (induction acts arbitrary: w)
  case Nil
  then show ?case by (simp add: others_only_refl)
next
  case (Cons act acts)
  then show ?case
    using Cons.IH [OF closing_calm [OF calm_interfere Cons.prems]] interfere_others [OF Cons.prems] others_only_trans
    by (simp del: interfere.simps) blast
qed

lemma drain_others: "drain_loop barrier timed script w = Some (r, w') \<Longrightarrow> closing rid i w \<Longrightarrow> others_only rid w w'"
proof (induction barrier timed script w rule: drain_loop.induct)
  case (2 barrier timed acts expired later w)
  let ?w = "(fold interfere acts w)\<lparr>cl_drains := later\<rparr>"
  have "others_only rid w ?w" using fold_others [OF 2(3)] by (simp add: others_only_def)
  moreover have "closing rid i ?w" by (rule closing_calm [OF calming.trans_state [OF calm_fold calm_script(1)] 2(3)])
  then have "w' = ?w \<or> others_only rid ?w w'"
    using 2 by (auto simp: Let_def split: if_splits)
  ultimately show ?case using others_only_trans by blast
qed simp

lemma drain_loop_Ok:
  "drain_loop barrier timed script w = Some (Ok u, w') \<Longrightarrow> barrier \<le> d_persisted_through (rep_diag (client_reporter w'))"
  by (induction barrier timed script w rule: drain_loop.induct) (auto simp: Let_def not_less split: if_splits)

lemma drain_stores:
  assumes d: "drain timeout w = Some (Ok u, w')" and inv: "client_inv w" and small: "length (accepted w') + 1 < 2 ^ 64"
    and r: "r \<in> set (accepted w)"
  shows "report_stored (client_store w') r"
proof -
  have calm: "calm w w'" by (rule calm_drain [OF d])
  have inv': "client_inv w'" by (rule calm_inv [OF calm inv])
  have g: "grows (accepted w) (accepted w')" using calm by (simp add: calm_def client_le_def)
  then have len: "length (accepted w) + 1 < 2 ^ 64" using small by (auto simp: grows_def)
  have barrier: "of_nat (length (accepted w)) \<le> d_persisted_through (rep_diag (client_reporter w'))"
    using drain_loop_Ok d barrier_value [OF _ _ len] inv
    by (auto simp: drain_def client_inv_def sys_ok_def sys_inv_def)
  obtain k where k: "k < length (accepted w)" "accepted w ! k = r" using r by (auto simp: in_set_conv_nth)
  have "(of_nat (Suc k) :: u64) \<le> of_nat (length (accepted w))"
    using k(1) len by (intro of_nat_u64_le) simp_all
  then have "of_nat (Suc k) \<le> d_persisted_through (rep_diag (client_reporter w'))" using barrier by (rule order_trans)
  moreover have "k < length (accepted w')" "accepted w' ! k = r"
    using k g by (auto simp: grows_def nth_append)
  ultimately show ?thesis
    using through_stored [of "cl_sys w'" k] inv' small by (simp add: client_inv_def sys_ok_def)
qed

subsection \<open>The end of a run\<close>

lemma connection_Ok:
  "connection m w = (Ok x, w') \<longleftrightarrow>
   (\<exists>s. m (client_store w) = (Ok x, s) \<and> w' = w\<lparr>cl_sys := (cl_sys w)\<lparr>sys_store := s\<rparr>\<rparr>)"
  by (auto simp: connection_def with_store_def map_err_op_def map_err_def split: prod.splits sum.splits)

lemma mark_Ok:
  assumes "store_mark_run_terminal rid status t s = (Ok b, s')"
  shows "(b \<longleftrightarrow> (\<exists>q \<in> set (st_runs s). sr_run_id q = rid \<and> sr_status q = ''running'')) \<and>
     st_runs s' = map (mark_row rid status t) (st_runs s) \<and> st_points s' = st_points s \<and>
     st_aggregates s' = st_aggregates s \<and> st_env s' = st_env s"
  using assms by (auto simp: store_mark_run_terminal_def exec_Ok list_ex_iff)

lemma status_as_str_inj: "status_as_str a = status_as_str b \<longleftrightarrow> a = b"
  by (cases a; cases b) simp_all

lemma running_str: "status_as_str a = ''running'' \<longleftrightarrow> a = Running"
  by (cases a) simp_all

lemma marked_run:
  assumes "unique_runs s" and "q \<in> set (st_runs s)" "sr_run_id q = rid" "sr_status q = ''running''"
    and "st_runs s' = map (mark_row rid target t) (st_runs s)"
    and "sr \<in> set (st_runs s')" "sr_run_id sr = rid" "into_run env sr = Ok run"
  shows "r_status run = target \<and> r_finished_at run = Some t"
proof -
  obtain q' where q': "q' \<in> set (st_runs s)" "sr = mark_row rid target t q'" using assms(5,6) by auto
  have "inj_on sr_run_id (set (st_runs s))" using assms(1) by (simp add: unique_runs_def distinct_map)
  from inj_onD [OF this, of q' q] have "q' = q" using q' assms(2,3,7) by simp
  then have sr: "sr_status sr = status_as_str target" "sr_finished_at_millis sr = Some t"
    using q'(2) assms(3,4) by (simp_all add: mark_row_def)
  have "r_status run = target" using into_run_fields [OF assms(8)] sr(1) by (simp add: status_as_str_inj)
  moreover have "r_finished_at run = Some t"
    using assms(8) sr(2) by (auto simp: into_run_def bind_r_eq_Inr timestamp_from_millis_def split: if_splits)
  ultimately show ?thesis by simp
qed

lemma complete_outcome:
  assumes run: "complete_finalization rid target i w = (Ok run, w')" and inv: "client_inv w"
    and i: "map_of (cl_active_runs w) rid = Some i"
  shows "accepted w' = accepted w \<and> st_points (client_store w') = st_points (client_store w) \<and>
    filter (\<lambda>a. sa_run_id a = rid) (st_aggregates (client_store w')) =
      aggregates_of_run (st_env (client_store w')) (st_points (client_store w')) rid \<and>
    r_run_id run = rid \<and> r_status run = target \<and> r_finished_at run \<noteq> None \<and>
    map_of (cl_active_runs w') rid = None"
proof -
  obtain u w1 t w2 updated w3 where
    c1: "catch_op (connection (rebuild_metric_aggregates_for_run rid)) (\<lambda>e.
         bind_op (open_admission i) (\<lambda>_. fail_op e)) w = (Ok u, w1)"
    and c2: "connection (current_timestamp ''finished_at'') w1 = (Ok t, w2)"
    and c3: "connection (store_mark_run_terminal rid target t) w2 = (Ok updated, w3)"
    and c4: "(if updated then
       bind_op (mark_terminal i) (\<lambda>_. bind_op (release_lock i) (\<lambda>_. bind_op (release_run_writer rid) (\<lambda>_.
       bind_op (flush_run_data rid None) (\<lambda>_. get_run rid))))
     else bind_op (get_run rid) (\<lambda>run. bind_op (open_admission i) (\<lambda>_.
       fail_op (InvalidRunTransition rid (run_status_value (r_status run)) (run_status_value target))))) w3 = (Ok run, w')"
    using run unfolding complete_finalization_def by (auto simp: bind_op_Ok)
  have "connection (rebuild_metric_aggregates_for_run rid) w = (Ok u, w1)"
    using c1 by (auto simp: catch_op_def bind_op_def set_admission_def split: prod.splits sum.splits)
  then obtain s1 where s1: "rebuild_metric_aggregates_for_run rid (client_store w) = (Ok u, s1)"
      "w1 = w\<lparr>cl_sys := (cl_sys w)\<lparr>sys_store := s1\<rparr>\<rparr>" by (auto simp: connection_Ok)
  obtain s2 where s2: "current_timestamp ''finished_at'' s1 = (Ok t, s2)" "w2 = w1\<lparr>cl_sys := (cl_sys w1)\<lparr>sys_store := s2\<rparr>\<rparr>"
    using c2 s1(2) by (auto simp: connection_Ok)
  obtain s3 where s3: "store_mark_run_terminal rid target t s2 = (Ok updated, s3)"
      "w3 = w2\<lparr>cl_sys := (cl_sys w2)\<lparr>sys_store := s3\<rparr>\<rparr>"
    using c3 s2(2) by (auto simp: connection_Ok)
  note r1 = rebuild_outcome [OF s1(1)] and r2 = current_timestamp_frame [OF s2(1)] and r3 = mark_Ok [OF s3(1)]
  have upd: updated using c4 by (auto simp: bind_op_Ok split: if_splits)
  obtain q where q: "q \<in> set (st_runs s2)" "sr_run_id q = rid" "sr_status q = ''running''" using r3 upd by blast
  have uniq: "unique_runs s2"
    using inv r1 r2 by (simp add: client_inv_def sys_ok_def unique_runs_def same_tables_def)
  have w3: "map_of (cl_active_runs w3) rid = Some i" "accepted w3 = accepted w" "client_store w3 = s3"
    "cl_objs w3 = cl_objs w" "cl_active_runs w3 = cl_active_runs w" "cl_root_path w3 = cl_root_path w" "cl_locks w3 = cl_locks w"
    using i s1(2) s2(2) s3(2) by simp_all
  have t3: "table_ok w3" using inv w3 by (simp add: client_inv_def table_ok_def)
  let ?w = "retired rid i (drop_guard ((cl_objs w3 ! i)\<lparr>ar_admission := Adm_Terminal\<rparr>)) w3"
  have tail: "bind_op (flush_run_data rid None) (\<lambda>_. get_run rid) ?w = (Ok run, w')"
    using c4 upd end_writer [OF t3 w3(1), of "\<lambda>_. bind_op (flush_run_data rid None) (\<lambda>_. get_run rid)"] by simp
  then obtain v w4 where w4: "flush_run_data rid None ?w = (Ok v, w4)" "get_run rid w4 = (Ok run, w')"
    by (auto simp: bind_op_Ok)
  have "settled ?w w4" by (rule steps_opD [OF settling.frame_flush w4(1)])
  moreover have "settled w4 w'" by (rule steps_opD [OF settling.frame_get_run w4(2)])
  ultimately have st: "settled ?w w4" "settled ?w w'" using settling.trans_state by blast+
  have tables: "same_tables s3 (client_store w4)" "same_tables s3 (client_store w')"
    using st w3(3) by (simp_all add: settled_def retired_def)
  obtain sr where sr: "sr \<in> set (st_runs (client_store w4))" "sr_run_id sr = rid"
      "into_run (st_env (client_store w4)) sr = Ok run" "r_run_id run = rid"
    using get_run_Ok(1,2) [OF w4(2)] by blast
  have "r_status run = target \<and> r_finished_at run = Some t"
    by (rule marked_run [OF uniq q, of "client_store w4"]) (use r3 tables(1) sr in \<open>auto simp: same_tables_def\<close>)
  moreover have "filter (\<lambda>a. sa_run_id a = rid) (st_aggregates s1) = aggregates_of_run (st_env s1) (st_points s1) rid"
    using r1 aggregates_of_run_id by (auto simp: filter_empty_conv filter_id_conv)
  then have "filter (\<lambda>a. sa_run_id a = rid) (st_aggregates (client_store w')) =
      aggregates_of_run (st_env (client_store w')) (st_points (client_store w')) rid"
    using r2 r3 tables(2) by (simp add: same_tables_def)
  moreover have "st_points (client_store w') = st_points (client_store w)"
    using r1 r2 r3 tables(2) by (simp add: same_tables_def)
  moreover have "accepted w' = accepted w" using st(2) w3(2) by (simp add: settled_def retired_def)
  moreover have "map_of (cl_active_runs w') rid = None"
    using st(2) retired_gone by (simp add: settled_def)
  ultimately show ?thesis using sr(4) by blast
qed

lemma finalize_chain:
  assumes "finalize_run rid target timeout w = Some (Ok run, w')" and "client_inv w"
  obtains i wb u wd where "begin_finalization rid target w = (Ok i, wb)" "closing rid i wb" "accepted wb = accepted w"
    "drain timeout wb = Some (Ok u, wd)" "closing rid i wd" "complete_finalization rid target i wd = (Ok run, w')"
proof -
  obtain i wb where b: "begin_finalization rid target w = (Ok i, wb)"
    using assms(1) by (cases "begin_finalization rid target w"; cases "fst (begin_finalization rid target w)")
      (auto simp: finalize_run_def bind_wait_def)
  note out = begin_outcome [OF b assms(2)]
  obtain rd wd where d: "drain timeout wb = Some (rd, wd)"
    using assms(1) b by (auto simp: finalize_run_def bind_wait_def split: option.splits)
  have "\<exists>u. rd = Ok u"
    using assms(1) b d by (cases rd) (auto simp: finalize_run_def bind_wait_def bind_op_def set_admission_def)
  then obtain u where u: "drain timeout wb = Some (Ok u, wd)" using d by blast
  have "closing rid i wb" using out by (simp add: closing_def)
  then show ?thesis
    using that [OF b _ _ u] out closing_calm [OF calm_drain [OF d]] assms(1) b u
    by (simp add: finalize_run_def bind_wait_def)
qed

lemma inactive_refuses:
  assumes "client_inv w" and "h \<in> set (cl_handles w)" and "map_of (cl_active_runs w) (r_run_id (nr_run h)) = None"
  shows "\<exists>e. fst (log_metric_at_step h key stp v now w) = Err e"
proof (cases "ar_admission (cl_objs w ! nr_active h) = Adm_Open")
  case False
  then show ?thesis
    by (cases "ar_admission (cl_objs w ! nr_active h)") (simp_all add: log_metric_at_step_def with_open_admission_def)
next
  case True
  have "nr_active h \<notin> snd ` set (cl_active_runs w)"
    using assms by (force simp: client_inv_def handles_ok_def map_of_eq_None_iff)
  then have "\<not> rep_sender (client_reporter w)"
    using True assms(1,2) by (auto simp: client_inv_def handles_ok_def)
  then show ?thesis
    using True by (simp add: log_metric_at_step_def with_open_admission_def sys_report_def report_metric_def)
qed

lemma inactive_not_held:
  assumes "client_inv w" and "map_of (cl_active_runs w) rid = None"
  shows "run_lock_path (cl_root_path w) rid \<notin> set (held_locks w)"
proof
  assume "run_lock_path (cl_root_path w) rid \<in> set (held_locks w)"
  then have "run_lock_path (cl_root_path w) rid \<in> run_lock_path (cl_root_path w) ` fst ` set (cl_active_runs w)"
    using held_is_active assms(1) by (simp add: client_inv_def)
  then obtain r where "r \<in> fst ` set (cl_active_runs w)" "run_lock_path (cl_root_path w) rid = run_lock_path (cl_root_path w) r"
    by (elim imageE) blast
  then have "rid \<in> fst ` set (cl_active_runs w)" using run_lock_path_inj by blast
  then show False using assms(2) by (simp add: map_of_eq_None_iff)
qed

subsection \<open>A sample client\<close>

text \<open>A client that resumed the run \<open>r1\<close> of the sample store and reported one value through its handle.\<close>

definition sample_open :: open_env where
  "sample_open = \<lparr>oe_store = sample_store, oe_start = 0, oe_lttb = sample_lttb,
     oe_locks = \<lparr>le_dir = None, le_open = (\<lambda>_. None), le_try = (\<lambda>_. None), le_held = []\<rparr>,
     oe_uuids = [], oe_flushes = [], oe_drains = [([Worker_Turn], False)]\<rparr>"

definition sample_run :: run where
  "sample_run = \<lparr>r_run_id = ''r1'', r_project_id = ''p'', r_name = ''first'', r_status = Running,
     r_created_at = 5, r_started_at = 5, r_finished_at = None\<rparr>"

definition sample_handle :: native_run where
  "sample_handle = \<lparr>nr_run = sample_run, nr_active = 0\<rparr>"

definition sample_resumed :: client where
  "sample_resumed = (new_client ''/p'' 4 sample_open)
     \<lparr>cl_objs := [active_run_open (run_lock_path ''/p'' ''r1'')], cl_active_runs := [(''r1'', 0)]\<rparr>"

definition sample_client :: client where
  "sample_client = sample_resumed\<lparr>cl_handles := [sample_handle], cl_sys := sample_system\<rparr>"

lemma sample_row: "st_runs sample_store = [\<lparr>sr_run_id = ''r1'', sr_project_id = ''p'', sr_name = ''first'', sr_status = ''running'',
        sr_created_at_millis = 5, sr_started_at_millis = 5, sr_finished_at_millis = None\<rparr>]"
  by (simp add: sample_store_def)

lemma sample_get_run: "store_get_run ''r1'' sample_store = (Ok sample_run, sample_store)"
  by (simp add: store_get_run_def bind_op_def query_no_faults sample_row into_run_def sample_ts_ok
      timestamp_from_millis_def sample_run_def run_status_from_str_def)

lemma sample_calls:
  "resume_run ''r1'' (new_client ''/p'' 4 sample_open) = (Ok sample_run, sample_resumed)"
  "run_handle sample_run sample_resumed = (0, sample_resumed\<lparr>cl_handles := [sample_handle]\<rparr>)"
  "log_metric_at_step sample_handle ''loss'' 2 (F_Fin False 1) 8 (sample_resumed\<lparr>cl_handles := [sample_handle]\<rparr>) =
     (Ok (), sample_client)"
proof -
  let ?w0 = "new_client ''/p'' 4 sample_open"
  have sys: "cl_sys ?w0 = sys_init sample_store 4 0" "cl_sys sample_resumed = sys_init sample_store 4 0"
    by (simp_all add: new_client_def sample_open_def sample_resumed_def)
  have "get_run ''r1'' ?w0 = (Ok sample_run, ?w0)"
    using sample_get_run by (simp add: get_run_def connection_def with_store_def map_err_op_def sys sys_init_def new_client_def sample_open_def)
  moreover have "acquire_run_writer ''r1'' ?w0 = (Ok 0, sample_resumed)"
    by (simp add: acquire_run_writer_def run_writer_guard_acquire_def Let_def sample_resumed_def new_client_def sample_open_def held_locks_def)
  ultimately show "resume_run ''r1'' ?w0 = (Ok sample_run, sample_resumed)"
    by (simp add: resume_run_def bind_op_def ensure_writeable_def sample_run_def) (simp add: new_client_def)
  show "run_handle sample_run sample_resumed = (0, sample_resumed\<lparr>cl_handles := [sample_handle]\<rparr>)"
    by (simp add: run_handle_def sample_resumed_def sample_handle_def sample_run_def new_client_def)
  show "log_metric_at_step sample_handle ''loss'' 2 (F_Fin False 1) 8 (sample_resumed\<lparr>cl_handles := [sample_handle]\<rparr>) =
     (Ok (), sample_client)"
    by (simp add: log_metric_at_step_def with_open_admission_def sys_report_def report_metric_def sys sample_handle_def
        sample_resumed_def active_run_open_def sys_init_def open_with_capacity_def diagnostics_default_def Let_def
        is_writer_failed_def sample_client_def sample_system_def reported_def on_diag_def sample_run_def make_report_def)
qed

lemma sample_steps:
  "client_steps (new_client ''/p'' 4 sample_open) (sample_resumed\<lparr>cl_handles := [sample_handle]\<rparr>)"
  "client_step (sample_resumed\<lparr>cl_handles := [sample_handle]\<rparr>) sample_client"
proof -
  show "client_steps (new_client ''/p'' 4 sample_open) (sample_resumed\<lparr>cl_handles := [sample_handle]\<rparr>)"
    using st_resume_run [OF sample_calls(1)] st_handle [OF sample_calls(2)]
    by (meson r_into_rtranclp rtranclp.rtrancl_into_rtrancl)
  show "client_step (sample_resumed\<lparr>cl_handles := [sample_handle]\<rparr>) sample_client"
    by (rule st_log [OF _ sample_calls(3)]) simp
qed

lemma sample_handled: "reachable_client (sample_resumed\<lparr>cl_handles := [sample_handle]\<rparr>)"
proof -
  have "unique_runs (oe_store sample_open)" by (simp add: sample_open_def unique_runs_def sample_row)
  then show ?thesis unfolding reachable_client_def using sample_steps(1) by blast
qed

lemma sample_reached: "reachable_client sample_client"
  using reachable_client_steps [OF sample_handled] sample_steps(2) by blast

text \<open>The same client with a handle, before any report, where the environment chooses what comes.\<close>

definition sample_scripted :: "string option list \<Rightarrow> int list \<Rightarrow> (interference list \<times> bool) list \<Rightarrow> client" where
  "sample_scripted faults clock drains = sample_resumed\<lparr>cl_handles := [sample_handle], cl_drains := drains,
     cl_sys := (sys_init sample_store 4 0)\<lparr>sys_store := sample_store\<lparr>st_faults := faults, st_clock := clock\<rparr>\<rparr>\<rparr>"

lemma sample_scripted_reached: "reachable_client (sample_scripted faults clock drains)"
proof -
  let ?w = "sample_resumed\<lparr>cl_handles := [sample_handle]\<rparr>"
  have sys: "cl_sys ?w = sys_init sample_store 4 0" "client_store ?w = sample_store" "set (le_held (cl_locks ?w)) = {}"
    by (simp_all add: sample_resumed_def new_client_def sample_open_def sys_init_def)
  have "client_step ?w (?w\<lparr>cl_locks := cl_locks ?w, cl_uuids := cl_uuids ?w, cl_flushes := cl_flushes ?w, cl_drains := drains,
       cl_sys := (cl_sys ?w)\<lparr>sys_store := (client_store ?w)\<lparr>st_faults := faults, st_clock := clock\<rparr>\<rparr>\<rparr>)"
    using sys(3) by (intro st_environment) simp
  moreover have "?w\<lparr>cl_locks := cl_locks ?w, cl_uuids := cl_uuids ?w, cl_flushes := cl_flushes ?w, cl_drains := drains,
       cl_sys := (cl_sys ?w)\<lparr>sys_store := (client_store ?w)\<lparr>st_faults := faults, st_clock := clock\<rparr>\<rparr>\<rparr> =
     sample_scripted faults clock drains"
    by (simp add: sample_scripted_def sys_init_def sample_resumed_def new_client_def sample_open_def)
  ultimately show ?thesis using reachable_client_steps [OF sample_handled] by (metis r_into_rtranclp)
qed

text \<open>Ending that run: the worker takes its turn during the drain.\<close>

lemma sample_write_state:
  "\<exists>s'. write_metric_batch [make_report (open_with_capacity 4) ''r1'' ''loss'' 2 (F_Fin False 1) 8] 0 sample_store = (Ok 11, s') \<and>
     st_faults s' = [] \<and> st_clock s' = [11, 12] \<and> st_runs s' = st_runs sample_store \<and> st_env s' = sample_env"
  by (simp add: write_metric_batch_def now_millis_def append_metric_batch_def map_err_op_def bind_op_def
        update_no_faults make_report_def open_with_capacity_def timestamp_from_millis_def sample_ts_ok append_flush_def)

lemma sample_turn_state:
  "d_persisted_through (rep_diag (sys_rep (worker_turn sample_system))) = 1 \<and>
   \<not> is_writer_failed (rep_diag (sys_rep (worker_turn sample_system))) \<and>
   st_faults (sys_store (worker_turn sample_system)) = [] \<and> st_clock (sys_store (worker_turn sample_system)) = [11, 12] \<and>
   st_runs (sys_store (worker_turn sample_system)) = st_runs sample_store \<and> st_env (sys_store (worker_turn sample_system)) = sample_env \<and>
   length (sys_accepted (worker_turn sample_system)) = 1"
proof -
  obtain s' where w: "write_metric_batch [make_report (open_with_capacity 4) ''r1'' ''loss'' 2 (F_Fin False 1) 8] 0 sample_store = (Ok 11, s')"
    "st_faults s' = []" "st_clock s' = [11, 12]" "st_runs s' = st_runs sample_store" "st_env s' = sample_env"
    using sample_write_state by blast
  have "rpt_seq (make_report (open_with_capacity 4) ''r1'' ''loss'' 2 (F_Fin False 1) 8) = 1"
    by (simp add: open_with_capacity_def)
  then show ?thesis
    using w by (simp add: worker_turn_def worker_iteration_def sample_system_simps retry_metric_batch_write_def
        retry_loop.simps [of _ 0] Let_def)
qed

definition sample_closed :: client where
  "sample_closed = on_object 0 (\<lambda>ob. ob\<lparr>ar_admission := Adm_Closing\<rparr>) sample_client"

definition sample_drained_client :: client where
  "sample_drained_client = (on_worker sample_closed)\<lparr>cl_drains := []\<rparr>"

lemma sample_begin: "begin_finalization ''r1'' Finished sample_client = (Ok 0, sample_closed)"
proof -
  have sys: "cl_sys sample_client = sample_system" "cl_active_runs sample_client = [(''r1'', 0)]"
    "cl_is_shutdown sample_client = False"
    by (simp_all add: sample_client_def sample_resumed_def new_client_def)
  have "sample_client\<lparr>cl_sys := sample_system\<lparr>sys_store := sample_store\<rparr>\<rparr> = sample_client"
    using sample_system_simps(3) by (intro client.equality system.equality) (simp_all add: sys)
  then have "get_run ''r1'' sample_client = (Ok sample_run, sample_client)"
    using sample_get_run by (simp add: get_run_def connection_def with_store_def map_err_op_def sys sample_system_simps)
  then show ?thesis
    by (simp add: begin_finalization_def bind_op_def ensure_writeable_def sys sample_run_def acquire_run_writer_def
        set_admission_def sample_closed_def)
qed

lemma sample_drain: "drain None sample_closed = Some (Ok (), sample_drained_client)"
proof -
  have "cl_sys sample_closed = sample_system" "cl_drains sample_closed = [([Worker_Turn], False)]"
    by (simp_all add: sample_closed_def sample_client_def on_object_def sample_resumed_def new_client_def sample_open_def)
  moreover have "enqueue_barrier_sequence (sys_rep sample_system) = 1"
    by (simp add: enqueue_barrier_sequence_def sample_system_simps u64_sat_sub_def)
  ultimately show ?thesis
    using sample_turn_state by (simp add: drain_def Let_def sample_drained_client_def on_worker_def)
qed

lemma sample_complete: "\<exists>run w'. complete_finalization ''r1'' Finished 0 sample_drained_client = (Ok run, w') \<and>
    length (accepted w') = 1 \<and> cl_handles w' = [sample_handle]"
proof -
  let ?w = sample_drained_client
  let ?y = "worker_turn sample_system"
  have w: "cl_sys ?w = ?y" "cl_active_runs ?w = [(''r1'', 0)]" "cl_is_shutdown ?w = False"
      "length (cl_objs ?w) = 1" "cl_flushes ?w = []" "cl_handles ?w = [sample_handle]"
    by (simp_all add: sample_drained_client_def on_worker_def sample_closed_def sample_client_def on_object_def
        sample_resumed_def new_client_def sample_open_def)
  note t = sample_turn_state
  show ?thesis
    using t by (simp add: complete_finalization_def bind_op_def catch_op_def connection_def with_store_def map_err_op_def
        rebuild_metric_aggregates_for_run_def update_no_faults w current_timestamp_def now_millis_def timestamp_from_millis_def
        sample_ts_ok store_mark_run_terminal_def exec_def sample_row mark_row_def set_admission_def release_lock_def
        release_run_writer_def on_object_def flush_run_data_def ensure_writeable_def get_run_def store_get_run_def
        query_no_faults into_run_def run_status_from_str_def next_flush_def flush_with_def on_reporter_def acquire_flush_lock_def
        store_flush_metric_points_def sys_diag_def flush_calm_def)
qed

lemma sample_finished: "\<exists>run w'. finalize_run ''r1'' Finished None sample_client = Some (Ok run, w') \<and>
    length (accepted w') = 1 \<and> cl_handles w' = [sample_handle]"
  using sample_complete by (auto simp: finalize_run_def bind_wait_def sample_begin sample_drain)

lemma only_row: "x \<in> set zs \<Longrightarrow> distinct (map f zs) \<Longrightarrow> filter (\<lambda>r. f r = f x) zs = [x]"
  by (induction zs) (auto simp: filter_empty_conv rev_image_eqI)

lemma one_writer_held: "reachable_client w \<Longrightarrow> set (held_locks w) \<inter> set (le_held (cl_locks w)) = {}"
proof -
  assume "reachable_client w"
  then have t: "table_ok w" using reachable_client_inv by (simp add: client_inv_def)
  have "p \<notin> set (le_held (cl_locks w))" if p: "p \<in> set (held_locks w)" for p
  proof -
    obtain rid i where "(rid, i) \<in> set (cl_active_runs w)" "p = run_lock_path (cl_root_path w) rid"
      using p held_is_active [OF t] by auto
    then show ?thesis using t by (auto simp: table_ok_def)
  qed
  then show ?thesis by blast
qed

subsection \<open>Properties\<close>

text \<open>C2: a run that ends is complete. When \<open>finish_run\<close> or \<open>fail_run\<close> succeeds on a reachable client,
  whatever the worker and other threads did during the drain, the run has the requested status and
  an end time, every report that was ever accepted for it has its row in the store, its
  aggregates are those of all its rows, its lock file is free, and every handle on it refuses
  further reports.\<close>

theorem finished_run_is_complete:
  assumes reach: "reachable_client w" and fin: "finalize_run rid target timeout w = Some (Ok run, w')"
    and small: "length (accepted w') + 1 < 2 ^ 64"
  shows "r_run_id run = rid \<and> r_status run = target \<and> r_finished_at run \<noteq> None \<and>
    (\<forall>r \<in> set (accepted w'). rpt_run_id r = rid \<longrightarrow> report_stored (client_store w') r) \<and>
    filter (\<lambda>a. sa_run_id a = rid) (st_aggregates (client_store w')) =
      aggregates_of_run (st_env (client_store w')) (st_points (client_store w')) rid \<and>
    run_lock_path (cl_root_path w') rid \<notin> set (held_locks w') \<and>
    (\<forall>h \<in> set (cl_handles w'). r_run_id (nr_run h) = rid \<longrightarrow>
       (\<exists>e. fst (log_metric_at_step h key stp v now w') = Err e))"
proof -
  have inv: "client_inv w" by (rule reachable_client_inv [OF reach])
  from fin inv obtain i wb u wd where c: "begin_finalization rid target w = (Ok i, wb)" "closing rid i wb"
      "drain timeout wb = Some (Ok u, wd)" "closing rid i wd" "complete_finalization rid target i wd = (Ok run, w')"
    by (rule finalize_chain)
  have b: "client_inv wb" "client_inv wd" "map_of (cl_active_runs wd) rid = Some i" using c(2,4) by (simp_all add: closing_def)
  note out = complete_outcome [OF c(5) b(2,3)]
  have inv': "client_inv w'" using complete_keeps [OF c(5) b(2,3)] by blast
  have "report_stored (client_store w') r" if r: "r \<in> set (accepted w')" "rpt_run_id r = rid" for r
  proof -
    obtain rs where rs: "accepted wd = accepted wb @ rs" "\<forall>r \<in> set rs. rpt_run_id r \<noteq> rid"
      using drain_others [OF _ c(2)] c(3) unfolding drain_def others_only_def by blast
    have "r \<in> set (accepted wb)" using r rs out by auto
    then have "report_stored (client_store wd) r"
      using drain_stores [OF c(3) b(1)] small out by simp
    then show ?thesis using out by (simp add: report_stored_def)
  qed
  moreover have "\<forall>h \<in> set (cl_handles w'). r_run_id (nr_run h) = rid \<longrightarrow>
       (\<exists>e. fst (log_metric_at_step h key stp v now w') = Err e)"
    using inactive_refuses [OF inv'] out by blast
  ultimately show ?thesis using out inactive_not_held [OF inv'] by blast
qed

theorem finished_run_is_complete_witness:
  "\<exists>run w'. finalize_run ''r1'' Finished None sample_client = Some (Ok run, w') \<and> r_status run = Finished \<and>
     length (accepted w') = 1 \<and> run_lock_path (cl_root_path w') ''r1'' \<notin> set (held_locks w') \<and>
     (\<exists>e. fst (log_metric_at_step sample_handle ''loss'' 3 fzero 9 w') = Err e)"
proof -
  obtain run w' where w': "finalize_run ''r1'' Finished None sample_client = Some (Ok run, w')"
      "length (accepted w') = 1" "cl_handles w' = [sample_handle]" using sample_finished by blast
  have small: "length (accepted w') + 1 < 2 ^ 64" using w'(2) by simp
  note t = finished_run_is_complete [OF sample_reached w'(1) small, of "''loss''" 3 fzero 9]
  have "r_run_id (nr_run sample_handle) = ''r1''" by (simp add: sample_handle_def sample_run_def)
  then have "\<exists>e. fst (log_metric_at_step sample_handle ''loss'' 3 fzero 9 w') = Err e" using t w'(3) by auto
  then show ?thesis using t w'(1,2) by blast
qed

text \<open>C3: one writer per run. In every reachable client the lock files held are exactly those of the
  active runs, nobody else holds one of them, a run is active at most once and exists in the store, and a report is accepted only through a handle whose run is active with the handle's
  own object, which holds the run's lock file.\<close>

theorem one_writer_per_run:
  assumes "reachable_client w"
  shows "set (held_locks w) = run_lock_path (cl_root_path w) ` fst ` set (cl_active_runs w) \<and>
    set (held_locks w) \<inter> set (le_held (cl_locks w)) = {} \<and> distinct (map fst (cl_active_runs w)) \<and>
    fst ` set (cl_active_runs w) \<subseteq> sr_run_id ` set (st_runs (client_store w)) \<and>
    (\<forall>h \<in> set (cl_handles w). fst (log_metric_at_step h key stp v now w) = Ok () \<longrightarrow>
       map_of (cl_active_runs w) (r_run_id (nr_run h)) = Some (nr_active h) \<and>
       ar_guard (cl_objs w ! nr_active h) = Some (run_lock_path (cl_root_path w) (r_run_id (nr_run h))))"
proof -
  have inv: "client_inv w" by (rule reachable_client_inv [OF assms])
  then have t: "table_ok w" and ex: "runs_exist w" by (simp_all add: client_inv_def)
  note held = held_is_active [OF t]
  note one_writer_held [OF assms]
  moreover have "map_of (cl_active_runs w) (r_run_id (nr_run h)) = Some (nr_active h) \<and>
       ar_guard (cl_objs w ! nr_active h) = Some (run_lock_path (cl_root_path w) (r_run_id (nr_run h)))"
    if h: "h \<in> set (cl_handles w)" "fst (log_metric_at_step h key stp v now w) = Ok ()" for h
  proof -
    obtain i where i: "map_of (cl_active_runs w) (r_run_id (nr_run h)) = Some i"
      using inactive_refuses [OF inv h(1), of key stp v now] h(2) by (cases "map_of (cl_active_runs w) (r_run_id (nr_run h))") auto
    have op: "ar_admission (cl_objs w ! nr_active h) = Adm_Open" "rep_sender (client_reporter w)"
      using h(2) by (cases "ar_admission (cl_objs w ! nr_active h)";
          auto simp: log_metric_at_step_def with_open_admission_def sys_report_def report_metric_def split: if_splits)+
    then obtain r where r: "(r, nr_active h) \<in> set (cl_active_runs w)"
      using inv h(1) by (force simp: client_inv_def handles_ok_def)
    then have "r = r_run_id (nr_run h)" using inv h(1) by (auto simp: client_inv_def handles_ok_def)
    then have "map_of (cl_active_runs w) (r_run_id (nr_run h)) = Some (nr_active h)"
      using r t by (intro map_of_is_SomeI) (auto simp: table_ok_def)
    then show ?thesis using table_entry(2) [OF t] by blast
  qed
  ultimately show ?thesis using held t ex by (auto simp: table_ok_def runs_exist_def)
qed

theorem one_writer_per_run_witness:
  "set (held_locks sample_client) = {run_lock_path ''/p'' ''r1''} \<and>
   run_lock_path ''/p'' ''r1'' \<notin> set (le_held (cl_locks sample_client))"
proof -
  have "cl_active_runs sample_client = [(''r1'', 0)]" "cl_root_path sample_client = ''/p''"
    by (simp_all add: sample_client_def sample_resumed_def new_client_def)
  then show ?thesis using one_writer_per_run [OF sample_reached, of "''k''" 0 fzero 0] by auto
qed

text \<open>C4: an ended run stays as it ended, and nothing that was stored or accepted is taken back: whatever
  a reachable client does next, failing or not, the row of a run that is no longer running is
  the only row with its identity and is unchanged, and the points and accepted reports only grow.\<close>

theorem ended_run_is_final:
  assumes reach: "reachable_client w" and steps: "client_steps w w'"
    and sr: "sr \<in> set (st_runs (client_store w))" and ended: "sr_status sr \<noteq> ''running''"
  shows "filter (\<lambda>r. sr_run_id r = sr_run_id sr) (st_runs (client_store w')) = [sr] \<and>
    grows (st_points (client_store w)) (st_points (client_store w')) \<and> grows (accepted w) (accepted w')"
proof -
  have inv: "client_inv w" by (rule reachable_client_inv [OF reach])
  have k: "client_inv w'" "client_le w w'" using client_steps_keep [OF steps inv] by simp_all
  then obtain us ts where u: "st_runs (client_store w') = us @ ts" "list_all2 run_row_le (st_runs (client_store w)) us"
    by (auto simp: client_le_def store_le_def runs_le_def)
  obtain n where n: "n < length (st_runs (client_store w))" "st_runs (client_store w) ! n = sr"
    using sr by (auto simp: in_set_conv_nth)
  then have "run_row_le sr (us ! n)" "n < length us" using u(2) by (auto simp: list_all2_conv_all_nth)
  then have "sr \<in> set (st_runs (client_store w'))" using ended u(1) by (auto simp: run_row_le_def in_set_conv_nth)
  moreover have "distinct (map sr_run_id (st_runs (client_store w')))"
    using k(1) by (simp add: client_inv_def sys_ok_def unique_runs_def)
  ultimately have "filter (\<lambda>r. sr_run_id r = sr_run_id sr) (st_runs (client_store w')) = [sr]" by (rule only_row)
  then show ?thesis using k(2) by (simp add: client_le_def store_le_def)
qed

definition ended_sample :: open_env where
  "ended_sample = sample_open\<lparr>oe_store := sample_store\<lparr>st_runs :=
     map (mark_row ''r1'' Failed 9) (st_runs sample_store)\<rparr>\<rparr>"

theorem ended_run_is_final_witness:
  "map sr_status (filter (\<lambda>r. sr_run_id r = ''r1'') (st_runs (client_store (on_worker (new_client ''/p'' 4 ended_sample))))) = [''failed'']"
proof -
  let ?w = "new_client ''/p'' 4 ended_sample"
  let ?sr = "\<lparr>sr_run_id = ''r1'', sr_project_id = ''p'', sr_name = ''first'', sr_status = ''failed'',
        sr_created_at_millis = 5, sr_started_at_millis = 5, sr_finished_at_millis = Some 9\<rparr>"
  have rows: "st_runs (client_store ?w) = [?sr]"
    by (simp add: new_client_def ended_sample_def sys_init_def sample_row mark_row_def)
  have "unique_runs (oe_store ended_sample)" by (simp add: ended_sample_def unique_runs_def sample_row)
  then have "reachable_client ?w" unfolding reachable_client_def by blast
  moreover have "client_steps ?w (on_worker ?w)" by (rule r_into_rtranclp) (rule st_worker)
  moreover have "?sr \<in> set (st_runs (client_store ?w))" "sr_status ?sr \<noteq> ''running''" by (simp_all add: rows)
  ultimately have "filter (\<lambda>r. sr_run_id r = sr_run_id ?sr) (st_runs (client_store (on_worker ?w))) = [?sr]"
    using ended_run_is_final by blast
  then show ?thesis by simp
qed

text \<open>A drain that fails leaves the run as it was. When the drain inside \<open>finish_run\<close> or \<open>fail_run\<close>
  answers with an error, the call answers with that error, no row of the store has changed but for
  what the worker wrote, and the run is still active, with its lock and with its admission open
  again, so that reporting and another attempt go on.\<close>

theorem failed_drain_reopens:
  assumes inv: "reachable_client w" and b: "begin_finalization rid target w = (Ok i, wb)"
    and d: "drain timeout wb = Some (Err e, wd)"
  shows "\<exists>w'. finalize_run rid target timeout w = Some (Err e, w') \<and> client_store w' = client_store wd \<and>
    map_of (cl_active_runs w') rid = Some i \<and> ar_admission (cl_objs w' ! i) = Adm_Open \<and>
    ar_guard (cl_objs w' ! i) = Some (run_lock_path (cl_root_path w') rid) \<and>
    (\<forall>h. nr_active h = i \<longrightarrow> log_metric_at_step h key stp v now w' = sys_report (r_run_id (nr_run h)) key stp v now w')"
proof -
  let ?w = "on_object i (\<lambda>ob. ob\<lparr>ar_admission := Adm_Open\<rparr>) wd"
  have "closing rid i wb" using begin_outcome [OF b reachable_client_inv [OF inv]] by (simp add: closing_def)
  then have c: "closing rid i wd" by (rule closing_calm [OF calm_drain [OF d]])
  then have wd: "table_ok wd" "map_of (cl_active_runs wd) rid = Some i" by (simp_all add: closing_def client_inv_def)
  note e = table_entry [OF wd]
  have "finalize_run rid target timeout w = Some (Err e, ?w)"
    using b d by (simp add: finalize_run_def bind_wait_def bind_op_def set_admission_def)
  moreover have "ar_admission (cl_objs ?w ! i) = Adm_Open" "ar_guard (cl_objs ?w ! i) = Some (run_lock_path (cl_root_path wd) rid)"
    using e by (simp_all add: on_object_objs)
  moreover have "client_store ?w = client_store wd" "cl_active_runs ?w = cl_active_runs wd" "cl_root_path ?w = cl_root_path wd"
    by (simp_all add: on_object_def)
  ultimately show ?thesis
    using wd(2) by (intro exI [of _ ?w]) (auto simp: log_metric_at_step_def with_open_admission_def)
qed

theorem failed_drain_reopens_witness:
  "\<exists>w' wb wd. begin_finalization ''r1'' Finished (sample_client\<lparr>cl_drains := [([], True)]\<rparr>) = (Ok 0, wb) \<and>
     drain (Some 0) wb = Some (Err MetricDrainTimeout, wd) \<and>
     finalize_run ''r1'' Finished (Some 0) (sample_client\<lparr>cl_drains := [([], True)]\<rparr>) = Some (Err MetricDrainTimeout, w') \<and>
     ar_admission (cl_objs w' ! 0) = Adm_Open"
proof -
  let ?w = "sample_client\<lparr>cl_drains := [([], True)]\<rparr>"
  let ?wb = "sample_closed\<lparr>cl_drains := [([], True)]\<rparr>"
  have sys: "cl_sys sample_client = sample_system" "cl_active_runs sample_client = [(''r1'', 0)]" "cl_is_shutdown sample_client = False"
    "cl_sys sample_closed = sample_system"
    by (simp_all add: sample_closed_def on_object_def sample_client_def sample_resumed_def new_client_def)
  have "?w\<lparr>cl_sys := sample_system\<lparr>sys_store := sample_store\<rparr>\<rparr> = ?w"
    using sample_system_simps(3) by (intro client.equality system.equality) (simp_all add: sys)
  then have "get_run ''r1'' ?w = (Ok sample_run, ?w)"
    using sample_get_run by (simp add: get_run_def connection_def with_store_def map_err_op_def sys sample_system_simps)
  then have b: "begin_finalization ''r1'' Finished ?w = (Ok 0, ?wb)"
    by (simp add: begin_finalization_def bind_op_def ensure_writeable_def sys sample_run_def acquire_run_writer_def
        set_admission_def sample_closed_def on_object_def)
  have "enqueue_barrier_sequence (sys_rep sample_system) = 1"
    by (simp add: enqueue_barrier_sequence_def sample_system_simps u64_sat_sub_def)
  then have d: "drain (Some 0) ?wb = Some (Err MetricDrainTimeout, ?wb\<lparr>cl_drains := []\<rparr>)"
    by (simp add: drain_def sys Let_def sample_system_simps)
  have "client_step sample_client (sample_client\<lparr>cl_locks := cl_locks sample_client, cl_uuids := cl_uuids sample_client,
      cl_flushes := cl_flushes sample_client, cl_drains := [([], True)],
      cl_sys := (cl_sys sample_client)\<lparr>sys_store := (client_store sample_client)\<lparr>st_faults := st_faults (client_store sample_client),
        st_clock := st_clock (client_store sample_client)\<rparr>\<rparr>\<rparr>)"
    using one_writer_held by (intro st_environment) (simp add: sample_reached Int_commute)
  then have "client_step sample_client ?w" by simp
  then have "reachable_client ?w" using reachable_client_steps [OF sample_reached] by blast
  from failed_drain_reopens [OF this b d] b d show ?thesis by blast
qed

lemma drain_idle:
  assumes "client_reporter w = open_with_capacity capacity" and "cl_drains w = [([], False)]"
  shows "drain None w = Some (Ok (), w\<lparr>cl_drains := []\<rparr>)"
  using assms by (simp add: drain_def Let_def enqueue_barrier_sequence_def open_with_capacity_def u64_sat_sub_def
      diagnostics_default_def is_writer_failed_def)

text \<open>C11: an attempt that fails late leaves the run closed. When the drain and the rebuild succeed but the
  statement that marks the run as ended fails, \<open>finish_run\<close> answers with that error and nothing
  reopens the admission: the run is still running in the store and still active here, but every
  handle on it answers that the run is closed.\<close>

theorem failed_mark_leaves_run_closed:
  assumes reach: "reachable_client w" and b: "begin_finalization rid target w = (Ok i, wb)"
    and d: "drain timeout wb = Some (Ok u, wd)"
    and rebuild: "connection (rebuild_metric_aggregates_for_run rid) wd = (Ok v, w1)"
    and clock: "connection (current_timestamp ''finished_at'') w1 = (Ok t, w2)"
    and mark: "connection (store_mark_run_terminal rid target t) w2 = (Err e, w3)"
  shows "finalize_run rid target timeout w = Some (Err e, w3) \<and> st_runs (client_store w3) = st_runs (client_store wd) \<and>
    map_of (cl_active_runs w3) rid = Some i \<and>
    (\<forall>h. nr_active h = i \<longrightarrow> log_metric_at_step h key stp x now w3 = (Err (RunClosed (r_run_id (nr_run h))), w3))"
proof -
  have "closing rid i wb" using begin_outcome [OF b reachable_client_inv [OF reach]] by (simp add: closing_def)
  then have "closing rid i wd" by (rule closing_calm [OF calm_drain [OF d]])
  then have wd: "map_of (cl_active_runs wd) rid = Some i" "ar_admission (cl_objs wd ! i) = Adm_Closing"
    by (simp_all add: closing_def)
  have "catch_op (connection (rebuild_metric_aggregates_for_run rid)) (\<lambda>e. bind_op (open_admission i) (\<lambda>_. fail_op e)) wd
      = (Ok v, w1)" by (simp add: catch_op_def rebuild)
  then have "complete_finalization rid target i wd = (Err e, w3)"
    using clock mark by (simp add: complete_finalization_def bind_op_def)
  then have fin: "finalize_run rid target timeout w = Some (Err e, w3)"
    using b d by (simp add: finalize_run_def bind_wait_def)
  obtain s1 where s1: "rebuild_metric_aggregates_for_run rid (client_store wd) = (Ok v, s1)"
      "w1 = wd\<lparr>cl_sys := (cl_sys wd)\<lparr>sys_store := s1\<rparr>\<rparr>" using rebuild by (auto simp: connection_Ok)
  obtain s2 where s2: "current_timestamp ''finished_at'' s1 = (Ok t, s2)" "w2 = w1\<lparr>cl_sys := (cl_sys w1)\<lparr>sys_store := s2\<rparr>\<rparr>"
    using clock s1(2) by (auto simp: connection_Ok)
  obtain r3 s3 where s3: "store_mark_run_terminal rid target t s2 = (r3, s3)" by (cases "store_mark_run_terminal rid target t s2")
  then have "\<exists>g. r3 = Err g" "w3 = w2\<lparr>cl_sys := (cl_sys w2)\<lparr>sys_store := s3\<rparr>\<rparr>"
    using mark s2(2) by (cases r3; auto simp: connection_def with_store_def map_err_op_def)+
  then have w3: "same_tables s2 s3" "w3 = w2\<lparr>cl_sys := (cl_sys w2)\<lparr>sys_store := s3\<rparr>\<rparr>"
    using s3 by (auto simp: store_mark_run_terminal_def exec_Err)
  have "st_runs (client_store w3) = st_runs (client_store wd)"
    using rebuild_outcome [OF s1(1)] current_timestamp_frame [OF s2(1)] w3 by (simp add: same_tables_def)
  moreover have "cl_active_runs w3 = cl_active_runs wd" "cl_objs w3 = cl_objs wd"
    using s1(2) s2(2) w3(2) by simp_all
  ultimately show ?thesis
    using fin wd by (simp add: log_metric_at_step_def with_open_admission_def)
qed

theorem failed_mark_leaves_run_closed_witness:
  "\<exists>e w3. finalize_run ''r1'' Finished None (sample_scripted [None, None, None, Some ''busy''] [20] [([], False)]) = Some (Err e, w3) \<and>
     map sr_status (st_runs (client_store w3)) = [''running''] \<and>
     log_metric_at_step sample_handle ''loss'' 3 fzero 9 w3 = (Err (RunClosed ''r1''), w3)"
proof -
  let ?w = "sample_scripted [None, None, None, Some ''busy''] [20] [([], False)]"
  let ?s = "\<lambda>faults. sample_store\<lparr>st_clock := [20], st_faults := faults\<rparr>"
  have order: "sample_store\<lparr>st_faults := fs, st_clock := cs\<rparr> = sample_store\<lparr>st_clock := cs, st_faults := fs\<rparr>" for fs cs
    by simp
  have sys: "cl_sys ?w = (sys_init sample_store 4 0)\<lparr>sys_store := ?s [None, None, None, Some ''busy'']\<rparr>"
    "cl_active_runs ?w = [(''r1'', 0)]" "cl_is_shutdown ?w = False" "length (cl_objs ?w) = 1"
    by (simp_all add: sample_scripted_def sample_resumed_def new_client_def order)
  let ?wb = "on_object 0 (\<lambda>ob. ob\<lparr>ar_admission := Adm_Closing\<rparr>)
     (?w\<lparr>cl_sys := (sys_init sample_store 4 0)\<lparr>sys_store := ?s [None, None, Some ''busy'']\<rparr>\<rparr>)"
  have b: "begin_finalization ''r1'' Finished ?w = (Ok 0, ?wb)"
    by (simp add: begin_finalization_def bind_op_def ensure_writeable_def sys get_run_def connection_def with_store_def
        map_err_op_def store_get_run_def query_def exec_def sample_row into_run_def sample_ts_ok timestamp_from_millis_def
        run_status_from_str_def acquire_run_writer_def set_admission_def)
  let ?wd = "?wb\<lparr>cl_drains := []\<rparr>"
  have wb: "cl_sys ?wb = (sys_init sample_store 4 0)\<lparr>sys_store := ?s [None, None, Some ''busy'']\<rparr>" "cl_drains ?wb = [([], False)]"
    by (simp_all add: on_object_def sample_scripted_def)
  have "client_reporter ?wb = open_with_capacity 4" unfolding wb(1) by (simp add: sys_init_def)
  then have d: "drain None ?wb = Some (Ok (), ?wd)" using wb(2) by (rule drain_idle)
  obtain s1 where r: "rebuild_metric_aggregates_for_run ''r1'' (?s [None, None, Some ''busy'']) = (Ok (), s1)"
     "st_faults s1 = [Some ''busy'']" "st_clock s1 = [20]" "st_env s1 = sample_env" "st_runs s1 = st_runs sample_store"
    by (simp add: rebuild_metric_aggregates_for_run_def bind_op_def update_def exec_def)
  let ?w1 = "?wd\<lparr>cl_sys := (cl_sys ?wd)\<lparr>sys_store := s1\<rparr>\<rparr>"
  have wd: "client_store ?wd = ?s [None, None, Some ''busy'']" using wb(1) by simp
  have r1: "connection (rebuild_metric_aggregates_for_run ''r1'') ?wd = (Ok (), ?w1)"
    using r(1) wd by (simp add: connection_Ok)
  let ?w2 = "?w1\<lparr>cl_sys := (cl_sys ?w1)\<lparr>sys_store := s1\<lparr>st_clock := []\<rparr>\<rparr>\<rparr>"
  have r2: "connection (current_timestamp ''finished_at'') ?w1 = (Ok 20, ?w2)"
    using r by (simp add: connection_Ok current_timestamp_def now_millis_def timestamp_from_millis_def sample_ts_ok)
  obtain e w3 where r3: "connection (store_mark_run_terminal ''r1'' Finished 20) ?w2 = (Err e, w3)"
    using r by (simp add: connection_def with_store_def map_err_op_def store_mark_run_terminal_def exec_def)
  note t = failed_mark_leaves_run_closed [OF sample_scripted_reached b d r1 r2 r3, of "''loss''" 3 fzero 9]
  have "nr_active sample_handle = 0" "r_run_id (nr_run sample_handle) = ''r1''" by (simp_all add: sample_handle_def sample_run_def)
  moreover have "map sr_status (st_runs (client_store ?wd)) = [''running'']" using wd by (simp add: sample_row)
  ultimately show ?thesis using t by (intro exI [of _ e] exI [of _ w3]) simp
qed

subsection \<open>Shutting down\<close>

lemma sys_ok_written: "sys_ok y \<Longrightarrow> r \<in> set (sys_written y) \<Longrightarrow> report_stored (sys_store y) r"
  by (simp add: sys_ok_def sys_inv_def inv_stored_def)

lemma empty_channel_stored:
  assumes "sys_ok y" and "sys_worker y = W_Recv" and "rep_queue (sys_rep y) = []" and "r \<in> set (sys_accepted y)"
  shows "report_stored (sys_store y) r"
  using assms sys_ok_written [of y r] by (simp add: sys_ok_def sys_inv_def inv_fifo_def)


lemma release_all_sys [simp]: "cl_sys (snd (release_all_run_writers w)) = cl_sys w"
  by (simp add: release_all_run_writers_def drop_all_frame)

lemma sample_system_ok: "sys_ok sample_system"
proof -
  have "client_inv sample_client" by (rule reachable_client_inv [OF sample_reached])
  then show ?thesis by (simp add: client_inv_def sample_client_def)
qed


text \<open>What a shutdown that succeeds has stored.\<close>

lemma shutdown_stores:
  assumes inv: "client_inv w" and run: "shutdown timeout w = Some (Ok (), w')"
    and small: "length (accepted w') + 1 < 2 ^ 64"
  shows "\<forall>r \<in> set (accepted w). report_stored (client_store w') r"
proof -
  obtain wd where d: "drain timeout w = Some (Ok (), wd)"
    using run by (auto simp: shutdown_def reporter_shutdown_def Let_def split: option.splits if_splits)
  have wd: "client_inv wd" by (rule calm_inv [OF calm_drain [OF d] inv])
  obtain w1 where w1: "w1 = snd (on_reporter (set_writer_state writer_closed) (take_worker (take_sender wd)))"
      "w' = (snd (release_all_run_writers w1))\<lparr>cl_is_shutdown := True\<rparr>"
    using run d by (simp add: shutdown_def reporter_shutdown_def Let_def)
  have ts: "client_inv (take_sender wd)" "client_le wd (take_sender wd)" "\<not> rep_sender (client_reporter (take_sender wd))"
    using take_sender_keeps [OF wd] by blast+
  note tw = take_worker_keeps [OF ts(1,3)]
  have c: "calm (take_worker (take_sender wd)) w1"
    using calm_on_reporter uncounted_settings(3) by (auto simp: steps_op_def w1(1))
  have i1: "client_inv w1" "\<not> rep_sender (client_reporter w1)" using calm_inv [OF c] tw c by (auto simp: calm_def)
  note rel = release_all_keeps [OF i1]
  have sys: "cl_sys w' = cl_sys w1" using w1(2) rel by simp
  have "client_le (take_worker (take_sender wd)) w1" using c by (simp add: calm_def)
  then have "client_le wd w1" using client_le_trans [OF client_le_trans [OF ts(2)]] tw by blast
  then have le: "client_le wd w'" by (simp add: client_le_def sys)
  have "length (accepted wd) + 1 < 2 ^ 64" using le small by (auto simp: client_le_def grows_def)
  note stored = drain_stores [OF d inv this]
  have "store_le (client_store wd) (client_store w')" using le by (simp add: client_le_def)
  then show ?thesis
    using stored report_stored_mono by blast
qed

text \<open>C5: shutting down keeps its promise. When \<open>shutdown\<close> succeeds, every report accepted before the call
  has its row in the store, no run is active and no lock file is held, and from then on
  nothing can be created, resumed, ended, flushed or reported: each of these calls answers that the
  client is closed or refuses.\<close>

theorem shutdown_is_final:
  assumes reach: "reachable_client w" and run: "shutdown timeout w = Some (Ok (), w')"
    and small: "length (accepted w') + 1 < 2 ^ 64"
  shows "(\<forall>r \<in> set (accepted w). report_stored (client_store w') r) \<and>
    cl_active_runs w' = [] \<and> held_locks w' = [] \<and>
    create_project name pid w' = (Err ClientClosed, w') \<and> create_run pid' name given w' = (Err ClientClosed, w') \<and>
    resume_run rid w' = (Err ClientClosed, w') \<and> flush_run_data rid limit w' = (Err ClientClosed, w') \<and>
    finalize_run rid target limit w' = Some (Err ClientClosed, w') \<and>
    (\<forall>h \<in> set (cl_handles w'). \<exists>e. fst (log_metric_at_step h key stp v now w') = Err e)"
proof -
  have inv: "client_inv w" by (rule reachable_client_inv [OF reach])
  note k = shutdown_keeps [OF run inv]
  have "\<forall>r \<in> set (accepted w). report_stored (client_store w') r"
    by (rule shutdown_stores [OF inv run small])
  moreover have inv': "client_inv w'" and empty: "cl_active_runs w' = []" and closed: "cl_is_shutdown w'"
    using k by blast+
  then have "held_locks w' = []" using held_is_active [of w'] inv' empty by (simp add: client_inv_def)
  moreover have "map_of (cl_active_runs w') r = None" for r by (simp add: empty)
  then have "\<forall>h \<in> set (cl_handles w'). \<exists>e. fst (log_metric_at_step h key stp v now w') = Err e"
    using inactive_refuses [OF inv'] by blast
  moreover have closed': "ensure_writeable w' = (Err ClientClosed, w')" using closed by (simp add: ensure_writeable_def)
  then have "create_project name pid w' = (Err ClientClosed, w')" "create_run pid' name given w' = (Err ClientClosed, w')"
    "resume_run rid w' = (Err ClientClosed, w')" "flush_run_data rid limit w' = (Err ClientClosed, w')"
    "finalize_run rid target limit w' = Some (Err ClientClosed, w')"
    by (simp_all add: create_project_def create_run_def resume_run_def flush_run_data_def finalize_run_def
        begin_finalization_def bind_wait_def bind_op_def)
  ultimately show ?thesis using empty by blast
qed

lemma sample_shutdown:
  obtains w' where "shutdown None sample_client = Some (Ok (), w')" "length (accepted w') = 1"
proof -
  have sys: "cl_sys sample_client = sample_system" "cl_drains sample_client = [([Worker_Turn], False)]"
    by (simp_all add: sample_client_def sample_resumed_def new_client_def sample_open_def)
  let ?wd = "(on_worker sample_client)\<lparr>cl_drains := []\<rparr>"
  have "enqueue_barrier_sequence (sys_rep sample_system) = 1"
    by (simp add: enqueue_barrier_sequence_def sample_system_simps u64_sat_sub_def)
  then have d: "drain None sample_client = Some (Ok (), ?wd)"
    using sample_turn_state by (simp add: drain_def sys Let_def on_worker_def)
  obtain w' where s: "shutdown None sample_client = Some (Ok (), w')"
    using d by (simp add: shutdown_def reporter_shutdown_def Let_def)
  have inv: "client_inv sample_client" by (rule reachable_client_inv [OF sample_reached])
  have wd: "client_inv ?wd" by (rule calm_inv [OF calm_drain [OF d] inv])
  have ts: "client_inv (take_sender ?wd)" "\<not> rep_sender (client_reporter (take_sender ?wd))"
    using take_sender_keeps [OF wd] by blast+
  have "accepted (take_worker (take_sender ?wd)) = accepted sample_client"
    using take_worker_keeps [OF ts] by (simp add: take_sender_def on_worker_def frame_simps)
  moreover have "accepted w' = accepted (take_worker (take_sender ?wd))"
    using s d by (auto simp: shutdown_def reporter_shutdown_def Let_def on_reporter_def)
  ultimately have "length (accepted w') = 1" by (simp add: sys sample_system_simps)
  with s show ?thesis by (rule that)
qed

theorem shutdown_is_final_witness:
  "\<exists>w'. shutdown None sample_client = Some (Ok (), w') \<and> held_locks w' = [] \<and>
     (\<forall>r \<in> set (accepted sample_client). report_stored (client_store w') r) \<and> accepted sample_client \<noteq> []"
proof -
  obtain w' where s: "shutdown None sample_client = Some (Ok (), w')" "length (accepted w') = 1"
    by (rule sample_shutdown)
  have "length (accepted w') + 1 < 2 ^ 64" using s(2) by simp
  from shutdown_is_final [OF sample_reached s(1) this] s(1) show ?thesis
    by (simp add: sample_client_def sample_system_simps)
qed

text \<open>The run that loses a report: the store refuses the last batch six times.\<close>

definition late_client :: client where
  "late_client = sample_scripted (replicate 6 (Some ''disk full'')) [] [([Handle_Log 0 ''loss'' 2 (F_Fin False 1) 8], False)]"

lemma faults_fail:
  assumes "n = writer_max_retries - k" and "k \<le> writer_max_retries"
  shows "\<exists>e d' sleeps'. retry_loop (write_metric_batch b m) k backoff
      (s\<lparr>st_faults := replicate (Suc n) (Some msg), st_clock := []\<rparr>, d, sleeps) =
    (Err e, (s\<lparr>st_faults := [], st_clock := []\<rparr>, d', sleeps'))"
proof -
  have f: "write_metric_batch b m (s\<lparr>st_faults := Some msg # fs, st_clock := []\<rparr>) =
      (Err (StorageFailure (SE_DuckDb (DuckDb_Other msg))), s\<lparr>st_faults := fs, st_clock := []\<rparr>)" for fs
    by (simp add: write_metric_batch_def now_millis_def append_metric_batch_def map_err_op_def bind_op_def update_def exec_def)
  show ?thesis
    using assms
  proof (induction n arbitrary: k backoff d sleeps)
    case 0
    then show ?case using f [of "[]"] by (simp add: retry_loop.simps [of _ 5])
  next
    case (Suc n)
    then have "n = writer_max_retries - (k + 1)" "k + 1 \<le> writer_max_retries" "k < writer_max_retries" by auto
    then show ?case
      using f [of "replicate (Suc n) (Some msg)"] Suc.IH [of "k + 1"] by (simp add: retry_loop.simps [of _ k])
  qed
qed

lemma late_turn:
  assumes "sys_store y = sample_store\<lparr>st_faults := replicate 6 (Some msg), st_clock := []\<rparr>" and "rep_queue (sys_rep y) \<noteq> []"
    and "sys_worker y = W_Recv"
  shows "sys_worker (worker_turn y) = W_Done \<and> st_points (sys_store (worker_turn y)) = st_points sample_store"
proof -
  obtain r rs where q: "rep_queue (sys_rep y) = r # rs" using assms(2) by (cases "rep_queue (sys_rep y)") auto
  let ?b = "r # take (metric_batch_max_reports - 1) rs"
  let ?rep1 = "(sys_rep y)\<lparr>rep_queue := drop (metric_batch_max_reports - 1) rs\<rparr>"
  have six: "replicate (Suc 5) (Some msg) = replicate 6 (Some msg)" by (simp add: numeral_eq_Suc)
  obtain e d sl where f: "retry_loop (write_metric_batch ?b (sys_next_ingested y)) 0 writer_initial_retry_backoff
      (sample_store\<lparr>st_faults := replicate (Suc 5) (Some msg), st_clock := []\<rparr>, rep_diag ?rep1, []) =
    (Err e, (sample_store\<lparr>st_faults := [], st_clock := []\<rparr>, d, sl))"
    using faults_fail [where n = 5 and k = 0 and b = ?b and m = "sys_next_ingested y" and backoff = writer_initial_retry_backoff and
        s = sample_store and msg = msg and d = "rep_diag ?rep1" and sleeps = "[]"] by auto
  have "worker_iteration (sys_store y) (sys_rep y) (sys_next_ingested y) =
     Some (False, sample_store\<lparr>st_faults := [], st_clock := []\<rparr>, ?rep1\<lparr>rep_receiver := False, rep_queue := [],
       rep_diag := set_writer_state writer_failed (set_writer_state writer_failed
                       (set_last_write_error (sanitize_metric_write_error e) d))\<rparr>, sys_next_ingested y)"
    using f [unfolded six] assms(1) q by (simp add: worker_iteration_def retry_metric_batch_write_def Let_def)
  then show ?thesis using assms(3) by (simp add: worker_turn_def)
qed

abbreviation late_report :: metric_report where
  "late_report \<equiv> make_report (open_with_capacity 4) ''r1'' ''loss'' 2 (F_Fin False 1) 8"

abbreviation late_system :: system where
  "late_system \<equiv> reported ((sys_init sample_store 4 0)
     \<lparr>sys_store := sample_store\<lparr>st_faults := replicate 6 (Some ''disk full''), st_clock := []\<rparr>\<rparr>) late_report"

lemma late_drain: "drain None late_client = Some (Ok (), late_client\<lparr>cl_drains := [], cl_sys := late_system\<rparr>)"
proof -
  have lc: "cl_sys late_client = (sys_init sample_store 4 0)
       \<lparr>sys_store := sample_store\<lparr>st_faults := replicate 6 (Some ''disk full''), st_clock := []\<rparr>\<rparr>"
    "cl_drains late_client = [([Handle_Log 0 ''loss'' 2 (F_Fin False 1) 8], False)]"
    "cl_handles late_client = [sample_handle]" "cl_objs late_client = [active_run_open (run_lock_path ''/p'' ''r1'')]"
    by (simp_all add: late_client_def sample_scripted_def sample_resumed_def)
  have log: "log_metric_at_step sample_handle ''loss'' 2 (F_Fin False 1) 8 late_client = (Ok (), late_client\<lparr>cl_sys := late_system\<rparr>)"
    by (simp add: log_metric_at_step_def with_open_admission_def sys_report_def report_metric_def lc sample_handle_def
        active_run_open_def sys_init_def open_with_capacity_def diagnostics_default_def Let_def is_writer_failed_def
        reported_def on_diag_def sample_run_def make_report_def)
  then have f: "fold interfere [Handle_Log 0 ''loss'' 2 (F_Fin False 1) 8] late_client = late_client\<lparr>cl_sys := late_system\<rparr>"
    by (simp add: lc(3))
  have rep: "client_reporter late_client = open_with_capacity 4" by (simp add: lc sys_init_def)
  have zero: "enqueue_barrier_sequence (open_with_capacity 4) = 0"
    by (simp add: enqueue_barrier_sequence_def open_with_capacity_def u64_sat_sub_def)
  have diag: "d_persisted_through (rep_diag (sys_rep late_system)) = 0" "\<not> is_writer_failed (rep_diag (sys_rep late_system))"
    by (simp_all add: reported_def on_diag_def sys_init_def open_with_capacity_def diagnostics_default_def)
  have c: "client_reporter ((late_client\<lparr>cl_sys := late_system\<rparr>)\<lparr>cl_drains := []\<rparr>) = sys_rep late_system" by simp
  have "drain None late_client = drain_loop 0 False [([Handle_Log 0 ''loss'' 2 (F_Fin False 1) 8], False)] late_client"
    by (simp only: drain_def rep zero lc(2) not_True_eq_False) simp
  also have "\<dots> = Some (Ok (), late_client\<lparr>cl_drains := [], cl_sys := late_system\<rparr>)"
    unfolding drain_loop.simps f Let_def c using diag by simp
  finally show ?thesis .
qed

text \<open>After that drain the worker's last turn fails and ends it.\<close>

lemma late_join:
  assumes "y = late_system\<lparr>sys_rep := (sys_rep late_system)\<lparr>rep_sender := False\<rparr>\<rparr>"
  shows "join_worker y = worker_turn y \<and> st_points (sys_store (worker_turn y)) = st_points sample_store \<and> rep_worker (sys_rep y)"
proof -
  have y: "sys_store y = sample_store\<lparr>st_faults := replicate 6 (Some ''disk full''), st_clock := []\<rparr>"
    "rep_queue (sys_rep y) \<noteq> []" "sys_worker y = W_Recv" "rep_worker (sys_rep y)" "\<not> rep_sender (sys_rep y)"
    by (simp_all add: assms reported_def sys_init_def on_diag_def open_with_capacity_def)
  show ?thesis
    using late_turn [OF y(1-3)] y(3-5) by (simp add: join_worker.simps [of y] join_worker.simps [of "worker_turn y"])
qed

text \<open>C12: shutting down can lose a report that it accepted. There is a reachable client on which \<open>shutdown\<close>
  succeeds and the diagnostics then say that the writer was closed in order, although a report that
  was accepted while the drain was waiting has no row in the store: the outcome of the worker is not
  looked at after it is joined.\<close>

theorem shutdown_can_lose_a_report:
  "\<exists>w w' r. reachable_client w \<and> shutdown None w = Some (Ok (), w') \<and> r \<in> set (accepted w') \<and>
     \<not> report_stored (client_store w') r \<and> rd_writer_state (diagnostics w') = ''closed''"
proof -
  let ?wd = "late_client\<lparr>cl_drains := [], cl_sys := late_system\<rparr>"
  let ?ys = "late_system\<lparr>sys_rep := (sys_rep late_system)\<lparr>rep_sender := False\<rparr>\<rparr>"
  let ?w2 = "take_worker (take_sender ?wd)"
  note join = late_join [OF refl]
  have w2: "cl_sys ?w2 = (worker_turn ?ys)\<lparr>sys_rep := (sys_rep (worker_turn ?ys))\<lparr>rep_worker := False\<rparr>\<rparr>"
    using join by (simp add: take_worker_def take_sender_def Let_def)
  obtain w' where s: "shutdown None late_client = Some (Ok (), w')" "cl_sys w' = sys_diag (set_writer_state writer_closed) (cl_sys ?w2)"
    using late_drain by (simp add: shutdown_def reporter_shutdown_def Let_def on_reporter_def)
  have pts: "st_points (client_store w') = st_points sample_store" using join s(2) w2 by simp
  have acc: "accepted w' = [late_report]"
    by (simp add: s(2) w2 frame_simps) (simp add: reported_def sys_init_def)
  have "\<not> report_stored (client_store w') late_report"
    unfolding report_stored_def pts by (simp add: sample_store_def row_of_report_def make_report_def)
  moreover have "rd_writer_state (diagnostics w') = ''closed''"
    by (simp add: diagnostics_def snapshot_def Let_def s(2) set_writer_state_def)
  moreover have "reachable_client late_client" unfolding late_client_def by (rule sample_scripted_reached)
  ultimately show ?thesis using s(1) acc by (intro exI [of _ late_client] exI [of _ w'] exI [of _ late_report]) simp
qed

subsection \<open>Comparisons on the client's own evidence\<close>

lemma store_ranking_Ok:
  assumes "unique_runs s" and "store_ranking_evidence ids objective s = (Ok rs, s')"
  shows "map (\<lambda>p. r_run_id (fst p)) rs = ids \<and> map (\<lambda>p. oe_run_id (snd p)) rs = ids"
proof -
  obtain runs s1 evidence where r: "store_get_runs ids s = (Ok runs, s1)"
      "native_objective_evidence_for_runs runs objective s1 = (Ok evidence, s')" "rs = zip runs evidence"
    using assms(2) by (auto simp: store_ranking_evidence_def bind_op_Ok map_err_op_Ok)
  have ids: "map r_run_id runs = ids" using store_get_runs_Ok [OF assms(1) r(1)] by simp
  obtain aggs where "evidence = evidence_from_map runs (aggregate_map aggs)"
    using r(2) by (auto simp: native_objective_evidence_for_runs_def bind_op_Ok objective_evidence_for_runs_def)
  then have ev: "map oe_run_id evidence = map r_run_id runs" by (simp add: evidence_from_map_run_ids)
  then have len: "length runs = length evidence" by (metis length_map)
  have "map (\<lambda>p. r_run_id (fst p)) rs = map r_run_id (map fst rs)" "map (\<lambda>p. oe_run_id (snd p)) rs = map oe_run_id (map snd rs)"
    by simp_all
  then show ?thesis using ids ev len r(3) by simp
qed

lemma ranking_evidence_Ok:
  assumes "client_inv w" and "ranking_evidence ids objective w = (Ok rs, w')"
  shows "map (\<lambda>p. r_run_id (fst p)) rs = ids \<and> map (\<lambda>p. oe_run_id (snd p)) rs = ids"
proof -
  obtain s where "store_ranking_evidence ids objective (client_store w) = (Ok rs, s)"
    using assms(2) by (auto simp: ranking_evidence_def with_store_def split: prod.splits)
  then show ?thesis using store_ranking_Ok assms(1) by (auto simp: client_inv_def sys_ok_def)
qed

interpretation client_evidence: evidence_source ranking_evidence client_inv
proof
  show "client_inv w \<Longrightarrow> ranking_evidence ids obj w = (r, w') \<Longrightarrow> client_inv w'" for w ids obj r w'
    using calm_inv steps_opD [OF calm_operations(9)] by blast
  show "client_inv w \<Longrightarrow> ranking_evidence ids obj w = (Ok rs, w') \<Longrightarrow> map (\<lambda>p. r_run_id (fst p)) rs = ids" for w ids obj rs w'
    using ranking_evidence_Ok by blast
  show "client_inv w \<Longrightarrow> ranking_evidence ids obj w = (Ok rs, w') \<Longrightarrow> map (\<lambda>p. oe_run_id (snd p)) rs = ids" for w ids obj rs w'
    using ranking_evidence_Ok by blast
qed



end
