(* ===== verification/Flush_Interrupt.thy ===== *)
theory Flush_Interrupt
  imports Client
begin

section \<open>The timer that interrupts a flush (\<open>FlushInterrupt\<close> in \<open>client.rs\<close>)\<close>

text \<open>
  A flush with a deadline starts a thread that sleeps until the deadline and then, unless the flush
  has marked itself as completed, records the timeout and interrupts the connection. \<open>flush_with\<close>
  takes the outcome of this race from its environment; here the race itself is a step relation, one
  step per access to shared state. Interrupting a connection hits the statement it is running, if
  any. Statement \<open>0\<close> is the flush; the connection runs others once the flush has released it. Memory is
  sequentially consistent, which is more than the \<open>Relaxed\<close> accesses of the code promise.
\<close>

datatype timer_phase = TP_Sleeping | TP_Expired | TP_Armed | TP_Ended

datatype flush_answer = FA_Flushed | FA_Failed | FA_Timeout

datatype flusher_phase =
    FP_Flushing
  | FP_Returned bool
  | FP_Marked bool
  | FP_Answered flush_answer

record flush_race =
  fr_completed :: bool
  fr_timed_out :: bool
  fr_passed :: bool
  fr_timer :: timer_phase
  fr_flusher :: flusher_phase
  fr_statement :: "nat option"
  fr_interrupted :: "nat list"

subsection \<open>The accesses\<close>

text \<open>Without a deadline no timer is started.\<close>

definition install_flush_interrupt :: "bool \<Rightarrow> flush_race" where
  "install_flush_interrupt deadline =
     \<lparr>fr_completed = False, fr_timed_out = False, fr_passed = False,
      fr_timer = (if deadline then TP_Sleeping else TP_Ended), fr_flusher = FP_Flushing,
      fr_statement = Some 0, fr_interrupted = []\<rparr>"

definition timer_check :: "flush_race \<Rightarrow> flush_race" where
  "timer_check st = st\<lparr>fr_timer := (if fr_completed st then TP_Ended else TP_Expired)\<rparr>"

definition timer_store :: "flush_race \<Rightarrow> flush_race" where
  "timer_store st = st\<lparr>fr_timed_out := True, fr_timer := TP_Armed\<rparr>"

definition timer_interrupt :: "flush_race \<Rightarrow> flush_race" where
  "timer_interrupt st = st\<lparr>fr_timer := TP_Ended,
     fr_interrupted := fr_interrupted st @ (case fr_statement st of None \<Rightarrow> [] | Some i \<Rightarrow> [i])\<rparr>"

definition flush_returns :: "bool \<Rightarrow> flush_race \<Rightarrow> flush_race" where
  "flush_returns ok st = st\<lparr>fr_flusher := FP_Returned ok, fr_statement := None\<rparr>"

definition mark_completed :: "bool \<Rightarrow> flush_race \<Rightarrow> flush_race" where
  "mark_completed ok st = st\<lparr>fr_completed := True, fr_flusher := FP_Marked ok\<rparr>"

text \<open>The checks of the deadline and of the timer, and the result of the flush.\<close>

definition flush_result :: "bool \<Rightarrow> bool \<Rightarrow> bool \<Rightarrow> flush_answer" where
  "flush_result passed timed_out ok =
     (if passed \<or> timed_out then FA_Timeout else if ok then FA_Flushed else FA_Failed)"

definition flush_answers :: "bool \<Rightarrow> flush_race \<Rightarrow> flush_race" where
  "flush_answers ok st = st\<lparr>fr_flusher := FP_Answered (flush_result (fr_passed st) (fr_timed_out st) ok)\<rparr>"

subsection \<open>The race\<close>

definition released :: "flush_race \<Rightarrow> bool" where
  "released st \<longleftrightarrow> (case fr_flusher st of FP_Marked ok \<Rightarrow> True | FP_Answered a \<Rightarrow> True | _ \<Rightarrow> False)"

inductive race_step :: "bool \<Rightarrow> flush_race \<Rightarrow> flush_race \<Rightarrow> bool" for deadline where
  pass: "deadline \<Longrightarrow> race_step deadline st (st\<lparr>fr_passed := True\<rparr>)"
| check: "fr_timer st = TP_Sleeping \<Longrightarrow> fr_passed st \<Longrightarrow> race_step deadline st (timer_check st)"
| store: "fr_timer st = TP_Expired \<Longrightarrow> race_step deadline st (timer_store st)"
| interrupt: "fr_timer st = TP_Armed \<Longrightarrow> race_step deadline st (timer_interrupt st)"
| returns: "fr_flusher st = FP_Flushing \<Longrightarrow> 0 \<in> set (fr_interrupted st) \<longrightarrow> \<not> ok \<Longrightarrow> race_step deadline st (flush_returns ok st)"
| mark: "fr_flusher st = FP_Returned ok \<Longrightarrow> race_step deadline st (mark_completed ok st)"
| answer: "fr_flusher st = FP_Marked ok \<Longrightarrow> race_step deadline st (flush_answers ok st)"
| begin_other: "released st \<Longrightarrow> fr_statement st = None \<Longrightarrow> 0 < i \<Longrightarrow> race_step deadline st (st\<lparr>fr_statement := Some i\<rparr>)"
| end_other: "released st \<Longrightarrow> race_step deadline st (st\<lparr>fr_statement := None\<rparr>)"

definition race_reachable :: "bool \<Rightarrow> flush_race \<Rightarrow> bool" where
  "race_reachable deadline st \<longleftrightarrow> (race_step deadline)\<^sup>*\<^sup>* (install_flush_interrupt deadline) st"

lemma race_start: "race_reachable deadline (install_flush_interrupt deadline)"
  by (simp add: race_reachable_def)

lemma race_next: "race_reachable deadline st \<Longrightarrow> race_step deadline st st' \<Longrightarrow> race_reachable deadline st'"
  unfolding race_reachable_def by (rule rtranclp.rtrancl_into_rtrancl)

text \<open>The timer acts after the deadline only, and a flush that answers without a timeout has not been hit.\<close>

definition race_inv :: "bool \<Rightarrow> flush_race \<Rightarrow> bool" where
  "race_inv deadline st \<longleftrightarrow>
     (fr_passed st \<longrightarrow> deadline) \<and>
     (fr_timed_out st \<or> fr_interrupted st \<noteq> [] \<or> fr_timer st \<in> {TP_Expired, TP_Armed} \<longrightarrow> fr_passed st) \<and>
     (fr_timer st = TP_Armed \<or> fr_interrupted st \<noteq> [] \<longrightarrow> fr_timed_out st) \<and>
     (fr_statement st = Some 0 \<longleftrightarrow> fr_flusher st = FP_Flushing) \<and>
     (case fr_flusher st of FP_Answered a \<Rightarrow> a = FA_Timeout \<or> 0 \<notin> set (fr_interrupted st) | _ \<Rightarrow> True)"

lemma race_step_inv: "race_step deadline st st' \<Longrightarrow> race_inv deadline st \<Longrightarrow> race_inv deadline st'"
  by (induction rule: race_step.induct)
    (auto simp: race_inv_def timer_check_def timer_store_def timer_interrupt_def flush_returns_def mark_completed_def
      flush_answers_def flush_result_def released_def split: option.splits flusher_phase.splits)

lemma race_reachable_inv: "race_reachable deadline st \<Longrightarrow> race_inv deadline st"
  unfolding race_reachable_def
proof (induction rule: rtranclp_induct)
  case base
  show ?case by (simp add: race_inv_def install_flush_interrupt_def)
qed (rule race_step_inv)

subsection \<open>Properties\<close>

text \<open>A flush that was interrupted answers with a timeout, and without a deadline no statement is ever
  interrupted.
\<close>

theorem interrupted_flush_times_out:
  assumes "race_reachable deadline st"
  shows "(fr_flusher st = FP_Answered a \<and> 0 \<in> set (fr_interrupted st) \<longrightarrow> a = FA_Timeout) \<and>
    (\<not> deadline \<longrightarrow> fr_interrupted st = [])"
  using race_reachable_inv [OF assms] by (auto simp: race_inv_def)

theorem interrupted_flush_times_out_witness:
  "fr_interrupted (install_flush_interrupt False) = []"
  using interrupted_flush_times_out [OF race_start [of False]] by simp

text \<open>The outcome that \<open>flush_with\<close> takes from its environment is one of the race.\<close>

lemma flush_with_result:
  assumes "acquire_flush_lock deadline f = Ok ()" and "\<not> (deadline \<and> fe_late f)"
    and "on_reporter (set_flush_status flush_running rid) w = (Ok (), w0)"
    and "connection store_flush_metric_points w0 = (result, w1)"
  shows "flush_with rid deadline f w =
    (case flush_result (deadline \<and> fe_expired f) (deadline \<and> fe_interrupted f) (result = Ok ()) of
       FA_Timeout \<Rightarrow> flush_timed_out_op rid w1
     | FA_Flushed \<Rightarrow> on_reporter (set_flush_status flush_succeeded rid) w1
     | FA_Failed \<Rightarrow> bind_op (on_reporter (set_flush_failed rid ''flush metric_points failed''))
                   (\<lambda>_. fail_op (MetricFlush ''flush metric_points failed'')) w1)"
  using assms
  by (cases result) (auto simp: flush_with_def flush_result_def bind_op_def catch_op_def lift_op_def Let_def)

text \<open>C13: The timer of a flush can interrupt somebody else's statement. It reads the completion mark and
  interrupts the connection in separate steps, and nothing keeps the connection in between: the
  flush has returned, marked itself and released the connection, and the interrupt hits the statement that
  another call is running on it.
\<close>

theorem interrupt_can_hit_later_statement:
  "\<exists>st. race_reachable True st \<and> fr_flusher st = FP_Answered FA_Timeout \<and> fr_completed st \<and>
     fr_statement st = Some 1 \<and> fr_interrupted st = [1]"
proof -
  let ?s0 = "install_flush_interrupt True"
  let ?s1 = "?s0\<lparr>fr_passed := True\<rparr>"
  let ?s2 = "timer_check ?s1"
  let ?s3 = "flush_returns True ?s2"
  let ?s4 = "mark_completed True ?s3"
  let ?s5 = "flush_answers True ?s4"
  let ?s6 = "?s5\<lparr>fr_statement := Some 1\<rparr>"
  let ?s7 = "timer_interrupt (timer_store ?s6)"
  note defs = install_flush_interrupt_def timer_check_def flush_returns_def mark_completed_def flush_answers_def
    flush_result_def released_def timer_store_def timer_interrupt_def
  have "race_reachable True ?s2"
    by (rule race_next [OF race_next [OF race_start race_step.pass] race_step.check]) (simp_all add: defs)
  then have "race_reachable True ?s4"
    by (rule race_next [OF race_next [OF _ race_step.returns] race_step.mark]) (simp_all add: defs)
  then have "race_reachable True ?s6"
    by (rule race_next [OF race_next [OF _ race_step.answer] race_step.begin_other]) (simp_all add: defs)
  then have "race_reachable True ?s7"
    by (rule race_next [OF race_next [OF _ race_step.store] race_step.interrupt]) (simp_all add: defs)
  then show ?thesis by (intro exI [of _ ?s7]) (simp add: defs)
qed

end
