(* ===== verification/Config.thy ===== *)
theory Config
  imports Bootstrap
begin

section \<open>Resolving the configuration (\<open>config.rs\<close>)\<close>

text \<open>
  Explicit arguments, the project's \<open>config.toml\<close> and the defaults, in that order. TOML is a
  library: a parsed table is a value of a type \<open>'v\<close> whose accessors are the fields of
  \<open>toml_api\<close>, named after the methods that the code calls.
\<close>

record 'v toml_api =
  ta_parse :: "string \<Rightarrow> string + 'v"
  ta_get :: "'v \<Rightarrow> string \<Rightarrow> 'v option"
  ta_as_str :: "'v \<Rightarrow> string option"
  ta_as_bool :: "'v \<Rightarrow> bool option"
  ta_as_table :: "'v \<Rightarrow> 'v option"

datatype file_read = File_Content string | File_NotFound | File_Error io_error

datatype init_config_error = IC_ReadConfig io_error | IC_ParseConfig string | IC_Invalid string

fun init_config_error_display :: "init_config_error \<Rightarrow> string" where
  "init_config_error_display (IC_ReadConfig e) = ''failed to read config.toml: '' @ e"
| "init_config_error_display (IC_ParseConfig e) = ''invalid config.toml: '' @ e"
| "init_config_error_display (IC_Invalid m) = m"

record s3_overrides =
  so_endpoint :: "string option"
  so_access_key_id :: "string option"
  so_secret_access_key :: "string option"
  so_session_token :: "string option"
  so_region :: "string option"
  so_path_style :: "bool option"
  so_use_ssl :: "bool option"

record resolved_storage_config =
  rs_catalog_backend :: catalog_backend
  rs_catalog_path :: "path option"
  rs_data_path :: "path option"

record resolved_init_config =
  ri_catalog_backend :: catalog_backend
  ri_catalog_path :: "path option"
  ri_data_path :: "path option"
  ri_metric_queue_capacity :: nat
  ri_s3_connection :: "s3_connection_config option"

abbreviation max_metric_queue_capacity :: int where
  "max_metric_queue_capacity \<equiv> 1048576"

definition is_uri_path :: "path \<Rightarrow> bool" where
  "is_uri_path p = contains_str p ''://''"

definition is_unsupported_data_uri_path :: "path \<Rightarrow> bool" where
  "is_unsupported_data_uri_path p \<longleftrightarrow> contains_str p ''://'' \<and> \<not> starts_with p ''s3://''"

definition resolve_config_path :: "path \<Rightarrow> path \<Rightarrow> path" where
  "resolve_config_path root_path p =
     (if starts_with p ''/'' \<or> is_uri_path p then p else path_join root_path p)"

subsection \<open>Reading values\<close>

definition load_project_config :: "'v toml_api \<Rightarrow> (path \<Rightarrow> file_read) \<Rightarrow> path \<Rightarrow> (init_config_error, 'v option) res" where
  "load_project_config api files root_path =
     (case files (path_join (path_join root_path ''.pulseon'') ''config.toml'') of
        File_NotFound \<Rightarrow> Ok None
      | File_Error e \<Rightarrow> Err (IC_ReadConfig e)
      | File_Content content \<Rightarrow>
          (case ta_parse api content of Inl e \<Rightarrow> Err (IC_ParseConfig e) | Inr t \<Rightarrow> Ok (Some t)))"

definition optional_string :: "'v toml_api \<Rightarrow> 'v \<Rightarrow> string \<Rightarrow> string \<Rightarrow> (init_config_error, string option) res" where
  "optional_string api config key label =
     (case ta_get api config key of
        None \<Rightarrow> Ok None
      | Some v \<Rightarrow> (case ta_as_str api v of
            None \<Rightarrow> Err (IC_Invalid (label @ '' must be a string'')) | Some s \<Rightarrow> Ok (Some s)))"

definition config_string :: "'v toml_api \<Rightarrow> 'v option \<Rightarrow> string \<Rightarrow> string \<Rightarrow> (init_config_error, string option) res" where
  "config_string api config key label =
     (case config of None \<Rightarrow> Ok None | Some t \<Rightarrow> optional_string api t key label)"

definition resolve_data_path ::
  "'v toml_api \<Rightarrow> path \<Rightarrow> path option \<Rightarrow> 'v option \<Rightarrow> (init_config_error, path option) res" where
  "resolve_data_path api root_path explicit config =
     (if explicit \<noteq> None then Ok explicit
      else map_r (map_option (resolve_config_path root_path))
             (config_string api config ''data_path'' ''config.toml data_path''))"

definition resolve_catalog_path ::
  "'v toml_api \<Rightarrow> path \<Rightarrow> path option \<Rightarrow> 'v option \<Rightarrow> (init_config_error, path option) res" where
  "resolve_catalog_path api root_path explicit config =
     (if explicit \<noteq> None then Ok explicit
      else map_r (map_option (resolve_config_path root_path))
             (config_string api config ''catalog_path'' ''config.toml catalog_path''))"

definition resolve_catalog_backend ::
  "'v toml_api \<Rightarrow> string option \<Rightarrow> 'v option \<Rightarrow> (init_config_error, catalog_backend) res" where
  "resolve_catalog_backend api explicit config =
     bind_r (if explicit \<noteq> None then Ok None
             else config_string api config ''catalog_backend'' ''config.toml catalog_backend'') (\<lambda>configured.
     let name = (case explicit of Some n \<Rightarrow> n | None \<Rightarrow> case configured of Some n \<Rightarrow> n | None \<Rightarrow> ''duckdb'')
     in ok_or (IC_Invalid (''unsupported catalog_backend: '' @ name)) (backend_from_name name))"

definition validate_path_configuration :: "path option \<Rightarrow> path option \<Rightarrow> (init_config_error, unit) res" where
  "validate_path_configuration data_path catalog_path =
     (if (case data_path of None \<Rightarrow> False | Some p \<Rightarrow> is_unsupported_data_uri_path p)
      then Err (IC_Invalid ''data_path must be a local filesystem path or s3:// URI'')
      else if (case catalog_path of None \<Rightarrow> False | Some p \<Rightarrow> is_uri_path p)
      then Err (IC_Invalid ''catalog_path must be a local filesystem path'')
      else Ok ())"

definition validate_metric_queue_capacity :: "int \<Rightarrow> (init_config_error, nat) res" where
  "validate_metric_queue_capacity v =
     (if \<not> (1 \<le> v \<and> v \<le> max_metric_queue_capacity)
      then Err (IC_Invalid ''metric_queue_capacity must be between 1 and 1048576'') else Ok (nat v))"

subsection \<open>S3\<close>

definition validate_s3_string :: "string option \<Rightarrow> string \<Rightarrow> (init_config_error, string option) res" where
  "validate_s3_string v name = (case v of
       None \<Rightarrow> Ok None
     | Some s \<Rightarrow> if is_blank s then Err (IC_Invalid (name @ '' must not be empty'')) else Ok (Some s))"

definition required_s3_string :: "string option \<Rightarrow> string \<Rightarrow> (init_config_error, string) res" where
  "required_s3_string v name = ok_or (IC_Invalid (name @ '' is required when data_path is s3://'')) v"

definition s3_table :: "'v toml_api \<Rightarrow> 'v option \<Rightarrow> (init_config_error, 'v option) res" where
  "s3_table api config = (case config of None \<Rightarrow> Ok None
     | Some t \<Rightarrow> (case ta_get api t ''s3'' of None \<Rightarrow> Ok None
         | Some v \<Rightarrow> (case ta_as_table api v of
               None \<Rightarrow> Err (IC_Invalid ''config.toml s3 must be a table'') | Some s3 \<Rightarrow> Ok (Some s3))))"

definition optional_s3_string ::
  "'v toml_api \<Rightarrow> string option \<Rightarrow> 'v option \<Rightarrow> string \<Rightarrow> string \<Rightarrow> (init_config_error, string option) res" where
  "optional_s3_string api explicit config key explicit_name =
     (if explicit \<noteq> None then validate_s3_string explicit explicit_name
      else bind_r (config_string api config key (''config.toml s3.'' @ key)) (\<lambda>v.
           case v of None \<Rightarrow> Ok None | Some s \<Rightarrow> validate_s3_string (Some s) explicit_name))"

definition optional_bool ::
  "'v toml_api \<Rightarrow> bool option \<Rightarrow> 'v option \<Rightarrow> string \<Rightarrow> string \<Rightarrow> (init_config_error, bool option) res" where
  "optional_bool api explicit config key label =
     (if explicit \<noteq> None then Ok explicit
      else case config of None \<Rightarrow> Ok None
         | Some t \<Rightarrow> (case ta_get api t key of None \<Rightarrow> Ok None
             | Some v \<Rightarrow> (case ta_as_bool api v of
                   None \<Rightarrow> Err (IC_Invalid (label @ '' must be a boolean'')) | Some b \<Rightarrow> Ok (Some b))))"

definition required_from ::
  "'v toml_api \<Rightarrow> string option \<Rightarrow> 'v option \<Rightarrow> string \<Rightarrow> string \<Rightarrow> (init_config_error, string) res" where
  "required_from api explicit s3 key name =
     bind_r (optional_s3_string api explicit s3 key name) (\<lambda>v. required_s3_string v name)"

definition resolve_s3_connection ::
  "'v toml_api \<Rightarrow> 'v option \<Rightarrow> s3_overrides \<Rightarrow> (init_config_error, s3_connection_config) res" where
  "resolve_s3_connection api config explicit =
     bind_r (s3_table api config) (\<lambda>s3.
     bind_r (required_from api (so_endpoint explicit) s3 ''endpoint'' ''s3_endpoint'') (\<lambda>endpoint.
     bind_r (required_from api (so_access_key_id explicit) s3 ''access_key_id'' ''s3_access_key_id'') (\<lambda>key_id.
     bind_r (required_from api (so_secret_access_key explicit) s3 ''secret_access_key'' ''s3_secret_access_key'') (\<lambda>secret.
     bind_r (optional_s3_string api (so_session_token explicit) s3 ''session_token'' ''s3_session_token'') (\<lambda>token.
     bind_r (optional_s3_string api (so_region explicit) s3 ''region'' ''s3_region'') (\<lambda>region.
     bind_r (optional_bool api (so_path_style explicit) s3 ''path_style'' ''config.toml s3.path_style'') (\<lambda>path_style.
     bind_r (optional_bool api (so_use_ssl explicit) s3 ''use_ssl'' ''config.toml s3.use_ssl'') (\<lambda>use_ssl.
     Ok \<lparr>s3_endpoint = endpoint, s3_access_key_id = key_id, s3_secret_access_key = secret,
         s3_session_token = token, s3_region = region, s3_path_style = path_style, s3_use_ssl = use_ssl\<rparr>))))))))"

subsection \<open>The two entry points\<close>

definition resolve_storage_config ::
  "'v toml_api \<Rightarrow> (path \<Rightarrow> file_read) \<Rightarrow> path \<Rightarrow> path option \<Rightarrow> string option \<Rightarrow> path option \<Rightarrow>
   (init_config_error, resolved_storage_config) res" where
  "resolve_storage_config api files root_path data_path catalog_backend catalog_path =
     bind_r (load_project_config api files root_path) (\<lambda>config.
     bind_r (resolve_data_path api root_path data_path config) (\<lambda>data.
     bind_r (resolve_catalog_backend api catalog_backend config) (\<lambda>backend.
     bind_r (resolve_catalog_path api root_path catalog_path config) (\<lambda>catalog.
     bind_r (validate_path_configuration data catalog) (\<lambda>_.
     Ok \<lparr>rs_catalog_backend = backend, rs_catalog_path = catalog, rs_data_path = data\<rparr>)))))"

definition resolve_init_config ::
  "'v toml_api \<Rightarrow> (path \<Rightarrow> file_read) \<Rightarrow> path \<Rightarrow> path option \<Rightarrow> string option \<Rightarrow> path option \<Rightarrow> int \<Rightarrow> s3_overrides \<Rightarrow>
   (init_config_error, resolved_init_config) res" where
  "resolve_init_config api files root_path data_path catalog_backend catalog_path capacity overrides =
     bind_r (resolve_storage_config api files root_path data_path catalog_backend catalog_path) (\<lambda>storage.
     bind_r (validate_metric_queue_capacity capacity) (\<lambda>cap.
     bind_r (if (case rs_data_path storage of None \<Rightarrow> False | Some p \<Rightarrow> is_s3_data_path p)
             then bind_r (load_project_config api files root_path) (\<lambda>config.
                  map_r Some (resolve_s3_connection api config overrides))
             else Ok None) (\<lambda>s3.
     Ok \<lparr>ri_catalog_backend = rs_catalog_backend storage, ri_catalog_path = rs_catalog_path storage,
         ri_data_path = rs_data_path storage, ri_metric_queue_capacity = cap, ri_s3_connection = s3\<rparr>)))"

subsection \<open>Lemmas\<close>

lemma ok_or_Ok: "ok_or e v = Ok x \<longleftrightarrow> v = Some x"
  by (cases v) simp_all

lemma map_r_Ok: "map_r f r = Ok y \<longleftrightarrow> (\<exists>x. r = Ok x \<and> y = f x)"
  by (cases r) auto

lemmas res_outcomes = bind_r_eq_Inr ok_or_Ok map_r_Ok

text \<open>The string a table holds under a key, if any.\<close>

definition configured :: "'v toml_api \<Rightarrow> 'v option \<Rightarrow> string \<Rightarrow> string option" where
  "configured api config key = (case config of None \<Rightarrow> None
     | Some t \<Rightarrow> (case ta_get api t key of None \<Rightarrow> None | Some v \<Rightarrow> ta_as_str api v))"

lemma config_string_Ok: "config_string api config key label = Ok v \<Longrightarrow> v = configured api config key"
  by (auto simp: config_string_def optional_string_def configured_def split: option.splits)

lemma s3_string_Ok:
  "optional_s3_string api explicit config key name = Ok v \<Longrightarrow> \<forall>s. v = Some s \<longrightarrow> \<not> is_blank s"
  by (auto simp: optional_s3_string_def validate_s3_string_def res_outcomes split: option.splits if_splits)

lemma required_from_Ok: "required_from api explicit s3 key name = Ok v \<Longrightarrow> \<not> is_blank v"
  by (auto simp: required_from_def required_s3_string_def res_outcomes dest: s3_string_Ok)

text \<open>A usable S3 configuration: no credential and no option is blank.\<close>

definition wf_s3 :: "s3_connection_config \<Rightarrow> bool" where
  "wf_s3 c \<longleftrightarrow> \<not> is_blank (s3_endpoint c) \<and> \<not> is_blank (s3_access_key_id c) \<and> \<not> is_blank (s3_secret_access_key c) \<and>
     (\<forall>t. s3_session_token c = Some t \<longrightarrow> \<not> is_blank t) \<and> (\<forall>r. s3_region c = Some r \<longrightarrow> \<not> is_blank r)"

lemma resolve_s3_wf: "resolve_s3_connection api config explicit = Ok c \<Longrightarrow> wf_s3 c"
  by (auto simp: resolve_s3_connection_def wf_s3_def res_outcomes dest: required_from_Ok s3_string_Ok)

text \<open>What a path of a resolved configuration may be.\<close>

definition wf_storage_paths :: "path option \<Rightarrow> path option \<Rightarrow> bool" where
  "wf_storage_paths data_path catalog_path \<longleftrightarrow>
     (\<forall>p. data_path = Some p \<longrightarrow> contains_str p ''://'' \<longrightarrow> is_s3_data_path p) \<and>
     (\<forall>p. catalog_path = Some p \<longrightarrow> \<not> contains_str p ''://'')"

lemma validate_paths_Ok: "validate_path_configuration d c = Ok u \<longleftrightarrow> wf_storage_paths d c"
  by (auto simp: validate_path_configuration_def wf_storage_paths_def is_unsupported_data_uri_path_def
      is_uri_path_def is_s3_data_path_def split: option.splits)

subsection \<open>Properties\<close>

text \<open>A TOML of flat tables of strings, for the examples.\<close>

definition sample_toml :: "(string + (string \<times> string) list) toml_api" where
  "sample_toml = \<lparr>ta_parse = (\<lambda>content. Inr (Inr [(''data_path'', content), (''catalog_backend'', ''sqlite'')])),
     ta_get = (\<lambda>t key. case t of Inl s \<Rightarrow> None | Inr kvs \<Rightarrow> map_option Inl (map_of kvs key)),
     ta_as_str = (\<lambda>v. case v of Inl s \<Rightarrow> Some s | Inr kvs \<Rightarrow> None),
     ta_as_bool = (\<lambda>v. None), ta_as_table = (\<lambda>v. case v of Inl s \<Rightarrow> None | Inr kvs \<Rightarrow> Some v)\<rparr>"

definition no_overrides :: s3_overrides where
  "no_overrides = \<lparr>so_endpoint = None, so_access_key_id = None, so_secret_access_key = None,
     so_session_token = None, so_region = None, so_path_style = None, so_use_ssl = None\<rparr>"

text \<open>C31: a configuration that resolves is usable: the queue capacity is between 1 and 1048576, the
  catalog is a local path, the data path is local or an \<open>s3://\<close> location, and an S3 connection is
  present exactly for the latter, with no blank credential.\<close>
theorem resolved_config_valid:
  assumes "resolve_init_config api files root_path data_path backend catalog_path capacity overrides = Ok c"
  shows "1 \<le> ri_metric_queue_capacity c \<and> ri_metric_queue_capacity c \<le> 1048576 \<and>
    int (ri_metric_queue_capacity c) = capacity \<and>
    wf_storage_paths (ri_data_path c) (ri_catalog_path c) \<and>
    (ri_s3_connection c \<noteq> None \<longleftrightarrow> (\<exists>p. ri_data_path c = Some p \<and> is_s3_data_path p)) \<and>
    (\<forall>s3. ri_s3_connection c = Some s3 \<longrightarrow> wf_s3 s3)"
proof -
  obtain storage cap s3 where st: "resolve_storage_config api files root_path data_path backend catalog_path = Ok storage"
    and cap: "validate_metric_queue_capacity capacity = Ok cap"
    and s3: "(if (case rs_data_path storage of None \<Rightarrow> False | Some p \<Rightarrow> is_s3_data_path p)
             then bind_r (load_project_config api files root_path) (\<lambda>config.
                  map_r Some (resolve_s3_connection api config overrides))
             else Ok None) = Ok s3"
    and c: "c = \<lparr>ri_catalog_backend = rs_catalog_backend storage, ri_catalog_path = rs_catalog_path storage,
         ri_data_path = rs_data_path storage, ri_metric_queue_capacity = cap, ri_s3_connection = s3\<rparr>"
    using assms by (auto simp: resolve_init_config_def res_outcomes)
  have "wf_storage_paths (rs_data_path storage) (rs_catalog_path storage)"
    using st by (auto simp: resolve_storage_config_def res_outcomes validate_paths_Ok)
  moreover have "1 \<le> cap \<and> cap \<le> 1048576 \<and> int cap = capacity"
    using cap by (auto simp: validate_metric_queue_capacity_def split: if_splits)
  moreover have "(s3 \<noteq> None \<longleftrightarrow> (\<exists>p. rs_data_path storage = Some p \<and> is_s3_data_path p)) \<and> (\<forall>x. s3 = Some x \<longrightarrow> wf_s3 x)"
    using s3 by (auto simp: res_outcomes dest: resolve_s3_wf split: if_splits option.splits)
  ultimately show ?thesis by (simp add: c)
qed

theorem resolved_config_valid_witness:
  "\<exists>c. resolve_init_config sample_toml (\<lambda>_. File_Content ''runs'') ''/p'' None None None 65536 no_overrides = Ok c \<and>
     ri_metric_queue_capacity c = 65536 \<and> ri_data_path c = Some ''/p/runs'' \<and> ri_s3_connection c = None"
proof -
  have "\<exists>c. resolve_init_config sample_toml (\<lambda>_. File_Content ''runs'') ''/p'' None None None 65536 no_overrides = Ok c \<and>
     ri_data_path c = Some ''/p/runs''"
    by (simp add: resolve_init_config_def resolve_storage_config_def load_project_config_def resolve_data_path_def
        resolve_catalog_path_def resolve_catalog_backend_def config_string_def optional_string_def sample_toml_def
        resolve_config_path_def is_uri_path_def path_join_def starts_with_def backend_from_name_def
        validate_path_configuration_def is_unsupported_data_uri_path_def validate_metric_queue_capacity_def is_s3_data_path_def)
  then obtain c where c: "resolve_init_config sample_toml (\<lambda>_. File_Content ''runs'') ''/p'' None None None 65536 no_overrides = Ok c"
    "ri_data_path c = Some ''/p/runs''" by blast
  show ?thesis
    using resolved_config_valid [OF c(1)] c by (auto simp: is_s3_data_path_def starts_with_def)
qed

text \<open>An explicit argument wins over the project's file, which wins over the default; a path from
  the file is taken relative to the project unless it is absolute or a URI, an explicit path is
  taken as it is.\<close>
theorem configuration_precedence:
  assumes "load_project_config api files root_path = Ok config"
    and "resolve_storage_config api files root_path data_path backend catalog_path = Ok r"
  shows "rs_data_path r = (case data_path of Some p \<Rightarrow> Some p
            | None \<Rightarrow> map_option (resolve_config_path root_path) (configured api config ''data_path'')) \<and>
    rs_catalog_path r = (case catalog_path of Some p \<Rightarrow> Some p
            | None \<Rightarrow> map_option (resolve_config_path root_path) (configured api config ''catalog_path'')) \<and>
    backend_from_name (case backend of Some n \<Rightarrow> n
            | None \<Rightarrow> (case configured api config ''catalog_backend'' of Some n \<Rightarrow> n | None \<Rightarrow> ''duckdb''))
      = Some (rs_catalog_backend r)"
proof -
  obtain d b c where d: "resolve_data_path api root_path data_path config = Ok d"
    and b: "resolve_catalog_backend api backend config = Ok b"
    and c: "resolve_catalog_path api root_path catalog_path config = Ok c"
    and r: "r = \<lparr>rs_catalog_backend = b, rs_catalog_path = c, rs_data_path = d\<rparr>"
    using assms by (auto simp: resolve_storage_config_def res_outcomes)
  show ?thesis
    using d b c
    by (cases data_path; cases catalog_path; cases backend)
       (auto simp: r resolve_data_path_def resolve_catalog_path_def resolve_catalog_backend_def Let_def
          res_outcomes dest!: config_string_Ok)
qed

theorem configuration_precedence_witness:
  "\<exists>r. resolve_storage_config sample_toml (\<lambda>_. File_Content ''runs'') ''/p'' None (Some ''duckdb'') (Some ''c.db'') = Ok r \<and>
     rs_data_path r = Some ''/p/runs'' \<and> rs_catalog_path r = Some ''c.db'' \<and> rs_catalog_backend r = Backend_DuckDb"
proof -
  have load: "load_project_config sample_toml (\<lambda>_. File_Content ''runs'') ''/p'' =
      Ok (Some (Inr [(''data_path'', ''runs''), (''catalog_backend'', ''sqlite'')]))"
    by (simp add: load_project_config_def sample_toml_def)
  have "\<exists>r. resolve_storage_config sample_toml (\<lambda>_. File_Content ''runs'') ''/p'' None (Some ''duckdb'') (Some ''c.db'') = Ok r"
    by (simp add: resolve_storage_config_def load_project_config_def resolve_data_path_def
        resolve_catalog_path_def resolve_catalog_backend_def config_string_def optional_string_def sample_toml_def
        resolve_config_path_def is_uri_path_def path_join_def starts_with_def backend_from_name_def
        validate_path_configuration_def is_unsupported_data_uri_path_def)
  then obtain r where r: "resolve_storage_config sample_toml (\<lambda>_. File_Content ''runs'') ''/p'' None (Some ''duckdb'') (Some ''c.db'') = Ok r"
    by blast
  show ?thesis
    using configuration_precedence [OF load r] r
    by (auto simp: configured_def sample_toml_def resolve_config_path_def starts_with_def is_uri_path_def
        path_join_def backend_from_name_def)
qed

end
