(* ===== verification/Python_Values.thy ===== *)
theory Python_Values
  imports Reporter Config
begin

section \<open>What Python sees: values and exceptions (\<open>pulseon-python/src/sdk\<close>)\<close>

text \<open>
  The Python extension turns the results of the client into Python objects with string fields, and
  its errors into exceptions. This theory holds the conversions of \<open>client.rs\<close>, \<open>comparison.rs\<close>,
  \<open>alignment.rs\<close> and \<open>arrow.rs\<close> and the module's exports of \<open>lib.rs\<close>. A Python object is the record of its
  fields. The texts that libraries choose, the RFC 3339 form of an instant and the quoted form of a string
  in an error message (\<open>{:?}\<close>), are the fields of \<open>py_texts\<close>; the Arrow library is \<open>arrow_api\<close>.
\<close>

record py_texts =
  pt_rfc3339 :: "datetime \<Rightarrow> string"
  pt_debug :: "string \<Rightarrow> string"

subsection \<open>Exceptions\<close>

datatype py_class =
    Py_RuntimeError | Py_ValueError
  | PulseOnError | MetricQueueFullError | MetricWriterFailedError | MetricDrainTimeoutError
  | MetricFlushError | MetricFlushTimeoutError | RunClosedError | ClientClosedError
  | InvalidRunStateError | RunAlreadyExistsError | RunAlreadyActiveError
  | InvalidConfigurationError | StorageError

text \<open>The class each \<open>create_exception!\<close> derives from; the built-in classes have no base here.\<close>

fun py_base :: "py_class \<Rightarrow> py_class option" where
  "py_base Py_RuntimeError = None"
| "py_base Py_ValueError = None"
| "py_base PulseOnError = Some Py_RuntimeError"
| "py_base _ = Some PulseOnError"

definition is_sdk_error :: "py_class \<Rightarrow> bool" where
  "is_sdk_error c \<longleftrightarrow> c = PulseOnError \<or> py_base c = Some PulseOnError"

text \<open>A call that does not answer raises an exception with a message, or panics.\<close>

datatype py_failure = Raised py_class string | Panicked

fun runtime_error_class :: "engine_error \<Rightarrow> py_class" where
  "runtime_error_class (RunAlreadyExists _) = RunAlreadyExistsError"
| "runtime_error_class (RunAlreadyActive _) = RunAlreadyActiveError"
| "runtime_error_class (RunClosed _) = RunClosedError"
| "runtime_error_class (InvalidRunTransition _ _ _) = InvalidRunStateError"
| "runtime_error_class (EE_Io _) = StorageError"
| "runtime_error_class (ProjectAlreadyExists _) = StorageError"
| "runtime_error_class (ProjectNotFound _) = StorageError"
| "runtime_error_class (RunNotFound _) = StorageError"
| "runtime_error_class (EE_CatalogNotFound _) = StorageError"
| "runtime_error_class (EE_Storage _ _ _) = StorageError"
| "runtime_error_class (StorageFailure _) = StorageError"
| "runtime_error_class (StorageLayer _) = StorageError"
| "runtime_error_class (MetricQueryMaxPointsTooSmall _) = PulseOnError"
| "runtime_error_class (MetricQueryMaxPointsTooLarge _) = PulseOnError"
| "runtime_error_class MetricQueueFull = MetricQueueFullError"
| "runtime_error_class (MetricWriterFailed _) = MetricWriterFailedError"
| "runtime_error_class MetricDrainTimeout = MetricDrainTimeoutError"
| "runtime_error_class (MetricFlush _) = MetricFlushError"
| "runtime_error_class MetricFlushTimeout = MetricFlushTimeoutError"
| "runtime_error_class ClientClosed = ClientClosedError"
| "runtime_error_class _ = PulseOnError"

definition runtime_error :: "engine_error \<Rightarrow> py_failure" where
  "runtime_error e = Raised (runtime_error_class e) (engine_error_display e)"

definition invalid_configuration_error :: "init_config_error \<Rightarrow> py_failure" where
  "invalid_configuration_error e = Raised InvalidConfigurationError (init_config_error_display e)"

abbreviation value_error :: "string \<Rightarrow> py_failure" where
  "value_error \<equiv> Raised Py_ValueError"

text \<open>The exception classes the module exports, under their names.\<close>

definition module_exceptions :: "(string \<times> py_class) list" where
  "module_exceptions =
     [(''PulseOnError'', PulseOnError),
      (''MetricQueueFullError'', MetricQueueFullError),
      (''MetricWriterFailedError'', MetricWriterFailedError),
      (''MetricDrainTimeoutError'', MetricDrainTimeoutError),
      (''MetricFlushError'', MetricFlushError),
      (''MetricFlushTimeoutError'', MetricFlushTimeoutError),
      (''RunClosedError'', RunClosedError),
      (''ClientClosedError'', ClientClosedError),
      (''InvalidRunStateError'', InvalidRunStateError),
      (''RunAlreadyExistsError'', RunAlreadyExistsError),
      (''RunAlreadyActiveError'', RunAlreadyActiveError),
      (''InvalidConfigurationError'', InvalidConfigurationError),
      (''StorageError'', StorageError)]"

subsection \<open>Arguments\<close>

text \<open>
  \<open>Duration::from_secs_f64\<close>: the nearest number of nanoseconds, ties to even; it panics, here \<open>None\<close>,
  on a negative or non-finite argument and when the seconds do not fit a \<open>u64\<close>.
\<close>

fun duration_from_secs_f64 :: "f64 \<Rightarrow> nat option" where
  "duration_from_secs_f64 (F_Fin neg q) =
     (if neg \<and> q \<noteq> 0 then None
      else let nanos = nat (rne (q * 10 ^ 9)) in
           if nanos < 2 ^ 64 * 10 ^ 9 then Some nanos else None)"
| "duration_from_secs_f64 _ = None"

definition duration_from_seconds :: "string \<Rightarrow> f64 \<Rightarrow> (py_failure, nat) res" where
  "duration_from_seconds name seconds =
     (if flt seconds fzero \<or> \<not> is_finite seconds
      then Err (Raised InvalidConfigurationError (name @ '' must be a finite non-negative number''))
      else ok_or Panicked (duration_from_secs_f64 seconds))"

fun status_as_string :: "run_status \<Rightarrow> string" where
  "status_as_string Running = ''running''"
| "status_as_string Finished = ''finished''"
| "status_as_string Failed = ''failed''"

definition parse_run_status :: "py_texts \<Rightarrow> string option \<Rightarrow> (py_failure, run_status option) res" where
  "parse_run_status t status = (case status of
       None \<Rightarrow> Ok None
     | Some s \<Rightarrow>
         if s = ''running'' then Ok (Some Running)
         else if s = ''finished'' then Ok (Some Finished)
         else if s = ''failed'' then Ok (Some Failed)
         else Err (value_error (''status must be one of 'running', 'finished', or 'failed', got '' @ pt_debug t s)))"

definition py_objective :: "py_texts \<Rightarrow> string \<Rightarrow> string \<Rightarrow> (py_failure, objective_metric) res" where
  "py_objective t key direction =
     bind_r (if direction = ''minimize'' then Ok Minimize
             else if direction = ''maximize'' then Ok Maximize
             else Err (value_error (''direction must be 'minimize' or 'maximize', got '' @ pt_debug t direction)))
       (\<lambda>d. Ok \<lparr>om_metric_key = key, om_direction = d\<rparr>)"

definition py_alignment_query ::
  "py_texts \<Rightarrow> string \<Rightarrow> string \<Rightarrow> string \<Rightarrow> i64 \<Rightarrow> i64 \<Rightarrow> u32 option \<Rightarrow> u16 option \<Rightarrow> (py_failure, alignment_query) res" where
  "py_alignment_query t rid key axis start_at end_at pixel_width points_per_pixel =
     bind_r (if axis = ''step'' then Ok Axis_Step
             else if axis = ''elapsed_time'' then Ok Axis_ElapsedTime
             else Err (value_error (''axis must be 'step' or 'elapsed_time', got '' @ pt_debug t axis))) (\<lambda>a.
     bind_r (map_err (value_error \<circ> alignment_query_error_display) (viewport_new start_at end_at)) (\<lambda>viewport.
     bind_r (case (pixel_width, points_per_pixel) of
               (None, None) \<Rightarrow> Ok AR_Full
             | (Some width, Some density) \<Rightarrow>
                 map_err (value_error \<circ> alignment_query_error_display) (ar_screen_budget width density)
             | _ \<Rightarrow> Err (value_error ''pixel_width and points_per_pixel must be provided together'')) (\<lambda>reduction.
     Ok \<lparr>aq_run_id = rid, aq_metric_key = key, aq_axis = a, aq_viewport = viewport, aq_reduction = reduction\<rparr>)))"

subsection \<open>Runs, metrics and diagnostics\<close>

record py_project =
  pp_project_id :: string
  pp_name :: string
  pp_created_at :: string

definition py_project_of :: "py_texts \<Rightarrow> project \<Rightarrow> py_project" where
  "py_project_of t p = \<lparr>pp_project_id = p_project_id p, pp_name = p_name p,
     pp_created_at = pt_rfc3339 t (p_created_at p)\<rparr>"

record py_diagnostics =
  pd_pending_reports :: u64
  pd_queue_full_errors :: u64
  pd_persisted_reports :: u64
  pd_writer_state :: string
  pd_last_write_error :: "string option"
  pd_last_flush_run_id :: "string option"
  pd_last_flush_status :: string
  pd_last_flush_error :: "string option"

definition py_diagnostics_of :: "reporter_diagnostics \<Rightarrow> py_diagnostics" where
  "py_diagnostics_of d =
     \<lparr>pd_pending_reports = rd_pending_reports d, pd_queue_full_errors = rd_queue_full_errors d,
      pd_persisted_reports = rd_persisted_reports d, pd_writer_state = rd_writer_state d,
      pd_last_write_error = rd_last_write_error d, pd_last_flush_run_id = rd_last_flush_run_id d,
      pd_last_flush_status = rd_last_flush_status d, pd_last_flush_error = rd_last_flush_error d\<rparr>"

record py_metric_point =
  pmp_run_id :: string
  pmp_metric_key :: string
  pmp_step :: i64
  pmp_timestamp :: string
  pmp_value_f64 :: f64
  pmp_ingested_at :: string

definition py_metric_point_of :: "py_texts \<Rightarrow> metric_point \<Rightarrow> py_metric_point" where
  "py_metric_point_of t p =
     \<lparr>pmp_run_id = mp_run_id p, pmp_metric_key = mp_metric_key p, pmp_step = mp_step p,
      pmp_timestamp = pt_rfc3339 t (mp_timestamp p), pmp_value_f64 = mp_value p,
      pmp_ingested_at = pt_rfc3339 t (mp_ingested_at p)\<rparr>"

record py_metric_summary =
  pms_run_id :: string
  pms_metric_key :: string
  pms_effective_count :: u64
  pms_last_step :: i64
  pms_last_value_f64 :: f64
  pms_min_value_f64 :: f64
  pms_max_value_f64 :: f64

definition py_metric_summary_of :: "metric_aggregate \<Rightarrow> py_metric_summary" where
  "py_metric_summary_of a =
     \<lparr>pms_run_id = ma_run_id a, pms_metric_key = ma_metric_key a, pms_effective_count = ma_effective_count a,
      pms_last_step = ma_last_step a, pms_last_value_f64 = ma_last_value a,
      pms_min_value_f64 = ma_min_value a, pms_max_value_f64 = ma_max_value a\<rparr>"

subsection \<open>Aligned results\<close>

fun completeness_value :: "evidence_completeness \<Rightarrow> string" where
  "completeness_value EC_Complete = ''complete''"
| "completeness_value EC_Partial = ''partial''"
| "completeness_value EC_Unavailable = ''unavailable''"
| "completeness_value EC_Invalid = ''invalid''"

fun reason_value :: "evidence_reason \<Rightarrow> string" where
  "reason_value MissingMetric = ''missing_metric''"
| "reason_value MissingRunStart = ''missing_run_start''"
| "reason_value NegativeAxis = ''negative_axis''"
| "reason_value DecreasingAxis = ''decreasing_axis''"
| "reason_value NonFiniteValue = ''non_finite_value''"
| "reason_value RunRunning = ''run_running''"
| "reason_value RunFailed = ''run_failed''"

record py_aligned_point =
  pap_run_id :: string
  pap_metric_key :: string
  pap_step :: i64
  pap_timestamp :: string
  pap_value_f64 :: f64
  pap_ingested_at :: string
  pap_axis_value :: i64

definition py_aligned_point_of :: "py_texts \<Rightarrow> aligned_metric_point \<Rightarrow> py_aligned_point" where
  "py_aligned_point_of t a = (let p = amp_point a in
     \<lparr>pap_run_id = mp_run_id p, pap_metric_key = mp_metric_key p, pap_step = mp_step p,
      pap_timestamp = pt_rfc3339 t (mp_timestamp p), pap_value_f64 = mp_value p,
      pap_ingested_at = pt_rfc3339 t (mp_ingested_at p), pap_axis_value = amp_axis_value a\<rparr>)"

record py_aligned_result =
  par_points :: "py_aligned_point list"
  par_source_row_count :: u64
  par_downsampled :: bool
  par_completeness :: string
  par_reasons :: "string list"

definition py_aligned_result_of :: "py_texts \<Rightarrow> aligned_metric_result \<Rightarrow> py_aligned_result" where
  "py_aligned_result_of t r =
     \<lparr>par_points = map (py_aligned_point_of t) (amr_points r), par_source_row_count = amr_source_row_count r,
      par_downsampled = amr_downsampled r, par_completeness = completeness_value (amr_completeness r),
      par_reasons = map reason_value (amr_reasons r)\<rparr>"

subsection \<open>Comparisons and rankings\<close>

text \<open>\<open>comparison.rs\<close> repeats the tables of \<open>alignment.rs\<close> and \<open>client.rs\<close> as functions of its own.\<close>

fun direction_value :: "objective_direction \<Rightarrow> string" where
  "direction_value Minimize = ''minimize''"
| "direction_value Maximize = ''maximize''"

fun cmp_status_value :: "run_status \<Rightarrow> string" where
  "cmp_status_value Running = ''running''"
| "cmp_status_value Finished = ''finished''"
| "cmp_status_value Failed = ''failed''"

fun cmp_completeness_value :: "evidence_completeness \<Rightarrow> string" where
  "cmp_completeness_value EC_Complete = ''complete''"
| "cmp_completeness_value EC_Partial = ''partial''"
| "cmp_completeness_value EC_Unavailable = ''unavailable''"
| "cmp_completeness_value EC_Invalid = ''invalid''"

fun cmp_reason_value :: "evidence_reason \<Rightarrow> string" where
  "cmp_reason_value MissingMetric = ''missing_metric''"
| "cmp_reason_value MissingRunStart = ''missing_run_start''"
| "cmp_reason_value NegativeAxis = ''negative_axis''"
| "cmp_reason_value DecreasingAxis = ''decreasing_axis''"
| "cmp_reason_value NonFiniteValue = ''non_finite_value''"
| "cmp_reason_value RunRunning = ''run_running''"
| "cmp_reason_value RunFailed = ''run_failed''"

fun outcome_value :: "comparison_outcome \<Rightarrow> string" where
  "outcome_value CO_Improved = ''improved''"
| "outcome_value CO_Regressed = ''regressed''"
| "outcome_value CO_Equal = ''equal''"

fun preference_value :: "comparison_preference \<Rightarrow> string" where
  "preference_value CP_Candidate = ''candidate''"
| "preference_value CP_Reference = ''reference''"
| "preference_value CP_NoPreference = ''no_preference''"
| "preference_value CP_Inconclusive = ''inconclusive''"

record py_objective_metric =
  pom_metric_key :: string
  pom_direction :: string

definition py_objective_metric_of :: "objective_metric \<Rightarrow> py_objective_metric" where
  "py_objective_metric_of m = \<lparr>pom_metric_key = om_metric_key m, pom_direction = direction_value (om_direction m)\<rparr>"

record py_objective_evidence =
  poe_run_id :: string
  poe_run_status :: string
  poe_last_step :: "i64 option"
  poe_last_value_f64 :: "f64 option"
  poe_completeness :: string
  poe_reasons :: "string list"

definition py_objective_evidence_of :: "objective_evidence \<Rightarrow> py_objective_evidence" where
  "py_objective_evidence_of e =
     \<lparr>poe_run_id = oe_run_id e, poe_run_status = cmp_status_value (oe_run_status e),
      poe_last_step = oe_last_step e, poe_last_value_f64 = oe_last_value e,
      poe_completeness = cmp_completeness_value (oe_completeness e),
      poe_reasons = map cmp_reason_value (oe_reasons e)\<rparr>"

record py_comparison_result =
  pcr_objective :: py_objective_metric
  pcr_candidate :: py_objective_evidence
  pcr_reference :: py_objective_evidence
  pcr_completeness :: string
  pcr_raw_delta :: "f64 option"
  pcr_relative_delta :: "f64 option"
  pcr_normalized_improvement :: "f64 option"
  pcr_outcome :: "string option"
  pcr_preference :: string

definition py_comparison_result_of :: "comparison_result \<Rightarrow> py_comparison_result" where
  "py_comparison_result_of r =
     \<lparr>pcr_objective = py_objective_metric_of (cr_objective r),
      pcr_candidate = py_objective_evidence_of (cr_candidate r),
      pcr_reference = py_objective_evidence_of (cr_reference r),
      pcr_completeness = cmp_completeness_value (cr_completeness r), pcr_raw_delta = cr_raw_delta r,
      pcr_relative_delta = cr_relative_delta r, pcr_normalized_improvement = cr_normalized_improvement r,
      pcr_outcome = map_option outcome_value (cr_outcome r), pcr_preference = preference_value (cr_preference r)\<rparr>"

record py_metric_comparison_result =
  pmc_metric_key :: string
  pmc_candidate :: py_objective_evidence
  pmc_reference :: py_objective_evidence
  pmc_completeness :: string
  pmc_raw_delta :: "f64 option"
  pmc_relative_delta :: "f64 option"

definition py_metric_comparison_result_of :: "metric_comparison_result \<Rightarrow> py_metric_comparison_result" where
  "py_metric_comparison_result_of r =
     \<lparr>pmc_metric_key = mcr_metric_key r, pmc_candidate = py_objective_evidence_of (mcr_candidate r),
      pmc_reference = py_objective_evidence_of (mcr_reference r),
      pmc_completeness = cmp_completeness_value (mcr_completeness r), pmc_raw_delta = mcr_raw_delta r,
      pmc_relative_delta = mcr_relative_delta r\<rparr>"

record py_comparison_report =
  pcp_primary :: py_comparison_result
  pcp_secondary :: "py_metric_comparison_result list"

definition py_comparison_report_of :: "comparison_report \<Rightarrow> py_comparison_report" where
  "py_comparison_report_of r = \<lparr>pcp_primary = py_comparison_result_of (crp_primary r),
     pcp_secondary = map py_metric_comparison_result_of (crp_secondary r)\<rparr>"

record py_ranking_entry =
  pre_evidence :: py_objective_evidence
  pre_rank :: "u64 option"

definition py_ranking_entry_of :: "ranking_entry \<Rightarrow> py_ranking_entry" where
  "py_ranking_entry_of e = \<lparr>pre_evidence = py_objective_evidence_of (re_evidence e), pre_rank = re_rank e\<rparr>"

record py_ranking_result =
  prr_objective :: py_objective_metric
  prr_entries :: "py_ranking_entry list"

definition py_ranking_result_of :: "ranking_result \<Rightarrow> py_ranking_result" where
  "py_ranking_result_of r = \<lparr>prr_objective = py_objective_metric_of (rr_objective r),
     prr_entries = map py_ranking_entry_of (rr_entries r)\<rparr>"

subsection \<open>Arrow tables\<close>

datatype arrow_type = Arrow_Utf8 | Arrow_Int64 | Arrow_UInt64 | Arrow_Float64 | Arrow_TimestampMs "string option"

record arrow_field =
  af_name :: string
  af_type :: arrow_type
  af_nullable :: bool

datatype arrow_array =
    StringArray "string list"
  | Int64Array "i64 list"
  | UInt64Array "u64 list"
  | Float64Array "f64 list"
  | TimestampMillisecondArray "string option" "i64 list"

fun with_timezone :: "string \<Rightarrow> arrow_array \<Rightarrow> arrow_array" where
  "with_timezone zone (TimestampMillisecondArray _ millis) = TimestampMillisecondArray (Some zone) millis"
| "with_timezone zone column = column"

text \<open>The parts of the Arrow library that the bindings call, for a type \<open>'b\<close> of record batches.\<close>

record 'b arrow_api =
  aa_try_new :: "arrow_field list \<Rightarrow> arrow_array list \<Rightarrow> (string, 'b) res"
  aa_num_rows :: "'b \<Rightarrow> nat"
  aa_fields :: "'b \<Rightarrow> arrow_field list"

record 'b py_arrow_table =
  pat_batch :: 'b
  pat_source_row_count :: u64
  pat_downsampled :: bool

abbreviation required_field :: "string \<Rightarrow> arrow_type \<Rightarrow> arrow_field" where
  "required_field name data_type \<equiv> \<lparr>af_name = name, af_type = data_type, af_nullable = False\<rparr>"

definition table_from_metric_points ::
  "'b arrow_api \<Rightarrow> metric_point list \<Rightarrow> u64 \<Rightarrow> bool \<Rightarrow> (string, 'b py_arrow_table) res" where
  "table_from_metric_points arrow points source_row_count downsampled =
     (let schema =
        [required_field ''run_id'' Arrow_Utf8,
         required_field ''metric_key'' Arrow_Utf8,
         required_field ''step'' Arrow_Int64,
         required_field ''timestamp'' (Arrow_TimestampMs (Some ''UTC'')),
         required_field ''value_f64'' Arrow_Float64,
         required_field ''ingested_at'' (Arrow_TimestampMs (Some ''UTC''))];
      columns =
        [StringArray (map mp_run_id points),
         StringArray (map mp_metric_key points),
         Int64Array (map mp_step points),
         with_timezone ''UTC'' (TimestampMillisecondArray None (map mp_timestamp points)),
         Float64Array (map mp_value points),
         with_timezone ''UTC'' (TimestampMillisecondArray None (map mp_ingested_at points))] in
      bind_r (aa_try_new arrow schema columns) (\<lambda>batch.
      Ok \<lparr>pat_batch = batch, pat_source_row_count = source_row_count, pat_downsampled = downsampled\<rparr>))"

definition table_from_metric_summaries ::
  "'b arrow_api \<Rightarrow> metric_aggregate list \<Rightarrow> (string, 'b py_arrow_table) res" where
  "table_from_metric_summaries arrow summaries =
     (let schema =
        [required_field ''run_id'' Arrow_Utf8,
         required_field ''metric_key'' Arrow_Utf8,
         required_field ''effective_count'' Arrow_UInt64,
         required_field ''last_step'' Arrow_Int64,
         required_field ''last_value_f64'' Arrow_Float64,
         required_field ''min_value_f64'' Arrow_Float64,
         required_field ''max_value_f64'' Arrow_Float64];
      columns =
        [StringArray (map ma_run_id summaries),
         StringArray (map ma_metric_key summaries),
         UInt64Array (map ma_effective_count summaries),
         Int64Array (map ma_last_step summaries),
         Float64Array (map ma_last_value summaries),
         Float64Array (map ma_min_value summaries),
         Float64Array (map ma_max_value summaries)] in
      bind_r (aa_try_new arrow schema columns) (\<lambda>batch.
      Ok \<lparr>pat_batch = batch, pat_source_row_count = of_nat (length summaries), pat_downsampled = False\<rparr>))"

definition table_row_count :: "'b arrow_api \<Rightarrow> 'b py_arrow_table \<Rightarrow> nat" where
  "table_row_count arrow t = aa_num_rows arrow (pat_batch t)"

definition table_column_names :: "'b arrow_api \<Rightarrow> 'b py_arrow_table \<Rightarrow> string list" where
  "table_column_names arrow t = map af_name (aa_fields arrow (pat_batch t))"

end
