(* ===== verification/Python_Sdk.thy ===== *)
theory Python_Sdk
  imports Python_Values Client
begin

section \<open>The Python client (\<open>pulseon-python/src/sdk/client.rs\<close>)\<close>

text \<open>
  The methods of the Python classes \<open>Client\<close> and \<open>Run\<close> as operations on the state of the native client
  they own. A \<open>PyRun\<close> is the handle that \<open>run_handle\<close> gives out, an index into the client's handles.
  Every method first converts its arguments, then calls the client, then converts the answer or the
  error; a method that waits for a drain has the value \<open>None\<close> when the drain does not return.
\<close>

type_synonym 'a py_op = "(client, py_failure, 'a) op"
type_synonym 'a py_wait = "client \<Rightarrow> ((py_failure, 'a) res \<times> client) option"

text \<open>A call of the native client with \<open>map_err(runtime_error)\<close>, and one that waits.\<close>

definition sdk :: "(client, engine_error, 'a) op \<Rightarrow> 'a py_op" where
  "sdk m = map_err_op runtime_error m"

definition sdk_wait :: "'a client_wait \<Rightarrow> ('a \<Rightarrow> 'b py_op) \<Rightarrow> 'b py_wait" where
  "sdk_wait m k w = (case m w of
       None \<Rightarrow> None
     | Some (Inl e, w') \<Rightarrow> Some (Err (runtime_error e), w')
     | Some (Inr x, w') \<Rightarrow> Some (k x w'))"

text \<open>\<open>PyRun::from(self._inner.run_handle(run))\<close>.\<close>

definition py_run :: "run \<Rightarrow> nat py_op" where
  "py_run run w = (let (h, w') = run_handle run w in (Ok h, w'))"

text \<open>\<open>timeout.map(duration_from_seconds).transpose()?\<close> before the rest of a method.\<close>

definition py_timeout :: "string \<Rightarrow> f64 option \<Rightarrow> (py_failure, nat option) res" where
  "py_timeout name timeout = (case timeout of
       None \<Rightarrow> Ok None
     | Some seconds \<Rightarrow> map_r Some (duration_from_seconds name seconds))"

definition with_timeout :: "string \<Rightarrow> f64 option \<Rightarrow> (nat option \<Rightarrow> 'a py_wait) \<Rightarrow> 'a py_wait" where
  "with_timeout name timeout call w = (case py_timeout name timeout of
       Inl e \<Rightarrow> Some (Err e, w)
     | Inr duration \<Rightarrow> call duration w)"

subsection \<open>Projects and runs\<close>

definition py_create_project :: "py_texts \<Rightarrow> string \<Rightarrow> string option \<Rightarrow> py_project py_op" where
  "py_create_project t name pid =
     bind_op (sdk (create_project name pid)) (\<lambda>p. ret_op (py_project_of t p))"

definition py_get_project :: "py_texts \<Rightarrow> string \<Rightarrow> py_project py_op" where
  "py_get_project t pid = bind_op (sdk (get_project pid)) (\<lambda>p. ret_op (py_project_of t p))"

definition py_list_projects :: "py_texts \<Rightarrow> py_project list py_op" where
  "py_list_projects t = bind_op (sdk list_projects) (\<lambda>ps. ret_op (map (py_project_of t) ps))"

definition py_create_run :: "string \<Rightarrow> string \<Rightarrow> string option \<Rightarrow> nat py_op" where
  "py_create_run pid name rid = bind_op (sdk (create_run pid name rid)) py_run"

definition py_get_run :: "string \<Rightarrow> nat py_op" where
  "py_get_run rid = bind_op (sdk (get_run rid)) py_run"

definition py_resume_run :: "string \<Rightarrow> nat py_op" where
  "py_resume_run rid = bind_op (sdk (resume_run rid)) py_run"

definition py_list_runs :: "py_texts \<Rightarrow> string \<Rightarrow> string option \<Rightarrow> nat option \<Rightarrow> nat \<Rightarrow> nat list py_op" where
  "py_list_runs t pid status limit offset =
     bind_op (lift_op (parse_run_status t status)) (\<lambda>st.
     bind_op (sdk (list_runs_filtered pid st limit offset)) (mapM_op py_run))"

definition py_list_orphan_runs :: "string option \<Rightarrow> nat list py_op" where
  "py_list_orphan_runs pid = bind_op (sdk (list_orphan_runs pid)) (mapM_op py_run)"

definition py_finish_run :: "string \<Rightarrow> f64 option \<Rightarrow> nat py_wait" where
  "py_finish_run rid timeout =
     with_timeout ''finish_run timeout'' timeout (\<lambda>d. sdk_wait (finish_run_with_timeout rid d) py_run)"

definition py_fail_run :: "string \<Rightarrow> f64 option \<Rightarrow> nat py_wait" where
  "py_fail_run rid timeout =
     with_timeout ''fail_run timeout'' timeout (\<lambda>d. sdk_wait (fail_run_with_timeout rid d) py_run)"

definition py_flush_run_data :: "string \<Rightarrow> f64 option \<Rightarrow> unit py_op" where
  "py_flush_run_data rid timeout =
     bind_op (lift_op (py_timeout ''flush timeout'' timeout)) (\<lambda>d. sdk (flush_run_data rid d))"

definition py_shutdown :: "f64 option \<Rightarrow> unit py_wait" where
  "py_shutdown timeout = with_timeout ''shutdown timeout'' timeout (\<lambda>d. sdk_wait (shutdown d) ret_op)"

definition py_client_diagnostics :: "client \<Rightarrow> py_diagnostics" where
  "py_client_diagnostics w = py_diagnostics_of (diagnostics w)"

subsection \<open>The end of a \<open>with\<close> block\<close>

text \<open>
  The exception object that Python hands to \<open>__exit__\<close>: its \<open>__context__\<close>, and whether it refuses to have it
  set, which the code ignores. \<open>None\<close> is Python's \<open>None\<close>.
\<close>

record py_user_exception =
  pu_context :: "py_failure option"
  pu_refuses :: bool

definition attach_exception_context :: "py_user_exception option \<Rightarrow> py_failure \<Rightarrow> py_user_exception option" where
  "attach_exception_context exc_value teardown_error =
     map_option (\<lambda>u. if pu_refuses u then u else u\<lparr>pu_context := Some teardown_error\<rparr>) exc_value"

text \<open>The result of \<open>__exit__\<close>, the exception object after it, and the client; \<open>exc_type\<close> as \<open>is_none\<close>.\<close>

definition py_exit ::
  "bool \<Rightarrow> py_user_exception option \<Rightarrow> client \<Rightarrow> ((py_failure, bool) res \<times> py_user_exception option \<times> client) option" where
  "py_exit exc_type_none exc_value w =
     (let user_exception_active = \<not> exc_type_none in
      case shutdown None w of
        None \<Rightarrow> None
      | Some (Inr _, w') \<Rightarrow> Some (Ok False, exc_value, w')
      | Some (Inl e, w') \<Rightarrow>
          if user_exception_active
          then Some (Ok False, attach_exception_context exc_value (runtime_error e), w')
          else Some (Err (runtime_error e), exc_value, w'))"

subsection \<open>Runs\<close>

record py_run_fields =
  prf_run_id :: string
  prf_project_id :: string
  prf_name :: string
  prf_status :: string
  prf_created_at :: string
  prf_started_at :: string
  prf_finished_at :: "string option"

text \<open>The getters of a \<open>PyRun\<close>.\<close>

definition py_run_fields_of :: "py_texts \<Rightarrow> native_run \<Rightarrow> py_run_fields" where
  "py_run_fields_of t h = (let r = nr_run h in
     \<lparr>prf_run_id = r_run_id r, prf_project_id = r_project_id r, prf_name = r_name r,
      prf_status = status_as_string (r_status r), prf_created_at = pt_rfc3339 t (r_created_at r),
      prf_started_at = pt_rfc3339 t (r_started_at r),
      prf_finished_at = map_option (pt_rfc3339 t) (r_finished_at r)\<rparr>)"

definition py_log :: "native_run \<Rightarrow> string \<Rightarrow> i64 \<Rightarrow> f64 \<Rightarrow> int \<Rightarrow> unit py_op" where
  "py_log h key stp v now = sdk (log_metric_at_step h key stp v now)"

subsection \<open>Queries\<close>

definition py_query_aligned_metric ::
  "py_texts \<Rightarrow> string \<Rightarrow> string \<Rightarrow> string \<Rightarrow> i64 \<Rightarrow> i64 \<Rightarrow> u32 option \<Rightarrow> u16 option \<Rightarrow> py_aligned_result py_op" where
  "py_query_aligned_metric t rid key axis start_at end_at pixel_width points_per_pixel =
     bind_op (lift_op (py_alignment_query t rid key axis start_at end_at pixel_width points_per_pixel)) (\<lambda>q.
     bind_op (sdk (client_query_aligned_metric q)) (\<lambda>r. ret_op (py_aligned_result_of t r)))"

definition py_compare_runs :: "py_texts \<Rightarrow> string \<Rightarrow> string \<Rightarrow> string \<Rightarrow> string \<Rightarrow> py_comparison_result py_op" where
  "py_compare_runs t candidate_id reference_id key direction =
     bind_op (lift_op (py_objective t key direction)) (\<lambda>objective.
     bind_op (sdk (client_compare_runs candidate_id reference_id objective)) (\<lambda>r.
     ret_op (py_comparison_result_of r)))"

definition py_run_evidence :: "py_texts \<Rightarrow> string \<Rightarrow> string \<Rightarrow> py_objective_evidence py_op" where
  "py_run_evidence t rid key =
     bind_op (lift_op (py_objective t key ''maximize'')) (\<lambda>objective.
     bind_op (sdk (client_objective_evidence rid objective)) (\<lambda>e. ret_op (py_objective_evidence_of e)))"

definition py_comparison_reports ::
  "py_texts \<Rightarrow> string list \<Rightarrow> string \<Rightarrow> string \<Rightarrow> string \<Rightarrow> string list \<Rightarrow> py_comparison_report list py_op" where
  "py_comparison_reports t candidate_ids reference_id key direction secondary_keys =
     bind_op (lift_op (py_objective t key direction)) (\<lambda>objective.
     bind_op (sdk (client_comparison_reports candidate_ids reference_id objective secondary_keys)) (\<lambda>reports.
     case reports of None \<Rightarrow> fail_op Panicked | Some rs \<Rightarrow> ret_op (map py_comparison_report_of rs)))"

definition py_rank_runs :: "py_texts \<Rightarrow> string list \<Rightarrow> string \<Rightarrow> string \<Rightarrow> py_ranking_result py_op" where
  "py_rank_runs t ids key direction =
     bind_op (lift_op (py_objective t key direction)) (\<lambda>objective.
     bind_op (sdk (client_rank_runs ids objective)) (\<lambda>r. ret_op (py_ranking_result_of r)))"

definition py_best_eligible_run :: "py_texts \<Rightarrow> string list \<Rightarrow> string \<Rightarrow> string \<Rightarrow> string option py_op" where
  "py_best_eligible_run t ids key direction =
     bind_op (lift_op (py_objective t key direction)) (\<lambda>objective.
     sdk (client_best_eligible_run ids objective))"

definition py_query_metric ::
  "py_texts \<Rightarrow> string \<Rightarrow> string \<Rightarrow> i64 option \<Rightarrow> i64 option \<Rightarrow> nat option \<Rightarrow> py_metric_point list py_op" where
  "py_query_metric t rid key start_step end_step max_points =
     bind_op (sdk (client_query_metric rid key start_step end_step max_points)) (\<lambda>points.
     ret_op (map (py_metric_point_of t) points))"

definition py_query_metric_with_metadata ::
  "py_texts \<Rightarrow> string \<Rightarrow> string \<Rightarrow> i64 option \<Rightarrow> i64 option \<Rightarrow> nat option \<Rightarrow> (py_metric_point list \<times> u64 \<times> bool) py_op" where
  "py_query_metric_with_metadata t rid key start_step end_step max_points =
     bind_op (sdk (client_query_metric_with_metadata rid key start_step end_step max_points)) (\<lambda>result.
     let downsampled = of_nat (length (mqr_points result)) < mqr_source_row_count result;
         points = map (py_metric_point_of t) (mqr_points result) in
     ret_op (points, mqr_source_row_count result, downsampled))"

definition py_query_metric_summaries :: "string list \<Rightarrow> string \<Rightarrow> py_metric_summary list py_op" where
  "py_query_metric_summaries ids key =
     bind_op (sdk (client_query_metric_summaries ids key)) (\<lambda>rows. ret_op (map py_metric_summary_of rows))"

definition arrow_failure :: "string \<Rightarrow> py_failure" where
  "arrow_failure e = Raised Py_RuntimeError (''failed to build Arrow table: '' @ e)"

definition py_query_metric_table ::
  "'b arrow_api \<Rightarrow> string \<Rightarrow> string \<Rightarrow> i64 option \<Rightarrow> i64 option \<Rightarrow> nat option \<Rightarrow> 'b py_arrow_table py_op" where
  "py_query_metric_table arrow rid key start_step end_step max_points =
     bind_op (sdk (client_query_metric_with_metadata rid key start_step end_step max_points)) (\<lambda>result.
     let downsampled = of_nat (length (mqr_points result)) < mqr_source_row_count result in
     lift_op (map_err arrow_failure
       (table_from_metric_points arrow (mqr_points result) (mqr_source_row_count result) downsampled)))"

definition py_query_metric_summaries_table ::
  "'b arrow_api \<Rightarrow> string list \<Rightarrow> string \<Rightarrow> 'b py_arrow_table py_op" where
  "py_query_metric_summaries_table arrow ids key =
     bind_op (sdk (client_query_metric_summaries ids key)) (\<lambda>rows.
     lift_op (map_err arrow_failure (table_from_metric_summaries arrow rows)))"

definition py_list_metrics :: "string \<Rightarrow> py_metric_summary list py_op" where
  "py_list_metrics rid =
     bind_op (sdk (client_list_metrics rid)) (\<lambda>rows. ret_op (map py_metric_summary_of rows))"

subsection \<open>Opening\<close>

text \<open>The keyword arguments of \<open>init\<close> and the defaults of its signature.\<close>

record init_args =
  ia_path :: path
  ia_data_path :: "path option"
  ia_catalog_backend :: "string option"
  ia_catalog_path :: "path option"
  ia_metric_queue_capacity :: i64
  ia_s3 :: s3_overrides
  ia_must_exist :: bool

definition init_defaults :: init_args where
  "init_defaults =
     \<lparr>ia_path = ''.'', ia_data_path = None, ia_catalog_backend = None, ia_catalog_path = None,
      ia_metric_queue_capacity = 65536,
      ia_s3 = \<lparr>so_endpoint = None, so_access_key_id = None, so_secret_access_key = None,
               so_session_token = None, so_region = None, so_path_style = None, so_use_ssl = None\<rparr>,
      ia_must_exist = False\<rparr>"

definition py_init :: "'v toml_api \<Rightarrow> (path \<Rightarrow> file_read) \<Rightarrow> open_env \<Rightarrow> init_args \<Rightarrow> (boot, py_failure, client) op" where
  "py_init api files env args =
     bind_op (lift_op (map_err invalid_configuration_error
         (resolve_init_config api files (ia_path args) (ia_data_path args) (ia_catalog_backend args)
            (ia_catalog_path args) (ia_metric_queue_capacity args) (ia_s3 args)))) (\<lambda>config.
     map_err_op runtime_error
       (if ia_must_exist args
        then open_existing_with_catalog_backend_storage_config env (ia_path args) (ri_catalog_backend config)
               (ri_catalog_path config) (ri_data_path config) (ri_s3_connection config)
               (ri_metric_queue_capacity config)
        else open_with_catalog_backend_storage_config env (ia_path args) (ri_catalog_backend config)
               (ri_catalog_path config) (ri_data_path config) (ri_s3_connection config)
               (ri_metric_queue_capacity config)))"

end
