(* ===== verification/Float64_Neighbours.thy ===== *)
theory Float64_Neighbours
  imports Float64
begin

section \<open>Neighbours and enclosures of \<open>f64\<close> results\<close>

text \<open>
  \<open>next_up\<close> and \<open>next_down\<close> are the adjacent values; an operation whose exact result lies between two
  values is finite and lies between them after rounding; on non-negative axis coordinates with
  integral bounds the distance to a bound is exact or rounds back onto it.
\<close>

subsection \<open>The grid of a binade\<close>

lemma zero_less_mult_pos_powi: "0 < (q::rat) * 2 powi e \<longleftrightarrow> 0 < q"
  using mult_less_cancel_right_pos [OF powi_two_pos [of e], of 0 q] by simp

lemma representable_multiple:
  assumes "representable q"
  obtains k :: int where "q = of_int k * 2 powi (ulp_exp q)"
proof (cases "q = 0")
  case True
  then show ?thesis using that [of 0] by simp
next
  case False
  with assms obtain k where "q / 2 powi (ulp_exp q) = of_int k"
    by (auto simp: representable_def elim: Ints_cases)
  then have "q = of_int k * 2 powi (ulp_exp q)"
    by (metis less_irrefl nonzero_divide_eq_eq powi_two_pos)
  then show ?thesis by (rule that)
qed

lemma multiple_refine:
  assumes "q = of_int k * (2::rat) powi d" and "e \<le> d"
  shows "q = of_int (k * 2 ^ nat (d - e)) * 2 powi e"
proof -
  have "(2::rat) powi d = of_int (2 ^ nat (d - e)) * 2 powi e"
    using powi_two_quot [OF assms(2)] by (metis less_irrefl nonzero_divide_eq_eq powi_two_pos)
  with assms(1) show ?thesis by simp
qed

lemma representable_on_grid:
  assumes "representable q" and "e \<le> ulp_exp q"
  obtains k :: int where "q = of_int k * 2 powi e"
proof -
  obtain k where "q = of_int k * 2 powi (ulp_exp q)" using representable_multiple [OF assms(1)] by blast
  from multiple_refine [OF this assms(2)] show ?thesis by (rule that)
qed

lemma grid_le: "of_int j * (2::rat) powi e < of_int k * 2 powi e \<Longrightarrow> of_int j * 2 powi e \<le> (of_int k - 1) * (2::rat) powi e"
proof -
  assume "of_int j * (2::rat) powi e < of_int k * 2 powi e"
  then have "(of_int j :: rat) < of_int k" by (rule mult_less_cancel_right_pos [OF powi_two_pos, THEN iffD1])
  then have "j \<le> k - 1" by simp
  then have "(of_int j :: rat) \<le> of_int (k - 1)" by (rule of_int_le_iff [THEN iffD2])
  then have "(of_int j :: rat) \<le> of_int k - 1" by simp
  then show ?thesis by (intro mult_right_mono) auto
qed

lemma ulp_exp_mono: "0 < p \<Longrightarrow> p \<le> q \<Longrightarrow> ulp_exp p \<le> ulp_exp q"
  using ilog2_mono [of p q] by (simp add: ulp_exp_def)

lemma ulp_exp_ge [simp]: "- 1074 \<le> ulp_exp q"
  by (simp add: ulp_exp_def)

lemma below_binade: "0 < q \<Longrightarrow> q < of_int (2 ^ 53) * 2 powi (ulp_exp q)"
proof -
  assume "0 < q"
  then have "q < 2 powi (ilog2 q + 1)" by (rule ilog2_bounds)
  also have "\<dots> \<le> 2 powi (53 + ulp_exp q)" by (intro powi_two_mono) (simp add: ulp_exp_def)
  also have "\<dots> = of_int (2 ^ 53) * 2 powi (ulp_exp q)" by (simp add: powi_two_add)
  finally show ?thesis .
qed

lemma mult_le_small: "0 \<le> k \<Longrightarrow> of_int k * (2::rat) powi e < of_int (2 ^ 53) * 2 powi e \<Longrightarrow> k < 2 ^ 53"
  using mult_less_cancel_right_pos [OF powi_two_pos [of e], of "of_int k" "of_int (2 ^ 53)"] by (simp only: of_int_less_iff)

subsection \<open>Adjacent magnitudes\<close>

lemma mag_up_props:
  assumes "representable m"
  shows "representable (mag_up m)" and "m < mag_up m"
    and "representable n \<Longrightarrow> m < n \<Longrightarrow> mag_up m \<le> n"
proof -
  let ?e = "ulp_exp m"
  have tiny: "representable (2 powi (- 1074))"
    using representable_scaled [of 1 "- 1074"] by simp
  have pos: "0 \<le> m" using assms by (rule representable_nonneg)
  show "m < mag_up m" by (auto simp: mag_up_def)
  show "representable (mag_up m)"
  proof (cases "m = 0")
    case True
    then show ?thesis using tiny by (simp add: mag_up_def)
  next
    case False
    obtain k where k: "m = of_int k * 2 powi ?e" using representable_multiple [OF assms] by blast
    have "0 < m" using pos False by simp
    then have "0 < of_int k * (2::rat) powi ?e" using k by simp
    then have k0: "0 < k" by (simp only: zero_less_mult_pos_powi of_int_0_less_iff)
    have "k < 2 ^ 53" using k0 k below_binade [OF \<open>0 < m\<close>] by (intro mult_le_small [of k ?e]) auto
    then have "representable (of_int \<bar>k + 1\<bar> * 2 powi ?e)" using k0 by (intro representable_scaled) auto
    moreover have "mag_up m = of_int \<bar>k + 1\<bar> * 2 powi ?e"
      using False k k0 by (simp add: mag_up_def algebra_simps)
    ultimately show ?thesis by simp
  qed
  assume n: "representable n" "m < n"
  show "mag_up m \<le> n"
  proof (cases "m = 0")
    case True
    obtain j where j: "n = of_int j * 2 powi (- 1074)" using representable_grid [OF n(1)] by blast
    have "0 < of_int j * (2::rat) powi (- 1074)" using j n(2) True by simp
    then have "(0::rat) < of_int j" by (simp only: zero_less_mult_pos_powi)
    then have "(1::rat) \<le> of_int j" by simp
    then have "1 * (2::rat) powi (- 1074) \<le> of_int j * 2 powi (- 1074)" by (intro mult_right_mono) auto
    then show ?thesis using True j by (simp add: mag_up_def)
  next
    case False
    then have m0: "0 < m" using pos by simp
    then have e: "?e \<le> ulp_exp n" using n(2) by (intro ulp_exp_mono) auto
    obtain j where j: "n = of_int j * 2 powi ?e" using representable_on_grid [OF n(1) e] by blast
    obtain k where k: "m = of_int k * 2 powi ?e" using representable_multiple [OF assms] by blast
    have "of_int k * (2::rat) powi ?e \<le> (of_int j - 1) * 2 powi ?e" using n(2) j k by (intro grid_le) simp
    then show ?thesis using False j k by (simp add: mag_up_def algebra_simps)
  qed
qed

lemma mag_down_props:
  assumes "representable m" and "0 < m"
  shows "representable (mag_down m)" and "mag_down m < m"
    and "representable n \<Longrightarrow> n < m \<Longrightarrow> n \<le> mag_down m"
proof -
  let ?e = "ulp_exp m" and ?K = "ilog2 m"
  obtain k where k: "m = of_int k * 2 powi ?e" using representable_multiple [OF assms(1)] by blast
  have k0: "0 < k" using assms(2) k zero_less_mult_pos_powi [of "of_int k" ?e] by simp
  have kb: "k < 2 ^ 53" using k0 k below_binade [OF assms(2)] by (intro mult_le_small [of k ?e]) auto
  have bounds: "2 powi ?K \<le> m" "m < 2 powi (?K + 1)" using ilog2_bounds [OF assms(2)] by auto
  show "mag_down m < m" by (simp add: mag_down_def Let_def)
  consider (edge) "m = 2 powi ?K" "- 1074 < ?e" | (inner) "\<not> (m = 2 powi ?K \<and> - 1074 < ?e)" by blast
  then have "representable (mag_down m) \<and> (\<forall>n. representable n \<longrightarrow> n < m \<longrightarrow> n \<le> mag_down m)"
  proof cases
    case edge
    then have e: "?e = ?K - 52" by (simp add: ulp_exp_def max_def split: if_splits)
    have down: "mag_down m = m - 2 powi (?e - 1)" using edge by (simp add: mag_down_def Let_def)
    have "(2::rat) powi ?K = of_int (2 ^ nat (?K - (?e - 1))) * 2 powi (?e - 1)"
      using multiple_refine [of "2 powi ?K" 1 ?K "?e - 1"] e by simp
    then have m: "m = of_int (2 ^ 53) * 2 powi (?e - 1)" using edge(1) e by simp
    then have d: "mag_down m = of_int \<bar>2 ^ 53 - 1\<bar> * 2 powi (?e - 1)" using down by (simp add: algebra_simps)
    have "representable (mag_down m)" unfolding d using edge(2) by (intro representable_scaled) auto
    moreover have "n \<le> mag_down m" if n: "representable n" "n < m" for n
    proof (cases "2 powi (?K - 1) \<le> n")
      case True
      then have "ilog2 n = ?K - 1" using n(2) edge(1) by (intro ilog2_unique) auto
      then have "ulp_exp n = ?e - 1" using e edge(2) by (simp add: ulp_exp_def)
      then obtain j where j: "n = of_int j * 2 powi (?e - 1)" using representable_multiple [OF n(1)] by metis
      have "of_int j * 2 powi (?e - 1) \<le> (of_int (2 ^ 53) - 1) * (2::rat) powi (?e - 1)"
        using n(2) j m by (intro grid_le) simp
      then show ?thesis using j d by simp
    next
      case False
      then have "n < 2 powi (?K - 1)" by simp
      also have "2 powi (?K - 1) = of_int (2 ^ 52) * (2::rat) powi (?e - 1)"
        using multiple_refine [of "2 powi (?K - 1)" 1 "?K - 1" "?e - 1"] e by simp
      also have "\<dots> \<le> mag_down m" unfolding d by (intro mult_right_mono) auto
      finally show ?thesis by simp
    qed
    ultimately show ?thesis by blast
  next
    case inner
    then have down: "mag_down m = m - 2 powi ?e" by (auto simp: mag_down_def Let_def)
    then have d: "mag_down m = of_int \<bar>k - 1\<bar> * 2 powi ?e" using k k0 by (simp add: algebra_simps)
    have "representable (mag_down m)" unfolding d using k0 kb by (intro representable_scaled) auto
    moreover have "n \<le> mag_down m" if n: "representable n" "n < m" for n
    proof (rule ccontr)
      assume "\<not> n \<le> mag_down m"
      then have gt: "m - 2 powi ?e < n" using down by simp
      have "?e \<le> ulp_exp n"
      proof (cases "?e = - 1074")
        case True
        then show ?thesis by simp
      next
        case False
        then have e: "?e = ?K - 52" "- 1074 < ?e" by (simp_all add: ulp_exp_def max_def split: if_splits)
        have two: "2 powi ?K = of_int (2 ^ 52) * (2::rat) powi ?e"
          using multiple_refine [of "2 powi ?K" 1 ?K ?e] e by simp
        have "m \<noteq> 2 powi ?K" using inner e(2) by blast
        then have "of_int (2 ^ 52) * (2::rat) powi ?e < of_int k * 2 powi ?e" using bounds(1) two k by simp
        from grid_le [OF this] have "2 powi ?K \<le> m - 2 powi ?e" using two k by (simp add: algebra_simps)
        then have big: "2 powi ?K \<le> n" using gt by simp
        then have "0 < n" using powi_two_pos [of ?K] by linarith
        have "ilog2 n = ?K" using big n(2) bounds(2) by (intro ilog2_unique) auto
        then show ?thesis using e by (simp add: ulp_exp_def)
      qed
      then obtain j where j: "n = of_int j * 2 powi ?e" using representable_on_grid [OF n(1)] by blast
      have "of_int j * 2 powi ?e \<le> (of_int k - 1) * (2::rat) powi ?e" using n(2) j k by (intro grid_le) simp
      then show False using gt j k by (simp add: algebra_simps)
    qed
    ultimately show ?thesis by blast
  qed
  then show "representable (mag_down m)" "representable n \<Longrightarrow> n < m \<Longrightarrow> n \<le> mag_down m" by blast+
qed

subsection \<open>\<open>next_up\<close> and \<open>next_down\<close>\<close>

lemma wf_next_up [simp]: "wf_f64 x \<Longrightarrow> wf_f64 (next_up x)"
proof -
  assume wf: "wf_f64 x"
  have top: "representable (f64_max_bound - 2 powi 971)" "f64_max_bound - 2 powi 971 < f64_max_bound"
  proof -
    have "2 powi 1024 = (2::rat) powi 53 * 2 powi 971" by (simp only: powi_two_add [symmetric]) (simp only: arith_simps)
    moreover have "(2::rat) powi 53 = of_int (2 ^ 53)" by simp
    ultimately have "f64_max_bound - 2 powi 971 = of_int \<bar>2 ^ 53 - 1\<bar> * 2 powi 971"
      unfolding f64_max_bound_def by (simp only:) (simp only: of_int_diff of_int_1 left_diff_distrib mult_1 abs_of_nonneg
        diff_ge_0_iff_ge one_le_power one_le_numeral)
    then show "representable (f64_max_bound - 2 powi 971)"
      by (simp only:) (intro representable_scaled, simp_all)
  qed (simp only: f64_max_bound_def diff_less_eq less_add_same_cancel1 powi_two_pos)
  show ?thesis
  proof (cases x)
    case (F_Fin s m)
    with wf have m: "representable m" "m < f64_max_bound" "0 \<le> m" by (auto dest: representable_nonneg)
    show ?thesis
    proof (cases "m = 0 \<or> \<not> s")
      case True
      then show ?thesis using F_Fin mag_up_props(1) [OF m(1)] by simp
    next
      case False
      then have "0 < m" using m(3) by simp
      then show ?thesis using F_Fin False mag_down_props(1,2) [OF m(1)] m(2) by auto
    qed
  next
    case (F_Inf s)
    then show ?thesis using top by (cases s) auto
  qed auto
qed

lemma wf_next_down [simp]: "wf_f64 x \<Longrightarrow> wf_f64 (next_down x)"
  by (simp add: next_down_def)

lemma next_up_greater: "wf_f64 x \<Longrightarrow> is_finite x \<Longrightarrow> flt x (next_up x)"
proof -
  assume a: "wf_f64 x" "is_finite x"
  then obtain s m where x: "x = F_Fin s m" by (cases x) auto
  with a have m: "representable m" "0 \<le> m" by (auto dest: representable_nonneg)
  show ?thesis
  proof (cases "m = 0 \<or> \<not> s")
    case True
    then show ?thesis using x mag_up_props(2) [OF m(1)] m(2) by (auto simp: sval_def)
  next
    case False
    then have "0 < m" using m(2) by simp
    then show ?thesis using x False mag_down_props(2) [OF m(1)] by (auto simp: sval_def)
  qed
qed

lemma next_up_least:
  assumes "wf_f64 x" "is_finite x" "wf_f64 y" "is_finite y" "val x < val y"
  shows "is_finite (next_up x)" and "val (next_up x) \<le> val y"
proof -
  obtain s m t n where xy: "x = F_Fin s m" "y = F_Fin t n" using assms(2,4) by (cases x; cases y) auto
  have m: "representable m" "0 \<le> m" "m < f64_max_bound" and n: "representable n" "0 \<le> n" "n < f64_max_bound"
    using assms(1,3) xy by (auto dest: representable_nonneg)
  have "is_finite (next_up x) \<and> val (next_up x) \<le> val y"
  proof (cases "m = 0 \<or> \<not> s")
    case True
    then have t: "\<not> t" "m < n" using assms(5) xy m(2) n(2) by (auto simp: sval_def split: if_splits)
    then have "mag_up m \<le> n" using mag_up_props(3) [OF m(1) n(1)] by simp
    then show ?thesis using True xy t n(3) by (auto simp: sval_def)
  next
    case False
    then have m0: "0 < m" using m(2) by simp
    show ?thesis
    proof (cases t)
      case True
      then have "n < m" using assms(5) xy False by (simp add: sval_def)
      then have "n \<le> mag_down m" using mag_down_props(3) [OF m(1) m0 n(1)] by simp
      then show ?thesis using False True xy by (simp add: sval_def)
    next
      case f: False
      have "0 \<le> mag_down m" using mag_down_props(1) [OF m(1) m0] by (rule representable_nonneg)
      then show ?thesis using False f xy n(2) by (simp add: sval_def)
    qed
  qed
  then show "is_finite (next_up x)" "val (next_up x) \<le> val y" by auto
qed

lemma flt_fneg_swap [simp]: "flt (fneg x) (fneg y) = flt y x"
  by (cases x; cases y) (auto simp: sval_def split: if_splits)

lemma next_down_less: "wf_f64 x \<Longrightarrow> is_finite x \<Longrightarrow> flt (next_down x) x"
  using next_up_greater [of "fneg x"] flt_fneg_swap [of "next_up (fneg x)" "fneg x"] by (simp add: next_down_def)

lemma next_down_greatest:
  assumes "wf_f64 x" "is_finite x" "wf_f64 y" "is_finite y" "val y < val x"
  shows "is_finite (next_down x)" and "val y \<le> val (next_down x)"
  using next_up_least [of "fneg x" "fneg y"] assms by (simp_all add: next_down_def)

subsection \<open>Enclosures\<close>

text \<open>An exact result between two finite values rounds to a finite value between them.\<close>

lemma round_mag_bound: "wf_f64 x \<Longrightarrow> is_finite x \<Longrightarrow> q \<le> \<bar>val x\<bar> \<Longrightarrow> round_mag q < f64_max_bound"
proof -
  assume a: "wf_f64 x" "is_finite x" "q \<le> \<bar>val x\<bar>"
  have "round_mag q \<le> round_mag \<bar>val x\<bar>" using a(3) by (rule round_mag_mono)
  also have "\<dots> = \<bar>val x\<bar>" using wf_val_representable [OF a(1,2)] by (rule round_mag_representable_id)
  also have "\<dots> < f64_max_bound" by (rule wf_val_bound [OF a(1,2)])
  finally show ?thesis .
qed

lemma round_to_between:
  assumes "wf_f64 lo" "is_finite lo" "wf_f64 hi" "is_finite hi" and "val lo \<le> q" "q \<le> val hi"
  shows "is_finite (round_to z q)" and "val lo \<le> val (round_to z q)" and "val (round_to z q) \<le> val hi"
proof -
  have "\<bar>q\<bar> \<le> \<bar>val lo\<bar> \<or> \<bar>q\<bar> \<le> \<bar>val hi\<bar>" using assms(5,6) by linarith
  then have "round_mag \<bar>q\<bar> < f64_max_bound"
    using round_mag_bound [OF assms(1,2)] round_mag_bound [OF assms(3,4)] by blast
  then show f: "is_finite (round_to z q)" by (auto simp: round_to_def Let_def)
  have "round_val (val lo) \<le> round_val q" "round_val q \<le> round_val (val hi)"
    using assms(5,6) by (auto intro: round_val_mono)
  then show "val lo \<le> val (round_to z q)" "val (round_to z q) \<le> val hi"
    using assms(1-4) by (simp_all add: val_round_to [OF f] round_val_wf)
qed

lemma fadd_between:
  assumes "is_finite x" "is_finite y" "wf_f64 lo" "is_finite lo" "wf_f64 hi" "is_finite hi"
    and "val lo \<le> val x + val y" "val x + val y \<le> val hi"
  shows "is_finite (fadd x y)" and "val lo \<le> val (fadd x y)" and "val (fadd x y) \<le> val hi"
proof -
  obtain s m t n where xy: "x = F_Fin s m" "y = F_Fin t n" using assms(1,2) by (cases x; cases y) auto
  note b = round_to_between [OF assms(3-6), of "val x + val y" "s \<and> t"]
  show "is_finite (fadd x y)" "val lo \<le> val (fadd x y)" "val (fadd x y) \<le> val hi"
    using b assms(7,8) xy by simp_all
qed

lemma fsub_between:
  assumes "is_finite x" "is_finite y" "wf_f64 lo" "is_finite lo" "wf_f64 hi" "is_finite hi"
    and "val lo \<le> val x - val y" "val x - val y \<le> val hi"
  shows "is_finite (fsub x y)" and "val lo \<le> val (fsub x y)" and "val (fsub x y) \<le> val hi"
  using fadd_between [of x "fneg y" lo hi] assms by (simp_all add: fsub_def)

lemma fadd_not_nan: "is_finite x \<Longrightarrow> is_finite y \<Longrightarrow> \<not> is_nan (fadd x y)"
  using fadd_finite_cases [of x y] by (auto dest: finite_not_nan)

lemma fsub_not_nan: "is_finite x \<Longrightarrow> is_finite y \<Longrightarrow> \<not> is_nan (fsub x y)"
  using fsub_finite_cases [of x y] by (auto dest: finite_not_nan)

subsection \<open>Distances to an integral bound\<close>

lemma ilog2_int_bound: "0 < q \<Longrightarrow> q \<le> 2 ^ 52 \<Longrightarrow> ilog2 q \<le> 52"
proof -
  assume a: "0 < q" "q \<le> 2 ^ 52"
  have "(2::rat) ^ 52 = 2 powi 52" by simp
  with a(2) have q: "q \<le> 2 powi 52" by metis
  have "2 powi (ilog2 q) \<le> q" using a(1) by (rule ilog2_bounds)
  then have "(2::rat) powi (ilog2 q) \<le> 2 powi 52" using q by linarith
  then have "\<not> (2::rat) powi 52 < 2 powi (ilog2 q)" by linarith
  then show ?thesis by (simp only: powi_two_less_iff not_less)
qed

lemma ulp_exp_int_bound: "0 < q \<Longrightarrow> q \<le> 2 ^ 52 \<Longrightarrow> ulp_exp q \<le> 0"
  using ilog2_int_bound [of q] by (simp add: ulp_exp_def)

lemma int_on_grid: "u \<le> 0 \<Longrightarrow> of_int a = of_int (a * 2 ^ nat (- u)) * (2::rat) powi u"
  using multiple_refine [of "of_int a" a 0 u] by simp

lemma distance_below_exact:
  assumes "wf_f64 h" "is_finite h" "wf_f64 x" "is_finite x"
    and "val h = of_int a" "0 \<le> a" "of_int a \<le> val x" "val x \<le> 2 ^ 52"
  shows "is_finite (fsub h x)" and "val (fsub h x) = of_int a - val x"
proof -
  have "representable \<bar>val h - val x\<bar>"
  proof (cases "val x = 0")
    case True
    then have "a = 0" using assms(6,7) by simp
    then show ?thesis using True assms(5) by simp
  next
    case False
    have "(0::rat) \<le> of_int a" using assms(6) by simp
    then have x: "0 < val x" using False assms(7) by linarith
    let ?u = "ulp_exp (val x)"
    have u: "?u \<le> 0" using x assms(8) by (rule ulp_exp_int_bound)
    have "representable (val x)" using wf_val_representable [OF assms(3,4)] x by simp
    then obtain k where k: "val x = of_int k * 2 powi ?u" using representable_multiple by blast
    let ?a = "a * 2 ^ nat (- ?u)"
    have a: "of_int a = of_int ?a * (2::rat) powi ?u" using u by (rule int_on_grid)
    have "0 \<le> k" using zero_less_mult_pos_powi [of "of_int k" ?u] x k by simp
    then have kb: "k < 2 ^ 53" using k below_binade [OF x] by (intro mult_le_small [of k ?u]) simp_all
    have "of_int ?a * (2::rat) powi ?u \<le> of_int k * 2 powi ?u"
      using assms(7) by (simp only: a [symmetric] k [symmetric])
    then have "(of_int ?a :: rat) \<le> of_int k" by (rule mult_le_cancel_right_pos [OF powi_two_pos, THEN iffD1])
    then have le: "?a \<le> k" by (simp only: of_int_le_iff)
    have "0 \<le> ?a" using assms(6) by simp
    then have r: "representable (of_int \<bar>k - ?a\<bar> * 2 powi ?u)" using kb le by (intro representable_scaled) auto
    have "\<bar>val h - val x\<bar> = val x - of_int a" using assms(5,7) by simp
    also have "\<dots> = of_int k * 2 powi ?u - of_int ?a * 2 powi ?u" by (simp only: k [symmetric] a [symmetric])
    also have "\<dots> = of_int \<bar>k - ?a\<bar> * 2 powi ?u"
      using le by (simp only: abs_of_nonneg diff_ge_0_iff_ge of_int_diff left_diff_distrib)
    finally show ?thesis using r by simp
  qed
  moreover have "\<bar>val h - val x\<bar> < f64_max_bound"
    using wf_val_bound [OF assms(3,4)] assms(5,6,7) by linarith
  ultimately show "is_finite (fsub h x)" "val (fsub h x) = of_int a - val x"
    using fsub_exact [OF assms(2,4)] assms(5) by simp_all
qed

lemma round_mag_err: "0 < q \<Longrightarrow> \<bar>round_mag q - q\<bar> \<le> 2 powi (ulp_exp q) / 2"
proof -
  assume q: "0 < q"
  let ?u = "2 powi (ulp_exp q) :: rat"
  have "\<bar>of_int (rne (q / ?u)) - q / ?u\<bar> * ?u \<le> 1 / 2 * ?u" by (intro mult_right_mono rne_err) simp
  also have "\<bar>of_int (rne (q / ?u)) - q / ?u\<bar> * ?u = \<bar>(of_int (rne (q / ?u)) - q / ?u) * ?u\<bar>" by (simp add: abs_mult)
  also have "(of_int (rne (q / ?u)) - q / ?u) * ?u = round_mag q - q"
    using q by (simp add: round_mag_def left_diff_distrib)
  finally show ?thesis by simp
qed

text \<open>An even multiple of the unit absorbs an excess of half a unit.\<close>

lemma round_mag_absorbs:
  assumes b: "b = of_int n * 2 powi (ulp_exp b)" and "even n" and "0 < b" and "representable b"
    and q: "q \<le> b + 2 powi (ulp_exp b) / 2"
  shows "round_mag q \<le> b"
proof (cases "q \<le> b")
  case True
  then show ?thesis using round_mag_mono [OF True] round_mag_representable_id [OF assms(4)] by simp
next
  case False
  let ?u = "2 powi (ulp_exp b) :: rat"
  have up: "b + ?u \<le> 2 powi (ilog2 b + 1)"
  proof -
    have e: "ulp_exp b \<le> ilog2 b + 1 \<or> ilog2 b + 1 < - 1074"
      by (simp add: ulp_exp_def) linarith
    have lt: "b < 2 powi (ilog2 b + 1)" using assms(3) by (rule ilog2_bounds)
    show ?thesis
    proof (cases "ulp_exp b \<le> ilog2 b + 1")
      case True
      have two: "2 powi (ilog2 b + 1) = of_int (2 ^ nat (ilog2 b + 1 - ulp_exp b)) * ?u"
        using multiple_refine [of "2 powi (ilog2 b + 1)" 1 "ilog2 b + 1" "ulp_exp b"] True by simp
      have "of_int n * ?u < of_int (2 ^ nat (ilog2 b + 1 - ulp_exp b)) * ?u" using lt b two by metis
      from grid_le [OF this] show ?thesis using b two by (simp add: algebra_simps)
    next
      case False
      have "1 \<le> n" using assms(3) b zero_less_mult_pos_powi [of "of_int n" "ulp_exp b"] by simp
      then have "(1::rat) \<le> of_int n" by simp
      then have "1 * ?u \<le> of_int n * ?u" by (intro mult_right_mono) auto
      then have "?u \<le> b" using b by simp
      then have "?u < 2 powi (ilog2 b + 1)" using lt by linarith
      then have "ulp_exp b < ilog2 b + 1" by (simp only: powi_two_less_iff)
      then show ?thesis using False by simp
    qed
  qed
  have pos: "0 < ?u" by simp
  have qlt: "q < b + ?u" using q pos by linarith
  have "ilog2 q = ilog2 b"
    using False qlt up ilog2_bounds(1) [OF assms(3)] by (intro ilog2_unique) linarith+
  then have u: "ulp_exp q = ulp_exp b" by (simp add: ulp_exp_def)
  have r: "q / ?u - of_int n \<le> 1 / 2" "0 \<le> q / ?u - of_int n"
  proof -
    have "q - of_int n * ?u \<le> 1 / 2 * ?u" using q b by linarith
    then have "(q - of_int n * ?u) / ?u \<le> 1 / 2" by (simp add: pos_divide_le_eq)
    then show "q / ?u - of_int n \<le> 1 / 2" by (simp add: diff_divide_distrib)
    have "0 \<le> q - of_int n * ?u" using False b by linarith
    then have "0 \<le> (q - of_int n * ?u) / ?u" by simp
    then show "0 \<le> q / ?u - of_int n" by (simp add: diff_divide_distrib)
  qed
  then have "\<lfloor>q / ?u\<rfloor> = n" by (intro floor_unique) linarith+
  then have "rne (q / ?u) = n" using r assms(2) by (simp add: rne_def Let_def)
  moreover have "0 < q" using False assms(3) by linarith
  ultimately show ?thesis using b u by (simp add: round_mag_def)
qed

lemma even_on_grid:
  assumes "0 < n" and "of_int n \<le> (2::rat) ^ 52" and "u = ulp_exp (of_int n)"
  shows "even (n * 2 ^ nat (- u))"
proof (cases "u < 0")
  case True
  then show ?thesis by simp
next
  case False
  have pos: "(0::rat) < of_int n" using assms(1) by simp
  have "ilog2 (of_int n) = 52"
    using False assms(3) ilog2_int_bound [OF pos assms(2)] by (simp add: ulp_exp_def max_def split: if_splits)
  then have "2 powi 52 \<le> (of_int n :: rat)" using ilog2_bounds(1) [OF pos] by simp
  then have "of_int n = (of_int (2 ^ 52) :: rat)" using assms(2) by simp
  then have "n = 2 ^ 52" by (simp only: of_int_eq_iff)
  then show ?thesis by simp
qed

lemma distance_above:
  assumes "wf_f64 b" "is_finite b" "wf_f64 y" "is_finite y"
    and "val b = of_int n" "val b \<le> 2 ^ 52" "0 \<le> val y" "val y \<le> val b"
  shows "is_finite (fsub b y)" and "0 \<le> val (fsub b y)" and "val (fsub b y) \<le> val b"
    and "round_val (val y + val (fsub b y)) \<le> val b"
proof -
  let ?q = "val b - val y" and ?u = "2 powi (ulp_exp (val b)) :: rat"
  note between = fsub_between [OF assms(2,4) wf_fzero is_finite_fzero assms(1,2)]
  show f: "is_finite (fsub b y)" and nonneg: "0 \<le> val (fsub b y)" and "val (fsub b y) \<le> val b"
    using between assms(7,8) by simp_all
  have d: "val (fsub b y) = round_val ?q" by (rule val_fsub [OF assms(2,4) f])
  show "round_val (val y + val (fsub b y)) \<le> val b"
  proof (cases "?q = 0")
    case True
    then show ?thesis using d round_val_wf [OF assms(3,4)] by (simp add: round_val_def round_mag_def)
  next
    case False
    then have q: "0 < ?q" using assms(8) by simp
    then have b: "0 < val b" using assms(7) by linarith
    have "round_mag ?q \<le> ?q + 2 powi (ulp_exp ?q) / 2" using round_mag_err [OF q] by linarith
    also have "(2::rat) powi (ulp_exp ?q) \<le> ?u" using q assms(7) by (intro powi_two_mono ulp_exp_mono) auto
    finally have e: "val y + round_mag ?q \<le> val b + ?u / 2" by simp
    have n: "0 < n" using b assms(5) by simp
    have u: "ulp_exp (val b) \<le> 0" using b assms(6) by (rule ulp_exp_int_bound)
    have "round_mag (val y + round_mag ?q) \<le> val b"
    proof (rule round_mag_absorbs)
      show "val b = of_int (n * 2 ^ nat (- ulp_exp (val b))) * ?u"
        using int_on_grid [OF u, of n] assms(5) by simp
      show "even (n * 2 ^ nat (- ulp_exp (val b)))"
        using n assms(5,6) by (intro even_on_grid) simp_all
      show "representable (val b)" using wf_val_representable [OF assms(1,2)] b by simp
    qed (use b e in auto)
    then show ?thesis using d q assms(7) nonneg by (simp add: round_val_def)
  qed
qed

subsection \<open>Evaluation on literals\<close>

text \<open>\<open>2 ^ n\<close> scales a literal of its binade to an integer of 53 bits.\<close>

lemma ulp_exp_scaled:
  assumes "n \<le> 1074" "2 ^ 52 \<le> q * 2 ^ n" "q * 2 ^ n < (2::rat) ^ 53"
  shows "ulp_exp q = - int n"
proof -
  have p: "(2::rat) powi (52 - int n) = 2 ^ 52 / 2 ^ n" "(2::rat) powi (52 - int n + 1) = 2 ^ 53 / 2 ^ n"
    by (simp_all add: powi_two_diff powi_two_add)
  have "2 powi (52 - int n) \<le> q" "q < 2 powi (52 - int n + 1)"
    using assms(2,3) by (simp_all only: p pos_divide_le_eq pos_less_divide_eq zero_less_power zero_less_numeral)
  from ulp_exp_eval [OF this] show ?thesis using assms(1) by simp
qed

lemma round_mag_scaled:
  assumes "n \<le> 1074" "2 ^ 52 \<le> q * 2 ^ n" "q * 2 ^ n < (2::rat) ^ 53"
  shows "round_mag q = of_int (rne (q * 2 ^ n)) / 2 ^ n"
proof -
  have "(0::rat) < q * 2 ^ n" using assms(2) less_le_trans [of 0 "2 ^ 52" "q * 2 ^ n"] by simp
  then have "0 < q" by (simp add: zero_less_mult_iff)
  then show ?thesis using ulp_exp_scaled [OF assms] by (simp add: round_mag_def power_int_minus divide_simps)
qed

lemma round_to_scaled:
  assumes "n \<le> 1074" "2 ^ 52 \<le> \<bar>q\<bar> * 2 ^ n" "\<bar>q\<bar> * 2 ^ n < (2::rat) ^ 53"
  shows "round_to z q = F_Fin (q < 0) (of_int (rne (\<bar>q\<bar> * 2 ^ n)) / 2 ^ n)"
proof -
  have "q \<noteq> 0" using assms(2) by auto
  let ?m = "of_int (rne (\<bar>q\<bar> * 2 ^ n)) / 2 ^ n :: rat"
  have "rne (\<bar>q\<bar> * 2 ^ n) \<le> rne (of_int (2 ^ 53))" using assms(3) by (intro rne_mono) simp
  then have "rne (\<bar>q\<bar> * 2 ^ n) \<le> 2 ^ 53" by (simp only: rne_of_int)
  then have "(of_int (rne (\<bar>q\<bar> * 2 ^ n)) :: rat) \<le> of_int (2 ^ 53)" by (rule of_int_le_iff [THEN iffD2])
  then have "?m \<le> 2 ^ 53 / 2 ^ n" by (intro divide_right_mono) simp_all
  also have "\<dots> \<le> 2 ^ 53 / 1" by (intro divide_left_mono) simp_all
  also have "\<dots> < f64_max_bound" by (simp add: f64_max_bound_def)
  finally show ?thesis using round_mag_scaled [OF assms] \<open>q \<noteq> 0\<close> by (simp add: round_to_def Let_def)
qed

lemma half_ratio:
  assumes "0 < b"
  shows "(of_int r / of_int b < (1 / 2 :: rat)) = (2 * r < b)" and "((1 / 2 :: rat) < of_int r / of_int b) = (b < 2 * r)"
proof -
  have i: "((of_int (2 * r) :: rat) < of_int b) = (2 * r < b)" "((of_int b :: rat) < of_int (2 * r)) = (b < 2 * r)"
    by (rule of_int_less_iff)+
  have b: "(0 :: rat) < of_int b" using assms by simp
  show "(of_int r / of_int b < (1 / 2 :: rat)) = (2 * r < b)"
    unfolding i(1) [symmetric] pos_divide_less_eq [OF b] by (simp add: mult.commute)
  show "((1 / 2 :: rat) < of_int r / of_int b) = (b < 2 * r)"
    unfolding i(2) [symmetric] pos_less_divide_eq [OF b] by (simp add: mult.commute)
qed

lemma rne_ratio: "0 < b \<Longrightarrow> rne (of_int a / of_int b) =
    (let f = a div b; r = 2 * (a mod b)
     in if r < b then f else if b < r then f + 1 else if even f then f else f + 1)"
proof -
  assume b: "0 < b"
  then have f: "\<lfloor>of_int a / of_int b :: rat\<rfloor> = a div b" by (simp add: floor_divide_of_int_eq)
  have "(of_int a :: rat) = of_int b * of_int (a div b) + of_int (a mod b)" by (simp flip: of_int_mult of_int_add)
  then have "of_int a / of_int b = (of_int b * of_int (a div b) + of_int (a mod b)) / (of_int b :: rat)" by simp
  also have "\<dots> = of_int (a div b) + of_int (a mod b) / of_int b" using b by (simp add: add_divide_distrib)
  finally have "of_int a / of_int b - of_int (a div b) = (of_int (a mod b) / of_int b :: rat)" by simp
  moreover have "(of_int (a mod b) / of_int b < (1 / 2 :: rat)) = (2 * (a mod b) < b)"
      "((1 / 2 :: rat) < of_int (a mod b) / of_int b) = (b < 2 * (a mod b))"
    using b by (rule half_ratio)+
  ultimately show ?thesis unfolding rne_def Let_def f by (simp only:)
qed

lemmas rne_numeral = rne_ratio [of "numeral m" "numeral n" for m n, simplified]

end
