(* ===== verification/Python_Guarantees.thy ===== *)
theory Python_Guarantees
  imports Python_Sdk Client_Guarantees Float64_Neighbours
begin

section \<open>What Python code can rely on\<close>

text \<open>
  The Python classes add nothing to what the native client does: every call is a sequence of steps of the
  client, so the client's invariant and guarantees hold for Python programs. On top of that, the
  exceptions are exactly those of the arguments and of the client, leaving a \<open>with\<close> block releases every run and
  hides no error of the user, and the Arrow table and the list of points are the same query.
\<close>

subsection \<open>Python calls are steps of the client\<close>

inductive python_step :: "'b arrow_api \<Rightarrow> py_texts \<Rightarrow> client \<Rightarrow> client \<Rightarrow> bool" for arrow t where
  py_st_create_project: "py_create_project t name pid w = (r_project, w') \<Longrightarrow> python_step arrow t w w'"
| py_st_get_project: "py_get_project t pid' w = (r_project, w') \<Longrightarrow> python_step arrow t w w'"
| py_st_list_projects: "py_list_projects t w = (r_projects, w') \<Longrightarrow> python_step arrow t w w'"
| py_st_create_run: "py_create_run pid' name rid' w = (r_run, w') \<Longrightarrow> python_step arrow t w w'"
| py_st_get_run: "py_get_run rid w = (r_run, w') \<Longrightarrow> python_step arrow t w w'"
| py_st_resume_run: "py_resume_run rid w = (r_run, w') \<Longrightarrow> python_step arrow t w w'"
| py_st_list_runs: "py_list_runs t pid' status limit offset w = (r_runs, w') \<Longrightarrow> python_step arrow t w w'"
| py_st_list_orphans: "py_list_orphan_runs pid w = (r_runs, w') \<Longrightarrow> python_step arrow t w w'"
| py_st_finish_run: "py_finish_run rid timeout w = Some (r_run, w') \<Longrightarrow> python_step arrow t w w'"
| py_st_fail_run: "py_fail_run rid timeout w = Some (r_run, w') \<Longrightarrow> python_step arrow t w w'"
| py_st_flush: "py_flush_run_data rid timeout w = (r_unit, w') \<Longrightarrow> python_step arrow t w w'"
| py_st_shutdown: "py_shutdown timeout w = Some (r_unit, w') \<Longrightarrow> python_step arrow t w w'"
| py_st_exit: "py_exit none exc w = Some (r_bool, exc', w') \<Longrightarrow> python_step arrow t w w'"
| py_st_log: "h \<in> set (cl_handles w) \<Longrightarrow> py_log h key stp v now w = (r_unit, w') \<Longrightarrow> python_step arrow t w w'"
| py_st_aligned: "py_query_aligned_metric t rid key axis first until width density w = (r_aligned, w') \<Longrightarrow>
    python_step arrow t w w'"
| py_st_compare: "py_compare_runs t rid rid2 key direction w = (r_comparison, w') \<Longrightarrow> python_step arrow t w w'"
| py_st_evidence: "py_run_evidence t rid key w = (r_evidence, w') \<Longrightarrow> python_step arrow t w w'"
| py_st_reports: "py_comparison_reports t rids rid key direction keys w = (r_reports, w') \<Longrightarrow> python_step arrow t w w'"
| py_st_rank: "py_rank_runs t rids key direction w = (r_ranking, w') \<Longrightarrow> python_step arrow t w w'"
| py_st_best: "py_best_eligible_run t rids key direction w = (r_best, w') \<Longrightarrow> python_step arrow t w w'"
| py_st_query: "py_query_metric t rid key a b points w = (r_points, w') \<Longrightarrow> python_step arrow t w w'"
| py_st_metadata: "py_query_metric_with_metadata t rid key a b points w = (r_metadata, w') \<Longrightarrow> python_step arrow t w w'"
| py_st_summaries: "py_query_metric_summaries rids key w = (r_summaries, w') \<Longrightarrow> python_step arrow t w w'"
| py_st_table: "py_query_metric_table arrow rid key a b points w = (r_table, w') \<Longrightarrow> python_step arrow t w w'"
| py_st_summaries_table: "py_query_metric_summaries_table arrow rids key w = (r_table, w') \<Longrightarrow> python_step arrow t w w'"
| py_st_metrics: "py_list_metrics rid w = (r_summaries, w') \<Longrightarrow> python_step arrow t w w'"
| py_st_worker: "python_step arrow t w (on_worker w)"
| py_st_environment: "set (le_held env) \<inter> set (held_locks w) = {} \<Longrightarrow>
     python_step arrow t w (w\<lparr>cl_locks := env, cl_uuids := uuids, cl_flushes := flushes, cl_drains := drains,
       cl_sys := (cl_sys w)\<lparr>sys_store := (client_store w)\<lparr>st_faults := faults, st_clock := clock\<rparr>\<rparr>\<rparr>)"

text \<open>A Python program opens a client with \<open>init\<close> and calls its methods.\<close>

definition reachable_python :: "'v toml_api \<Rightarrow> 'b arrow_api \<Rightarrow> py_texts \<Rightarrow> client \<Rightarrow> bool" where
  "reachable_python api arrow t w \<longleftrightarrow> (\<exists>files env args b w0 b'. unique_runs (oe_store env) \<and>
     py_init api files env args b = (Ok w0, b') \<and> (python_step arrow t)\<^sup>*\<^sup>* w0 w)"

interpretation client_path: state_preorder client_steps
  by unfold_locales auto

lemma one_client_step: "(\<And>w r w'. m w = (r, w') \<Longrightarrow> client_step w w') \<Longrightarrow> steps_op client_steps m"
  by (blast intro: steps_opI)

lemma native_steps:
  "steps_op client_steps (create_project name pid)"
  "steps_op client_steps (get_project pid')"
  "steps_op client_steps list_projects"
  "steps_op client_steps (create_run pid' name given)"
  "steps_op client_steps (get_run rid)"
  "steps_op client_steps (resume_run rid)"
  "steps_op client_steps (list_runs_filtered pid' status limit offset)"
  "steps_op client_steps (list_orphan_runs project)"
  "steps_op client_steps (flush_run_data rid timeout)"
  "steps_op client_steps (client_query_aligned_metric q)"
  "steps_op client_steps (client_objective_evidence rid objective)"
  "steps_op client_steps (ranking_evidence ids objective)"
  "steps_op client_steps (client_query_metric_summaries ids key)"
  "steps_op client_steps (client_list_metrics rid)"
  "steps_op client_steps (client_query_metric rid key a b points)"
  by (rule one_client_step, erule client_step.intros)+

text \<open>The query with metadata leaves the client as the query for the points alone does.\<close>

lemma metadata_steps: "steps_op client_steps (client_query_metric_with_metadata rid key a b points)"
proof (rule one_client_step)
  fix w r w' assume run: "client_query_metric_with_metadata rid key a b points w = (r, w')"
  then have "\<exists>r'. client_query_metric rid key a b points w = (r', w')"
    by (cases r) (auto simp: client_query_metric_def bind_op_def)
  then show "client_step w w'" by (blast intro: client_step.st_query)
qed

lemma handle_steps: "steps_op client_steps (py_run run)"
  by (rule one_client_step) (auto simp: py_run_def split: prod.splits intro: client_step.st_handle)

lemma report_steps:
  "steps_op client_steps (client_comparison_reports ids rid objective keys)"
  "steps_op client_steps (client_compare_runs rid rid' objective)"
  "steps_op client_steps (client_rank_runs ids objective)"
  "steps_op client_steps (client_best_eligible_run ids objective)"
  unfolding client_comparison_reports_def comparison_reports_def Let_def secondary_set_def
    client_compare_runs_def compare_runs_def client_rank_runs_def rank_runs_def
    client_best_eligible_run_def best_eligible_run_def
  by (auto intro!: client_path.steps_rules native_steps split: list.splits)

lemmas python_op_steps = client_path.steps_rules native_steps metadata_steps handle_steps report_steps

lemma python_ops:
  "steps_op client_steps (py_create_project t name pid)"
  "steps_op client_steps (py_get_project t pid')"
  "steps_op client_steps (py_list_projects t)"
  "steps_op client_steps (py_create_run pid' name rid')"
  "steps_op client_steps (py_get_run rid)"
  "steps_op client_steps (py_resume_run rid)"
  "steps_op client_steps (py_list_runs t pid' status limit offset)"
  "steps_op client_steps (py_list_orphan_runs pid)"
  "steps_op client_steps (py_flush_run_data rid timeout)"
  by (auto simp: py_create_project_def py_get_project_def py_list_projects_def py_create_run_def py_get_run_def
      py_resume_run_def py_list_runs_def py_list_orphan_runs_def py_flush_run_data_def sdk_def intro!: python_op_steps)

lemma python_queries:
  "steps_op client_steps (py_query_aligned_metric t rid key axis first until width density)"
  "steps_op client_steps (py_compare_runs t rid rid2 key direction)"
  "steps_op client_steps (py_run_evidence t rid key)"
  "steps_op client_steps (py_comparison_reports t rids rid key direction keys)"
  "steps_op client_steps (py_rank_runs t rids key direction)"
  "steps_op client_steps (py_best_eligible_run t rids key direction)"
  "steps_op client_steps (py_query_metric t rid key a b points)"
  "steps_op client_steps (py_query_metric_with_metadata t rid key a b points)"
  "steps_op client_steps (py_query_metric_summaries rids key)"
  "steps_op client_steps (py_query_metric_table arrow rid key a b points)"
  "steps_op client_steps (py_query_metric_summaries_table arrow rids key)"
  "steps_op client_steps (py_list_metrics rid)"
  by (auto simp: py_query_aligned_metric_def py_compare_runs_def py_run_evidence_def py_comparison_reports_def
      py_rank_runs_def py_best_eligible_run_def py_query_metric_def py_query_metric_with_metadata_def
      py_query_metric_summaries_def py_query_metric_table_def py_query_metric_summaries_table_def py_list_metrics_def
      sdk_def Let_def intro!: python_op_steps)

lemma with_timeout_Some:
  assumes "with_timeout name timeout call w = Some (r, w')"
  obtains (refused) e where "py_timeout name timeout = Err e" "r = Err e" "w' = w"
        | (called) d where "py_timeout name timeout = Ok d" "call d w = Some (r, w')"
  using assms by (auto simp: with_timeout_def split: sum.splits)

lemma sdk_wait_Some:
  assumes "sdk_wait m k w = Some (r, w')"
  obtains (failed) e where "m w = Some (Err e, w')" "r = Err (runtime_error e)"
        | (answered) x v where "m w = Some (Ok x, v)" "k x v = (r, w')"
  using assms by (auto simp: sdk_wait_def split: option.splits sum.splits prod.splits)

lemma sdk_wait_steps:
  assumes "sdk_wait m k w = Some (r, w')" and "\<And>x. steps_op client_steps (k x)"
    and "\<And>rr v. m w = Some (rr, v) \<Longrightarrow> client_step w v"
  shows "client_steps w w'"
  using assms(1)
proof (cases rule: sdk_wait_Some)
  case (failed e)
  then show ?thesis using assms(3) by blast
next
  case (answered x v)
  then show ?thesis using assms(3) steps_opD [OF assms(2)] by (meson converse_rtranclp_into_rtranclp)
qed

lemma with_timeout_steps:
  assumes "with_timeout name timeout (\<lambda>d. sdk_wait (m d) k) w = Some (r, w')"
    and "\<And>x. steps_op client_steps (k x)" and "\<And>d rr v. m d w = Some (rr, v) \<Longrightarrow> client_step w v"
  shows "client_steps w w'"
  using assms(1)
proof (cases rule: with_timeout_Some)
  case (called d)
  show ?thesis by (rule sdk_wait_steps [OF called(2) assms(2,3)])
qed simp

lemma python_waits:
  "py_finish_run rid timeout w = Some (r_run, w') \<Longrightarrow> client_steps w w'"
  "py_fail_run rid timeout w = Some (r_run, w') \<Longrightarrow> client_steps w w'"
  "py_shutdown timeout w = Some (r_unit, w') \<Longrightarrow> client_steps w w'"
  by (auto simp: py_finish_run_def py_fail_run_def py_shutdown_def elim!: with_timeout_steps
      intro: handle_steps client_path.steps_ret client_step.intros)

lemma exit_steps: "py_exit none exc w = Some (r, exc', w') \<Longrightarrow> client_steps w w'"
  unfolding py_exit_def Let_def
  by (auto split: option.splits sum.splits if_splits dest: client_step.st_shutdown)

lemma python_step_steps: "python_step arrow t w w' \<Longrightarrow> client_steps w w'"
proof (induction rule: python_step.induct)
  case (py_st_log h w key stp v now r_unit w')
  then have "\<exists>r. log_metric_at_step h key stp v now w = (r, w')"
    by (cases r_unit) (auto simp: py_log_def sdk_def map_err_op_Ok map_err_op_Err)
  then show ?case using py_st_log(1) client_step.st_log by blast
next
  case (py_st_environment env w uuids flushes drains faults clock)
  then show ?case using client_step.st_environment by blast
qed (blast dest: python_waits exit_steps steps_opD [OF python_ops(1)] steps_opD [OF python_ops(2)]
       steps_opD [OF python_ops(3)] steps_opD [OF python_ops(4)] steps_opD [OF python_ops(5)]
       steps_opD [OF python_ops(6)] steps_opD [OF python_ops(7)] steps_opD [OF python_ops(8)]
       steps_opD [OF python_ops(9)] steps_opD [OF python_queries(1)] steps_opD [OF python_queries(2)]
       steps_opD [OF python_queries(3)] steps_opD [OF python_queries(4)] steps_opD [OF python_queries(5)]
       steps_opD [OF python_queries(6)] steps_opD [OF python_queries(7)] steps_opD [OF python_queries(8)]
       steps_opD [OF python_queries(9)] steps_opD [OF python_queries(10)] steps_opD [OF python_queries(11)]
       steps_opD [OF python_queries(12)] intro: client_step.st_worker)+

lemma init_client:
  "py_init api files env args b = (Ok w, b') \<Longrightarrow> \<exists>root_path capacity. w = new_client root_path capacity env"
  by (auto simp: py_init_def open_existing_with_catalog_backend_storage_config_def op_outcomes
      open_with_catalog_backend_storage_config_def open_with_catalog_backend_storage_config_mode_def split: if_splits)

lemma python_reaches:
  assumes "reachable_python api arrow t w"
  shows "reachable_client w"
proof -
  obtain files env args b w0 b' where b: "unique_runs (oe_store env)" "py_init api files env args b = (Ok w0, b')"
      "(python_step arrow t)\<^sup>*\<^sup>* w0 w" using assms by (auto simp: reachable_python_def)
  have "client_steps w0 w" using b(3) by induction (auto dest: python_step_steps)
  then show ?thesis using b(1) init_client [OF b(2)] by (auto simp: reachable_client_def)
qed

subsection \<open>A sample program\<close>

text \<open>It opens a project with \<open>init\<close>, resumes the run \<open>r1\<close> of the sample store and logs one value.\<close>

definition sample_args :: init_args where
  "sample_args = init_defaults\<lparr>ia_path := ''/p'', ia_metric_queue_capacity := 4\<rparr>"

definition sample_texts :: py_texts where
  "sample_texts = \<lparr>pt_rfc3339 = show_int, pt_debug = (\<lambda>s. s)\<rparr>"

text \<open>An Arrow library whose batches are the schema and the columns, validated as it documents.\<close>

fun array_length :: "arrow_array \<Rightarrow> nat" where
  "array_length (StringArray xs) = length xs"
| "array_length (Int64Array xs) = length xs"
| "array_length (UInt64Array xs) = length xs"
| "array_length (Float64Array xs) = length xs"
| "array_length (TimestampMillisecondArray _ xs) = length xs"

fun array_type :: "arrow_array \<Rightarrow> arrow_type" where
  "array_type (StringArray xs) = Arrow_Utf8"
| "array_type (Int64Array xs) = Arrow_Int64"
| "array_type (UInt64Array xs) = Arrow_UInt64"
| "array_type (Float64Array xs) = Arrow_Float64"
| "array_type (TimestampMillisecondArray zone xs) = Arrow_TimestampMs zone"

definition batch_valid :: "nat \<Rightarrow> arrow_field list \<Rightarrow> arrow_array list \<Rightarrow> bool" where
  "batch_valid n schema columns \<longleftrightarrow> columns \<noteq> [] \<and> map af_type schema = map array_type columns \<and>
     (\<forall>c \<in> set columns. array_length c = n)"

definition sample_arrow :: "(arrow_field list \<times> arrow_array list) arrow_api" where
  "sample_arrow =
     \<lparr>aa_try_new = (\<lambda>schema columns.
        if batch_valid (array_length (hd columns)) schema columns then Ok (schema, columns) else Err ''invalid batch''),
      aa_num_rows = (\<lambda>b. array_length (hd (snd b))), aa_fields = fst\<rparr>"

lemma sample_open_boot: "\<exists>b'. open_native_connection_with_mode sample_config False sample_boot = (Ok (), b')"
proof -
  obtain r w' where run: "open_native_connection_with_mode sample_config False sample_boot = (r, w')" by fastforce
  have ok: "effect_ok sample_boot e" if "e \<in> set (open_plan sample_config False False)" for e
    using that by (auto simp: open_plan_def effect_ok_def sample_boot_def sample_config_def
        with_backend_and_s3_config_def split: option.splits if_splits)
  have "r = Ok () \<or> (\<exists>e before failed rest. open_plan sample_config False False = before @ failed # rest \<and>
      \<not> effect_ok sample_boot failed)"
    using open_follows [unfolded follows_def, rule_format, OF refl run] by (auto simp: sample_boot_def)
  then have "r = Ok ()" using ok by (metis in_set_conv_decomp)
  then show ?thesis using run by blast
qed

lemma sample_config_resolved:
  "resolve_init_config sample_toml (\<lambda>_. File_NotFound) ''/p'' None None None 4 no_overrides =
     Ok \<lparr>ri_catalog_backend = Backend_DuckDb, ri_catalog_path = None, ri_data_path = None,
         ri_metric_queue_capacity = 4, ri_s3_connection = None\<rparr>"
  by (simp add: resolve_init_config_def resolve_storage_config_def load_project_config_def resolve_data_path_def
        resolve_catalog_path_def resolve_catalog_backend_def config_string_def backend_from_name_def
        validate_path_configuration_def validate_metric_queue_capacity_def)

lemma sample_init:
  "\<exists>b'. py_init sample_toml (\<lambda>_. File_NotFound) sample_open sample_args sample_boot = (Ok (new_client ''/p'' 4 sample_open), b')"
proof -
  have "no_overrides = ia_s3 sample_args" by (simp add: no_overrides_def sample_args_def init_defaults_def)
  then show ?thesis
    using sample_open_boot sample_config_resolved
    by (auto simp: py_init_def sample_args_def init_defaults_def open_with_catalog_backend_storage_config_def
        open_with_catalog_backend_storage_config_mode_def bind_op_def map_err_op_def sample_config_def)
qed

lemma sample_python: "reachable_python sample_toml arrow t sample_client"
proof -
  let ?w1 = "sample_resumed\<lparr>cl_handles := [sample_handle]\<rparr>"
  have "py_resume_run ''r1'' (new_client ''/p'' 4 sample_open) = (Ok 0, ?w1)"
    by (simp add: py_resume_run_def sdk_def bind_op_def map_err_op_def sample_calls py_run_def)
  then have "python_step arrow t (new_client ''/p'' 4 sample_open) ?w1" by (rule py_st_resume_run)
  moreover have "py_log sample_handle ''loss'' 2 (F_Fin False 1) 8 ?w1 = (Ok (), sample_client)"
    by (simp add: py_log_def sdk_def map_err_op_def sample_calls)
  then have "python_step arrow t ?w1 sample_client" by (rule py_st_log [rotated]) simp
  ultimately have "(python_step arrow t)\<^sup>*\<^sup>* (new_client ''/p'' 4 sample_open) sample_client"
    by (meson r_into_rtranclp rtranclp.rtrancl_into_rtrancl)
  moreover have "unique_runs (oe_store sample_open)" by (simp add: sample_open_def unique_runs_def sample_row)
  ultimately show ?thesis unfolding reachable_python_def using sample_init by blast
qed

subsection \<open>Leaving a \<open>with\<close> block\<close>

text \<open>Without a deadline a drain fails only when the writer has failed.\<close>

lemma untimed_drain_loop:
  "drain_loop barrier False script w = Some (Err e, w') \<Longrightarrow> \<exists>m. e = MetricWriterFailed m"
  by (induction barrier False script w rule: drain_loop.induct)
     (auto simp: Let_def writer_failure_def split: if_splits)

lemma untimed_shutdown:
  "shutdown None w = Some (Err e, w') \<Longrightarrow> \<exists>m. e = MetricWriterFailed m"
  by (auto simp: shutdown_def reporter_shutdown_def drain_def Let_def
      dest: untimed_drain_loop split: option.splits if_splits)

lemma shutdown_releases:
  assumes "client_inv w" and "shutdown None w = Some (r, w')"
  shows "cl_active_runs w' = [] \<and> held_locks w' = []"
proof -
  have "r \<noteq> Err MetricDrainTimeout" using untimed_shutdown assms(2) by (cases r) auto
  then have "client_inv w'" "cl_active_runs w' = []" using shutdown_keeps [OF assms(2,1)] by blast+
  then show ?thesis using held_is_active [of w'] by (simp add: client_inv_def)
qed

subsection \<open>Arguments that are refused\<close>

lemma runtime_error_class_sdk: "is_sdk_error (runtime_error_class e) \<and> runtime_error_class e \<noteq> InvalidConfigurationError"
  by (cases e) (simp_all add: is_sdk_error_def)

lemma runtime_error_not [simp]:
  "runtime_error e \<noteq> Raised Py_ValueError m" "runtime_error e \<noteq> Raised InvalidConfigurationError m"
  "runtime_error e \<noteq> Panicked"
  using runtime_error_class_sdk [of e] by (auto simp: runtime_error_def is_sdk_error_def)

lemmas not_runtime_error [simp] = runtime_error_not [symmetric]

text \<open>The states in which an operation leaves the client when it raises an exception of a class.\<close>

definition rejected_with :: "py_class \<Rightarrow> 'a py_op \<Rightarrow> client \<Rightarrow> client set" where
  "rejected_with c m w = {w'. \<exists>msg. m w = (Err (Raised c msg), w')}"

definition wait_rejected_with :: "py_class \<Rightarrow> 'a py_wait \<Rightarrow> client \<Rightarrow> client set" where
  "wait_rejected_with c m w = {w'. \<exists>msg. m w = Some (Err (Raised c msg), w')}"

lemma sdk_Err: "sdk m w = (Err f, w') \<longleftrightarrow> (\<exists>e. m w = (Err e, w') \<and> f = runtime_error e)"
  by (simp add: sdk_def map_err_op_Err)

lemma sdk_Ok: "sdk m w = (Ok x, w') \<longleftrightarrow> m w = (Ok x, w')"
  by (simp add: sdk_def map_err_op_Ok)

lemma py_run_Ok [simp]: "py_run run w \<noteq> (Err e, w')"
  by (simp add: py_run_def split: prod.splits)

lemma py_runs_Ok [simp]: "mapM_op py_run runs w \<noteq> (Err e, w')"
  by (induction runs arbitrary: w) (auto simp: bind_op_Err)

lemma rejected_parse:
  assumes "\<And>x v e w'. k x v \<noteq> (Err (Raised c e), w')"
  shows "rejected_with c (bind_op (lift_op p) k) w = (if \<exists>m. p = Err (Raised c m) then {w} else {})"
  using assms by (cases p) (auto simp: rejected_with_def bind_op_def)

lemma parse_run_status_Err:
  "(\<exists>m. parse_run_status t status = Err (Raised Py_ValueError m)) \<longleftrightarrow>
     (\<exists>s. status = Some s \<and> s \<notin> {''running'', ''finished'', ''failed''})"
  by (auto simp: parse_run_status_def split: option.splits)

lemma py_objective_Err:
  "(\<exists>m. py_objective t key direction = Err (Raised Py_ValueError m)) \<longleftrightarrow> direction \<notin> {''minimize'', ''maximize''}"
  by (auto simp: py_objective_def)

lemma py_alignment_query_Err:
  "(\<exists>m. py_alignment_query t rid key axis first until width density = Err (Raised Py_ValueError m)) \<longleftrightarrow>
     \<not> (axis \<in> {''step'', ''elapsed_time''} \<and> first \<le> until \<and> (width = None) = (density = None) \<and>
       width \<noteq> Some 0 \<and> density \<noteq> Some 0)"
  by (auto simp: py_alignment_query_def viewport_new_def ar_screen_budget_def map_err_def bind_r_def
      split: option.splits if_splits sum.splits)

lemma timeout_refused:
  "(\<exists>m. py_timeout name timeout = Err (Raised InvalidConfigurationError m)) \<longleftrightarrow>
     (\<exists>s. timeout = Some s \<and> (flt s fzero \<or> \<not> is_finite s))"
  by (cases timeout) (auto simp: py_timeout_def duration_from_seconds_def ok_or_def split: option.splits)

lemma call_not_value_error:
  "bind_op (sdk m) (\<lambda>x. ret_op (f x)) w \<noteq> (Err (Raised Py_ValueError e), w')"
  "sdk m' w \<noteq> (Err (Raised Py_ValueError e), w')"
  "sdk m' w \<noteq> (Err (Raised InvalidConfigurationError e), w')"
  by (auto simp: bind_op_Err sdk_Err)

lemma reports_not_value_error:
  "bind_op (sdk m) (\<lambda>reports. case reports of None \<Rightarrow> fail_op Panicked | Some rs \<Rightarrow> ret_op (f rs)) w \<noteq>
     (Err (Raised Py_ValueError e), w')"
  by (auto simp: bind_op_Err sdk_Err split: option.splits)

lemma list_not_value_error:
  "bind_op (sdk m) (mapM_op py_run) w \<noteq> (Err (Raised Py_ValueError e), w')"
  by (auto simp: bind_op_Err sdk_Err)

lemma aligned_rejected:
  "rejected_with Py_ValueError (py_query_aligned_metric t rid key axis first until width density) w =
     (if axis \<in> {''step'', ''elapsed_time''} \<and> first \<le> until \<and> (width = None) = (density = None) \<and>
         width \<noteq> Some 0 \<and> density \<noteq> Some 0 then {} else {w})"
  unfolding py_query_aligned_metric_def
  by (subst rejected_parse, rule call_not_value_error, simp only: py_alignment_query_Err split: if_split) blast

lemma rejected_wait:
  assumes "\<And>x v e w'. k x v \<noteq> (Err (Raised InvalidConfigurationError e), w')"
  shows "wait_rejected_with InvalidConfigurationError (with_timeout name timeout (\<lambda>d. sdk_wait (m d) k)) w =
    (if \<exists>s. timeout = Some s \<and> (flt s fzero \<or> \<not> is_finite s) then {w} else {})"
proof -
  have "wait_rejected_with InvalidConfigurationError (with_timeout name timeout (\<lambda>d. sdk_wait (m d) k)) w =
      (if \<exists>e. py_timeout name timeout = Err (Raised InvalidConfigurationError e) then {w} else {})"
    using assms by (auto simp: wait_rejected_with_def with_timeout_def sdk_wait_def split: sum.splits option.splits prod.splits)
  then show ?thesis by (simp add: timeout_refused)
qed

text \<open>A representable number of seconds below \<open>2 ^ 64\<close> is at least one nanosecond below it after rounding.\<close>

lemma nanos_fit:
  assumes "representable q" and "q < 2 ^ 64"
  shows "rne (q * 10 ^ 9) < 2 ^ 64 * 10 ^ 9"
proof (cases "q < 2 ^ 63")
  case True
  have "of_int (rne (q * 10 ^ 9)) \<le> q * 10 ^ 9 + 1 / 2" using rne_err [of "q * 10 ^ 9"] by linarith
  also have "\<dots> < (2::rat) ^ 64 * 10 ^ 9" using True by simp
  finally have "(of_int (rne (q * 10 ^ 9)) :: rat) < of_int (2 ^ 64 * 10 ^ 9)" by simp
  then show ?thesis by (simp only: of_int_less_iff)
next
  case False
  have "ulp_exp (2 ^ 63) = 11" using ulp_exp_eval [of 63 "2 ^ 63"] by (simp add: power_int_def)
  then have "0 \<le> ulp_exp q" using ulp_exp_mono [of "2 ^ 63" q] False by simp
  then obtain k where k: "q = of_int k" using representable_on_grid [OF assms(1)] by (metis mult.right_neutral power_int_0_right)
  have "rne (of_int k * 10 ^ 9) = k * 10 ^ 9" using rne_of_int [of "k * 10 ^ 9"] by simp
  moreover have "k < 2 ^ 64" using assms(2) unfolding k by (metis of_int_less_iff of_int_numeral of_int_power)
  ultimately show ?thesis by (simp add: k)
qed

lemma nanos_large: "2 ^ 64 \<le> q \<Longrightarrow> 2 ^ 64 * 10 ^ 9 \<le> rne (q * 10 ^ 9)"
proof -
  assume "2 ^ 64 \<le> q"
  then have "rne (of_int (2 ^ 64 * 10 ^ 9)) \<le> rne (q * 10 ^ 9)" by (intro rne_mono) simp
  then show ?thesis by (simp only: rne_of_int)
qed

lemma nanos_nonneg: "0 \<le> q \<Longrightarrow> 0 \<le> rne (q * 10 ^ 9)"
  using rne_mono [of 0 "q * 10 ^ 9"] rne_of_int [of 0] by simp

lemma duration_value:
  assumes "wf_f64 s" and "is_finite s" and "0 \<le> val s"
  shows "duration_from_secs_f64 s = (if val s < 2 ^ 64 then Some (nat (rne (val s * 10 ^ 9))) else None)"
proof -
  obtain neg q where s: "s = F_Fin neg q" using assms(2) by (cases s) auto
  have q: "0 \<le> q" "representable q" using assms(1) s wf_f64_nonneg by auto
  have v: "val s = q" "neg \<Longrightarrow> q = 0" using assms(3) q(1) s by (auto simp: sval_def split: if_splits)
  show ?thesis
  proof (cases "q < 2 ^ 64")
    case True
    then have "nat (rne (q * 10 ^ 9)) < 2 ^ 64 * 10 ^ 9" using nanos_fit [OF q(2)] by simp
    then show ?thesis using True v s by (auto simp: Let_def)
  next
    case False
    then have "\<not> nat (rne (q * 10 ^ 9)) < 2 ^ 64 * 10 ^ 9" using nanos_large [of q] by simp
    then show ?thesis using False v s by (auto simp: Let_def)
  qed
qed

subsection \<open>Tables\<close>

text \<open>
  What Arrow documents of \<open>RecordBatch::try_new\<close>: columns of the schema's types and of one length make a batch
  of that schema with that many rows.
\<close>

definition arrow_contract :: "'b arrow_api \<Rightarrow> bool" where
  "arrow_contract arrow \<longleftrightarrow> (\<forall>n schema columns. batch_valid n schema columns \<longrightarrow>
     (\<exists>b. aa_try_new arrow schema columns = Ok b \<and> aa_num_rows arrow b = n \<and> aa_fields arrow b = schema))"

lemma sample_arrow_contract: "arrow_contract sample_arrow"
proof -
  have "array_length (hd columns) = n" if "batch_valid n schema columns" for n schema columns
    using that by (simp add: batch_valid_def)
  then show ?thesis by (auto simp: arrow_contract_def sample_arrow_def)
qed

lemma arrow_contractE:
  assumes "arrow_contract arrow" and "batch_valid n schema columns"
  obtains b where "aa_try_new arrow schema columns = Ok b" "aa_num_rows arrow b = n" "aa_fields arrow b = schema"
  using assms unfolding arrow_contract_def by blast

text \<open>
  The table of a metric and the list of its points come from the same query: the client ends in the same state,
  the failures are the same, and the columns are the fields of the points.
\<close>

lemma metric_table_matches_points:
  assumes "arrow_contract arrow" and "py_query_metric_with_metadata t rid key a b n w = (Ok (points, rowcount, downsampled), w')"
  shows "\<exists>tab schema stamps ingested. py_query_metric_table arrow rid key a b n w = (Ok tab, w') \<and>
    pat_source_row_count tab = rowcount \<and> pat_downsampled tab = downsampled \<and> table_row_count arrow tab = length points \<and>
    table_column_names arrow tab = [''run_id'', ''metric_key'', ''step'', ''timestamp'', ''value_f64'', ''ingested_at''] \<and>
    map (pt_rfc3339 t) stamps = map pmp_timestamp points \<and> map (pt_rfc3339 t) ingested = map pmp_ingested_at points \<and>
    aa_try_new arrow schema
      [StringArray (map pmp_run_id points), StringArray (map pmp_metric_key points), Int64Array (map pmp_step points),
       TimestampMillisecondArray (Some ''UTC'') stamps, Float64Array (map pmp_value_f64 points),
       TimestampMillisecondArray (Some ''UTC'') ingested] = Ok (pat_batch tab)"
proof -
  obtain result where q: "sdk (client_query_metric_with_metadata rid key a b n) w = (Ok result, w')"
      and p: "points = map (py_metric_point_of t) (mqr_points result)" "rowcount = mqr_source_row_count result"
        "downsampled = (of_nat (length (mqr_points result)) < mqr_source_row_count result)"
    using assms(2) by (auto simp: py_query_metric_with_metadata_def bind_op_Ok Let_def)
  let ?rs = "mqr_points result"
  let ?schema = "[required_field ''run_id'' Arrow_Utf8, required_field ''metric_key'' Arrow_Utf8,
    required_field ''step'' Arrow_Int64, required_field ''timestamp'' (Arrow_TimestampMs (Some ''UTC'')),
    required_field ''value_f64'' Arrow_Float64, required_field ''ingested_at'' (Arrow_TimestampMs (Some ''UTC''))]"
  let ?columns = "[StringArray (map mp_run_id ?rs), StringArray (map mp_metric_key ?rs), Int64Array (map mp_step ?rs),
    TimestampMillisecondArray (Some ''UTC'') (map mp_timestamp ?rs), Float64Array (map mp_value ?rs),
    TimestampMillisecondArray (Some ''UTC'') (map mp_ingested_at ?rs)]"
  have "batch_valid (length ?rs) ?schema ?columns" by (simp add: batch_valid_def)
  then obtain batch where batch: "aa_try_new arrow ?schema ?columns = Ok batch" "aa_num_rows arrow batch = length ?rs"
      "aa_fields arrow batch = ?schema" by (rule arrow_contractE [OF assms(1)])
  have tab: "py_query_metric_table arrow rid key a b n w =
      (Ok \<lparr>pat_batch = batch, pat_source_row_count = rowcount, pat_downsampled = downsampled\<rparr>, w')"
    using batch(1) q by (simp add: py_query_metric_table_def bind_op_def table_from_metric_points_def Let_def p)
  show ?thesis
    by (rule exI [of _ "\<lparr>pat_batch = batch, pat_source_row_count = rowcount, pat_downsampled = downsampled\<rparr>"],
        rule exI [of _ ?schema], rule exI [of _ "map mp_timestamp ?rs"], rule exI [of _ "map mp_ingested_at ?rs"])
       (use batch tab in \<open>simp add: table_row_count_def table_column_names_def p py_metric_point_of_def o_def\<close>)
qed

subsection \<open>Properties\<close>



text \<open>C16: leaving a \<open>with\<close> block is safe. When \<open>__exit__\<close> returns, no run is active and no lock file is held,
  whether or not the writer has failed. Either every report accepted before is stored and nothing is
  raised; or the writer had failed, and then the failure is raised exactly when the block itself
  raised nothing, and otherwise becomes the context of the user's exception, which stays primary.\<close>

theorem python_exit_is_safe:
  assumes "reachable_python api arrow t w" and "py_exit exc_type_none exc w = Some (r, exc', w')"
    and "length (accepted w') + 1 < 2 ^ 64"
  shows "cl_active_runs w' = [] \<and> held_locks w' = [] \<and>
    (r = Ok False \<and> exc' = exc \<and> (\<forall>x \<in> set (accepted w). report_stored (client_store w') x) \<or>
     (\<exists>m. let teardown = Raised MetricWriterFailedError m in
       (r, exc') = (if exc_type_none then (Err teardown, exc)
         else (Ok False, map_option (\<lambda>u. if pu_refuses u then u else u\<lparr>pu_context := Some teardown\<rparr>) exc))))"
proof -
  have inv: "client_inv w" by (rule reachable_client_inv [OF python_reaches [OF assms(1)]])
  obtain q where q: "shutdown None w = Some (q, w')"
    using assms(2) by (auto simp: py_exit_def split: option.splits sum.splits if_splits)
  note released = shutdown_releases [OF inv q]
  show ?thesis
  proof (cases q)
    case (Inr u)
    then have "\<forall>x \<in> set (accepted w). report_stored (client_store w') x"
      using shutdown_stores [OF inv _ assms(3)] q by simp
    then show ?thesis using released assms(2) q Inr by (simp add: py_exit_def)
  next
    case (Inl e)
    then obtain m where "e = MetricWriterFailed m" using untimed_shutdown q by blast
    then show ?thesis using released assms(2) q Inl
      by (auto simp: py_exit_def Let_def runtime_error_def attach_exception_context_def split: if_splits)
  qed
qed

theorem python_exit_is_safe_witness:
  "\<exists>w'. py_exit True None sample_client = Some (Ok False, None, w') \<and> held_locks w' = [] \<and>
     (\<forall>x \<in> set (accepted sample_client). report_stored (client_store w') x)"
proof -
  obtain w' where s: "shutdown None sample_client = Some (Ok (), w')" "length (accepted w') = 1"
    by (rule sample_shutdown)
  have e: "py_exit True None sample_client = Some (Ok False, None, w')" using s(1) by (simp add: py_exit_def)
  have small: "length (accepted w') + 1 < 2 ^ 64" using s(2) by simp
  show ?thesis
    using python_exit_is_safe [OF sample_python [of sample_arrow sample_texts] e small] e by (auto simp: Let_def)
qed

text \<open>C17: Python arguments are checked before anything happens. A call raises \<open>ValueError\<close> exactly for a status, a
  direction, an axis, a viewport or a screen budget that the API does not have, whatever the
  client would have answered, and then the client is unchanged.\<close>

theorem value_errors_exact:
  "rejected_with Py_ValueError (py_list_runs t pid status limit offset) w =
     (if \<exists>s. status = Some s \<and> s \<notin> {''running'', ''finished'', ''failed''} then {w} else {}) \<and>
   rejected_with Py_ValueError (py_query_aligned_metric t rid key axis first until width density) w =
     (if axis \<in> {''step'', ''elapsed_time''} \<and> first \<le> until \<and> (width = None) = (density = None) \<and>
         width \<noteq> Some 0 \<and> density \<noteq> Some 0 then {} else {w}) \<and>
   rejected_with Py_ValueError (py_compare_runs t rid rid' key direction) w =
     (if direction \<notin> {''minimize'', ''maximize''} then {w} else {}) \<and>
   rejected_with Py_ValueError (py_comparison_reports t rids rid key direction keys) w =
     (if direction \<notin> {''minimize'', ''maximize''} then {w} else {}) \<and>
   rejected_with Py_ValueError (py_rank_runs t rids key direction) w =
     (if direction \<notin> {''minimize'', ''maximize''} then {w} else {}) \<and>
   rejected_with Py_ValueError (py_best_eligible_run t rids key direction) w =
     (if direction \<notin> {''minimize'', ''maximize''} then {w} else {}) \<and>
   rejected_with Py_ValueError (py_run_evidence t rid key) w = {}"
  unfolding py_list_runs_def aligned_rejected py_compare_runs_def py_comparison_reports_def
    py_rank_runs_def py_best_eligible_run_def py_run_evidence_def
  by (simp add: rejected_parse call_not_value_error reports_not_value_error list_not_value_error
      parse_run_status_Err py_objective_Err)

text \<open>C18: a timeout in seconds becomes the nearest number of nanoseconds. A negative, infinite or undefined one is
  refused as a configuration error with the client unchanged; but a finite one of \<open>2 ^ 64\<close> seconds or more makes the
  call panic instead of being refused.\<close>

theorem timeout_conversion_exact:
  assumes "wf_f64 s"
  shows "duration_from_seconds name s =
     (if \<not> is_finite s \<or> val s < 0
      then Err (Raised InvalidConfigurationError (name @ '' must be a finite non-negative number''))
      else if 2 ^ 64 \<le> val s then Err Panicked
      else Ok (nat (rne (val s * 10 ^ 9)))) \<and>
    (0 \<le> val s \<longrightarrow> \<bar>of_nat (nat (rne (val s * 10 ^ 9))) - val s * 10 ^ 9\<bar> \<le> 1 / 2) \<and>
    wait_rejected_with InvalidConfigurationError (py_finish_run rid (Some s)) w =
      (if \<not> is_finite s \<or> val s < 0 then {w} else {}) \<and>
    (is_finite s \<and> 2 ^ 64 \<le> val s \<longrightarrow> py_finish_run rid (Some s) w = Some (Err Panicked, w))"
proof -
  have neg: "flt s fzero \<or> \<not> is_finite s \<longleftrightarrow> \<not> is_finite s \<or> val s < 0"
    by (cases s) (auto simp: fzero_def sval_def)
  have d: "duration_from_seconds n s =
     (if \<not> is_finite s \<or> val s < 0
      then Err (Raised InvalidConfigurationError (n @ '' must be a finite non-negative number''))
      else if 2 ^ 64 \<le> val s then Err Panicked else Ok (nat (rne (val s * 10 ^ 9))))" for n
    unfolding duration_from_seconds_def neg using duration_value [OF assms] by auto
  moreover have "wait_rejected_with InvalidConfigurationError (py_finish_run rid (Some s)) w =
      (if \<not> is_finite s \<or> val s < 0 then {w} else {})"
    unfolding py_finish_run_def by (subst rejected_wait) (simp_all add: neg)
  moreover have "0 \<le> val s \<longrightarrow> \<bar>of_nat (nat (rne (val s * 10 ^ 9))) - val s * 10 ^ 9\<bar> \<le> 1 / 2"
    using nanos_nonneg [of "val s"] rne_err [of "val s * 10 ^ 9"] by simp
  moreover have "is_finite s \<and> 2 ^ 64 \<le> val s \<longrightarrow> py_finish_run rid (Some s) w = Some (Err Panicked, w)"
    by (simp add: py_finish_run_def with_timeout_def py_timeout_def d)
  ultimately show ?thesis by blast
qed

text \<open>\<open>1e20\<close> seconds is such a timeout.\<close>

theorem timeout_conversion_exact_witness:
  "py_finish_run ''r1'' (Some (F_Fin False (10 ^ 20))) sample_client = Some (Err Panicked, sample_client)"
proof -
  have "ulp_exp (10 ^ 20) = 14" using ulp_exp_eval [of 66 "10 ^ 20"] by (simp add: power_int_def)
  moreover have "(10 ^ 20 :: rat) / 2 powi 14 = of_int 6103515625000000" by (simp add: power_int_def)
  ultimately have "representable (10 ^ 20)" unfolding representable_def by (metis Ints_of_int zero_less_numeral zero_less_power)
  moreover have "(10 ^ 20 :: rat) < f64_max_bound" by (simp add: f64_max_bound_def power_int_def)
  ultimately have "wf_f64 (F_Fin False (10 ^ 20))" by simp
  from timeout_conversion_exact [OF this] show ?thesis by (simp add: sval_def)
qed

end
