(* ===== verification/Parquet_Schema.thy ===== *)
theory Parquet_Schema
  imports Alignment_Reader
begin

section \<open>The schema contract and the Parquet reader (\<open>schema.rs\<close>, \<open>query.rs\<close>)\<close>

text \<open>
  \<open>validate_metric_point_schema\<close> on the columns DuckDB describes, and the reader that checks every
  file of a source and their union before it answers queries. The names DuckDB lists for a source
  and the columns it describes are parameters, the record \<open>parquet_env\<close>.
\<close>

subsection \<open>Columns\<close>

datatype logical_type = L_String | L_Int64 | L_Timestamp | L_Float64

fun logical_name :: "logical_type \<Rightarrow> string" where
  "logical_name L_String = ''string''"
| "logical_name L_Int64 = ''int64''"
| "logical_name L_Timestamp = ''timestamp''"
| "logical_name L_Float64 = ''float64''"

definition required_columns :: "(string \<times> logical_type) list" where
  "required_columns = [(''run_id'', L_String), (''metric_key'', L_String), (''metric_key_encoded'', L_String),
     (''step'', L_Int64), (''timestamp'', L_Timestamp), (''value_f64'', L_Float64), (''ingested_at'', L_Timestamp)]"

text \<open>\<open>to_ascii_uppercase\<close>, byte by byte.\<close>

definition ascii_upper_byte :: "char \<Rightarrow> char" where
  "ascii_upper_byte c = (let n = char_nat c in if 97 \<le> n \<and> n \<le> 122 then byte (n - 32) else c)"

definition to_ascii_uppercase :: "string \<Rightarrow> string" where
  "to_ascii_uppercase s = map ascii_upper_byte s"

definition eq_ignore_ascii_case :: "string \<Rightarrow> string \<Rightarrow> bool" where
  "eq_ignore_ascii_case a b \<longleftrightarrow> to_ascii_uppercase a = to_ascii_uppercase b"

fun accepts :: "logical_type \<Rightarrow> string \<Rightarrow> bool" where
  "accepts L_String actual = (to_ascii_uppercase (trim actual) = ''VARCHAR'')"
| "accepts L_Int64 actual = (to_ascii_uppercase (trim actual) = ''BIGINT'')"
| "accepts L_Timestamp actual = starts_with (to_ascii_uppercase (trim actual)) ''TIMESTAMP''"
| "accepts L_Float64 actual = (to_ascii_uppercase (trim actual) = ''DOUBLE'')"

record column_schema =
  cs_name :: string
  cs_data_type :: string
  cs_nullable :: bool

record schema_report =
  sr_columns :: "column_schema list"
  sr_additive :: "string list"

subsection \<open>Validation\<close>

text \<open>The map \<open>by_name\<close> holds the last column of a name; it is read only when names are distinct.\<close>

definition by_name :: "column_schema list \<Rightarrow> string \<Rightarrow> column_schema option" where
  "by_name columns = map_of (map (\<lambda>c. (cs_name c, c)) (rev columns))"

fun check_required ::
  "(string \<Rightarrow> column_schema option) \<Rightarrow> (string \<times> logical_type) list \<Rightarrow> (storage_error, unit) res" where
  "check_required m [] = Ok ()"
| "check_required m ((name, expected) # rest) =
     (case m name of
        None \<Rightarrow> Err (SE_MissingColumn name)
      | Some c \<Rightarrow>
          if accepts expected (cs_data_type c) then check_required m rest
          else Err (SE_IncompatibleColumnType name (logical_name expected) (cs_data_type c)))"

fun additive_columns :: "column_schema list \<Rightarrow> string list \<Rightarrow> (storage_error, string list) res" where
  "additive_columns [] acc = Ok acc"
| "additive_columns (c # cs) acc =
     (if list_ex (\<lambda>(name, _). name = cs_name c) required_columns then additive_columns cs acc
      else if \<not> cs_nullable c then Err (SE_IncompatibleAdditiveColumn (cs_name c))
      else additive_columns cs (acc @ [cs_name c]))"

definition validate_metric_point_schema :: "column_schema list \<Rightarrow> (storage_error, schema_report) res" where
  "validate_metric_point_schema columns =
     (case first_dup {} (map cs_name columns) of
        Some name \<Rightarrow> Err (SE_DuplicateColumn name)
      | None \<Rightarrow>
          bind_r (check_required (by_name columns) required_columns) (\<lambda>_.
          bind_r (additive_columns columns []) (\<lambda>additive.
          Ok \<lparr>sr_columns = columns, sr_additive = sort_by str_cmp additive\<rparr>)))"

subsection \<open>The Parquet reader\<close>

text \<open>
  \<open>pe_files\<close> lists the files of a location, \<open>pe_describe location union\<close> the name, type and
  nullability that DuckDB describes for its columns, and \<open>pe_rows\<close> its rows.
\<close>

record parquet_env =
  pe_files :: "string \<Rightarrow> string list"
  pe_describe :: "string \<Rightarrow> bool \<Rightarrow> (string \<times> string \<times> string) list"
  pe_rows :: "string \<Rightarrow> point_row list"

definition parquet_source_new :: "string \<Rightarrow> (storage_error, string) res" where
  "parquet_source_new location = (if is_blank location then Err SE_EmptySource else Ok location)"

definition describe_parquet ::
  "parquet_env \<Rightarrow> string \<Rightarrow> bool \<Rightarrow> (store, storage_error, column_schema list) op" where
  "describe_parquet pe location union_by_name = query (\<lambda>_.
     map (\<lambda>(name, data_type, nullable). \<lparr>cs_name = name, cs_data_type = data_type,
            cs_nullable = eq_ignore_ascii_case nullable ''YES''\<rparr>) (pe_describe pe location union_by_name))"

definition inspect_schema :: "parquet_env \<Rightarrow> string \<Rightarrow> (store, storage_error, schema_report) op" where
  "inspect_schema pe location =
     bind_op (query (\<lambda>_. pe_files pe location)) (\<lambda>files.
     bind_op (mapM_op (\<lambda>file. bind_op (describe_parquet pe file False)
                          (\<lambda>columns. lift_op (validate_metric_point_schema columns))) files) (\<lambda>_.
     bind_op (describe_parquet pe location True) (\<lambda>columns.
     lift_op (validate_metric_point_schema columns))))"

record parquet_reader =
  pq_source :: string
  pq_schema :: schema_report

definition parquet_open :: "parquet_env \<Rightarrow> string \<Rightarrow> (store, storage_error, parquet_reader) op" where
  "parquet_open pe source =
     bind_op (inspect_schema pe source) (\<lambda>schema. ret_op \<lparr>pq_source = source, pq_schema = schema\<rparr>)"

definition parquet_query_metric ::
  "parquet_env \<Rightarrow> parquet_reader \<Rightarrow> metric_query \<Rightarrow> (reader, storage_error, metric_query_result) op" where
  "parquet_query_metric pe r q = query_metric (pe_rows pe) (Src_Parquet (pq_source r)) q"

definition parquet_query_aligned_metric ::
  "parquet_env \<Rightarrow> parquet_reader \<Rightarrow> alignment_query \<Rightarrow> (store, storage_error, alignment_query_result) op" where
  "parquet_query_aligned_metric pe r q = parquet_query_aligned (pe_rows pe) (pq_source r) q"

subsection \<open>Lemmas\<close>

lemma by_name_Some:
  assumes "distinct (map cs_name columns)"
  shows "by_name columns name = Some c \<longleftrightarrow> c \<in> set columns \<and> cs_name c = name"
proof -
  have "distinct (map fst (map (\<lambda>c. (cs_name c, c)) (rev columns)))"
    using assms by (simp add: comp_def rev_map [symmetric])
  from map_of_eq_Some_iff [OF this, of name c] show ?thesis by (auto simp: by_name_def)
qed

lemma check_required_Ok:
  "check_required m required = Ok u \<longleftrightarrow>
   (\<forall>(name, expected) \<in> set required. \<exists>c. m name = Some c \<and> accepts expected (cs_data_type c))"
  by (induction m required rule: check_required.induct) (auto split: option.splits)

abbreviation is_required :: "string \<Rightarrow> bool" where
  "is_required name \<equiv> list_ex (\<lambda>(n, _). n = name) required_columns"

lemma additive_columns_Ok:
  "additive_columns columns acc = Ok names \<longleftrightarrow>
   (\<forall>c \<in> set columns. is_required (cs_name c) \<or> cs_nullable c) \<and>
   names = acc @ map cs_name (filter (\<lambda>c. \<not> is_required (cs_name c)) columns)"
  by (induction columns acc rule: additive_columns.induct) auto

text \<open>The contract, stated without an order of columns or of checks.\<close>

definition satisfies_contract :: "column_schema list \<Rightarrow> bool" where
  "satisfies_contract columns \<longleftrightarrow> distinct (map cs_name columns) \<and>
     (\<forall>(name, expected) \<in> set required_columns. \<exists>c \<in> set columns. cs_name c = name \<and> accepts expected (cs_data_type c)) \<and>
     (\<forall>c \<in> set columns. is_required (cs_name c) \<or> cs_nullable c)"

lemma validate_Ok:
  "validate_metric_point_schema columns = Ok r \<longleftrightarrow> satisfies_contract columns \<and>
   r = \<lparr>sr_columns = columns,
        sr_additive = sort_by str_cmp (map cs_name (filter (\<lambda>c. \<not> is_required (cs_name c)) columns))\<rparr>"
proof (cases "distinct (map cs_name columns)")
  case False
  then have "first_dup {} (map cs_name columns) \<noteq> None" by (simp add: first_dup_None)
  then show ?thesis using False by (auto simp: validate_metric_point_schema_def satisfies_contract_def)
next
  case True
  then have "first_dup {} (map cs_name columns) = None" by (simp add: first_dup_None)
  then show ?thesis
    using True
    by (auto simp: validate_metric_point_schema_def satisfies_contract_def bind_r_eq_Inr check_required_Ok
        additive_columns_Ok by_name_Some)
qed

lemma sort_str_perm: "mset xs = mset ys \<Longrightarrow> sort_by str_cmp xs = sort_by str_cmp ys"
  by (rule str_order.sorted_unique) (simp_all add: str_order.sorted_sort_by)

lemma additive_perm:
  assumes "mset columns = mset columns'"
  shows "sort_by str_cmp (map cs_name (filter P columns)) = sort_by str_cmp (map cs_name (filter P columns'))"
  using assms by (intro sort_str_perm) (simp add: mset_map)

lemma contract_perm:
  assumes "mset columns = mset columns'"
  shows "satisfies_contract columns \<longleftrightarrow> satisfies_contract columns'"
proof -
  have "set columns = set columns'" using assms mset_eq_setD by blast
  moreover have "distinct (map cs_name columns) = distinct (map cs_name columns')"
    using assms by (intro mset_eq_imp_distinct_iff) (simp add: mset_map)
  ultimately show ?thesis by (simp add: satisfies_contract_def)
qed

definition described :: "(string \<times> string \<times> string) list \<Rightarrow> column_schema list" where
  "described cols = map (\<lambda>(name, data_type, nullable). \<lparr>cs_name = name, cs_data_type = data_type,
            cs_nullable = eq_ignore_ascii_case nullable ''YES''\<rparr>) cols"

lemma describe_Ok:
  "describe_parquet pe location u s = (Ok columns, s') \<Longrightarrow> columns = described (pe_describe pe location u) \<and> same_tables s s'"
  using steps_opD [OF steps_query, of "\<lambda>_. described (pe_describe pe location u)" s "Ok columns" s']
  by (auto simp: describe_parquet_def described_def query_Ok)

definition file_check :: "parquet_env \<Rightarrow> string \<Rightarrow> (store, storage_error, schema_report) op" where
  "file_check pe file = bind_op (describe_parquet pe file False) (\<lambda>columns. lift_op (validate_metric_point_schema columns))"

lemma files_checked:
  "mapM_op (file_check pe) files s = (Ok reports, s') \<Longrightarrow>
   (\<forall>f \<in> set files. satisfies_contract (described (pe_describe pe f False))) \<and> same_tables s s'"
proof (induction files arbitrary: s reports)
  case Nil
  then show ?case by (simp add: reading.refl_state)
next
  case (Cons f files)
  obtain r s1 rs where f: "file_check pe f s = (Ok r, s1)" and rest: "mapM_op (file_check pe) files s1 = (Ok rs, s')"
    using Cons.prems by (auto simp: bind_op_Ok)
  obtain columns where c: "describe_parquet pe f False s = (Ok columns, s1)" "validate_metric_point_schema columns = Ok r"
    using f by (auto simp: file_check_def bind_op_Ok)
  note d = describe_Ok [OF c(1)]
  show ?case using Cons.IH [OF rest] d c(2) validate_Ok reading.trans_state by auto
qed

subsection \<open>Properties\<close>

text \<open>C27: a schema is accepted exactly when its column names are distinct, every contract column is
  there with its type, and every other column is nullable; the order of the columns matters neither
  for that nor for the reported additive columns, which are sorted.\<close>
theorem schema_validation_exact:
  assumes "mset columns = mset columns'"
  shows "((\<exists>r. validate_metric_point_schema columns = Ok r) \<longleftrightarrow> satisfies_contract columns) \<and>
    (validate_metric_point_schema columns = Ok r \<longrightarrow>
       (\<exists>r'. validate_metric_point_schema columns' = Ok r' \<and> sr_additive r' = sr_additive r \<and> sr_columns r' = columns') \<and>
       sorted_wrt (\<lambda>a b. str_cmp a b \<noteq> Greater) (sr_additive r) \<and>
       set (sr_additive r) = cs_name ` set columns - fst ` set required_columns)"
proof -
  have set_eq: "set columns = set columns'" using assms by (rule mset_eq_setD)
  have req: "is_required n \<longleftrightarrow> n \<in> fst ` set required_columns" for n
    by (auto simp: list_ex_iff image_iff case_prod_beta)
  have "\<exists>r'. validate_metric_point_schema columns' = Ok r' \<and> sr_additive r' = sr_additive r \<and> sr_columns r' = columns'"
    "sorted_wrt (\<lambda>a b. str_cmp a b \<noteq> Greater) (sr_additive r)"
    "set (sr_additive r) = cs_name ` set columns - fst ` set required_columns"
    if "validate_metric_point_schema columns = Ok r"
    using that contract_perm [OF assms] additive_perm [OF assms] str_order.sorted_sort_by req set_eq
    by (auto simp: validate_Ok)
  then show ?thesis by (auto simp: validate_Ok)
qed

definition sample_columns :: "column_schema list" where
  "sample_columns = described [(''run_id'', ''VARCHAR'', ''NO''), (''metric_key'', ''VARCHAR'', ''NO''),
     (''metric_key_encoded'', ''VARCHAR'', ''NO''), (''step'', ''BIGINT'', ''NO''),
     (''timestamp'', ''TIMESTAMPTZ'', ''NO''), (''value_f64'', ''DOUBLE'', ''NO''),
     (''ingested_at'', ''TIMESTAMP'', ''NO''), (''note'', ''VARCHAR'', ''YES'')]"

lemma sample_accepts:
  "accepts L_String ''VARCHAR''" "accepts L_Int64 ''BIGINT''"
  "accepts L_Timestamp ''TIMESTAMPTZ''" "accepts L_Timestamp ''TIMESTAMP''" "accepts L_Float64 ''DOUBLE''"
  by (simp_all add: trim_visible visible_def to_ascii_uppercase_def ascii_upper_byte_def char_nat_def byte_def starts_with_def)

lemma sample_schema: "satisfies_contract sample_columns"
  by (simp add: satisfies_contract_def sample_columns_def described_def required_columns_def sample_accepts
      eq_ignore_ascii_case_def to_ascii_uppercase_def ascii_upper_byte_def char_nat_def byte_def del: accepts.simps)

theorem schema_validation_exact_witness:
  "\<exists>r r'. validate_metric_point_schema sample_columns = Ok r \<and>
     validate_metric_point_schema (rev sample_columns) = Ok r' \<and> sr_additive r' = sr_additive r \<and>
     ''note'' \<in> set (sr_additive r)"
proof -
  have p: "mset sample_columns = mset (rev sample_columns)" by simp
  obtain r where r: "validate_metric_point_schema sample_columns = Ok r"
    using schema_validation_exact [OF p] sample_schema by blast
  have "''note'' \<in> cs_name ` set sample_columns - fst ` set required_columns"
    by (simp add: sample_columns_def described_def required_columns_def)
  then show ?thesis using schema_validation_exact [OF p, of r] r by auto
qed

text \<open>A Parquet reader exists only for a source whose every file satisfies the contract by itself
  and whose files satisfy it united by name; opening reads and changes nothing.\<close>
theorem parquet_open_validates:
  assumes "parquet_open pe location s = (Ok r, s')"
  shows "pq_source r = location \<and>
    (\<forall>file \<in> set (pe_files pe location). satisfies_contract (described (pe_describe pe file False))) \<and>
    satisfies_contract (described (pe_describe pe location True)) \<and>
    sr_columns (pq_schema r) = described (pe_describe pe location True) \<and> same_tables s s'"
proof -
  obtain files s1 reports s2 columns where f: "query (\<lambda>_. pe_files pe location) s = (Ok files, s1)"
    and m: "mapM_op (file_check pe) files s1 = (Ok reports, s2)"
    and d: "describe_parquet pe location True s2 = (Ok columns, s')"
    and v: "validate_metric_point_schema columns = Ok (pq_schema r)" and src: "pq_source r = location"
    using assms unfolding parquet_open_def inspect_schema_def file_check_def [symmetric, abs_def]
    by (auto simp: bind_op_Ok)
  have "files = pe_files pe location" "same_tables s s1"
    using f steps_opD [OF steps_query f] by (auto simp: query_Ok)
  then show ?thesis
    using files_checked [OF m] describe_Ok [OF d] v src reading.trans_state [of s s1 s2] reading.trans_state [of s s2 s']
    by (auto simp: validate_Ok)
qed

theorem parquet_open_validates_witness:
  "\<exists>pe r. parquet_open pe ''runs/*.parquet'' sample_store = (Ok r, sample_store) \<and>
     pq_source r = ''runs/*.parquet'' \<and> satisfies_contract (described (pe_describe pe ''a.parquet'' False))"
proof -
  define cols where "cols = [(''run_id'', ''VARCHAR'', ''NO''), (''metric_key'', ''VARCHAR'', ''NO''),
     (''metric_key_encoded'', ''VARCHAR'', ''NO''), (''step'', ''BIGINT'', ''NO''),
     (''timestamp'', ''TIMESTAMPTZ'', ''NO''), (''value_f64'', ''DOUBLE'', ''NO''),
     (''ingested_at'', ''TIMESTAMP'', ''NO''), (''note'', ''VARCHAR'', ''YES'')]"
  let ?pe = "\<lparr>pe_files = (\<lambda>_. [''a.parquet'']), pe_describe = (\<lambda>_ _. cols), pe_rows = (\<lambda>_. [])\<rparr>"
  have cols: "described cols = sample_columns" by (simp add: cols_def sample_columns_def)
  obtain rep where rep: "validate_metric_point_schema sample_columns = Ok rep"
    using sample_schema by (simp add: validate_Ok)
  have d: "describe_parquet ?pe l u sample_store = (Ok sample_columns, sample_store)" for l u
    using cols by (simp add: describe_parquet_def described_def query_no_faults)
  have run: "parquet_open ?pe ''runs/*.parquet'' sample_store =
      (Ok \<lparr>pq_source = ''runs/*.parquet'', pq_schema = rep\<rparr>, sample_store)"
    by (simp add: parquet_open_def inspect_schema_def bind_op_def query_no_faults d rep)
  show ?thesis
    using parquet_open_validates [OF run] run by (intro exI [of _ ?pe]) auto
qed

end
