(* ===== verification/Chart_Core.thy ===== *)
theory Chart_Core
  imports Float64
begin

section \<open>Chart data and geometry (\<open>pulseon-chart-core/src/lib.rs\<close>)\<close>

text \<open>
  Series, axis ranges, scales, ticks and projected paths. Indexing a slice out of range panics,
  here \<open>None\<close>. \<open>partition_point\<close> is the length of the prefix that satisfies the predicate, its
  documented result on a partitioned slice, which the order of a series makes every slice here.
  \<open>f64::log10\<close>, \<open>f64::powf\<close> and \<open>f64::hypot\<close>, whose precision the standard library leaves open, are the
  record \<open>libm\<close>.
\<close>

subsection \<open>Errors, identities and points\<close>

datatype chart_error =
    CE_EmptySeriesId
  | CE_InvalidPoint nat
  | CE_UnsortedSeries nat
  | CE_InvalidRange
  | CE_InvalidOutputRange
  | CE_InvalidCanvasSize
  | CE_InvalidBrushRange
  | CE_InvalidTransform

fun chart_error_display :: "chart_error \<Rightarrow> string" where
  "chart_error_display CE_EmptySeriesId = ''series id must not be empty''"
| "chart_error_display (CE_InvalidPoint index) = ''series point at index '' @ show_nat index @ '' is not finite''"
| "chart_error_display (CE_UnsortedSeries index) =
     ''series x values must be nondecreasing (out of order at index '' @ show_nat index @ '')''"
| "chart_error_display CE_InvalidRange = ''axis range must be finite and increasing''"
| "chart_error_display CE_InvalidOutputRange = ''scale output range must be finite and non-empty''"
| "chart_error_display CE_InvalidCanvasSize = ''canvas dimensions must be finite and positive''"
| "chart_error_display CE_InvalidBrushRange = ''brush home range must span at least one axis unit''"
| "chart_error_display CE_InvalidTransform = ''chart transform inputs are invalid''"

type_synonym series_id = string

definition series_id_new :: "string \<Rightarrow> (chart_error, series_id) res" where
  "series_id_new v = (if trim v = [] then Err CE_EmptySeriesId else Ok v)"

record data_point =
  dp_x :: f64
  dp_y :: f64

record series =
  se_id :: series_id
  se_points :: "data_point list"

fun check_points :: "nat \<Rightarrow> data_point option \<Rightarrow> data_point list \<Rightarrow> (chart_error, unit) res" where
  "check_points index previous [] = Ok ()"
| "check_points index previous (p # ps) =
     (if \<not> is_finite (dp_x p) \<or> \<not> is_finite (dp_y p) then Err (CE_InvalidPoint index)
      else if (case previous of None \<Rightarrow> False | Some b \<Rightarrow> flt (dp_x p) (dp_x b)) then Err (CE_UnsortedSeries index)
      else check_points (index + 1) (Some p) ps)"

definition series_new :: "series_id \<Rightarrow> data_point list \<Rightarrow> (chart_error, series) res" where
  "series_new i ps = map_r (\<lambda>_. \<lparr>se_id = i, se_points = ps\<rparr>) (check_points 0 None ps)"

subsection \<open>Ranges, viewports and canvases\<close>

record axis_range =
  rg_start :: f64
  rg_end :: f64

definition axis_range_new :: "f64 \<Rightarrow> f64 \<Rightarrow> (chart_error, axis_range) res" where
  "axis_range_new s e =
     (if \<not> is_finite s \<or> \<not> is_finite e \<or> fle e s \<or> \<not> is_finite (fsub e s) then Err CE_InvalidRange
      else Ok \<lparr>rg_start = s, rg_end = e\<rparr>)"

definition rg_span :: "axis_range \<Rightarrow> f64" where
  "rg_span r = fsub (rg_end r) (rg_start r)"

record viewport =
  vp_x :: axis_range
  vp_y :: axis_range

record canvas_size =
  cv_width :: f64
  cv_height :: f64

definition canvas_size_new :: "f64 \<Rightarrow> f64 \<Rightarrow> (chart_error, canvas_size) res" where
  "canvas_size_new w h =
     (if \<not> is_finite w \<or> \<not> is_finite h \<or> fle w fzero \<or> fle h fzero then Err CE_InvalidCanvasSize
      else Ok \<lparr>cv_width = w, cv_height = h\<rparr>)"

subsection \<open>The visible part of a series\<close>

definition partition_point :: "('a \<Rightarrow> bool) \<Rightarrow> 'a list \<Rightarrow> nat" where
  "partition_point P xs = length (takeWhile P xs)"

text \<open>\<open>&xs[first..after]\<close>\<close>

definition slice :: "'a list \<Rightarrow> nat \<Rightarrow> nat \<Rightarrow> 'a list option" where
  "slice xs first after =
     (if first \<le> after \<and> after \<le> length xs then Some (take (after - first) (drop first xs)) else None)"

definition first_visible :: "data_point list \<Rightarrow> axis_range \<Rightarrow> nat" where
  "first_visible ps r = partition_point (\<lambda>p. flt (dp_x p) (rg_start r)) ps"

definition after_visible :: "data_point list \<Rightarrow> axis_range \<Rightarrow> nat" where
  "after_visible ps r = partition_point (\<lambda>p. fle (dp_x p) (rg_end r)) ps"

definition visible_points :: "series \<Rightarrow> axis_range \<Rightarrow> data_point list option" where
  "visible_points s r =
     (let ps = se_points s; first = first_visible ps r; after = after_visible ps r
      in if first = length ps \<or> after = 0 then Some []
         else slice ps (first - 1) (min (after + 1) (length ps)))"

definition y_range_padding_fraction :: f64 where
  "y_range_padding_fraction = f64_of_rat (5 / 100)"

definition min_constant_y_padding :: f64 where
  "min_constant_y_padding = f64_of_rat (1 / 10 ^ 9)"

definition widen :: "data_point \<Rightarrow> (f64 \<times> f64) option \<Rightarrow> (f64 \<times> f64) option" where
  "widen p bounds = Some (case bounds of
       Some (lo, hi) \<Rightarrow> (fmin lo (dp_y p), fmax hi (dp_y p))
     | None \<Rightarrow> (dp_y p, dp_y p))"

fun y_bounds :: "series list \<Rightarrow> axis_range \<Rightarrow> (f64 \<times> f64) option \<Rightarrow> (f64 \<times> f64) option option" where
  "y_bounds [] r bounds = Some bounds"
| "y_bounds (s # ss) r bounds =
     (let ps = se_points s in
      case slice ps (first_visible ps r) (after_visible ps r) of
        None \<Rightarrow> None
      | Some inside \<Rightarrow> y_bounds ss r (fold widen inside bounds))"

definition padded_range :: "f64 \<Rightarrow> f64 \<Rightarrow> (chart_error, axis_range) res" where
  "padded_range lo hi =
     (let padding = (if feq lo hi then fmax (fmul (fabs lo) y_range_padding_fraction) min_constant_y_padding
                     else fmul (fsub hi lo) y_range_padding_fraction);
          padded_lo = fsub lo padding;
          padded_hi = fadd hi padding
      in axis_range_new (if flt padded_lo lo then padded_lo else next_down lo)
                        (if flt hi padded_hi then padded_hi else next_up hi))"

definition visible_y_range_for :: "series list \<Rightarrow> axis_range \<Rightarrow> (chart_error, axis_range option) res option" where
  "visible_y_range_for ss r =
     map_option (\<lambda>bounds. case bounds of None \<Rightarrow> Ok None | Some (lo, hi) \<Rightarrow> map_r Some (padded_range lo hi))
       (y_bounds ss r None)"

definition visible_y_range :: "series list \<Rightarrow> axis_range \<Rightarrow> (chart_error, axis_range option) res option" where
  "visible_y_range ss r = visible_y_range_for ss r"

subsection \<open>Scales\<close>

record linear_scale =
  ls_domain :: axis_range
  ls_output_start :: f64
  ls_output_end :: f64

definition linear_scale_new :: "axis_range \<Rightarrow> f64 \<Rightarrow> f64 \<Rightarrow> (chart_error, linear_scale) res" where
  "linear_scale_new d s e =
     (if \<not> is_finite s \<or> \<not> is_finite e \<or> feq s e \<or> \<not> is_finite (fsub e s) then Err CE_InvalidOutputRange
      else Ok \<lparr>ls_domain = d, ls_output_start = s, ls_output_end = e\<rparr>)"

definition scale_map :: "linear_scale \<Rightarrow> f64 \<Rightarrow> f64" where
  "scale_map sc v =
     (let ratio = fdiv (fsub v (rg_start (ls_domain sc))) (rg_span (ls_domain sc))
      in fadd (ls_output_start sc) (fmul ratio (fsub (ls_output_end sc) (ls_output_start sc))))"

definition scale_invert :: "linear_scale \<Rightarrow> f64 \<Rightarrow> f64" where
  "scale_invert sc v =
     (let ratio = fdiv (fsub v (ls_output_start sc)) (fsub (ls_output_end sc) (ls_output_start sc))
      in fadd (rg_start (ls_domain sc)) (fmul ratio (rg_span (ls_domain sc))))"

subsection \<open>Ticks\<close>

record libm =
  lm_log10 :: "f64 \<Rightarrow> f64"
  lm_powf :: "f64 \<Rightarrow> f64 \<Rightarrow> f64"
  lm_hypot :: "f64 \<Rightarrow> f64 \<Rightarrow> f64"

definition tick_factor :: "f64 \<Rightarrow> f64" where
  "tick_factor normalized =
     (if fle normalized (f64_of_int 1) then f64_of_int 1
      else if fle normalized (f64_of_int 2) then f64_of_int 2
      else if fle normalized (f64_of_int 5) then f64_of_int 5
      else f64_of_int 10)"

text \<open>\<open>while value <= range.end() + step * 1e-10 && ticks.len() <= target_count + 2\<close>\<close>

function tick_loop :: "f64 \<Rightarrow> f64 \<Rightarrow> nat \<Rightarrow> f64 \<Rightarrow> f64 list \<Rightarrow> f64 list" where
  "tick_loop stop step target v ticks =
     (if fle v (fadd stop (fmul step (f64_of_rat (1 / 10 ^ 10)))) \<and> length ticks \<le> target + 2
      then tick_loop stop step target (fadd v step) (ticks @ [if feq v (fneg fzero) then fzero else v])
      else ticks)"
  by pat_completeness auto

termination
  by (relation "measure (\<lambda>(stop, step, target, v, ticks). target + 3 - length ticks)") auto

declare tick_loop.simps [simp del]

definition linear_ticks :: "libm \<Rightarrow> axis_range \<Rightarrow> nat \<Rightarrow> f64 list" where
  "linear_ticks lm r target_count =
     (if target_count = 0 then []
      else
        (let target = min target_count 1024;
             raw_step = fdiv (rg_span r) (f64_of_int (int target));
             magnitude = lm_powf lm (f64_of_int 10) (ffloor (lm_log10 lm raw_step));
             step = fmul (tick_factor (fdiv raw_step magnitude)) magnitude
         in if \<not> is_finite step \<or> fle step fzero then [rg_start r, rg_end r]
            else tick_loop (rg_end r) step target (fmul (fceil (fdiv (rg_start r) step)) step) []))"

subsection \<open>Paths\<close>

record screen_point =
  sp_x :: f64
  sp_y :: f64

definition project_point :: "linear_scale \<Rightarrow> linear_scale \<Rightarrow> data_point \<Rightarrow> screen_point" where
  "project_point x_scale y_scale p = \<lparr>sp_x = scale_map x_scale (dp_x p), sp_y = scale_map y_scale (dp_y p)\<rparr>"

definition viewport_scales :: "viewport \<Rightarrow> canvas_size \<Rightarrow> (chart_error, linear_scale \<times> linear_scale) res" where
  "viewport_scales v c =
     bind_r (linear_scale_new (vp_x v) fzero (cv_width c)) (\<lambda>x_scale.
     bind_r (linear_scale_new (vp_y v) (cv_height c) fzero) (\<lambda>y_scale. Ok (x_scale, y_scale)))"

definition build_path :: "series \<Rightarrow> viewport \<Rightarrow> canvas_size \<Rightarrow> (chart_error, screen_point list) res option" where
  "build_path s v c =
     map_option (\<lambda>visible. map_r (\<lambda>(x_scale, y_scale). map (project_point x_scale y_scale) visible) (viewport_scales v c))
       (visible_points s (vp_x v))"

end
