(* ===== verification/Chart_Interaction.thy ===== *)
theory Chart_Interaction
  imports Chart_Core
begin

section \<open>Chart interaction (\<open>pulseon-chart-core/src/interaction.rs\<close>)\<close>

text \<open>
  The cache of projected paths, hit testing, selection, the brush over the horizontal axis and the
  zoom state. The bits of a finite \<open>f64\<close> are its value with its sign, so that keys compare values of
  the model. A mutating method returns its result and the state after it; \<open>None\<close> is a panic.
\<close>

subsection \<open>The path cache\<close>

record path_key =
  pk_revision :: u64
  pk_viewport_bits :: "f64 list"
  pk_canvas_bits :: "f64 list"

type_synonym path_cache = "series_id \<rightharpoonup> path_key \<times> screen_point list"

definition path_key_of :: "u64 \<Rightarrow> viewport \<Rightarrow> canvas_size \<Rightarrow> path_key" where
  "path_key_of revision v c =
     \<lparr>pk_revision = revision,
      pk_viewport_bits = [rg_start (vp_x v), rg_end (vp_x v), rg_start (vp_y v), rg_end (vp_y v)],
      pk_canvas_bits = [cv_width c, cv_height c]\<rparr>"

definition path_for ::
  "series \<Rightarrow> u64 \<Rightarrow> viewport \<Rightarrow> canvas_size \<Rightarrow> path_cache \<Rightarrow>
   ((chart_error, screen_point list) res \<times> path_cache) option" where
  "path_for s revision v c cache =
     (let key = path_key_of revision v c;
          build = map_option (\<lambda>built. case built of
              Inl e \<Rightarrow> (Err e, cache)
            | Inr path \<Rightarrow> (Ok path, cache(se_id s \<mapsto> (key, path)))) (build_path s v c)
      in case cache (se_id s) of
           Some (cached_key, path) \<Rightarrow> if cached_key = key then Some (Ok path, cache) else build
         | None \<Rightarrow> build)"

definition invalidate_series :: "series_id \<Rightarrow> path_cache \<Rightarrow> path_cache" where
  "invalidate_series i cache = cache(i := None)"

definition clear_paths :: "path_cache \<Rightarrow> path_cache" where
  "clear_paths cache = Map.empty"

subsection \<open>Hit testing\<close>

record hit =
  ht_segment_index :: nat
  ht_position :: screen_point
  ht_distance :: f64

record point_hit =
  ph_point_index :: nat
  ph_position :: screen_point
  ph_distance :: f64

definition closest_point :: "screen_point \<Rightarrow> screen_point \<Rightarrow> screen_point \<Rightarrow> screen_point option" where
  "closest_point s e p =
     (let dx = fsub (sp_x e) (sp_x s);
          dy = fsub (sp_y e) (sp_y s);
          length_squared = fadd (fmul dx dx) (fmul dy dy)
      in if feq length_squared fzero then Some s
         else map_option (\<lambda>projection. \<lparr>sp_x = fadd (sp_x s) (fmul projection dx),
                                        sp_y = fadd (sp_y s) (fmul projection dy)\<rparr>)
                (fclamp (fdiv (fadd (fmul (fsub (sp_x p) (sp_x s)) dx) (fmul (fsub (sp_y p) (sp_y s)) dy))
                           length_squared) fzero (f64_of_int 1)))"

definition distance :: "libm \<Rightarrow> screen_point \<Rightarrow> screen_point \<Rightarrow> f64" where
  "distance lm a b = lm_hypot lm (fsub (sp_x a) (sp_x b)) (fsub (sp_y a) (sp_y b))"

definition segment_hit :: "libm \<Rightarrow> screen_point \<Rightarrow> nat \<times> screen_point \<times> screen_point \<Rightarrow> hit option" where
  "segment_hit lm cursor = (\<lambda>(index, s, e). map_option (\<lambda>position.
      \<lparr>ht_segment_index = index, ht_position = position, ht_distance = distance lm position cursor\<rparr>)
      (closest_point s e cursor))"

definition first_min :: "('a \<Rightarrow> 'a \<Rightarrow> ordering) \<Rightarrow> 'a list \<Rightarrow> 'a option" where
  "first_min c xs = (case xs of [] \<Rightarrow> None | x # ys \<Rightarrow> Some (min_by c x ys))"

definition hit_test :: "libm \<Rightarrow> screen_point list \<Rightarrow> screen_point \<Rightarrow> f64 \<Rightarrow> hit option option" where
  "hit_test lm path cursor radius =
     (if path = [] \<or> \<not> is_finite radius \<or> flt radius fzero then Some None
      else if length path = 1 then
        (let d = distance lm (hd path) cursor
         in Some (if fle d radius
                  then Some \<lparr>ht_segment_index = 0, ht_position = hd path, ht_distance = d\<rparr> else None))
      else map_option (\<lambda>hits. first_min (\<lambda>a b. total_cmp (ht_distance a) (ht_distance b))
                                (filter (\<lambda>h. fle (ht_distance h) radius) hits))
             (those (map (segment_hit lm cursor) (enumerate 0 (zip path (tl path))))))"

definition point_hit_cmp :: "point_hit \<Rightarrow> point_hit \<Rightarrow> ordering" where
  "point_hit_cmp a b = then_with (total_cmp (ph_distance a) (ph_distance b))
                                 (cmp_of (ph_point_index a) (ph_point_index b))"

definition point_hit_of ::
  "libm \<Rightarrow> linear_scale \<Rightarrow> linear_scale \<Rightarrow> screen_point \<Rightarrow> nat \<times> data_point \<Rightarrow> point_hit" where
  "point_hit_of lm x_scale y_scale cursor = (\<lambda>(index, p).
     (let position = project_point x_scale y_scale p
      in \<lparr>ph_point_index = index, ph_position = position, ph_distance = distance lm position cursor\<rparr>))"

definition hit_test_point ::
  "libm \<Rightarrow> series \<Rightarrow> viewport \<Rightarrow> canvas_size \<Rightarrow> screen_point \<Rightarrow> f64 \<Rightarrow>
   (chart_error, point_hit option) res option" where
  "hit_test_point lm s v c cursor radius =
     (if \<not> is_finite (sp_x cursor) \<or> \<not> is_finite (sp_y cursor) \<or> \<not> is_finite radius \<or> flt radius fzero
      then Some (Ok None)
      else
        (let ps = se_points s;
             first = first_visible ps (vp_x v);
             after = after_visible ps (vp_x v)
         in case viewport_scales v c of
              Inl e \<Rightarrow> Some (Err e)
            | Inr (x_scale, y_scale) \<Rightarrow>
                map_option (\<lambda>candidates. Ok (first_min point_hit_cmp
                    (filter (\<lambda>h. fle (ph_distance h) radius)
                      (map (point_hit_of lm x_scale y_scale cursor) (enumerate first candidates)))))
                  (slice ps first after)))"

subsection \<open>Selection\<close>

record selection_state =
  sl_selected :: "series_id set"
  sl_hovered :: "series_id option"

definition select_only :: "series_id \<Rightarrow> selection_state \<Rightarrow> selection_state" where
  "select_only i st = st\<lparr>sl_selected := {i}\<rparr>"

definition toggle_series :: "series_id \<Rightarrow> selection_state \<Rightarrow> bool \<times> selection_state" where
  "toggle_series i st =
     (if i \<in> sl_selected st then (False, st\<lparr>sl_selected := sl_selected st - {i}\<rparr>)
      else (True, st\<lparr>sl_selected := insert i (sl_selected st)\<rparr>))"

definition set_hovered :: "series_id option \<Rightarrow> selection_state \<Rightarrow> selection_state" where
  "set_hovered i st = st\<lparr>sl_hovered := i\<rparr>"

definition clear_selection :: "selection_state \<Rightarrow> selection_state" where
  "clear_selection st = st\<lparr>sl_selected := {}, sl_hovered := None\<rparr>"

subsection \<open>The brush\<close>

definition min_brush_span :: f64 where
  "min_brush_span = f64_of_int 1"

definition maximum_start_for_minimum_span :: "f64 \<Rightarrow> f64" where
  "maximum_start_for_minimum_span e =
     (let s = fsub e min_brush_span in if fle min_brush_span (fsub e s) then s else next_down e)"

definition minimum_end_for_minimum_span :: "f64 \<Rightarrow> f64" where
  "minimum_end_for_minimum_span s =
     (let e = fadd s min_brush_span in if fle min_brush_span (fsub e s) then e else next_up s)"

record brush =
  br_home :: axis_range
  br_selected :: axis_range

type_synonym 's chart_op = "'s \<Rightarrow> ((chart_error, unit) res \<times> 's) option"

definition brush_new :: "axis_range \<Rightarrow> (chart_error, brush) res" where
  "brush_new home =
     (if flt (rg_span home) min_brush_span then Err CE_InvalidBrushRange
      else Ok \<lparr>br_home = home, br_selected = home\<rparr>)"

definition set_selected :: "(chart_error, axis_range) res \<Rightarrow> brush \<Rightarrow> (chart_error, unit) res \<times> brush" where
  "set_selected next b = (case next of
       Inl e \<Rightarrow> (Err e, b)
     | Inr selected \<Rightarrow> (Ok (), b\<lparr>br_selected := selected\<rparr>))"

definition resize_start :: "f64 \<Rightarrow> brush chart_op" where
  "resize_start position b =
     (if \<not> is_finite position then Some (Err CE_InvalidTransform, b)
      else map_option (\<lambda>s. set_selected (axis_range_new s (rg_end (br_selected b))) b)
             (fclamp position (rg_start (br_home b))
                (maximum_start_for_minimum_span (rg_end (br_selected b)))))"

definition resize_end :: "f64 \<Rightarrow> brush chart_op" where
  "resize_end position b =
     (if \<not> is_finite position then Some (Err CE_InvalidTransform, b)
      else map_option (\<lambda>e. set_selected (axis_range_new (rg_start (br_selected b)) e) b)
             (fclamp position (minimum_end_for_minimum_span (rg_start (br_selected b)))
                (rg_end (br_home b))))"

text \<open>The range that \<open>pan_by\<close> selects for a clamped \<open>delta\<close>.\<close>

definition panned_ends :: "brush \<Rightarrow> f64 \<Rightarrow> f64 \<times> f64" where
  "panned_ends b delta =
     (let s = fadd (rg_start (br_selected b)) delta;
          e = fadd (rg_end (br_selected b)) delta
      in if flt (fsub e s) min_brush_span
         then (if is_sign_negative delta
               then (s, fmin (minimum_end_for_minimum_span s) (rg_end (br_home b)))
               else (fmax (maximum_start_for_minimum_span e) (rg_start (br_home b)), e))
         else (s, e))"

definition pan_by :: "f64 \<Rightarrow> brush chart_op" where
  "pan_by delta b =
     (if \<not> is_finite delta then Some (Err CE_InvalidTransform, b)
      else map_option (\<lambda>d. let (s, e) = panned_ends b d in set_selected (axis_range_new s e) b)
             (fclamp delta (fsub (rg_start (br_home b)) (rg_start (br_selected b)))
                (fsub (rg_end (br_home b)) (rg_end (br_selected b)))))"

definition zoom_at :: "f64 \<Rightarrow> f64 \<Rightarrow> brush chart_op" where
  "zoom_at anchor factor b =
     (let home = br_home b; selected = br_selected b in
      if \<not> is_finite anchor \<or> \<not> is_finite factor \<or> fle factor fzero \<or>
         flt anchor (rg_start selected) \<or> flt (rg_end selected) anchor
      then Some (Err CE_InvalidTransform, b)
      else if feq factor (f64_of_int 1) then Some (Ok (), b)
      else (case fclamp (fdiv (rg_span selected) factor) min_brush_span (rg_span home) of
          None \<Rightarrow> None
        | Some width \<Rightarrow>
            if feq width (rg_span home) then Some (Ok (), b\<lparr>br_selected := home\<rparr>)
            else
              (let anchor_ratio = fdiv (fsub anchor (rg_start selected)) (rg_span selected);
                   latest_start = fmin (fsub (rg_end home) width) (maximum_start_for_minimum_span (rg_end home))
               in map_option (\<lambda>s.
                    (let e = fmin (fmax (fadd s width) (minimum_end_for_minimum_span s)) (rg_end home)
                     in set_selected (axis_range_new s e) b))
                    (fclamp (fsub anchor (fmul anchor_ratio width)) (rg_start home) latest_start))))"

definition brush_reset :: "brush \<Rightarrow> brush" where
  "brush_reset b = b\<lparr>br_selected := br_home b\<rparr>"

subsection \<open>The zoom state\<close>

record zoom_state =
  zs_home :: viewport
  zs_current :: viewport

definition zoom_state_new :: "viewport \<Rightarrow> zoom_state" where
  "zoom_state_new home = \<lparr>zs_home = home, zs_current = home\<rparr>"

definition set_current :: "(chart_error, viewport) res \<Rightarrow> zoom_state \<Rightarrow> (chart_error, unit) res \<times> zoom_state" where
  "set_current v z = (case v of Inl e \<Rightarrow> (Err e, z) | Inr w \<Rightarrow> (Ok (), z\<lparr>zs_current := w\<rparr>))"

definition zoom_state_pan_by :: "f64 \<Rightarrow> f64 \<Rightarrow> zoom_state \<Rightarrow> (chart_error, unit) res \<times> zoom_state" where
  "zoom_state_pan_by dx dy z =
     (if \<not> is_finite dx \<or> \<not> is_finite dy then (Err CE_InvalidTransform, z)
      else set_current
        (bind_r (axis_range_new (fadd (rg_start (vp_x (zs_current z))) dx) (fadd (rg_end (vp_x (zs_current z))) dx)) (\<lambda>x.
         bind_r (axis_range_new (fadd (rg_start (vp_y (zs_current z))) dy) (fadd (rg_end (vp_y (zs_current z))) dy)) (\<lambda>y.
         Ok \<lparr>vp_x = x, vp_y = y\<rparr>))) z)"

definition zoom_range :: "axis_range \<Rightarrow> f64 \<Rightarrow> f64 \<Rightarrow> (chart_error, axis_range) res" where
  "zoom_range r anchor factor =
     axis_range_new (fsub anchor (fdiv (fsub anchor (rg_start r)) factor))
                    (fadd anchor (fdiv (fsub (rg_end r) anchor) factor))"

definition zoom_state_zoom_at :: "data_point \<Rightarrow> f64 \<Rightarrow> zoom_state \<Rightarrow> (chart_error, unit) res \<times> zoom_state" where
  "zoom_state_zoom_at anchor factor z =
     (if \<not> is_finite (dp_x anchor) \<or> \<not> is_finite (dp_y anchor) \<or> \<not> is_finite factor \<or> fle factor fzero
      then (Err CE_InvalidTransform, z)
      else set_current
        (bind_r (zoom_range (vp_x (zs_current z)) (dp_x anchor) factor) (\<lambda>x.
         bind_r (zoom_range (vp_y (zs_current z)) (dp_y anchor) factor) (\<lambda>y.
         Ok \<lparr>vp_x = x, vp_y = y\<rparr>))) z)"

definition zoom_state_reset :: "zoom_state \<Rightarrow> zoom_state" where
  "zoom_state_reset z = z\<lparr>zs_current := zs_home z\<rparr>"

end
