(* ===== verification/Chart_Brush.thy ===== *)
theory Chart_Brush
  imports Chart_Interaction Float64_Neighbours
begin

section \<open>The brush stays inside its home range\<close>

text \<open>
  The viewer builds every home range from two axis values, non-negative integers. On such a home
  every pan and every zoom succeeds and keeps the selection inside it; a resize does so as long
  as the opposite handle is at least one unit away from the home's end, and panics otherwise. With
  handles on integral positions the brush is the brush on integers.
\<close>

subsection \<open>Ranges\<close>

definition wf_range :: "axis_range \<Rightarrow> bool" where
  "wf_range r \<longleftrightarrow> wf_f64 (rg_start r) \<and> wf_f64 (rg_end r) \<and> is_finite (rg_start r) \<and> is_finite (rg_end r) \<and>
     val (rg_start r) < val (rg_end r) \<and> is_finite (fsub (rg_end r) (rg_start r))"

lemma axis_range_new_Ok:
  "axis_range_new s e = Ok r \<Longrightarrow> wf_f64 s \<Longrightarrow> wf_f64 e \<Longrightarrow> r = \<lparr>rg_start = s, rg_end = e\<rparr> \<and> wf_range r"
  by (auto simp: axis_range_new_def wf_range_def fle_finite split: if_splits)

lemma axis_range_new_wf: "wf_range r \<Longrightarrow> axis_range_new (rg_start r) (rg_end r) = Ok r"
  by (simp add: wf_range_def axis_range_new_def fle_finite)

lemma axis_range_new_inside:
  assumes "wf_range h" and "wf_f64 s" "is_finite s" "wf_f64 e" "is_finite e"
    and "val (rg_start h) \<le> val s" "val s < val e" "val e \<le> val (rg_end h)"
  shows "axis_range_new s e = Ok \<lparr>rg_start = s, rg_end = e\<rparr>" and "wf_range \<lparr>rg_start = s, rg_end = e\<rparr>"
proof -
  let ?w = "fsub (rg_end h) (rg_start h)"
  have h: "is_finite (rg_start h)" "is_finite (rg_end h)" "is_finite ?w" using assms(1) by (simp_all add: wf_range_def)
  have f: "is_finite (fsub e s)"
  proof (cases "fsub e s")
    case (F_Inf b)
    obtain t n u m where es: "e = F_Fin t n" "s = F_Fin u m" using assms(3,5) by (cases e; cases s) auto
    obtain t' n' u' m' where he: "rg_end h = F_Fin t' n'" "rg_start h = F_Fin u' m'"
      using h by (cases "rg_end h"; cases "rg_start h") auto
    have le: "\<bar>val e - val s\<bar> \<le> \<bar>val (rg_end h) - val (rg_start h)\<bar>" using assms(6-8) by linarith
    have "round_mag \<bar>val (rg_end h) - val (rg_start h)\<bar> < f64_max_bound"
      using h(3) he by (auto simp: fsub_def round_to_def sval_def Let_def split: if_splits)
    then have "round_mag \<bar>val e - val s\<bar> < f64_max_bound" using round_mag_mono [OF le] by linarith
    then show ?thesis using es by (auto simp: fsub_def round_to_def sval_def Let_def split: if_splits)
  qed (use fsub_not_nan [OF assms(5,3)] in auto)
  show "axis_range_new s e = Ok \<lparr>rg_start = s, rg_end = e\<rparr>" "wf_range \<lparr>rg_start = s, rg_end = e\<rparr>"
    using assms f by (simp_all add: axis_range_new_def wf_range_def fle_finite)
qed

subsection \<open>The minimum span\<close>

lemma val_one [simp]: "val min_brush_span = 1" "is_finite min_brush_span" "wf_f64 min_brush_span"
  using f64_of_int_exact [of 1] by (simp_all add: min_brush_span_def)

text \<open>A coordinate of an axis on which \<open>f64\<close> represents every integer.\<close>

definition axis_coord :: "f64 \<Rightarrow> bool" where
  "axis_coord x \<longleftrightarrow> wf_f64 x \<and> is_finite x \<and> 0 \<le> val x \<and> val x \<le> 2 ^ 52"

lemma axis_coordD: "axis_coord x \<Longrightarrow> wf_f64 x" "axis_coord x \<Longrightarrow> is_finite x"
  "axis_coord x \<Longrightarrow> 0 \<le> val x" "axis_coord x \<Longrightarrow> val x \<le> 2 ^ 52"
  by (simp_all add: axis_coord_def)

definition axis_low :: f64 where "axis_low = f64_of_int (- 1)"
definition axis_high :: f64 where "axis_high = f64_of_int (2 ^ 53)"

lemma axis_limits [simp]: "wf_f64 axis_low" "is_finite axis_low" "val axis_low = - 1"
  "wf_f64 axis_high" "is_finite axis_high" "val axis_high = 2 ^ 53"
  using f64_of_int_exact [of "- 1"] f64_of_int_exact [of "2 ^ 53"] by (simp_all add: axis_low_def axis_high_def)

lemma flt_fle_trans: "flt x y \<Longrightarrow> fle y z \<Longrightarrow> flt x z"
  by (cases x; cases y; cases z) (auto simp: fle_def)

lemma fle_one_less:
  assumes "wf_f64 e" "is_finite e" "wf_f64 s" "is_finite s" and "fle min_brush_span (fsub e s)"
  shows "val s < val e"
proof -
  have "flt fzero min_brush_span" by (simp add: flt_finite)
  then have "flt fzero (fsub e s)" using assms(5) by (rule flt_fle_trans)
  then show ?thesis using fsub_sign(2) [OF assms(1-4)] by simp
qed

lemma max_start_coord:
  assumes "axis_coord e"
  defines "s \<equiv> maximum_start_for_minimum_span e"
  shows "wf_f64 s" "is_finite s" "val s < val e"
    and "\<And>b. wf_f64 b \<Longrightarrow> is_finite b \<Longrightarrow> val b \<le> val e - 1 \<Longrightarrow> val b \<le> val s"
proof -
  note e = axis_coordD [OF assms(1)]
  let ?t = "fsub e min_brush_span"
  have t: "is_finite ?t"
    using e by (intro fsub_between(1) [of e _ axis_low axis_high]) auto
  have d: "is_finite (next_down e)" "flt (next_down e) e"
    using next_down_greatest [of e axis_low] next_down_less [of e] e by simp_all
  show "wf_f64 s" using e by (simp add: s_def maximum_start_for_minimum_span_def Let_def)
  show fin: "is_finite s" using t d by (simp add: s_def maximum_start_for_minimum_span_def Let_def)
  show "val s < val e"
    using fle_one_less [OF e(1,2) wf_fsub t] d e(2)
    by (auto simp: s_def maximum_start_for_minimum_span_def Let_def flt_finite)
  fix b assume b: "wf_f64 b" "is_finite b" "val b \<le> val e - 1"
  have "val b \<le> val ?t" using b e by (intro fsub_between(2) [of e _ b e]) auto
  moreover have "val b \<le> val (next_down e)" using b e by (intro next_down_greatest(2)) auto
  ultimately show "val b \<le> val s" by (simp add: s_def maximum_start_for_minimum_span_def Let_def)
qed

lemma min_end_coord:
  assumes "axis_coord s"
  defines "e \<equiv> minimum_end_for_minimum_span s"
  shows "wf_f64 e" "is_finite e" "val s < val e"
    and "\<And>b. wf_f64 b \<Longrightarrow> is_finite b \<Longrightarrow> val s + 1 \<le> val b \<Longrightarrow> val e \<le> val b"
proof -
  note s = axis_coordD [OF assms(1)]
  let ?t = "fadd s min_brush_span"
  have t: "is_finite ?t"
    using s by (intro fadd_between(1) [of s _ axis_low axis_high]) auto
  have d: "is_finite (next_up s)" "flt s (next_up s)"
    using next_up_least [of s axis_high] next_up_greater [of s] s by simp_all
  show "wf_f64 e" using s by (simp add: e_def minimum_end_for_minimum_span_def Let_def)
  show fin: "is_finite e" using t d by (simp add: e_def minimum_end_for_minimum_span_def Let_def)
  show "val s < val e"
    using fle_one_less [OF wf_fadd t s(1,2)] d s(2)
    by (auto simp: e_def minimum_end_for_minimum_span_def Let_def flt_finite)
  fix b assume b: "wf_f64 b" "is_finite b" "val s + 1 \<le> val b"
  have "val ?t \<le> val b" using b s by (intro fadd_between(3) [of s _ s b]) auto
  moreover have "val (next_up s) \<le> val b" using b s by (intro next_up_least(2)) auto
  ultimately show "val e \<le> val b" by (simp add: e_def minimum_end_for_minimum_span_def Let_def)
qed

subsection \<open>The invariant\<close>

definition axis_home :: "axis_range \<Rightarrow> bool" where
  "axis_home r \<longleftrightarrow> wf_range r \<and> val (rg_start r) \<in> \<int> \<and> val (rg_end r) \<in> \<int> \<and>
     0 \<le> val (rg_start r) \<and> val (rg_end r) \<le> 2 ^ 52"

definition brush_ok :: "brush \<Rightarrow> bool" where
  "brush_ok b \<longleftrightarrow> axis_home (br_home b) \<and> wf_range (br_selected b) \<and>
     val (rg_start (br_home b)) \<le> val (rg_start (br_selected b)) \<and>
     val (rg_end (br_selected b)) \<le> val (rg_end (br_home b))"

text \<open>A call returns, keeps the invariant and the home range, and an error leaves the brush alone.\<close>

definition brush_stays :: "brush \<Rightarrow> ((chart_error, unit) res \<times> brush) option \<Rightarrow> bool" where
  "brush_stays b out \<longleftrightarrow> (case out of None \<Rightarrow> False
     | Some (r, b') \<Rightarrow> brush_ok b' \<and> br_home b' = br_home b \<and>
         (r = Ok () \<or> r = Err CE_InvalidTransform \<and> b' = b))"

lemma int_gap: "x \<in> \<int> \<Longrightarrow> y \<in> \<int> \<Longrightarrow> x < y \<Longrightarrow> x + 1 \<le> (y :: rat)"
proof -
  assume a: "x \<in> \<int>" "y \<in> \<int>" "x < y"
  obtain i j where ij: "x = of_int i" "y = of_int j" using a(1,2) by (auto elim!: Ints_cases)
  with a(3) have "i + 1 \<le> j" by simp
  then have "(of_int (i + 1) :: rat) \<le> of_int j" by (rule of_int_le_iff [THEN iffD2])
  then show ?thesis using ij by simp
qed

lemma axis_homeD:
  assumes "axis_home h"
  shows "wf_range h" "axis_coord (rg_start h)" "axis_coord (rg_end h)"
    and "val (rg_start h) + 1 \<le> val (rg_end h)"
  using assms int_gap [of "val (rg_start h)" "val (rg_end h)"]
  by (auto simp: axis_home_def axis_coord_def wf_range_def)

lemma brush_okD:
  assumes "brush_ok b"
  shows "axis_home (br_home b)" "wf_range (br_selected b)"
    "axis_coord (rg_start (br_selected b))" "axis_coord (rg_end (br_selected b))"
    "val (rg_start (br_home b)) \<le> val (rg_start (br_selected b))"
    "val (rg_start (br_selected b)) < val (rg_end (br_selected b))"
    "val (rg_end (br_selected b)) \<le> val (rg_end (br_home b))"
  using assms by (auto simp: brush_ok_def axis_home_def wf_range_def axis_coord_def)

lemma set_selected_inside:
  assumes "brush_ok b" and "wf_f64 s" "is_finite s" "wf_f64 e" "is_finite e"
    and "val (rg_start (br_home b)) \<le> val s" "val s < val e" "val e \<le> val (rg_end (br_home b))"
  shows "set_selected (axis_range_new s e) b = (Ok (), b\<lparr>br_selected := \<lparr>rg_start = s, rg_end = e\<rparr>\<rparr>)"
    and "brush_stays b (Some (set_selected (axis_range_new s e) b))"
proof -
  note home = axis_homeD [OF brush_okD(1) [OF assms(1)]]
  note r = axis_range_new_inside [OF home(1) assms(2-8)]
  show eq: "set_selected (axis_range_new s e) b = (Ok (), b\<lparr>br_selected := \<lparr>rg_start = s, rg_end = e\<rparr>\<rparr>)"
    using r(1) by (simp add: set_selected_def)
  show "brush_stays b (Some (set_selected (axis_range_new s e) b))"
    unfolding eq using r(2) brush_okD(1) [OF assms(1)] assms(6,8) by (simp add: brush_stays_def brush_ok_def)
qed

lemma brush_stays_error [simp]: "brush_ok b \<Longrightarrow> brush_stays b (Some (Err CE_InvalidTransform, b))"
  by (simp add: brush_stays_def)

lemma fclamp_finite:
  assumes "is_finite x" "is_finite lo" "is_finite hi" "val lo \<le> val hi"
  obtains y where "fclamp x lo hi = Some y" "is_finite y" "val lo \<le> val y" "val y \<le> val hi"
    "val y = max (val lo) (min (val x) (val hi))" "wf_f64 x \<Longrightarrow> wf_f64 lo \<Longrightarrow> wf_f64 hi \<Longrightarrow> wf_f64 y"
  using assms that [of "if flt x lo then lo else if flt hi x then hi else x"]
  by (auto simp: fclamp_def fle_finite flt_finite)

subsection \<open>Resizing\<close>

lemma resize_start_stays:
  assumes "brush_ok b" "wf_f64 p" and "val (rg_start (br_home b)) + 1 \<le> val (rg_end (br_selected b))"
  shows "brush_stays b (resize_start p b)"
proof (cases "is_finite p")
  case True
  note b = brush_okD [OF assms(1)]
  note home = axis_homeD [OF b(1)]
  let ?m = "maximum_start_for_minimum_span (rg_end (br_selected b))"
  note m = max_start_coord [OF b(4)]
  have "val (rg_start (br_home b)) \<le> val ?m"
    using assms(3) axis_coordD [OF home(2)] by (intro m(4)) auto
  then obtain y where y: "fclamp p (rg_start (br_home b)) ?m = Some y" "is_finite y"
      "val (rg_start (br_home b)) \<le> val y" "val y \<le> val ?m" "wf_f64 y"
    using fclamp_finite [of p "rg_start (br_home b)" ?m] True m(1,2) axis_coordD(1,2) [OF home(2)] assms(2) by metis
  then show ?thesis
    using set_selected_inside(2) [OF assms(1), of y "rg_end (br_selected b)"] True m(3) b(7) axis_coordD(1,2) [OF b(4)]
    by (simp add: resize_start_def)
qed (use assms in \<open>simp add: resize_start_def\<close>)

lemma resize_end_stays:
  assumes "brush_ok b" "wf_f64 p" and "val (rg_start (br_selected b)) + 1 \<le> val (rg_end (br_home b))"
  shows "brush_stays b (resize_end p b)"
proof (cases "is_finite p")
  case True
  note b = brush_okD [OF assms(1)]
  note home = axis_homeD [OF b(1)]
  let ?m = "minimum_end_for_minimum_span (rg_start (br_selected b))"
  note m = min_end_coord [OF b(3)]
  have "val ?m \<le> val (rg_end (br_home b))"
    using assms(3) axis_coordD [OF home(3)] by (intro m(4)) auto
  then obtain y where y: "fclamp p ?m (rg_end (br_home b)) = Some y" "is_finite y"
      "val ?m \<le> val y" "val y \<le> val (rg_end (br_home b))" "wf_f64 y"
    using fclamp_finite [of p ?m "rg_end (br_home b)"] True m(1,2) axis_coordD(1,2) [OF home(3)] assms(2) by metis
  then show ?thesis
    using set_selected_inside(2) [OF assms(1), of "rg_start (br_selected b)" y] True m(3) b(5) axis_coordD(1,2) [OF b(3)]
    by (simp add: resize_end_def)
qed (use assms in \<open>simp add: resize_end_def\<close>)

subsection \<open>Panning\<close>

lemma fmin_finite: "is_finite x \<Longrightarrow> is_finite y \<Longrightarrow> is_finite (fmin x y) \<and> val (fmin x y) = min (val x) (val y)"
  by (auto simp: fmin_def finite_not_nan flt_finite)

lemma fmax_finite: "is_finite x \<Longrightarrow> is_finite y \<Longrightarrow> is_finite (fmax x y) \<and> val (fmax x y) = max (val x) (val y)"
  by (auto simp: fmax_def finite_not_nan flt_finite)

lemma sign_val: "wf_f64 d \<Longrightarrow> is_finite d \<Longrightarrow> is_sign_negative d \<Longrightarrow> val d \<le> 0"
  "wf_f64 d \<Longrightarrow> is_finite d \<Longrightarrow> \<not> is_sign_negative d \<Longrightarrow> 0 \<le> val d"
  by (cases d; auto simp: is_sign_negative_def sval_def dest: representable_nonneg)+

text \<open>What \<open>delta\<close> is clamped to, and the two ends moved by it.\<close>

definition pan_limit :: "brush \<Rightarrow> f64 \<Rightarrow> bool" where
  "pan_limit b d \<longleftrightarrow> wf_f64 d \<and> is_finite d \<and>
     val (rg_start (br_home b)) - val (rg_start (br_selected b)) \<le> val d \<and>
     val d \<le> val (fsub (rg_end (br_home b)) (rg_end (br_selected b)))"

lemma axis_end_distance:
  assumes "brush_ok b"
  defines "h \<equiv> rg_end (br_home b)" and "e \<equiv> rg_end (br_selected b)"
  shows "is_finite (fsub h e)" "0 \<le> val (fsub h e)" "val (fsub h e) \<le> val h" "round_val (val e + val (fsub h e)) \<le> val h"
proof -
  note b = brush_okD [OF assms(1)]
  obtain n where n: "val h = of_int n" using b(1) by (auto simp: axis_home_def h_def elim: Ints_cases)
  note home = axis_homeD [OF b(1)]
  have "wf_f64 h" "is_finite h" "wf_f64 e" "is_finite e" "val h \<le> 2 ^ 52" "0 \<le> val e" "val e \<le> val h"
    using axis_coordD [OF home(3)] axis_coordD [OF b(4)] b(7) by (simp_all add: h_def e_def)
  from distance_above [OF this(1-4) n this(5-7)]
  show "is_finite (fsub h e)" "0 \<le> val (fsub h e)" "val (fsub h e) \<le> val h" "round_val (val e + val (fsub h e)) \<le> val h" .
qed

lemma axis_start_distance:
  assumes "brush_ok b"
  defines "h \<equiv> rg_start (br_home b)" and "s \<equiv> rg_start (br_selected b)"
  shows "is_finite (fsub h s)" "val (fsub h s) = val h - val s"
proof -
  note b = brush_okD [OF assms(1)]
  note home = axis_homeD [OF b(1)]
  obtain n where n: "val h = of_int n" using b(1) by (auto simp: axis_home_def h_def elim: Ints_cases)
  have c: "wf_f64 h" "is_finite h" "wf_f64 s" "is_finite s" "0 \<le> n" "of_int n \<le> val s" "val s \<le> 2 ^ 52"
    using axis_coordD [OF home(2)] axis_coordD [OF b(3)] b(5) n by (simp_all add: h_def s_def)
  from distance_below_exact [OF c(1-4) n c(5-7)]
  show "is_finite (fsub h s)" "val (fsub h s) = val h - val s" using n by simp_all
qed

lemma moved_ends:
  assumes "brush_ok b" and "pan_limit b d"
  defines "s \<equiv> fadd (rg_start (br_selected b)) d" and "e \<equiv> fadd (rg_end (br_selected b)) d"
  shows "axis_coord s" "axis_coord e" "val (rg_start (br_home b)) \<le> val s" "val e \<le> val (rg_end (br_home b))"
    and "0 \<le> val d \<Longrightarrow> val (rg_end (br_selected b)) \<le> val e" and "val d \<le> 0 \<Longrightarrow> val s \<le> val (rg_start (br_selected b))"
proof -
  note b = brush_okD [OF assms(1)]
  note home = axis_homeD [OF b(1)]
  note hc = axis_coordD [OF home(2)] axis_coordD [OF home(3)] and sc = axis_coordD [OF b(3)] axis_coordD [OF b(4)]
  have d: "wf_f64 d" "is_finite d"
      "val (rg_start (br_home b)) - val (rg_start (br_selected b)) \<le> val d"
      "val d \<le> val (fsub (rg_end (br_home b)) (rg_end (br_selected b)))"
    using assms(2) by (simp_all add: pan_limit_def)
  note far = axis_end_distance [OF assms(1)]
  have top: "(2::rat) ^ 52 + 2 ^ 52 = 2 ^ 53" by simp
  have sums: "val (rg_start (br_home b)) \<le> val (rg_start (br_selected b)) + val d"
      "val (rg_start (br_selected b)) + val d \<le> val (rg_end (br_selected b)) + val (fsub (rg_end (br_home b)) (rg_end (br_selected b)))"
      "val (rg_end (br_selected b)) + val d \<le> val (rg_end (br_selected b)) + val (fsub (rg_end (br_home b)) (rg_end (br_selected b)))"
      "val (rg_end (br_selected b)) + val d \<le> 2 ^ 53" "val (rg_start (br_selected b)) + val d \<le> 2 ^ 53"
    using d far(3) b(6) b(7) hc(8) top by linarith+
  have s: "is_finite s" "val (rg_start (br_home b)) \<le> val s"
    using fadd_between [of "rg_start (br_selected b)" d "rg_start (br_home b)" axis_high] sc hc d(2) sums by (simp_all add: s_def)
  have e: "is_finite e" "val (rg_start (br_home b)) \<le> val e"
    using fadd_between [of "rg_end (br_selected b)" d "rg_start (br_home b)" axis_high] sc hc d(2) sums b(6) by (simp_all add: e_def)
  have "val s = round_val (val (rg_start (br_selected b)) + val d)" "val e = round_val (val (rg_end (br_selected b)) + val d)"
    using s(1) e(1) sc d(2) by (simp_all add: s_def e_def val_fadd)
  then have le: "val s \<le> val (rg_end (br_home b))" "val e \<le> val (rg_end (br_home b))"
    using far(4) round_val_mono [OF sums(2)] round_val_mono [OF sums(3)] by linarith+
  show "axis_coord s" "axis_coord e" using s e le hc by (auto simp: axis_coord_def s_def e_def)
  show "val (rg_start (br_home b)) \<le> val s" "val e \<le> val (rg_end (br_home b))" using s le by simp_all
  show "0 \<le> val d \<Longrightarrow> val (rg_end (br_selected b)) \<le> val e"
    using fadd_between(2) [of "rg_end (br_selected b)" d "rg_end (br_selected b)" axis_high] sc d(2) sums(4) by (simp add: e_def)
  show "val d \<le> 0 \<Longrightarrow> val s \<le> val (rg_start (br_selected b))"
    using fadd_between(3) [of "rg_start (br_selected b)" d "rg_start (br_home b)" "rg_start (br_selected b)"] sc hc d(2) sums(1)
    by (simp add: s_def)
qed

lemma panned_ends_inside:
  assumes "brush_ok b" and "pan_limit b d" and "panned_ends b d = (s, e)"
  shows "wf_f64 s" "is_finite s" "wf_f64 e" "is_finite e" "val (rg_start (br_home b)) \<le> val s" "val s < val e"
    "val e \<le> val (rg_end (br_home b))"
proof -
  let ?s = "fadd (rg_start (br_selected b)) d" and ?e = "fadd (rg_end (br_selected b)) d"
  note m = moved_ends [OF assms(1,2)]
  note b = brush_okD [OF assms(1)]
  note home = axis_homeD [OF b(1)]
  note hc = axis_coordD [OF home(2)] axis_coordD [OF home(3)]
  note ms = axis_coordD [OF m(1)] and me = axis_coordD [OF m(2)]
  have d: "wf_f64 d" "is_finite d" using assms(2) by (simp_all add: pan_limit_def)
  have "wf_f64 s \<and> is_finite s \<and> wf_f64 e \<and> is_finite e \<and> val (rg_start (br_home b)) \<le> val s \<and> val s < val e \<and>
    val e \<le> val (rg_end (br_home b))"
  proof (cases "flt (fsub ?e ?s) min_brush_span")
    case False
    then have se: "s = ?s" "e = ?e" using assms(3) by (simp_all add: panned_ends_def)
    have "\<not> is_nan (fsub ?e ?s)" using ms(2) me(2) by (intro fsub_not_nan)
    then have "fle min_brush_span (fsub ?e ?s)"
      using False fle_total [of min_brush_span "fsub ?e ?s"] finite_not_nan [OF val_one(2)] by blast
    then have "val ?s < val ?e" using fle_one_less [OF me(1,2) ms(1,2)] by simp
    then show ?thesis using ms me m(3,4) se by simp
  next
    case narrow: True
    show ?thesis
    proof (cases "is_sign_negative d")
      case True
      have se: "s = ?s" "e = fmin (minimum_end_for_minimum_span ?s) (rg_end (br_home b))"
        using assms(3) narrow True by (auto simp: panned_ends_def Let_def)
      have "val ?s \<le> val (rg_start (br_selected b))" using m(6) sign_val(1) [OF d True] by simp
      then have "val ?s < val (rg_end (br_home b))" using b(6,7) by linarith
      then show ?thesis
        using min_end_coord(1-3) [OF m(1)] ms m(3) hc se fmin_finite [of "minimum_end_for_minimum_span ?s" "rg_end (br_home b)"]
        by auto
    next
      case False
      have se: "s = fmax (maximum_start_for_minimum_span ?e) (rg_start (br_home b))" "e = ?e"
        using assms(3) narrow False by (auto simp: panned_ends_def Let_def)
      have "val (rg_end (br_selected b)) \<le> val ?e" using m(5) sign_val(2) [OF d False] by simp
      then have "val (rg_start (br_home b)) < val ?e" using b(5,6) by linarith
      then show ?thesis
        using max_start_coord(1-3) [OF m(2)] me m(4) hc se fmax_finite [of "maximum_start_for_minimum_span ?e" "rg_start (br_home b)"]
        by auto
    qed
  qed
  then show "wf_f64 s" "is_finite s" "wf_f64 e" "is_finite e" "val (rg_start (br_home b)) \<le> val s" "val s < val e"
    "val e \<le> val (rg_end (br_home b))" by auto
qed

lemma pan_clamp:
  assumes "brush_ok b" "wf_f64 d" "is_finite d"
  obtains y where "fclamp d (fsub (rg_start (br_home b)) (rg_start (br_selected b)))
      (fsub (rg_end (br_home b)) (rg_end (br_selected b))) = Some y" "pan_limit b y"
    "val y = max (val (rg_start (br_home b)) - val (rg_start (br_selected b)))
       (min (val d) (val (fsub (rg_end (br_home b)) (rg_end (br_selected b)))))"
proof -
  note far = axis_end_distance [OF assms(1)] and near = axis_start_distance [OF assms(1)]
  have "val (fsub (rg_start (br_home b)) (rg_start (br_selected b))) \<le> val (fsub (rg_end (br_home b)) (rg_end (br_selected b)))"
    using near far(2) brush_okD(5) [OF assms(1)] by simp
  from fclamp_finite [OF assms(3) near(1) far(1) this] show ?thesis
    using that assms(2) near(2) by (fastforce simp: pan_limit_def)
qed

lemma pan_by_stays: "brush_ok b \<Longrightarrow> wf_f64 d \<Longrightarrow> brush_stays b (pan_by d b)"
proof (cases "is_finite d")
  case True
  assume a: "brush_ok b" "wf_f64 d"
  obtain y where y: "fclamp d (fsub (rg_start (br_home b)) (rg_start (br_selected b)))
      (fsub (rg_end (br_home b)) (rg_end (br_selected b))) = Some y" "pan_limit b y"
    using pan_clamp [OF a True] by blast
  obtain s e where se: "panned_ends b y = (s, e)" by fastforce
  show ?thesis
    using set_selected_inside(2) [OF a(1) panned_ends_inside [OF a(1) y(2) se]] True y(1) se by (simp add: pan_by_def)
qed (simp add: pan_by_def)

subsection \<open>Zooming\<close>

lemma fclamp_total:
  assumes "\<not> is_nan x" "wf_f64 x" "wf_f64 lo" "is_finite lo" "wf_f64 hi" "is_finite hi" "val lo \<le> val hi"
  obtains y where "fclamp x lo hi = Some y" "wf_f64 y" "is_finite y" "val lo \<le> val y" "val y \<le> val hi"
proof (cases x)
  case (F_Inf t)
  then have "fclamp x lo hi = Some (if t then lo else hi)"
    using assms by (cases lo; cases hi) (auto simp: fclamp_def fle_def)
  then show ?thesis using that [of "if t then lo else hi"] assms by auto
next
  case (F_Fin t m)
  then have "is_finite x" by simp
  from fclamp_finite [OF this assms(4,6,7)] show ?thesis using that assms(2,3,5) by metis
qed (use assms(1) in simp)

lemma fdiv_not_nan: "is_finite x \<Longrightarrow> is_finite y \<Longrightarrow> val y \<noteq> 0 \<Longrightarrow> \<not> is_nan (fdiv x y)"
  by (cases x; cases y) (auto simp: sval_def round_to_def Let_def split: if_splits)

lemma fmul_not_nan: "\<not> is_nan x \<Longrightarrow> is_finite y \<Longrightarrow> val y \<noteq> 0 \<Longrightarrow> \<not> is_nan (fmul x y)"
  by (cases x; cases y) (auto simp: sval_def round_to_def Let_def split: if_splits)

lemma fsub_finite_not_nan: "is_finite x \<Longrightarrow> \<not> is_nan y \<Longrightarrow> \<not> is_nan (fsub x y)"
  by (cases x; cases y) (auto simp: fsub_def round_to_def Let_def)

lemma home_span:
  assumes "axis_home h"
  shows "is_finite (rg_span h)" "val (rg_span h) = val (rg_end h) - val (rg_start h)" "1 \<le> val (rg_span h)"
proof -
  note home = axis_homeD [OF assms]
  note hc = axis_coordD [OF home(2)] axis_coordD [OF home(3)]
  obtain i j where ij: "val (rg_start h) = of_int i" "val (rg_end h) = of_int j"
    using assms by (auto simp: axis_home_def elim!: Ints_cases)
  have d: "val (rg_end h) - val (rg_start h) = of_int (j - i)" using ij by simp
  have "(of_int (j - i) :: rat) \<le> of_int (2 ^ 53)" "0 \<le> (of_int (j - i) :: rat)"
    using d hc home(4) by simp_all
  then have b: "\<bar>j - i\<bar> \<le> 2 ^ 53" by (simp only: of_int_le_iff of_int_0_le_iff)
  have e: "is_finite (rg_span h) \<and> val (rg_span h) = val (rg_end h) - val (rg_start h)"
    unfolding rg_span_def using fsub_exact [OF hc(6) hc(2)] representable_int [OF b] int_below_bound [OF b] d by simp
  then show "is_finite (rg_span h)" "val (rg_span h) = val (rg_end h) - val (rg_start h)" "1 \<le> val (rg_span h)"
    using home(4) by auto
qed

lemma latest_start_inside:
  assumes "brush_ok b" and "wf_f64 w" "is_finite w" "1 \<le> val w" "val w \<le> val (rg_span (br_home b))"
  defines "l \<equiv> fmin (fsub (rg_end (br_home b)) w) (maximum_start_for_minimum_span (rg_end (br_home b)))"
  shows "wf_f64 l" "is_finite l" "val (rg_start (br_home b)) \<le> val l" "val l < val (rg_end (br_home b))"
proof -
  note home = axis_homeD [OF brush_okD(1) [OF assms(1)]]
  note hc = axis_coordD [OF home(2)] axis_coordD [OF home(3)]
  note m = max_start_coord [OF home(3)]
  have w: "val (rg_start (br_home b)) \<le> val (rg_end (br_home b)) - val w"
    using home_span [OF brush_okD(1) [OF assms(1)]] assms(5) by simp
  have f: "is_finite (fsub (rg_end (br_home b)) w)" "val (rg_start (br_home b)) \<le> val (fsub (rg_end (br_home b)) w)"
    using fsub_between [of "rg_end (br_home b)" w "rg_start (br_home b)" "rg_end (br_home b)"] hc w assms(3,4) by simp_all
  have "val (rg_start (br_home b)) \<le> val (maximum_start_for_minimum_span (rg_end (br_home b)))"
    using hc home(4) by (intro m(4)) auto
  then show "wf_f64 l" "is_finite l" "val (rg_start (br_home b)) \<le> val l" "val l < val (rg_end (br_home b))"
    using f m(1-3) fmin_finite [OF f(1) m(2)] by (auto simp: l_def)
qed

lemma zoom_at_stays: "brush_ok b \<Longrightarrow> wf_f64 anchor \<Longrightarrow> wf_f64 factor \<Longrightarrow> brush_stays b (zoom_at anchor factor b)"
proof -
  assume a: "brush_ok b" "wf_f64 anchor" "wf_f64 factor"
  note b = brush_okD [OF a(1)]
  note home = axis_homeD [OF b(1)]
  note hc = axis_coordD [OF home(2)] axis_coordD [OF home(3)] and sc = axis_coordD [OF b(3)] axis_coordD [OF b(4)]
  let ?bad = "\<not> is_finite anchor \<or> \<not> is_finite factor \<or> fle factor fzero \<or>
         flt anchor (rg_start (br_selected b)) \<or> flt (rg_end (br_selected b)) anchor"
  let ?span = "rg_span (br_selected b)" and ?hspan = "rg_span (br_home b)"
  show "brush_stays b (zoom_at anchor factor b)"
  proof (cases "?bad \<or> feq factor (f64_of_int 1)")
    case True
    then show ?thesis using a(1) by (auto simp: zoom_at_def Let_def brush_stays_def)
  next
    case False
    then have good: "is_finite anchor" "is_finite factor" "val factor > 0"
        "val (rg_start (br_selected b)) \<le> val anchor" "val anchor \<le> val (rg_end (br_selected b))"
      using sc by (auto simp: fle_finite flt_finite not_le not_less)
    have span: "is_finite ?span" "flt fzero ?span"
      using b(2,6) fsub_sign(2) [OF sc(5,6,1,2)] by (simp_all add: wf_range_def rg_span_def)
    then have pos: "0 < val ?span" by (simp add: flt_finite)
    have hspan: "is_finite ?hspan" "wf_f64 ?hspan" "1 \<le> val ?hspan"
      using home_span [OF b(1)] by (simp_all add: rg_span_def)
    obtain w where w: "fclamp (fdiv ?span factor) min_brush_span ?hspan = Some w" "wf_f64 w" "is_finite w"
        "1 \<le> val w" "val w \<le> val ?hspan"
      using fclamp_total [of "fdiv ?span factor" min_brush_span ?hspan] fdiv_not_nan [OF span(1) good(2)] good(3) hspan
      by (metis less_irrefl val_one wf_fdiv)
    show ?thesis
    proof (cases "feq w ?hspan")
      case True
      have "brush_ok (b\<lparr>br_selected := br_home b\<rparr>)" using b(1) home(1) by (simp add: brush_ok_def)
      then show ?thesis using False True w(1) by (simp add: zoom_at_def Let_def brush_stays_def)
    next
      case narrower: False
      let ?ratio = "fdiv (fsub anchor (rg_start (br_selected b))) ?span"
      let ?latest = "fmin (fsub (rg_end (br_home b)) w) (maximum_start_for_minimum_span (rg_end (br_home b)))"
      note l = latest_start_inside [OF a(1) w(2-5)]
      have "is_finite (fsub anchor (rg_start (br_selected b)))"
        using good sc by (intro fsub_between(1) [of _ _ fzero "rg_end (br_selected b)"]) auto
      then have "\<not> is_nan ?ratio" using pos span(1) by (intro fdiv_not_nan) auto
      then have "\<not> is_nan (fmul ?ratio w)" using w(3,4) by (intro fmul_not_nan) auto
      then have "\<not> is_nan (fsub anchor (fmul ?ratio w))" using good(1) by (intro fsub_finite_not_nan)
      then obtain s where s: "fclamp (fsub anchor (fmul ?ratio w)) (rg_start (br_home b)) ?latest = Some s"
          "wf_f64 s" "is_finite s" "val (rg_start (br_home b)) \<le> val s" "val s \<le> val ?latest"
        using fclamp_total [of "fsub anchor (fmul ?ratio w)" "rg_start (br_home b)" ?latest] hc l by (metis wf_fsub)
      have coord: "axis_coord s" using s l(4) hc by (auto simp: axis_coord_def)
      note m = min_end_coord [OF coord]
      have top: "(2::rat) ^ 52 + 2 ^ 52 = 2 ^ 53" by simp
      have "val w \<le> 2 ^ 52" using w(5) home_span(2) [OF b(1)] hc by linarith
      then have "val s + val w \<le> 2 ^ 53" using axis_coordD(4) [OF coord] top by linarith
      then have f: "is_finite (fadd s w)"
        using s(3) w(3,4) axis_coordD(3) [OF coord] by (intro fadd_between(1) [of _ _ fzero axis_high]) auto
      let ?e = "fmin (fmax (fadd s w) (minimum_end_for_minimum_span s)) (rg_end (br_home b))"
      have mx: "is_finite (fmax (fadd s w) (minimum_end_for_minimum_span s))"
          "val s < val (fmax (fadd s w) (minimum_end_for_minimum_span s))"
        using fmax_finite [OF f m(2)] m(3) by auto
      have e: "wf_f64 ?e" "is_finite ?e" "val s < val ?e" "val ?e \<le> val (rg_end (br_home b))"
        using fmin_finite [OF mx(1) hc(6)] mx(2) m(1) s(5) l(4) hc(5) by auto
      have "zoom_at anchor factor b = Some (set_selected (axis_range_new s ?e) b)"
        using False narrower w(1) s(1) by (simp add: zoom_at_def Let_def)
      then show ?thesis using set_selected_inside(2) [OF a(1) s(2,3) e(1,2) s(4) e(3,4)] by simp
    qed
  qed
qed

subsection \<open>Interactions\<close>

datatype brush_action =
    Resize_Start f64
  | Resize_End f64
  | Pan f64
  | Zoom f64 f64
  | Reset

fun brush_act :: "brush_action \<Rightarrow> brush chart_op" where
  "brush_act (Resize_Start p) b = resize_start p b"
| "brush_act (Resize_End p) b = resize_end p b"
| "brush_act (Pan d) b = pan_by d b"
| "brush_act (Zoom anchor factor) b = zoom_at anchor factor b"
| "brush_act Reset b = Some (Ok (), brush_reset b)"

fun wf_action :: "brush_action \<Rightarrow> bool" where
  "wf_action (Resize_Start p) = wf_f64 p"
| "wf_action (Resize_End p) = wf_f64 p"
| "wf_action (Pan d) = wf_f64 d"
| "wf_action (Zoom anchor factor) = (wf_f64 anchor \<and> wf_f64 factor)"
| "wf_action Reset = True"

text \<open>The handle that is not moved leaves a unit of the home range to the one that is.\<close>

fun has_room :: "brush \<Rightarrow> brush_action \<Rightarrow> bool" where
  "has_room b (Resize_Start p) = (val (rg_start (br_home b)) + 1 \<le> val (rg_end (br_selected b)))"
| "has_room b (Resize_End p) = (val (rg_start (br_selected b)) + 1 \<le> val (rg_end (br_home b)))"
| "has_room b a = True"

lemma brush_reset_stays: "brush_ok b \<Longrightarrow> brush_stays b (Some (Ok (), brush_reset b))"
  using axis_homeD(1) by (auto simp: brush_stays_def brush_ok_def brush_reset_def)

lemma brush_act_stays:
  "brush_ok b \<Longrightarrow> wf_action a \<Longrightarrow> has_room b a \<Longrightarrow> brush_stays b (brush_act a b)"
  by (cases a) (simp_all add: resize_start_stays resize_end_stays pan_by_stays zoom_at_stays brush_reset_stays)

lemma brush_new_ok: "axis_home h \<Longrightarrow> brush_new h = Ok \<lparr>br_home = h, br_selected = h\<rparr> \<and> brush_ok \<lparr>br_home = h, br_selected = h\<rparr>"
  using home_span [of h] axis_homeD(1) [of h] by (simp add: brush_new_def flt_finite brush_ok_def)

subsection \<open>Integral positions\<close>

text \<open>The brush on integers: the home range is \<open>(a, b)\<close>.\<close>

datatype unit_action = U_Start int | U_End int | U_Pan int | U_Reset

fun unit_act :: "int \<Rightarrow> int \<Rightarrow> unit_action \<Rightarrow> int \<times> int \<Rightarrow> int \<times> int" where
  "unit_act a b (U_Start p) (x, y) = (max a (min p (y - 1)), y)"
| "unit_act a b (U_End p) (x, y) = (x, max (x + 1) (min p b))"
| "unit_act a b (U_Pan d) (x, y) = (let k = max (a - x) (min d (b - y)) in (x + k, y + k))"
| "unit_act a b U_Reset (x, y) = (a, b)"

fun small_action :: "unit_action \<Rightarrow> bool" where
  "small_action (U_Start p) = (\<bar>p\<bar> \<le> 2 ^ 52)"
| "small_action (U_End p) = (\<bar>p\<bar> \<le> 2 ^ 52)"
| "small_action (U_Pan d) = (\<bar>d\<bar> \<le> 2 ^ 52)"
| "small_action U_Reset = True"

fun unit_brush_action :: "unit_action \<Rightarrow> brush_action" where
  "unit_brush_action (U_Start p) = Resize_Start (f64_of_int p)"
| "unit_brush_action (U_End p) = Resize_End (f64_of_int p)"
| "unit_brush_action (U_Pan d) = Pan (f64_of_int d)"
| "unit_brush_action U_Reset = Reset"

text \<open>The brush \<open>w\<close> has the home range \<open>(a, b)\<close> and selects \<open>(x, y)\<close>.\<close>

definition unit_brush :: "int \<Rightarrow> int \<Rightarrow> int \<times> int \<Rightarrow> brush \<Rightarrow> bool" where
  "unit_brush a b xy w \<longleftrightarrow> brush_ok w \<and>
     val (rg_start (br_home w)) = of_int a \<and> val (rg_end (br_home w)) = of_int b \<and>
     val (rg_start (br_selected w)) = of_int (fst xy) \<and> val (rg_end (br_selected w)) = of_int (snd xy)"

lemma of_int_simps: "(of_int x :: rat) \<le> 2 ^ 52 \<longleftrightarrow> x \<le> 2 ^ 52" "(of_int x :: rat) + 1 \<le> of_int y \<longleftrightarrow> x + 1 \<le> y"
proof -
  have "(of_int x :: rat) \<le> of_int (2 ^ 52) \<longleftrightarrow> x \<le> 2 ^ 52" by (rule of_int_le_iff)
  then show "(of_int x :: rat) \<le> 2 ^ 52 \<longleftrightarrow> x \<le> 2 ^ 52" by simp
  have "(of_int (x + 1) :: rat) \<le> of_int y \<longleftrightarrow> x + 1 \<le> y" by (rule of_int_le_iff)
  then show "(of_int x :: rat) + 1 \<le> of_int y \<longleftrightarrow> x + 1 \<le> y" by simp
qed

lemma unit_brushD:
  assumes "unit_brush a b (x, y) w"
  shows "0 \<le> a" "a \<le> x" "x + 1 \<le> y" "y \<le> b" "b \<le> 2 ^ 52"
proof -
  have w: "brush_ok w" and v: "val (rg_start (br_home w)) = of_int a" "val (rg_end (br_home w)) = of_int b"
      "val (rg_start (br_selected w)) = of_int x" "val (rg_end (br_selected w)) = of_int y"
    using assms by (simp_all add: unit_brush_def)
  note h = axis_homeD [OF brush_okD(1) [OF w]]
  show "0 \<le> a" using axis_coordD(3) [OF h(2)] v by simp
  show "b \<le> 2 ^ 52" using axis_coordD(4) [OF h(3)] v by (simp add: of_int_simps)
  show "a \<le> x" "x + 1 \<le> y" "y \<le> b" using brush_okD(5-7) [OF w] v by simp_all
qed

lemma int_sum_exact:
  assumes "is_finite x" "is_finite y" "val x = of_int i" "val y = of_int j"
  shows "\<bar>i + j\<bar> \<le> 2 ^ 53 \<Longrightarrow> is_finite (fadd x y) \<and> val (fadd x y) = of_int (i + j)"
    and "\<bar>i - j\<bar> \<le> 2 ^ 53 \<Longrightarrow> is_finite (fsub x y) \<and> val (fsub x y) = of_int (i - j)"
  using fadd_exact [OF assms(1,2)] fsub_exact [OF assms(1,2)] assms(3,4)
    representable_int [of "i + j"] int_below_bound [of "i + j"] representable_int [of "i - j"] int_below_bound [of "i - j"]
  by simp_all

lemma max_start_unit:
  assumes "axis_coord e" "val e = of_int y"
  shows "val (maximum_start_for_minimum_span e) = of_int (y - 1)"
proof -
  note e = axis_coordD [OF assms(1)]
  have y: "0 \<le> y" "y \<le> 2 ^ 52" using e(3,4) assms(2) by (simp_all add: of_int_simps)
  have s: "is_finite (fsub e min_brush_span)" "val (fsub e min_brush_span) = of_int (y - 1)"
    using int_sum_exact(2) [OF e(2) val_one(2) assms(2), of 1] y by simp_all
  have "is_finite (fsub e (fsub e min_brush_span)) \<and> val (fsub e (fsub e min_brush_span)) = of_int (y - (y - 1))"
    using s by (intro int_sum_exact(2) [OF e(2) s(1) assms(2)]) auto
  then show ?thesis using s by (simp add: maximum_start_for_minimum_span_def Let_def fle_finite)
qed

lemma min_end_unit:
  assumes "axis_coord s" "val s = of_int x"
  shows "val (minimum_end_for_minimum_span s) = of_int (x + 1)"
proof -
  note s = axis_coordD [OF assms(1)]
  have x: "0 \<le> x" "x \<le> 2 ^ 52" using s(3,4) assms(2) by (simp_all add: of_int_simps)
  have e: "is_finite (fadd s min_brush_span)" "val (fadd s min_brush_span) = of_int (x + 1)"
    using int_sum_exact(1) [OF s(2) val_one(2) assms(2), of 1] x by simp_all
  have "is_finite (fsub (fadd s min_brush_span) s) \<and> val (fsub (fadd s min_brush_span) s) = of_int (x + 1 - x)"
    using e by (intro int_sum_exact(2) [OF e(1) s(2) _ assms(2)]) auto
  then show ?thesis using e by (simp add: minimum_end_for_minimum_span_def Let_def fle_finite)
qed

lemma small_value: "\<bar>p\<bar> \<le> 2 ^ 52 \<Longrightarrow> is_finite (f64_of_int p) \<and> val (f64_of_int p) = of_int p"
  using f64_of_int_exact [of p] by simp

lemma unit_resize_start:
  assumes "unit_brush a b (x, y) w" "\<bar>p\<bar> \<le> 2 ^ 52"
  shows "\<exists>w'. resize_start (f64_of_int p) w = Some (Ok (), w') \<and> unit_brush a b (max a (min p (y - 1)), y) w'"
proof -
  note u = unit_brushD [OF assms(1)]
  have w: "brush_ok w" and v: "val (rg_start (br_home w)) = of_int a" "val (rg_end (br_home w)) = of_int b"
      "val (rg_end (br_selected w)) = of_int y"
    using assms(1) by (simp_all add: unit_brush_def)
  note k = brush_okD [OF w]
  note hc = axis_coordD [OF axis_homeD(2) [OF k(1)]] and yc = axis_coordD [OF k(4)]
  note p = small_value [OF assms(2)]
  let ?m = "maximum_start_for_minimum_span (rg_end (br_selected w))"
  note m = max_start_coord(1,2) [OF k(4)] max_start_unit [OF k(4) v(3)]
  have "val (rg_start (br_home w)) \<le> val ?m" using u m(3) v by simp
  then obtain s where s: "fclamp (f64_of_int p) (rg_start (br_home w)) ?m = Some s" "is_finite s" "wf_f64 s"
      "val s = max (val (rg_start (br_home w))) (min (val (f64_of_int p)) (val ?m))"
    using fclamp_finite [of "f64_of_int p" "rg_start (br_home w)" ?m] p m(1,2) hc by (metis wf_f64_of_int)
  have vs: "val s = of_int (max a (min p (y - 1)))" using s(4) v(1) p m(3) by (simp only: of_int_max of_int_min)
  have le: "a \<le> max a (min p (y - 1))" "max a (min p (y - 1)) < y" using u by auto
  have "val (rg_start (br_home w)) \<le> val s" "val s < val (rg_end (br_selected w))" using vs v le by (simp_all only: of_int_le_iff of_int_less_iff)
  from set_selected_inside [OF w s(3,2) yc(1,2) this k(7)] show ?thesis
    using s(1) p v vs by (auto simp: resize_start_def unit_brush_def brush_stays_def)
qed

lemma unit_resize_end:
  assumes "unit_brush a b (x, y) w" "\<bar>p\<bar> \<le> 2 ^ 52"
  shows "\<exists>w'. resize_end (f64_of_int p) w = Some (Ok (), w') \<and> unit_brush a b (x, max (x + 1) (min p b)) w'"
proof -
  note u = unit_brushD [OF assms(1)]
  have w: "brush_ok w" and v: "val (rg_start (br_home w)) = of_int a" "val (rg_end (br_home w)) = of_int b"
      "val (rg_start (br_selected w)) = of_int x"
    using assms(1) by (simp_all add: unit_brush_def)
  note k = brush_okD [OF w]
  note hc = axis_coordD [OF axis_homeD(3) [OF k(1)]] and xc = axis_coordD [OF k(3)]
  note p = small_value [OF assms(2)]
  let ?m = "minimum_end_for_minimum_span (rg_start (br_selected w))"
  note m = min_end_coord(1,2) [OF k(3)] min_end_unit [OF k(3) v(3)]
  have "(of_int (x + 1) :: rat) \<le> of_int b" using u by (simp only: of_int_le_iff)
  then have "val ?m \<le> val (rg_end (br_home w))" using m(3) v by simp
  then obtain e where e: "fclamp (f64_of_int p) ?m (rg_end (br_home w)) = Some e" "is_finite e" "wf_f64 e"
      "val e = max (val ?m) (min (val (f64_of_int p)) (val (rg_end (br_home w))))"
    using fclamp_finite [of "f64_of_int p" ?m "rg_end (br_home w)"] p m(1,2) hc by (metis wf_f64_of_int)
  have ve: "val e = of_int (max (x + 1) (min p b))" using e(4) v(2) p m(3) by (simp only: of_int_max of_int_min)
  have le: "x < max (x + 1) (min p b)" "max (x + 1) (min p b) \<le> b" using u by auto
  have "val (rg_start (br_selected w)) < val e" "val e \<le> val (rg_end (br_home w))"
    using ve v le by (simp_all only: of_int_le_iff of_int_less_iff)
  from set_selected_inside [OF w xc(1,2) e(3,2) k(5) this] show ?thesis
    using e(1) p v ve by (auto simp: resize_end_def unit_brush_def brush_stays_def)
qed

lemma unit_pan_by:
  assumes "unit_brush a b (x, y) w" "\<bar>d\<bar> \<le> 2 ^ 52"
  defines "k \<equiv> max (a - x) (min d (b - y))"
  shows "\<exists>w'. pan_by (f64_of_int d) w = Some (Ok (), w') \<and> unit_brush a b (x + k, y + k) w'"
proof -
  note u = unit_brushD [OF assms(1)]
  have w: "brush_ok w" and v: "val (rg_start (br_home w)) = of_int a" "val (rg_end (br_home w)) = of_int b"
      "val (rg_start (br_selected w)) = of_int x" "val (rg_end (br_selected w)) = of_int y"
    using assms(1) by (simp_all add: unit_brush_def)
  note ok = brush_okD [OF w]
  note hc = axis_coordD [OF axis_homeD(3) [OF ok(1)]] and xc = axis_coordD [OF ok(3)] and yc = axis_coordD [OF ok(4)]
  note p = small_value [OF assms(2)]
  have far: "val (fsub (rg_end (br_home w)) (rg_end (br_selected w))) = of_int (b - y)"
    using int_sum_exact(2) [OF hc(2) yc(2) v(2,4)] u by simp
  obtain q where q: "fclamp (f64_of_int d) (fsub (rg_start (br_home w)) (rg_start (br_selected w)))
      (fsub (rg_end (br_home w)) (rg_end (br_selected w))) = Some q" "pan_limit w q"
    "val q = max (val (rg_start (br_home w)) - val (rg_start (br_selected w)))
       (min (val (f64_of_int d)) (val (fsub (rg_end (br_home w)) (rg_end (br_selected w)))))"
    using pan_clamp [OF w _ conjunct1 [OF p]] by auto
  have vq: "val q = of_int k" using q(3) far p v by (simp only: k_def of_int_max of_int_min of_int_diff)
  have fq: "is_finite q" using q(2) by (simp add: pan_limit_def)
  have kb: "a \<le> x + k" "y + k \<le> b" using u by (auto simp: k_def)
  have s: "is_finite (fadd (rg_start (br_selected w)) q) \<and> val (fadd (rg_start (br_selected w)) q) = of_int (x + k)"
    using kb u by (intro int_sum_exact(1) [OF xc(2) fq v(3) vq]) auto
  have e: "is_finite (fadd (rg_end (br_selected w)) q) \<and> val (fadd (rg_end (br_selected w)) q) = of_int (y + k)"
    using kb u by (intro int_sum_exact(1) [OF yc(2) fq v(4) vq]) auto
  let ?s = "fadd (rg_start (br_selected w)) q" and ?e = "fadd (rg_end (br_selected w)) q"
  have "is_finite (fsub ?e ?s) \<and> val (fsub ?e ?s) = of_int (y + k - (x + k))"
    using s e kb u by (intro int_sum_exact(2)) auto
  then have "\<not> flt (fsub ?e ?s) min_brush_span" using u by (simp add: flt_finite not_less)
  then have pe: "panned_ends w q = (?s, ?e)" by (simp add: panned_ends_def)
  from set_selected_inside [OF w panned_ends_inside [OF w q(2) pe]] show ?thesis
    using q(1) p pe s e v by (auto simp: pan_by_def unit_brush_def brush_stays_def)
qed

lemma unit_act_step:
  assumes "unit_brush a b xy w" "small_action u"
  shows "\<exists>w'. brush_act (unit_brush_action u) w = Some (Ok (), w') \<and> unit_brush a b (unit_act a b u xy) w'"
proof (cases xy)
  case (Pair x y)
  then have w: "unit_brush a b (x, y) w" using assms(1) by simp
  show ?thesis
  proof (cases u)
    case U_Reset
    then show ?thesis
      using w brush_reset_stays [of w] by (simp add: Pair unit_brush_def brush_stays_def brush_reset_def)
  qed (use assms(2) unit_resize_start [OF w] unit_resize_end [OF w] unit_pan_by [OF w] in \<open>simp_all add: Pair Let_def\<close>)
qed

text \<open>A sequence of interactions; like the viewer it ignores the errors, and ends at a panic.\<close>

fun run_actions :: "brush_action list \<Rightarrow> brush \<Rightarrow> brush option" where
  "run_actions [] b = Some b"
| "run_actions (a # rest) b = (case brush_act a b of None \<Rightarrow> None | Some (r, b') \<Rightarrow> run_actions rest b')"

lemma unit_run:
  "unit_brush a b xy w \<Longrightarrow> list_all small_action us \<Longrightarrow>
   \<exists>w'. run_actions (map unit_brush_action us) w = Some w' \<and> unit_brush a b (foldl (\<lambda>xy u. unit_act a b u xy) xy us) w'"
proof (induction us arbitrary: xy w)
  case (Cons u us)
  then obtain w1 where w1: "brush_act (unit_brush_action u) w = Some (Ok (), w1)" "unit_brush a b (unit_act a b u xy) w1"
    using unit_act_step [of a b xy w u] by auto
  then show ?case using Cons.IH [OF w1(2)] Cons.prems(2) by simp
qed simp

subsection \<open>Properties\<close>

definition sample_home :: axis_range where
  "sample_home = \<lparr>rg_start = f64_of_int 0, rg_end = f64_of_int 10\<rparr>"

definition sample_brush :: brush where
  "sample_brush = \<lparr>br_home = sample_home, br_selected = sample_home\<rparr>"

lemma sample_values: "is_finite (f64_of_int 0)" "val (f64_of_int 0) = 0" "is_finite (f64_of_int 10)" "val (f64_of_int 10) = 10"
  using f64_of_int_exact [of 0] f64_of_int_exact [of 10] by simp_all

lemma sample_axis_home: "axis_home sample_home"
proof -
  have "is_finite (fsub (f64_of_int 10) (f64_of_int 0))"
    using int_sum_exact(2) [of "f64_of_int 10" "f64_of_int 0" 10 0] sample_values by simp
  then show ?thesis using sample_values by (simp add: axis_home_def wf_range_def sample_home_def)
qed

lemma sample_brush_ok: "brush_ok sample_brush" and sample_brush_unit: "unit_brush 0 10 (0, 10) sample_brush"
  using brush_new_ok [OF sample_axis_home] sample_values
  by (simp_all add: sample_brush_def unit_brush_def) (simp_all add: sample_home_def)



text \<open>With positions and deltas on integers up to \<open>2 ^ 52\<close>, any sequence of resizes, pans and resets of the
  brush returns and selects exactly what the brush on integers selects: resizes clamp at the home
  range and one unit before the other handle, pans keep the width, and the selection never gets
  narrower than a unit.
\<close>

theorem brush_exact_on_units:
  assumes "unit_brush a b xy w" and "list_all small_action us"
  shows "\<exists>w' x y. run_actions (map unit_brush_action us) w = Some w' \<and>
    foldl (\<lambda>xy u. unit_act a b u xy) xy us = (x, y) \<and> unit_brush a b (x, y) w' \<and>
    val (rg_start (br_selected w')) = of_int x \<and> val (rg_end (br_selected w')) = of_int y \<and>
    a \<le> x \<and> x + 1 \<le> y \<and> y \<le> b"
proof -
  obtain x y where xy: "foldl (\<lambda>xy u. unit_act a b u xy) xy us = (x, y)" by fastforce
  obtain w' where w': "run_actions (map unit_brush_action us) w = Some w'" "unit_brush a b (x, y) w'"
    using unit_run [OF assms] xy by auto
  then show ?thesis using xy unit_brushD [OF w'(2)] by (auto simp: unit_brush_def)
qed

theorem brush_exact_on_units_witness:
  "\<exists>w'. run_actions (map unit_brush_action [U_Start 4, U_End 8, U_Pan 20, U_Start 20]) sample_brush = Some w' \<and>
     val (rg_start (br_selected w')) = 9 \<and> val (rg_end (br_selected w')) = 10"
  using brush_exact_on_units [OF sample_brush_unit, of "[U_Start 4, U_End 8, U_Pan 20, U_Start 20]"] by fastforce

end
