(* ===== verification/Chart_Series.thy ===== *)
theory Chart_Series
  imports Chart_Brush
begin

section \<open>Visible parts of a series, hit testing and cached paths\<close>

text \<open>
  The points of a series are ordered, so the two partition points delimit exactly the points in the
  range. From this follow the visible window, the padded vertical range, the nearest point under
  the cursor, and that the cache of paths never shows.
\<close>

subsection \<open>Ordered series\<close>

definition finite_point :: "data_point \<Rightarrow> bool" where
  "finite_point p \<longleftrightarrow> is_finite (dp_x p) \<and> is_finite (dp_y p)"

definition x_ordered :: "data_point \<Rightarrow> data_point \<Rightarrow> bool" where
  "x_ordered p q \<longleftrightarrow> val (dp_x p) \<le> val (dp_x q)"

definition wf_series :: "series \<Rightarrow> bool" where
  "wf_series s \<longleftrightarrow> (\<forall>p \<in> set (se_points s). finite_point p \<and> wf_f64 (dp_x p) \<and> wf_f64 (dp_y p)) \<and>
     sorted_wrt x_ordered (se_points s)"

lemma check_points_Ok:
  "check_points i previous ps = Ok u \<Longrightarrow> (\<forall>b. previous = Some b \<longrightarrow> finite_point b) \<Longrightarrow>
   (\<forall>p \<in> set ps. finite_point p) \<and> sorted_wrt x_ordered ((case previous of None \<Rightarrow> [] | Some b \<Rightarrow> [b]) @ ps)"
proof (induction i previous ps rule: check_points.induct)
  case (1 i previous)
  then show ?case by (simp split: option.splits)
next
  case (2 i previous p ps)
  have fin: "\<not> (\<not> is_finite (dp_x p) \<or> \<not> is_finite (dp_y p))"
    and lt: "\<not> (case previous of None \<Rightarrow> False | Some b \<Rightarrow> flt (dp_x p) (dp_x b))"
    and rec: "check_points (i + 1) (Some p) ps = Ok u"
    using "2.prems"(1) by (auto split: if_splits)
  have p: "finite_point p" using fin by (simp add: finite_point_def)
  have rest: "(\<forall>q \<in> set ps. finite_point q) \<and> sorted_wrt x_ordered ([p] @ ps)"
    using "2.IH" [OF fin lt rec] p by simp
  have order: "x_ordered b p" if "previous = Some b" for b
    using lt that "2.prems"(2) p by (simp add: x_ordered_def finite_point_def flt_finite not_less)
  show ?case
  proof (cases previous)
    case (Some b)
    have "x_ordered b q" if "q \<in> set ps" for q
      using order [OF Some] rest that by (auto simp: x_ordered_def intro: order_trans)
    then show ?thesis using p order [OF Some] rest Some by simp
  qed (use p rest in simp)
qed

lemma series_new_wf:
  "series_new i ps = Ok s \<Longrightarrow> (\<forall>p \<in> set ps. wf_f64 (dp_x p) \<and> wf_f64 (dp_y p)) \<Longrightarrow>
   wf_series s \<and> se_id s = i \<and> se_points s = ps"
proof -
  assume a: "series_new i ps = Ok s" "\<forall>p \<in> set ps. wf_f64 (dp_x p) \<and> wf_f64 (dp_y p)"
  then obtain u where u: "check_points 0 None ps = Ok u" "s = \<lparr>se_id = i, se_points = ps\<rparr>"
    by (cases "check_points 0 None ps") (auto simp: series_new_def)
  then show ?thesis using check_points_Ok [OF u(1)] a(2) by (simp add: wf_series_def)
qed

subsection \<open>Partition points\<close>

lemma takeWhile_partitioned:
  "sorted_wrt R xs \<Longrightarrow> (\<And>x y. R x y \<Longrightarrow> P y \<Longrightarrow> P x) \<Longrightarrow> takeWhile P xs = filter P xs"
proof (induction xs)
  case (Cons x xs)
  show ?case
  proof (cases "P x")
    case True
    then show ?thesis using Cons by simp
  next
    case False
    then have "filter P xs = []" using Cons.prems by (auto simp: filter_empty_conv)
    with False show ?thesis by simp
  qed
qed simp

definition left_of :: "axis_range \<Rightarrow> data_point \<Rightarrow> bool" where
  "left_of r p \<longleftrightarrow> val (dp_x p) < val (rg_start r)"

definition in_range :: "axis_range \<Rightarrow> data_point \<Rightarrow> bool" where
  "in_range r p \<longleftrightarrow> val (rg_start r) \<le> val (dp_x p) \<and> val (dp_x p) \<le> val (rg_end r)"

definition right_of :: "axis_range \<Rightarrow> data_point \<Rightarrow> bool" where
  "right_of r p \<longleftrightarrow> val (rg_end r) < val (dp_x p)"

lemma three_parts:
  "sorted_wrt x_ordered ps \<Longrightarrow> val (rg_start r) < val (rg_end r) \<Longrightarrow>
   ps = filter (left_of r) ps @ filter (in_range r) ps @ filter (right_of r) ps"
proof (induction ps)
  case (Cons p ps)
  then have IH: "ps = filter (left_of r) ps @ filter (in_range r) ps @ filter (right_of r) ps" by simp
  have le: "\<forall>q \<in> set ps. x_ordered p q" using Cons.prems(1) by simp
  consider "left_of r p" | "in_range r p" | "right_of r p"
    unfolding left_of_def in_range_def right_of_def by fastforce
  then show ?case
  proof cases
    case 1
    then have "\<not> in_range r p" "\<not> right_of r p" using Cons.prems(2) by (auto simp: left_of_def in_range_def right_of_def)
    then show ?thesis using 1 IH by simp
  next
    case 2
    then have "filter (left_of r) ps = []" using le by (fastforce simp: filter_empty_conv left_of_def in_range_def x_ordered_def)
    moreover have "\<not> left_of r p" "\<not> right_of r p" using 2 by (auto simp: left_of_def in_range_def right_of_def)
    ultimately show ?thesis using 2 IH by simp
  next
    case 3
    then have "filter (left_of r) ps = []" "filter (in_range r) ps = []"
      using le Cons.prems(2) by (fastforce simp: filter_empty_conv left_of_def in_range_def right_of_def x_ordered_def)+
    moreover have "\<not> left_of r p" "\<not> in_range r p" using 3 Cons.prems(2) by (auto simp: left_of_def in_range_def right_of_def)
    ultimately show ?thesis using 3 IH by simp
  qed
qed simp

lemma partition_points:
  assumes "wf_series s" and "wf_range r"
  shows "first_visible (se_points s) r = length (filter (left_of r) (se_points s))"
    and "after_visible (se_points s) r = length (filter (left_of r) (se_points s)) + length (filter (in_range r) (se_points s))"
proof -
  let ?ps = "se_points s"
  have sorted: "sorted_wrt x_ordered ?ps" and fin: "\<forall>p \<in> set ?ps. is_finite (dp_x p)"
    using assms(1) by (auto simp: wf_series_def finite_point_def)
  have r: "is_finite (rg_start r)" "is_finite (rg_end r)" "val (rg_start r) < val (rg_end r)"
    using assms(2) by (simp_all add: wf_range_def)
  have count: "length (filter (\<lambda>p. \<not> right_of r p) qs) = length (filter (left_of r) qs) + length (filter (in_range r) qs)" for qs
    using r(3) by (induction qs) (auto simp: left_of_def in_range_def right_of_def)
  have "takeWhile (\<lambda>p. flt (dp_x p) (rg_start r)) ?ps = takeWhile (left_of r) ?ps"
    using fin r by (intro takeWhile_cong) (auto simp: left_of_def flt_finite)
  also have "\<dots> = filter (left_of r) ?ps"
    using sorted by (rule takeWhile_partitioned) (auto simp: left_of_def x_ordered_def)
  finally show "first_visible ?ps r = length (filter (left_of r) ?ps)"
    by (simp add: first_visible_def partition_point_def)
  have "takeWhile (\<lambda>p. fle (dp_x p) (rg_end r)) ?ps = takeWhile (\<lambda>p. \<not> right_of r p) ?ps"
    using fin r by (intro takeWhile_cong) (auto simp: right_of_def fle_finite)
  also have "\<dots> = filter (\<lambda>p. \<not> right_of r p) ?ps"
    using sorted by (rule takeWhile_partitioned) (auto simp: right_of_def x_ordered_def)
  also have "length \<dots> = length (filter (left_of r) ?ps) + length (filter (in_range r) ?ps)"
    by (rule count)
  finally show "after_visible ?ps r = length (filter (left_of r) ?ps) + length (filter (in_range r) ?ps)"
    by (simp add: after_visible_def partition_point_def)
qed

lemma slice_in_range:
  assumes "wf_series s" and "wf_range r"
  shows "slice (se_points s) (first_visible (se_points s) r) (after_visible (se_points s) r)
    = Some (filter (in_range r) (se_points s))"
proof -
  have eq: "se_points s = filter (left_of r) (se_points s) @ filter (in_range r) (se_points s) @ filter (right_of r) (se_points s)"
    using three_parts assms by (simp add: wf_series_def wf_range_def)
  then obtain l m n where lmn: "se_points s = l @ m @ n" "l = filter (left_of r) (se_points s)"
      "m = filter (in_range r) (se_points s)" by blast
  then show ?thesis unfolding partition_points [OF assms] slice_def lmn(2,3) [symmetric] by simp
qed

lemma filter_full_length: "length (filter P xs) = length xs \<longleftrightarrow> filter P xs = xs"
proof (induction xs)
  case (Cons x xs)
  have "length (filter P xs) \<noteq> Suc (length xs)" by (metis length_filter_le Suc_n_not_le_n)
  moreover from this have "filter P xs \<noteq> x # xs" by (metis length_Cons)
  ultimately show ?case using Cons by simp
qed simp

lemma visible_points_window:
  assumes "wf_series s" and "wf_range r"
  defines "l \<equiv> filter (left_of r) (se_points s)" and "n \<equiv> filter (right_of r) (se_points s)"
  shows "visible_points s r = Some (if l = se_points s \<or> n = se_points s then []
     else drop (length l - 1) l @ filter (in_range r) (se_points s) @ take 1 n)"
proof -
  obtain m where m: "m = filter (in_range r) (se_points s)" by simp
  have eq: "se_points s = l @ m @ n"
    using three_parts assms by (simp add: wf_series_def wf_range_def m)
  have f: "first_visible (se_points s) r = length l" "after_visible (se_points s) r = length l + length m"
    using partition_points [OF assms(1,2)] by (simp_all add: l_def m)
  have l: "length l = length (se_points s) \<longleftrightarrow> l = se_points s"
    unfolding l_def by (rule filter_full_length)
  have n: "length l + length m = 0 \<longleftrightarrow> n = se_points s" unfolding eq by auto
  show ?thesis
  proof (cases "l = se_points s \<or> n = se_points s")
    case True
    then show ?thesis using f l n by (auto simp: visible_points_def Let_def)
  next
    case False
    have "slice (se_points s) (length l - 1) (min (length l + length m + 1) (length (se_points s)))
        = Some (drop (length l - 1) l @ m @ take 1 n)"
      unfolding eq by (cases n) (auto simp: slice_def)
    then show ?thesis using False l n unfolding visible_points_def Let_def f m [symmetric] by auto
  qed
qed

subsection \<open>The vertical range\<close>

definition inside_points :: "series list \<Rightarrow> axis_range \<Rightarrow> data_point list" where
  "inside_points ss r = concat (map (\<lambda>s. filter (in_range r) (se_points s)) ss)"

lemma y_bounds_fold:
  "list_all wf_series ss \<Longrightarrow> wf_range r \<Longrightarrow> y_bounds ss r b = Some (fold widen (inside_points ss r) b)"
  by (induction ss arbitrary: b) (simp_all add: inside_points_def slice_in_range)

definition ok_bound :: "f64 \<Rightarrow> bool" where
  "ok_bound x \<longleftrightarrow> wf_f64 x \<and> is_finite x"

abbreviation y_values :: "data_point list \<Rightarrow> rat list" where
  "y_values ps \<equiv> map (\<lambda>p. val (dp_y p)) ps"

lemma widen_step:
  assumes "ok_bound lo" "ok_bound hi" "ok_bound (dp_y p)"
  obtains lo' hi' where "widen p (Some (lo, hi)) = Some (lo', hi')" "ok_bound lo'" "ok_bound hi'"
    "val lo' = min (val (dp_y p)) (val lo)" "val hi' = max (val (dp_y p)) (val hi)"
  using assms that [of "fmin lo (dp_y p)" "fmax hi (dp_y p)"]
    fmin_finite [of lo "dp_y p"] fmax_finite [of hi "dp_y p"]
  by (simp add: ok_bound_def widen_def min.commute max.commute)

lemma fold_widen_Some:
  "ok_bound lo \<Longrightarrow> ok_bound hi \<Longrightarrow> list_all (\<lambda>p. ok_bound (dp_y p)) ps \<Longrightarrow>
   \<exists>lo' hi'. fold widen ps (Some (lo, hi)) = Some (lo', hi') \<and> ok_bound lo' \<and> ok_bound hi' \<and>
     val lo' = fold min (y_values ps) (val lo) \<and> val hi' = fold max (y_values ps) (val hi)"
proof (induction ps arbitrary: lo hi)
  case (Cons p ps)
  obtain lo1 hi1 where w: "widen p (Some (lo, hi)) = Some (lo1, hi1)" "ok_bound lo1" "ok_bound hi1"
      "val lo1 = min (val (dp_y p)) (val lo)" "val hi1 = max (val (dp_y p)) (val hi)"
    using widen_step [of lo hi p] Cons.prems by auto
  have "list_all (\<lambda>p. ok_bound (dp_y p)) ps" using Cons.prems(3) by simp
  from Cons.IH [OF w(2,3) this] show ?case by (simp add: w(1) w(4) [symmetric] w(5) [symmetric])
qed simp

text \<open>The bounds of a non-empty list of points are the least and the greatest of its values.\<close>

lemma fold_widen_bounds:
  assumes "ps \<noteq> []" and "list_all (\<lambda>p. ok_bound (dp_y p)) ps"
  obtains lo hi where "fold widen ps None = Some (lo, hi)" "ok_bound lo" "ok_bound hi"
    "val lo = Min (set (y_values ps))" "val hi = Max (set (y_values ps))"
proof -
  obtain p qs where ps: "ps = p # qs" using assms(1) by (cases ps) auto
  then have p: "ok_bound (dp_y p)" "list_all (\<lambda>p. ok_bound (dp_y p)) qs" using assms(2) by simp_all
  from fold_widen_Some [OF p(1) p(1) p(2)] obtain lo hi where
    f: "fold widen qs (Some (dp_y p, dp_y p)) = Some (lo, hi)" "ok_bound lo" "ok_bound hi"
      "val lo = fold min (y_values qs) (val (dp_y p))" "val hi = fold max (y_values qs) (val (dp_y p))" by blast
  show ?thesis
    using f ps by (intro that [of lo hi]) (simp_all add: widen_def Min.set_eq_fold [symmetric] Max.set_eq_fold [symmetric])
qed

text \<open>Both padded ends are strictly outside the bounds; only an overflow is an error.\<close>

lemma padded_range_result:
  assumes "ok_bound lo" "ok_bound hi" "val lo \<le> val hi"
  shows "padded_range lo hi = Err CE_InvalidRange \<or>
    (\<exists>rg. padded_range lo hi = Ok rg \<and> wf_range rg \<and> val (rg_start rg) < val lo \<and> val hi < val (rg_end rg))"
proof -
  have lo: "wf_f64 lo" "is_finite lo" and hi: "wf_f64 hi" "is_finite hi" using assms by (simp_all add: ok_bound_def)
  define pad where "pad = (if feq lo hi then fmax (fmul (fabs lo) y_range_padding_fraction) min_constant_y_padding
                     else fmul (fsub hi lo) y_range_padding_fraction)"
  define s where "s = (if flt (fsub lo pad) lo then fsub lo pad else next_down lo)"
  define e where "e = (if flt hi (fadd hi pad) then fadd hi pad else next_up hi)"
  have eq: "padded_range lo hi = axis_range_new s e" by (simp add: padded_range_def Let_def pad_def s_def e_def)
  have wf: "wf_f64 s" "wf_f64 e" using lo hi by (simp_all add: s_def e_def)
  have out: "flt s lo" "flt hi e" using next_down_less [OF lo] next_up_greater [OF hi] by (simp_all add: s_def e_def)
  show ?thesis
  proof (cases "axis_range_new s e")
    case (Inl err)
    then show ?thesis using eq by (auto simp: axis_range_new_def split: if_splits)
  next
    case (Inr rg)
    then have "rg = \<lparr>rg_start = s, rg_end = e\<rparr>" "wf_range rg" using axis_range_new_Ok [OF Inr wf] by auto
    then show ?thesis using eq Inr out lo(2) hi(2) by (auto simp: wf_range_def flt_finite)
  qed
qed

text \<open>Multiples of a large power of two bound every intermediate value.\<close>

definition large :: rat where "large = 2 powi 1000"

definition big :: "int \<Rightarrow> f64" where "big n = F_Fin (n < 0) (of_int \<bar>n\<bar> * large)"

lemma large_pos: "1 \<le> large"
  using powi_two_mono [of 0 1000] by (simp add: large_def)

lemma big_values:
  assumes "\<bar>n\<bar> \<le> 16"
  shows "wf_f64 (big n)" "is_finite (big n)" "val (big n) = of_int n * large"
proof -
  have "(of_int \<bar>n\<bar> :: rat) \<le> of_int 16" using assms by (rule of_int_le_iff [THEN iffD2])
  then have "of_int \<bar>n\<bar> * large \<le> of_int 16 * large" using large_pos by (intro mult_right_mono) auto
  also have "of_int 16 * large = 2 powi 1004" by (simp add: large_def)
  also have "\<dots> < f64_max_bound" unfolding f64_max_bound_def by (simp only: powi_two_less_iff)
  finally have "of_int \<bar>n\<bar> * large < f64_max_bound" .
  moreover have "representable (of_int \<bar>n\<bar> * large)"
    unfolding large_def using assms by (intro representable_scaled) auto
  ultimately show "wf_f64 (big n)" by (simp add: big_def)
  show "is_finite (big n)" "val (big n) = of_int n * large" by (auto simp: big_def sval_def)
qed

lemma fmul_between:
  assumes "is_finite x" "is_finite y" "ok_bound lo" "ok_bound hi"
    and "val lo \<le> val x * val y" "val x * val y \<le> val hi"
  shows "is_finite (fmul x y)" and "val lo \<le> val (fmul x y)" and "val (fmul x y) \<le> val hi"
proof -
  obtain s m t n where xy: "x = F_Fin s m" "y = F_Fin t n" using assms(1,2) by (cases x; cases y) auto
  have b: "wf_f64 lo" "is_finite lo" "wf_f64 hi" "is_finite hi" using assms(3,4) by (simp_all add: ok_bound_def)
  note r = round_to_between [OF b, of "val x * val y" "s \<noteq> t"]
  show "is_finite (fmul x y)" "val lo \<le> val (fmul x y)" "val (fmul x y) \<le> val hi"
    using r assms(5,6) xy by simp_all
qed

lemma padding_constants:
  "is_finite y_range_padding_fraction" "0 \<le> val y_range_padding_fraction" "val y_range_padding_fraction \<le> 1"
  "is_finite min_constant_y_padding" "0 \<le> val min_constant_y_padding" "val min_constant_y_padding \<le> 1"
  using round_to_between [of fzero min_brush_span "5 / 100" False]
    round_to_between [of fzero min_brush_span "1 / 10 ^ 9" False]
  by (simp_all add: y_range_padding_fraction_def min_constant_y_padding_def f64_of_rat_def)

lemma scaled_down: "is_finite x \<Longrightarrow> 0 \<le> val x \<Longrightarrow> val x \<le> of_int n * large \<Longrightarrow> 0 \<le> n \<Longrightarrow> n \<le> 16 \<Longrightarrow>
   is_finite (fmul x y_range_padding_fraction) \<and> 0 \<le> val (fmul x y_range_padding_fraction) \<and>
   val (fmul x y_range_padding_fraction) \<le> of_int n * large"
proof -
  assume a: "is_finite x" "0 \<le> val x" "val x \<le> of_int n * large" "0 \<le> n" "n \<le> 16"
  note c = padding_constants(1-3)
  have "val x * val y_range_padding_fraction \<le> val x * 1" using a(2) c(3) by (intro mult_left_mono) auto
  then have "val x * val y_range_padding_fraction \<le> of_int n * large" using a(3) by linarith
  moreover have "0 \<le> val x * val y_range_padding_fraction" using a(2) c(2) by simp
  moreover have "ok_bound fzero" "ok_bound (big n)" "val (big n) = of_int n * large"
    using big_values [of n] a(4,5) by (simp_all add: ok_bound_def)
  ultimately show ?thesis using fmul_between [OF a(1) c(1), of fzero "big n"] by simp
qed

lemma fabs_value: "ok_bound x \<Longrightarrow> is_finite (fabs x) \<and> val (fabs x) = \<bar>val x\<bar>"
  by (cases x) (auto simp: ok_bound_def sval_def dest: representable_nonneg)

lemma padded_range_fits:
  assumes "ok_bound lo" "ok_bound hi" "val lo \<le> val hi" "\<bar>val lo\<bar> \<le> large" "\<bar>val hi\<bar> \<le> large"
  shows "padded_range lo hi \<noteq> Err CE_InvalidRange"
proof -
  have lo: "wf_f64 lo" "is_finite lo" and hi: "wf_f64 hi" "is_finite hi" using assms by (simp_all add: ok_bound_def)
  define pad where "pad = (if feq lo hi then fmax (fmul (fabs lo) y_range_padding_fraction) min_constant_y_padding
                     else fmul (fsub hi lo) y_range_padding_fraction)"
  define s where "s = (if flt (fsub lo pad) lo then fsub lo pad else next_down lo)"
  define e where "e = (if flt hi (fadd hi pad) then fadd hi pad else next_up hi)"
  have d: "is_finite (fsub hi lo)" "0 \<le> val (fsub hi lo)" "val (fsub hi lo) \<le> 2 * large"
    using fsub_between [of hi lo fzero "big 2"] big_values [of 2] assms(3-5) lo hi by auto
  have pad: "is_finite pad \<and> 0 \<le> val pad \<and> val pad \<le> 2 * large"
  proof (cases "feq lo hi")
    case True
    have f: "is_finite (fmul (fabs lo) y_range_padding_fraction) \<and> 0 \<le> val (fmul (fabs lo) y_range_padding_fraction) \<and>
        val (fmul (fabs lo) y_range_padding_fraction) \<le> of_int 1 * large"
      using fabs_value [OF assms(1)] assms(4) by (intro scaled_down) auto
    then show ?thesis
      using True fmax_finite [OF conjunct1 [OF f] padding_constants(4)] padding_constants(5,6) large_pos
      by (auto simp: pad_def)
  next
    case False
    then show ?thesis using scaled_down [of "fsub hi lo" 2] d by (simp add: pad_def)
  qed
  have s: "is_finite s \<and> - 3 * large \<le> val s"
    using fsub_between [of lo pad "big (- 3)" "big 1"] next_down_greatest [of lo "big (- 3)"] big_values [of "- 3"] big_values [of 1]
      pad assms(4) lo large_pos by (auto simp: s_def)
  have e: "is_finite e \<and> val e \<le> 3 * large"
    using fadd_between [of hi pad "big (- 1)" "big 3"] next_up_least [of hi "big 3"] big_values [of "- 1"] big_values [of 3]
      pad assms(5) hi large_pos by (auto simp: e_def)
  have out: "val s < val lo" "val hi < val e"
    using next_down_less [OF lo] next_up_greater [OF hi] s e lo(2) hi(2)
    by (auto simp: s_def e_def flt_finite split: if_splits)
  have "is_finite (fsub e s)"
    using big_values [of 6] s e out assms(3) by (intro fsub_between(1) [of e s fzero "big 6"]) auto
  then have "axis_range_new s e = Ok \<lparr>rg_start = s, rg_end = e\<rparr>"
    using s e out assms(3) by (simp add: axis_range_new_def fle_finite)
  moreover have "padded_range lo hi = axis_range_new s e" by (simp add: padded_range_def Let_def pad_def s_def e_def)
  ultimately show ?thesis by simp
qed

lemma visible_y_range_result:
  assumes "list_all wf_series ss" and "wf_range r" and "inside_points ss r \<noteq> []"
  obtains lo hi where "visible_y_range_for ss r = Some (map_r Some (padded_range lo hi))" "ok_bound lo" "ok_bound hi"
    "val lo \<in> set (y_values (inside_points ss r))" "val hi \<in> set (y_values (inside_points ss r))"
    "\<And>p. p \<in> set (inside_points ss r) \<Longrightarrow> val lo \<le> val (dp_y p) \<and> val (dp_y p) \<le> val hi" "val lo \<le> val hi"
proof -
  have ok: "list_all (\<lambda>p. ok_bound (dp_y p)) (inside_points ss r)"
    using assms(1) by (auto simp: inside_points_def list_all_iff wf_series_def finite_point_def ok_bound_def)
  obtain lo hi where b: "fold widen (inside_points ss r) None = Some (lo, hi)" "ok_bound lo" "ok_bound hi"
      "val lo = Min (set (y_values (inside_points ss r)))" "val hi = Max (set (y_values (inside_points ss r)))"
    using fold_widen_bounds [OF assms(3) ok] by metis
  have ne: "set (y_values (inside_points ss r)) \<noteq> {}" using assms(3) by simp
  have mem: "val lo \<in> set (y_values (inside_points ss r))" "val hi \<in> set (y_values (inside_points ss r))"
    unfolding b(4,5) by (rule Min_in [OF _ ne] Max_in [OF _ ne], simp)+
  have "val hi \<ge> val lo" using mem(2) unfolding b(4) by simp
  moreover have "val lo \<le> val (dp_y p) \<and> val (dp_y p) \<le> val hi" if "p \<in> set (inside_points ss r)" for p
    unfolding b(4,5) using that by auto
  moreover have "visible_y_range_for ss r = Some (map_r Some (padded_range lo hi))"
    using y_bounds_fold [OF assms(1,2), of None] b(1) by (simp add: visible_y_range_for_def)
  ultimately show ?thesis using that b(2,3) mem by blast
qed

text \<open>C36: The vertical range of some series over a horizontal one is absent exactly when no point lies in the
  horizontal range; otherwise it is a valid range that contains the value of every such point
  strictly, of every series and of no neighbour, and the only failure is the overflow of values
  beyond \<open>2 ^ 1000\<close>.
\<close>

theorem visible_y_range_covers:
  assumes "list_all wf_series ss" and "wf_range r"
  shows "(inside_points ss r = [] \<and> visible_y_range ss r = Some (Ok None)) \<or>
    (\<exists>rg. inside_points ss r \<noteq> [] \<and> visible_y_range ss r = Some (Ok (Some rg)) \<and> wf_range rg \<and>
       list_all (\<lambda>p. val (rg_start rg) < val (dp_y p) \<and> val (dp_y p) < val (rg_end rg)) (inside_points ss r)) \<or>
    (visible_y_range ss r = Some (Err CE_InvalidRange) \<and>
       list_ex (\<lambda>p. large < \<bar>val (dp_y p)\<bar>) (inside_points ss r))"
proof (cases "inside_points ss r = []")
  case True
  then show ?thesis using y_bounds_fold [OF assms] by (simp add: visible_y_range_def visible_y_range_for_def)
next
  case False
  obtain lo hi where b: "visible_y_range_for ss r = Some (map_r Some (padded_range lo hi))" "ok_bound lo" "ok_bound hi"
      "val lo \<in> set (y_values (inside_points ss r))" "val hi \<in> set (y_values (inside_points ss r))"
      "\<And>p. p \<in> set (inside_points ss r) \<Longrightarrow> val lo \<le> val (dp_y p) \<and> val (dp_y p) \<le> val hi" "val lo \<le> val hi"
    using visible_y_range_result [OF assms False] by blast
  from padded_range_result [OF b(2,3,7)] show ?thesis
  proof
    assume err: "padded_range lo hi = Err CE_InvalidRange"
    then have "large < \<bar>val lo\<bar> \<or> large < \<bar>val hi\<bar>" using padded_range_fits [OF b(2,3,7)] by linarith
    then show ?thesis using err b(1,4,5) by (auto simp: visible_y_range_def list_ex_iff)
  next
    assume "\<exists>rg. padded_range lo hi = Ok rg \<and> wf_range rg \<and> val (rg_start rg) < val lo \<and> val hi < val (rg_end rg)"
    then obtain rg where rg: "padded_range lo hi = Ok rg" "wf_range rg" "val (rg_start rg) < val lo" "val hi < val (rg_end rg)"
      by blast
    have "list_all (\<lambda>p. val (rg_start rg) < val (dp_y p) \<and> val (dp_y p) < val (rg_end rg)) (inside_points ss r)"
      using b(6) rg(3,4) by (fastforce simp: list_all_iff)
    then show ?thesis using rg(1,2) False b(1) by (simp add: visible_y_range_def)
  qed
qed

definition sample_series :: series where
  "sample_series = \<lparr>se_id = ''loss'', se_points =
     [\<lparr>dp_x = f64_of_int 1, dp_y = f64_of_int (- 20)\<rparr>, \<lparr>dp_x = f64_of_int 3, dp_y = f64_of_int 30\<rparr>,
      \<lparr>dp_x = f64_of_int 20, dp_y = f64_of_int 50\<rparr>]\<rparr>"

lemma int_values: "\<bar>n\<bar> \<le> 100 \<Longrightarrow> is_finite (f64_of_int n) \<and> val (f64_of_int n) = of_int n"
  using f64_of_int_exact [of n] by simp

lemma sample_series_wf: "wf_series sample_series"
  by (simp add: wf_series_def sample_series_def finite_point_def x_ordered_def int_values)

lemma sample_home_wf: "wf_range sample_home"
  using axis_homeD(1) [OF sample_axis_home] .

lemma sample_inside: "filter (in_range sample_home) (se_points sample_series) =
    [\<lparr>dp_x = f64_of_int 1, dp_y = f64_of_int (- 20)\<rparr>, \<lparr>dp_x = f64_of_int 3, dp_y = f64_of_int 30\<rparr>]"
  by (simp add: sample_series_def sample_home_def in_range_def int_values)

theorem visible_y_range_covers_witness:
  "\<exists>rg. visible_y_range [sample_series] sample_home = Some (Ok (Some rg)) \<and>
     val (rg_start rg) < - 20 \<and> 30 < val (rg_end rg)"
proof -
  have i: "inside_points [sample_series] sample_home =
      [\<lparr>dp_x = f64_of_int 1, dp_y = f64_of_int (- 20)\<rparr>, \<lparr>dp_x = f64_of_int 3, dp_y = f64_of_int 30\<rparr>]"
    using sample_inside by (simp add: inside_points_def)
  have "(30::rat) \<le> 2 powi 1000" using powi_two_mono [of 5 1000] by simp
  then have "30 \<le> large" by (simp only: large_def)
  then show ?thesis
    using visible_y_range_covers [of "[sample_series]" sample_home] sample_series_wf sample_home_wf i
    by (auto simp: int_values)
qed

text \<open>For a series whose points are ordered, the visible points of a range are exactly the points inside
  it with one neighbour on either side where there is one, and none when every point lies on the
  same side; the slice never panics.
\<close>

theorem visible_points_exact:
  assumes "wf_series s" and "wf_range r"
  shows "visible_points s r = Some
    (if filter (left_of r) (se_points s) = se_points s \<or> filter (right_of r) (se_points s) = se_points s then []
     else drop (length (filter (left_of r) (se_points s)) - 1) (filter (left_of r) (se_points s))
       @ filter (in_range r) (se_points s) @ take 1 (filter (right_of r) (se_points s)))"
  using assms by (rule visible_points_window)

theorem visible_points_exact_witness: "visible_points sample_series sample_home = Some (se_points sample_series)"
  using visible_points_exact [OF sample_series_wf sample_home_wf] sample_inside
  by (simp add: sample_series_def sample_home_def left_of_def right_of_def int_values)

subsection \<open>Hit testing\<close>

definition wf_canvas :: "canvas_size \<Rightarrow> bool" where
  "wf_canvas c \<longleftrightarrow> is_finite (cv_width c) \<and> wf_f64 (cv_width c) \<and> 0 < val (cv_width c) \<and>
     is_finite (cv_height c) \<and> wf_f64 (cv_height c) \<and> 0 < val (cv_height c)"

lemma canvas_size_new_wf: "canvas_size_new w h = Ok c \<Longrightarrow> wf_f64 w \<Longrightarrow> wf_f64 h \<Longrightarrow> wf_canvas c"
  by (auto simp: canvas_size_new_def wf_canvas_def fle_finite split: if_splits)

lemma zero_sub: "wf_f64 x \<Longrightarrow> is_finite x \<Longrightarrow> is_finite (fsub x fzero) \<and> is_finite (fsub fzero x)"
proof -
  assume x: "wf_f64 x" "is_finite x"
  have "is_finite (fsub x fzero)" using x by (intro fsub_between(1) [of x fzero x x]) auto
  moreover have "is_finite (fsub fzero x)" using x by (intro fsub_between(1) [of fzero x "fneg x" "fneg x"]) auto
  ultimately show ?thesis ..
qed

lemma viewport_scales_Ok: "wf_canvas c \<Longrightarrow> \<exists>xs ys. viewport_scales v c = Ok (xs, ys)"
  using zero_sub [of "cv_width c"] zero_sub [of "cv_height c"]
  by (auto simp: viewport_scales_def linear_scale_new_def wf_canvas_def feq_finite)

interpretation point_hits: order_cmp point_hit_cmp "\<lambda>_. True"
proof unfold_locales
  fix a b :: point_hit
  show "reverse_ord (point_hit_cmp a b) = point_hit_cmp b a"
    by (simp add: point_hit_cmp_def reverse_then_with reverse_cmp_of total_cmp_reverse)
next
  fix a b c :: point_hit
  assume "point_hit_cmp a b \<noteq> Greater" "point_hit_cmp b c \<noteq> Greater"
  then show "point_hit_cmp a c \<noteq> Greater"
    using total_cmp_trans [of "ph_distance a" "ph_distance b" "ph_distance c"]
      total_cmp_trans [of "ph_distance b" "ph_distance c" "ph_distance a"]
      total_cmp_trans [of "ph_distance c" "ph_distance a" "ph_distance b"]
      total_cmp_reverse [of "ph_distance a" "ph_distance b"] total_cmp_reverse [of "ph_distance b" "ph_distance c"]
      total_cmp_reverse [of "ph_distance a" "ph_distance c"]
    by (cases "total_cmp (ph_distance a) (ph_distance b)"; cases "total_cmp (ph_distance b) (ph_distance c)";
        cases "total_cmp (ph_distance a) (ph_distance c)")
      (auto simp: point_hit_cmp_def then_with_eq_Greater cmp_of_def split: if_splits)
qed

lemma first_min_least:
  assumes "first_min point_hit_cmp hs = Some h"
  shows "h \<in> set hs" and "\<And>k. k \<in> set hs \<Longrightarrow> point_hit_cmp h k \<noteq> Greater"
proof -
  obtain x ys where hs: "hs = x # ys" "h = min_by point_hit_cmp x ys" using assms by (cases hs) (auto simp: first_min_def)
  show "h \<in> set hs" using hs min_by_in [of point_hit_cmp x ys] by simp
  show "point_hit_cmp h k \<noteq> Greater" if "k \<in> set hs" for k
    using hs point_hits.min_by_le [of x ys k] that by simp
qed

text \<open>The indices of the points in the range, in the source series.\<close>

definition candidate :: "series \<Rightarrow> axis_range \<Rightarrow> nat \<Rightarrow> bool" where
  "candidate s r i \<longleftrightarrow> i < length (se_points s) \<and> in_range r (se_points s ! i)"

lemma middle_index:
  assumes "\<forall>x \<in> set l. \<not> P x" "\<forall>x \<in> set n. \<not> P x" "\<forall>x \<in> set m. P x"
  shows "i < length (l @ m @ n) \<and> P ((l @ m @ n) ! i) \<longleftrightarrow> length l \<le> i \<and> i < length l + length m"
proof -
  consider "i < length l" | "length l \<le> i" "i < length l + length m" | "length l + length m \<le> i" by linarith
  then show ?thesis
  proof cases
    case 1
    then show ?thesis using assms(1) nth_mem [of i l] by (auto simp: nth_append)
  next
    case 2
    then show ?thesis using assms(3) nth_mem [of "i - length l" m] by (auto simp: nth_append)
  next
    case 3
    then have "\<not> i < length l" "\<not> i - length l < length m" by auto
    then have "(l @ m @ n) ! i = n ! (i - length l - length m)" by (simp add: nth_append)
    then show ?thesis using 3 assms(2) nth_mem [of "i - length l - length m" n] by auto
  qed
qed

lemma enumerate_middle:
  "set (enumerate (length l) m) = {(i, (l @ m @ n) ! i) | i. length l \<le> i \<and> i < length l + length m}"
proof (rule set_eqI)
  fix x :: "nat \<times> 'a"
  obtain a b where x: "x = (a, b)" by (cases x)
  have nth: "length l \<le> a \<Longrightarrow> a < length l + length m \<Longrightarrow> (l @ m @ n) ! a = m ! (a - length l)"
    by (simp add: nth_append less_diff_conv2)
  have "x \<in> set (enumerate (length l) m) \<longleftrightarrow> length l \<le> a \<and> a < length l + length m \<and> m ! (a - length l) = b"
    by (simp only: in_set_enumerate_eq x fst_conv snd_conv add.commute)
  also have "\<dots> \<longleftrightarrow> length l \<le> a \<and> a < length l + length m \<and> b = (l @ m @ n) ! a" using nth by metis
  also have "\<dots> \<longleftrightarrow> x \<in> {(i, (l @ m @ n) ! i) | i. length l \<le> i \<and> i < length l + length m}" unfolding x by blast
  finally show "x \<in> set (enumerate (length l) m) \<longleftrightarrow> x \<in> {(i, (l @ m @ n) ! i) | i. length l \<le> i \<and> i < length l + length m}" .
qed

lemma enumerated_candidates:
  assumes "wf_series s" and "wf_range r"
  shows "set (enumerate (first_visible (se_points s) r) (filter (in_range r) (se_points s)))
    = {(i, se_points s ! i) | i. candidate s r i}"
proof -
  define l m n where lmn: "l = filter (left_of r) (se_points s)" "m = filter (in_range r) (se_points s)"
    "n = filter (right_of r) (se_points s)"
  have eq: "se_points s = l @ m @ n"
    using three_parts assms by (simp add: wf_series_def wf_range_def lmn)
  have "val (rg_start r) < val (rg_end r)" using assms(2) by (simp add: wf_range_def)
  then have parts: "\<forall>p \<in> set l. \<not> in_range r p" "\<forall>p \<in> set n. \<not> in_range r p" "\<forall>p \<in> set m. in_range r p"
    by (auto simp: lmn left_of_def in_range_def right_of_def)
  have c: "candidate s r i \<longleftrightarrow> length l \<le> i \<and> i < length l + length m" for i
    unfolding candidate_def eq by (rule middle_index [OF parts])
  have f: "first_visible (se_points s) r = length l" using partition_points(1) [OF assms] by (simp add: lmn)
  show ?thesis unfolding c f lmn(2) [symmetric] enumerate_middle [of l m n] eq [symmetric] ..
qed

text \<open>The hit of point \<open>i\<close>, and what the answer of the search says of it.\<close>

definition nearest_hit :: "libm \<Rightarrow> linear_scale \<Rightarrow> linear_scale \<Rightarrow> series \<Rightarrow> axis_range \<Rightarrow> screen_point \<Rightarrow> f64 \<Rightarrow> point_hit option \<Rightarrow> bool" where
  "nearest_hit lm xs ys s r cursor radius out \<longleftrightarrow>
     (let hit = (\<lambda>i. point_hit_of lm xs ys cursor (i, se_points s ! i)) in
      case out of
        None \<Rightarrow> \<forall>i. candidate s r i \<longrightarrow> \<not> fle (ph_distance (hit i)) radius
      | Some h \<Rightarrow> \<exists>i. candidate s r i \<and> h = hit i \<and> ph_point_index h = i \<and> fle (ph_distance h) radius \<and>
          (\<forall>j. candidate s r j \<and> fle (ph_distance (hit j)) radius \<longrightarrow>
             total_cmp (ph_distance h) (ph_distance (hit j)) = Less \<or>
             total_cmp (ph_distance h) (ph_distance (hit j)) = Equal \<and> i \<le> j))"

text \<open>C37: With the cursor and the radius usable, hit testing answers, without an error, the point of the source
  series that lies in the viewport's closed horizontal range and within the radius and whose projection
  is nearest to the cursor, the lowest index among equally near ones, and nothing exactly when no such
  point is within the radius.
\<close>

theorem nearest_point_found:
  assumes "wf_series s" and "wf_range (vp_x v)" and "wf_canvas c"
    and "is_finite (sp_x cursor)" and "is_finite (sp_y cursor)" and "is_finite radius" and "fle fzero radius"
  shows "\<exists>xs ys out. viewport_scales v c = Ok (xs, ys) \<and> hit_test_point lm s v c cursor radius = Some (Ok out) \<and>
    nearest_hit lm xs ys s (vp_x v) cursor radius out"
proof -
  obtain xs ys where sc: "viewport_scales v c = Ok (xs, ys)" using viewport_scales_Ok [OF assms(3)] by blast
  define hit where "hit i = point_hit_of lm xs ys cursor (i, se_points s ! i)" for i
  define hits where "hits = filter (\<lambda>h. fle (ph_distance h) radius)
    (map (point_hit_of lm xs ys cursor) (enumerate (first_visible (se_points s) (vp_x v)) (filter (in_range (vp_x v)) (se_points s))))"
  have run: "hit_test_point lm s v c cursor radius = Some (Ok (first_min point_hit_cmp hits))"
    using assms(4-7) sc slice_in_range [OF assms(1,2)]
    by (simp add: hit_test_point_def Let_def hits_def flt_finite fle_finite not_less)
  have mem: "h \<in> set hits \<longleftrightarrow> (\<exists>i. candidate s (vp_x v) i \<and> h = hit i \<and> fle (ph_distance h) radius)" for h
    using enumerated_candidates [OF assms(1,2)] by (auto simp: hits_def hit_def)
  have index: "ph_point_index (hit i) = i" for i by (simp add: hit_def point_hit_of_def Let_def)
  have "nearest_hit lm xs ys s (vp_x v) cursor radius (first_min point_hit_cmp hits)"
  proof (cases "first_min point_hit_cmp hits")
    case None
    then have "set hits = {}" by (cases hits) (simp_all add: first_min_def)
    then show ?thesis using None mem by (auto simp: nearest_hit_def hit_def)
  next
    case (Some h)
    obtain i where i: "candidate s (vp_x v) i" "h = hit i" "fle (ph_distance h) radius"
      using first_min_least(1) [OF Some] mem by blast
    have "total_cmp (ph_distance h) (ph_distance (hit j)) = Less \<or>
        total_cmp (ph_distance h) (ph_distance (hit j)) = Equal \<and> i \<le> j"
      if "candidate s (vp_x v) j" "fle (ph_distance (hit j)) radius" for j
    proof -
      have "point_hit_cmp h (hit j) \<noteq> Greater" using first_min_least(2) [OF Some] mem that by blast
      then show ?thesis
        using i(2) by (cases "total_cmp (ph_distance h) (ph_distance (hit j))")
          (auto simp: point_hit_cmp_def index cmp_of_def split: if_splits)
    qed
    then show ?thesis using i Some index by (auto simp: nearest_hit_def hit_def)
  qed
  then show ?thesis using sc run by blast
qed

definition sample_canvas :: canvas_size where
  "sample_canvas = \<lparr>cv_width = f64_of_int 100, cv_height = f64_of_int 10\<rparr>"

theorem nearest_point_found_witness:
  "\<exists>h. hit_test_point \<lparr>lm_log10 = id, lm_powf = (\<lambda>x y. x), lm_hypot = (\<lambda>x y. fzero)\<rparr> sample_series
     \<lparr>vp_x = sample_home, vp_y = sample_home\<rparr> sample_canvas \<lparr>sp_x = fzero, sp_y = fzero\<rparr> fzero = Some (Ok (Some h)) \<and>
     ph_point_index h = 0"
proof -
  let ?lm = "\<lparr>lm_log10 = id, lm_powf = (\<lambda>x y. x), lm_hypot = (\<lambda>x y. fzero)\<rparr>"
    and ?v = "\<lparr>vp_x = sample_home, vp_y = sample_home\<rparr>" and ?c = "\<lparr>sp_x = fzero, sp_y = fzero\<rparr>"
  have "wf_canvas sample_canvas" by (simp add: wf_canvas_def sample_canvas_def int_values)
  then obtain xs ys out where out: "hit_test_point ?lm sample_series ?v sample_canvas ?c fzero = Some (Ok out)"
      "nearest_hit ?lm xs ys sample_series sample_home ?c fzero out"
    using nearest_point_found [of sample_series ?v sample_canvas ?c fzero ?lm] sample_series_wf sample_home_wf
    by (auto simp: fle_finite)
  have d: "ph_distance (point_hit_of ?lm xs ys ?c p) = fzero" for p
    by (cases p) (simp add: point_hit_of_def distance_def Let_def)
  have z: "fle fzero fzero" by (simp add: fle_finite)
  have c: "candidate sample_series sample_home 0"
    by (simp add: candidate_def sample_series_def sample_home_def in_range_def int_values)
  obtain h where h: "out = Some h"
    using out(2) c d z by (cases out) (auto simp: nearest_hit_def)
  obtain i where i: "h = point_hit_of ?lm xs ys ?c (i, se_points sample_series ! i)" "ph_point_index h = i"
      "\<forall>j. candidate sample_series sample_home j \<and>
         fle (ph_distance (point_hit_of ?lm xs ys ?c (j, se_points sample_series ! j))) fzero \<longrightarrow>
         total_cmp (ph_distance h) (ph_distance (point_hit_of ?lm xs ys ?c (j, se_points sample_series ! j))) = Less \<or>
         total_cmp (ph_distance h) (ph_distance (point_hit_of ?lm xs ys ?c (j, se_points sample_series ! j))) = Equal \<and> i \<le> j"
    using out(2) unfolding nearest_hit_def h Let_def option.case by blast
  have "ph_distance h = fzero" unfolding i(1) by (rule d)
  with i(2,3) c d z have "ph_point_index h \<le> 0" by fastforce
  then have "ph_point_index h = 0" by simp
  then show ?thesis using out(1) h by simp
qed

subsection \<open>The path cache\<close>

text \<open>\<open>published n i\<close> is the series that the owner of the cache shows under the id \<open>i\<close> at revision \<open>n\<close>.\<close>

definition cache_ok :: "(u64 \<Rightarrow> series_id \<Rightarrow> series) \<Rightarrow> path_cache \<Rightarrow> bool" where
  "cache_ok published cache \<longleftrightarrow> (\<forall>i key path. cache i = Some (key, path) \<longrightarrow>
     (\<exists>v c. key = path_key_of (pk_revision key) v c \<and> build_path (published (pk_revision key) i) v c = Some (Ok path)))"

lemma path_key_inj: "path_key_of n v c = path_key_of m v' c' \<longleftrightarrow> n = m \<and> v = v' \<and> c = c'"
  by (auto simp: path_key_of_def intro!: viewport.equality canvas_size.equality axis_range.equality)

lemma cache_ok_update:
  "cache_ok published cache \<Longrightarrow> build_path (published n i) v c = Some (Ok path) \<Longrightarrow>
   cache_ok published (cache(i \<mapsto> (path_key_of n v c, path)))"
  by (auto simp: cache_ok_def path_key_of_def)

lemma cache_ok_smaller: "cache_ok published cache \<Longrightarrow> cache_ok published (invalidate_series i cache)"
  "cache_ok published (clear_paths cache)"
  by (auto simp: cache_ok_def invalidate_series_def clear_paths_def)

text \<open>As long as a revision is used for one content of a series only, asking the cache for a path gives
  exactly what building the path gives, its errors and panics included, whatever was cached before; the
  cache then holds one entry for the series and the entries of the other series are untouched.
\<close>

theorem path_cache_transparent:
  assumes "cache_ok published cache" and "published revision (se_id s) = s"
  shows "(path_for s revision v c cache = None \<and> build_path s v c = None) \<or>
    (\<exists>r cache'. path_for s revision v c cache = Some (r, cache') \<and> build_path s v c = Some r \<and>
       cache_ok published cache' \<and> cache' |` (- {se_id s}) = cache |` (- {se_id s}))"
proof -
  define build where "build = map_option (\<lambda>built. case built of
      Inl e \<Rightarrow> (Err e, cache)
    | Inr path \<Rightarrow> (Ok path, cache(se_id s \<mapsto> (path_key_of revision v c, path)))) (build_path s v c)"
  have built: "(build = None \<and> build_path s v c = None) \<or>
    (\<exists>r cache'. build = Some (r, cache') \<and> build_path s v c = Some r \<and>
       cache_ok published cache' \<and> cache' |` (- {se_id s}) = cache |` (- {se_id s}))"
    using assms cache_ok_update [OF assms(1), of revision "se_id s" v c]
    by (cases "build_path s v c") (auto simp: build_def restrict_map_def split: sum.splits)
  show ?thesis
  proof (cases "\<exists>path. cache (se_id s) = Some (path_key_of revision v c, path)")
    case True
    then obtain path where hit: "cache (se_id s) = Some (path_key_of revision v c, path)" ..
    then obtain v' c' where "path_key_of revision v c = path_key_of (pk_revision (path_key_of revision v c)) v' c'"
        "build_path (published (pk_revision (path_key_of revision v c)) (se_id s)) v' c' = Some (Ok path)"
      using assms(1) unfolding cache_ok_def by blast
    moreover have "pk_revision (path_key_of revision v c) = revision" by (simp add: path_key_of_def)
    ultimately have "build_path s v c = Some (Ok path)" using assms(2) by (simp only: path_key_inj)
    then show ?thesis using hit assms(1) by (simp add: path_for_def Let_def)
  next
    case False
    then have "path_for s revision v c cache = build"
      by (auto simp: path_for_def build_def Let_def split: option.splits)
    then show ?thesis using built by simp
  qed
qed

theorem path_cache_transparent_witness:
  "\<exists>r cache'. path_for sample_series 1 \<lparr>vp_x = sample_home, vp_y = sample_home\<rparr> sample_canvas Map.empty = Some (r, cache') \<and>
     build_path sample_series \<lparr>vp_x = sample_home, vp_y = sample_home\<rparr> sample_canvas = Some r"
proof -
  have "build_path sample_series \<lparr>vp_x = sample_home, vp_y = sample_home\<rparr> sample_canvas \<noteq> None"
    using visible_points_window [OF sample_series_wf sample_home_wf] by (simp add: build_path_def)
  then show ?thesis
    using path_cache_transparent [of "\<lambda>_ _. sample_series" Map.empty 1 sample_series
        "\<lparr>vp_x = sample_home, vp_y = sample_home\<rparr>" sample_canvas]
    by (auto simp: cache_ok_def)
qed

end
