(* ===== verification/Viewer_Query.thy ===== *)
theory Viewer_Query
  imports Chart_Series Config Alignment_Reader
begin

section \<open>The viewer's read session (\<open>pulseon-viewer/src/{model,source,query}.rs\<close>)\<close>

text \<open>
  Opening an existing store, discovering its catalog, and the curves of a selection. A session reads
  through one connection, so its operations are operations on the store.
\<close>

subsection \<open>Requests, snapshots and errors\<close>

record discovery_request =
  dr_project_id :: "project_id option"
  dr_selected_run_ids :: "run_id list"

record catalog_snapshot =
  ct_projects :: "project list"
  ct_runs :: "run list"
  ct_metric_keys :: "metric_key list"

datatype source_error =
    SrcE_UnsupportedS3
  | SrcE_Config init_config_error
  | SrcE_Storage storage_error

record curve_selection =
  cu_run_ids :: "run_id list"
  cu_metric_key :: metric_key
  cu_axis :: alignment_axis

record overview_request =
  ov_selection :: curve_selection
  ov_physical_width :: u32

record detail_request =
  dt_selection :: curve_selection
  dt_viewport :: alignment_viewport
  dt_physical_width :: u32

record curve_series_snapshot =
  css_run :: run
  css_evidence :: aligned_metric_result
  css_chart_series :: "series option"

record curve_snapshot =
  csn_viewport :: alignment_viewport
  csn_point_budget :: u32
  csn_real_range :: "alignment_viewport option"
  csn_series :: "curve_series_snapshot list"

datatype viewer_query_error =
    VQ_Alignment alignment_query_error
  | VQ_Chart chart_error
  | VQ_Core engine_error
  | VQ_Storage storage_error

subsection \<open>Opening and discovering\<close>

definition session_open_existing ::
  "'v toml_api \<Rightarrow> (path \<Rightarrow> file_read) \<Rightarrow> path \<Rightarrow> (boot, source_error, unit) op" where
  "session_open_existing api files root_path =
     bind_op (lift_op (map_err SrcE_Config (resolve_storage_config api files root_path None None None))) (\<lambda>resolved.
     if (case rs_data_path resolved of None \<Rightarrow> False | Some p \<Rightarrow> is_s3_data_path p)
     then fail_op SrcE_UnsupportedS3
     else map_err_op SrcE_Storage (open_native_connection_with_mode
            (with_backend_and_s3_config (rs_catalog_backend resolved) root_path (rs_catalog_path resolved)
               (rs_data_path resolved) None) True))"

text \<open>A key inserted into a \<open>BTreeMap<String, MetricKey>\<close> under its own text.\<close>

fun key_insert :: "metric_key \<Rightarrow> metric_key list \<Rightarrow> metric_key list" where
  "key_insert k [] = [k]"
| "key_insert k (x # xs) = (case str_cmp k x of Less \<Rightarrow> k # x # xs | Equal \<Rightarrow> x # xs | Greater \<Rightarrow> x # key_insert k xs)"

fun metric_union :: "run list \<Rightarrow> run_id list \<Rightarrow> metric_key list \<Rightarrow> (store, source_error, metric_key list) op" where
  "metric_union runs [] keys = ret_op keys"
| "metric_union runs (rid # rids) keys =
     (case find (\<lambda>r. r_run_id r = rid) runs of
        None \<Rightarrow> metric_union runs rids keys
      | Some r \<Rightarrow> bind_op (map_err_op SrcE_Storage (list_metrics (r_run_id r) (r_status r))) (\<lambda>aggs.
          metric_union runs rids (fold key_insert (map ma_metric_key aggs) keys)))"

definition discover :: "discovery_request \<Rightarrow> (store, source_error, catalog_snapshot) op" where
  "discover req =
     bind_op (map_err_op SrcE_Storage store_list_projects) (\<lambda>projects.
     case dr_project_id req of
       Some pid \<Rightarrow>
         if list_ex (\<lambda>p. p_project_id p = pid) projects
         then bind_op (map_err_op SrcE_Storage (store_list_runs pid None None 0)) (\<lambda>runs.
              bind_op (metric_union (rev runs) (dr_selected_run_ids req) []) (\<lambda>keys.
              ret_op \<lparr>ct_projects = projects, ct_runs = rev runs, ct_metric_keys = keys\<rparr>))
         else ret_op \<lparr>ct_projects = projects, ct_runs = [], ct_metric_keys = []\<rparr>
     | None \<Rightarrow> ret_op \<lparr>ct_projects = projects, ct_runs = [], ct_metric_keys = []\<rparr>)"

subsection \<open>Curves\<close>

definition u32_clamp :: "u32 \<Rightarrow> u32 \<Rightarrow> u32 \<Rightarrow> u32" where
  "u32_clamp lo hi x = (if x < lo then lo else if hi < x then hi else x)"

definition u32_sat_mul :: "u32 \<Rightarrow> u32 \<Rightarrow> u32" where
  "u32_sat_mul a b = (if 2 ^ 32 \<le> unat a * unat b then - 1 else a * b)"

definition overview_budget :: "u32 \<Rightarrow> u32" where
  "overview_budget physical_width = u32_clamp 500 2000 physical_width"

definition detail_budget :: "u32 \<Rightarrow> u32" where
  "detail_budget physical_width = u32_clamp 2000 10000 (u32_sat_mul physical_width 2)"

definition drawable :: "aligned_metric_result \<Rightarrow> bool" where
  "drawable e \<longleftrightarrow> amr_completeness e \<in> {EC_Complete, EC_Partial}"

definition chart_series_of :: "run \<Rightarrow> aligned_metric_result \<Rightarrow> (chart_error, series option) res" where
  "chart_series_of r e =
     (if drawable e
      then bind_r (series_id_new (r_run_id r)) (\<lambda>i. map_r Some (series_new i
             (map (\<lambda>p. \<lparr>dp_x = f64_of_int (amp_axis_value p), dp_y = mp_value (amp_point p)\<rparr>) (amr_points e))))
      else Ok None)"

definition widen_bounds :: "int \<Rightarrow> (int \<times> int) option \<Rightarrow> (int \<times> int) option" where
  "widen_bounds x bounds = Some (case bounds of Some (s, e) \<Rightarrow> (min s x, max e x) | None \<Rightarrow> (x, x))"

definition real_bounds_of :: "alignment_viewport \<Rightarrow> aligned_metric_result \<Rightarrow> (int \<times> int) option \<Rightarrow> (int \<times> int) option" where
  "real_bounds_of v e bounds =
     (if drawable e
      then fold widen_bounds (filter (\<lambda>x. av_start v \<le> x \<and> x \<le> av_end v) (map amp_axis_value (amr_points e))) bounds
      else bounds)"

fun curves_of ::
  "curve_selection \<Rightarrow> alignment_viewport \<Rightarrow> alignment_reduction \<Rightarrow> run list \<Rightarrow> (int \<times> int) option \<Rightarrow>
   curve_series_snapshot list \<Rightarrow> (store, viewer_query_error, (int \<times> int) option \<times> curve_series_snapshot list) op" where
  "curves_of sel v reduction [] bounds acc = ret_op (bounds, acc)"
| "curves_of sel v reduction (r # rs) bounds acc =
     bind_op (map_err_op VQ_Core (native_query_aligned
        \<lparr>aq_run_id = r_run_id r, aq_metric_key = cu_metric_key sel, aq_axis = cu_axis sel,
         aq_viewport = v, aq_reduction = reduction\<rparr> (r_status r))) (\<lambda>e.
     bind_op (lift_op (map_err VQ_Chart (chart_series_of r e))) (\<lambda>s.
     curves_of sel v reduction rs (real_bounds_of v e bounds)
       (acc @ [\<lparr>css_run = r, css_evidence = e, css_chart_series = s\<rparr>])))"

definition brushable_range :: "int \<times> int \<Rightarrow> (alignment_query_error, alignment_viewport) res" where
  "brushable_range = (\<lambda>(s, e).
     (let rendered_start = f64_of_int s in
      if flt (fsub (f64_of_int e) rendered_start) (f64_of_int 1)
      then (case (case i64_checked_add e 1 of
                    Some n \<Rightarrow> if fle (f64_of_int 1) (fsub (f64_of_int n) rendered_start) then Some n else None
                  | None \<Rightarrow> None) of
              Some n \<Rightarrow> viewport_new s n
            | None \<Rightarrow>
                (let n = f64_to_i64 (next_up rendered_start) in
                 if e < n then viewport_new s n
                 else viewport_new (f64_to_i64 (next_down (f64_of_int e))) e))
      else viewport_new s e))"

definition query_curves ::
  "curve_selection \<Rightarrow> alignment_viewport \<Rightarrow> u32 \<Rightarrow> (store, viewer_query_error, curve_snapshot) op" where
  "query_curves sel v point_budget =
     bind_op (map_err_op VQ_Storage (store_get_runs (cu_run_ids sel))) (\<lambda>runs.
     bind_op (lift_op (map_err VQ_Alignment (ar_screen_budget point_budget 1))) (\<lambda>reduction.
     bind_op (curves_of sel v reduction runs None []) (\<lambda>(bounds, curves).
     bind_op (lift_op (map_err VQ_Alignment (case bounds of
          None \<Rightarrow> Ok None | Some b \<Rightarrow> map_r Some (brushable_range b)))) (\<lambda>real_range.
     ret_op \<lparr>csn_viewport = v, csn_point_budget = point_budget, csn_real_range = real_range,
             csn_series = curves\<rparr>))))"

definition query_overview :: "overview_request \<Rightarrow> (store, viewer_query_error, curve_snapshot) op" where
  "query_overview req =
     bind_op (lift_op (map_err VQ_Alignment (viewport_new 0 i64_max))) (\<lambda>v.
     query_curves (ov_selection req) v (overview_budget (ov_physical_width req)))"

definition query_detail :: "detail_request \<Rightarrow> (store, viewer_query_error, curve_snapshot) op" where
  "query_detail req =
     query_curves (dt_selection req) (dt_viewport req) (detail_budget (dt_physical_width req))"

end
