(* ===== verification/Viewer_Worker.thy ===== *)
theory Viewer_Worker
  imports Viewer_Query
begin

section \<open>The read worker (\<open>pulseon-viewer/src/worker.rs\<close>)\<close>

text \<open>
  One background thread owns the read session. Requests reach it through an unbounded channel, and
  it keeps the newest request of each kind only; events return through a queue with one waker. A
  function of one atomic turn is the loop of the thread: between two turns the viewer may submit
  requests or take events. The store may change between two requests, as other processes write it,
  so a turn takes the world the request meets as an argument.
\<close>

subsection \<open>Requests and events\<close>

type_synonym generation = u64

datatype read_kind = RK_Catalog | RK_Overview | RK_Detail

datatype read_request =
    RR_Discover discovery_request
  | RR_Overview overview_request
  | RR_Detail detail_request

fun request_kind :: "read_request \<Rightarrow> read_kind" where
  "request_kind (RR_Discover r) = RK_Catalog"
| "request_kind (RR_Overview r) = RK_Overview"
| "request_kind (RR_Detail r) = RK_Detail"

datatype read_snapshot =
    RS_Catalog catalog_snapshot
  | RS_Overview curve_snapshot
  | RS_Detail curve_snapshot

fun snapshot_kind :: "read_snapshot \<Rightarrow> read_kind" where
  "snapshot_kind (RS_Catalog s) = RK_Catalog"
| "snapshot_kind (RS_Overview s) = RK_Overview"
| "snapshot_kind (RS_Detail s) = RK_Detail"

datatype worker_error =
    WE_Query viewer_query_error
  | WE_Source source_error
  | WE_SessionUnavailable

fun source_error_display :: "source_error \<Rightarrow> string" where
  "source_error_display SrcE_UnsupportedS3 = ''S3 data paths are unsupported by pulseon-viewer''"
| "source_error_display (SrcE_Config e) = init_config_error_display e"
| "source_error_display (SrcE_Storage e) = storage_error_display e"

fun viewer_query_error_display :: "viewer_query_error \<Rightarrow> string" where
  "viewer_query_error_display (VQ_Alignment e) = alignment_query_error_display e"
| "viewer_query_error_display (VQ_Chart e) = chart_error_display e"
| "viewer_query_error_display (VQ_Core e) = engine_error_display e"
| "viewer_query_error_display (VQ_Storage e) = storage_error_display e"

fun worker_error_display :: "worker_error \<Rightarrow> string" where
  "worker_error_display (WE_Query e) = viewer_query_error_display e"
| "worker_error_display (WE_Source e) = source_error_display e"
| "worker_error_display WE_SessionUnavailable = ''native read session was not initialized''"

record read_event =
  re_generation :: generation
  re_kind :: read_kind
  re_result :: "(worker_error, read_snapshot) res"

record tagged_request =
  tr_generation :: generation
  tr_request :: read_request

definition tagged_kind :: "tagged_request \<Rightarrow> read_kind" where
  "tagged_kind t = request_kind (tr_request t)"

subsection \<open>The event channel\<close>

text \<open>The waker of a parked task is a flag; \<open>send\<close> and the drop of the sender answer whether they wake it.\<close>

record event_channel =
  ec_queue :: "read_event list"
  ec_waker :: bool
  ec_sender_closed :: bool
  ec_receiver_alive :: bool

definition read_event_channel :: event_channel where
  "read_event_channel = \<lparr>ec_queue = [], ec_waker = False, ec_sender_closed = False, ec_receiver_alive = True\<rparr>"

record sent =
  sn_accepted :: bool
  sn_woken :: bool

definition send_event :: "read_event \<Rightarrow> event_channel \<Rightarrow> sent \<times> event_channel" where
  "send_event ev c =
     (if \<not> ec_receiver_alive c then (\<lparr>sn_accepted = False, sn_woken = False\<rparr>, c)
      else (\<lparr>sn_accepted = True, sn_woken = ec_waker c\<rparr>, c\<lparr>ec_queue := ec_queue c @ [ev], ec_waker := False\<rparr>))"

definition drop_event_sender :: "event_channel \<Rightarrow> bool \<times> event_channel" where
  "drop_event_sender c = (ec_waker c, c\<lparr>ec_sender_closed := True, ec_waker := False\<rparr>)"

datatype 'a poll = Ready 'a | Pending

definition poll_event :: "event_channel \<Rightarrow> read_event option poll \<times> event_channel" where
  "poll_event c = (case ec_queue c of
       ev # rest \<Rightarrow> (Ready (Some ev), c\<lparr>ec_queue := rest\<rparr>)
     | [] \<Rightarrow> if ec_sender_closed c then (Ready None, c) else (Pending, c\<lparr>ec_waker := True\<rparr>))"

definition try_event :: "event_channel \<Rightarrow> read_event option \<times> event_channel" where
  "try_event c = (case ec_queue c of [] \<Rightarrow> (None, c) | ev # rest \<Rightarrow> (Some ev, c\<lparr>ec_queue := rest\<rparr>))"

datatype recv_timeout_error = RT_Timeout | RT_Disconnected

text \<open>\<open>recv_timeout\<close> at the moment its wait ends: at once, woken, or with the timeout.\<close>

definition recv_timeout :: "bool \<Rightarrow> event_channel \<Rightarrow> (recv_timeout_error, read_event) res \<times> event_channel" where
  "recv_timeout timed_out c = (case ec_queue c of
       ev # rest \<Rightarrow> (Ok ev, c\<lparr>ec_queue := rest\<rparr>)
     | [] \<Rightarrow> (Err (if ec_sender_closed c then RT_Disconnected else if timed_out then RT_Timeout else RT_Disconnected), c))"

definition drop_event_receiver :: "event_channel \<Rightarrow> event_channel" where
  "drop_event_receiver c = c\<lparr>ec_receiver_alive := False, ec_waker := False\<rparr>"

subsection \<open>Pending requests\<close>

record pending_requests =
  pr_discover :: "tagged_request option"
  pr_overview :: "tagged_request option"
  pr_detail :: "tagged_request option"

definition no_requests :: pending_requests where
  "no_requests = \<lparr>pr_discover = None, pr_overview = None, pr_detail = None\<rparr>"

definition newer :: "tagged_request \<Rightarrow> tagged_request option \<Rightarrow> tagged_request option" where
  "newer t slot = (case slot of
       None \<Rightarrow> Some t
     | Some p \<Rightarrow> if tr_generation p \<le> tr_generation t then Some t else Some p)"

definition push_request :: "tagged_request \<Rightarrow> pending_requests \<Rightarrow> pending_requests" where
  "push_request t p = (case tr_request t of
       RR_Discover r \<Rightarrow> p\<lparr>pr_discover := newer t (pr_discover p)\<rparr>
     | RR_Overview r \<Rightarrow> p\<lparr>pr_overview := newer t (pr_overview p)\<rparr>
     | RR_Detail r \<Rightarrow> p\<lparr>pr_detail := newer t (pr_detail p)\<rparr>)"

definition take_next :: "pending_requests \<Rightarrow> (tagged_request \<times> pending_requests) option" where
  "take_next p = (case pr_discover p of
       Some t \<Rightarrow> Some (t, p\<lparr>pr_discover := None\<rparr>)
     | None \<Rightarrow> (case pr_overview p of
         Some t \<Rightarrow> Some (t, p\<lparr>pr_overview := None\<rparr>)
       | None \<Rightarrow> (case pr_detail p of
           Some t \<Rightarrow> Some (t, p\<lparr>pr_detail := None\<rparr>)
         | None \<Rightarrow> None)))"

subsection \<open>Executing a request\<close>

record 'v source =
  so_api :: "'v toml_api"
  so_files :: "path \<Rightarrow> file_read"
  so_root :: path

record world =
  wd_boot :: boot
  wd_store :: store

definition open_session :: "'v source \<Rightarrow> world \<Rightarrow> (source_error, unit) res \<times> world" where
  "open_session src w =
     (let (r, b) = session_open_existing (so_api src) (so_files src) (so_root src) (wd_boot w) in (r, w\<lparr>wd_boot := b\<rparr>))"

definition read_snapshot_of :: "read_request \<Rightarrow> (store, worker_error, read_snapshot) op" where
  "read_snapshot_of request = (case request of
       RR_Discover r \<Rightarrow> bind_op (map_err_op WE_Source (discover r)) (\<lambda>s. ret_op (RS_Catalog s))
     | RR_Overview r \<Rightarrow> bind_op (map_err_op WE_Query (query_overview r)) (\<lambda>s. ret_op (RS_Overview s))
     | RR_Detail r \<Rightarrow> bind_op (map_err_op WE_Query (query_detail r)) (\<lambda>s. ret_op (RS_Detail s)))"

definition execute :: "'v source \<Rightarrow> bool \<Rightarrow> tagged_request \<Rightarrow> world \<Rightarrow> read_event \<times> bool \<times> world" where
  "execute src session t w =
     (let event = (\<lambda>result. \<lparr>re_generation = tr_generation t, re_kind = tagged_kind t, re_result = result\<rparr>);
          (opened, w1) = (if session then (Ok (), w) else open_session src w)
      in case opened of
           Inl e \<Rightarrow> (event (Err (WE_Source e)), session, w1)
         | Inr u \<Rightarrow> (let (r, s) = read_snapshot_of (tr_request t) (wd_store w1)
                    in (event r, True, w1\<lparr>wd_store := s\<rparr>)))"

subsection \<open>The worker\<close>

datatype worker_phase =
    WP_Waiting
  | WP_Draining pending_requests
  | WP_Executing tagged_request pending_requests
  | WP_Stopped

record worker =
  wk_requests :: "tagged_request list"
  wk_sender :: bool
  wk_phase :: worker_phase
  wk_session :: bool
  wk_events :: event_channel
  wk_receiver_taken :: bool

definition worker_spawn :: worker where
  "worker_spawn = \<lparr>wk_requests = [], wk_sender = True, wk_phase = WP_Waiting, wk_session = False,
     wk_events = read_event_channel, wk_receiver_taken = False\<rparr>"

definition worker_submit :: "generation \<Rightarrow> read_request \<Rightarrow> worker \<Rightarrow> (unit, unit) res \<times> worker" where
  "worker_submit g r w =
     (if \<not> wk_sender w \<or> wk_phase w = WP_Stopped then (Err (), w)
      else (Ok (), w\<lparr>wk_requests := wk_requests w @ [\<lparr>tr_generation = g, tr_request = r\<rparr>]\<rparr>))"

definition worker_closed_display :: string where
  "worker_closed_display = ''native read worker is closed''"

definition worker_try_event :: "worker \<Rightarrow> read_event option \<times> worker" where
  "worker_try_event w =
     (if wk_receiver_taken w then (None, w)
      else let (r, c) = try_event (wk_events w) in (r, w\<lparr>wk_events := c\<rparr>))"

definition worker_recv_timeout :: "bool \<Rightarrow> worker \<Rightarrow> (recv_timeout_error, read_event) res \<times> worker" where
  "worker_recv_timeout timed_out w =
     (if wk_receiver_taken w then (Err RT_Disconnected, w)
      else let (r, c) = recv_timeout timed_out (wk_events w) in (r, w\<lparr>wk_events := c\<rparr>))"

definition take_event_receiver :: "worker \<Rightarrow> bool \<times> worker" where
  "take_event_receiver w = (\<not> wk_receiver_taken w, w\<lparr>wk_receiver_taken := True\<rparr>)"

text \<open>Dropping the handle drops the sender and, where it still owns it, the receiver; the thread is detached.\<close>

definition worker_drop :: "worker \<Rightarrow> worker" where
  "worker_drop w = w\<lparr>wk_sender := False,
     wk_events := (if wk_receiver_taken w then wk_events w else drop_event_receiver (wk_events w))\<rparr>"

definition stop_worker :: "worker \<Rightarrow> worker" where
  "stop_worker w = w\<lparr>wk_phase := WP_Stopped, wk_events := snd (drop_event_sender (wk_events w))\<rparr>"

text \<open>
  One turn of the thread. It blocks in \<open>recv\<close> while the channel is empty, moves every request that
  has arrived into the pending ones, takes the next one, and executes it and sends its event.
\<close>

definition loop_turn :: "'v source \<Rightarrow> world \<Rightarrow> worker \<Rightarrow> worker" where
  "loop_turn src world w = (case wk_phase w of
       WP_Waiting \<Rightarrow> (case wk_requests w of
           t # ts \<Rightarrow> w\<lparr>wk_requests := ts, wk_phase := WP_Draining (push_request t no_requests)\<rparr>
         | [] \<Rightarrow> if wk_sender w then w else stop_worker w)
     | WP_Draining p \<Rightarrow> (case wk_requests w of
           t # ts \<Rightarrow> w\<lparr>wk_requests := ts, wk_phase := WP_Draining (push_request t p)\<rparr>
         | [] \<Rightarrow> (case take_next p of
             None \<Rightarrow> w\<lparr>wk_phase := WP_Waiting\<rparr>
           | Some (t, p') \<Rightarrow> w\<lparr>wk_phase := WP_Executing t p'\<rparr>))
     | WP_Executing t p \<Rightarrow>
         (let (event, session, world') = execute src (wk_session w) t world;
              (answer, c) = send_event event (wk_events w);
              w' = w\<lparr>wk_session := session, wk_events := c\<rparr>
          in if sn_accepted answer then w'\<lparr>wk_phase := WP_Draining p\<rparr> else stop_worker w')
     | WP_Stopped \<Rightarrow> w)"

subsection \<open>Facts about the parts\<close>

text \<open>An event is of the kind of its request, and so is its snapshot.\<close>

lemma read_snapshot_kind: "read_snapshot_of r s = (Inr x, s') \<Longrightarrow> snapshot_kind x = request_kind r"
  by (auto simp: read_snapshot_of_def map_err_op_def bind_op_def split: read_request.splits prod.splits sum.splits)

lemma execute_event:
  "execute src session t w = (ev, session', w') \<Longrightarrow>
   re_generation ev = tr_generation t \<and> re_kind ev = tagged_kind t \<and>
   (\<forall>x. re_result ev = Inr x \<longrightarrow> snapshot_kind x = re_kind ev)"
  using read_snapshot_kind
  by (auto simp: execute_def Let_def tagged_kind_def split: sum.splits prod.splits if_splits)

fun pending_of :: "read_kind \<Rightarrow> pending_requests \<Rightarrow> tagged_request option" where
  "pending_of RK_Catalog p = pr_discover p"
| "pending_of RK_Overview p = pr_overview p"
| "pending_of RK_Detail p = pr_detail p"

lemma pending_of_no_requests [simp]: "pending_of k no_requests = None"
  by (cases k) (simp_all add: no_requests_def)

lemma pending_of_push [simp]:
  "pending_of k (push_request t p) = (if tagged_kind t = k then newer t (pending_of k p) else pending_of k p)"
  by (cases k) (auto simp: push_request_def tagged_kind_def split: read_request.splits)

lemma take_next_None: "take_next p = None \<longleftrightarrow> (\<forall>k. pending_of k p = None)"
proof -
  have all: "(\<forall>k. Q k) \<longleftrightarrow> Q RK_Catalog \<and> Q RK_Overview \<and> Q RK_Detail" for Q
    by (metis read_kind.exhaust)
  show ?thesis by (simp add: all take_next_def split: option.splits)
qed

definition pending_kinds :: "pending_requests \<Rightarrow> bool" where
  "pending_kinds p \<longleftrightarrow> (\<forall>k t. pending_of k p = Some t \<longrightarrow> tagged_kind t = k)"

lemma pending_kinds_no_requests [simp]: "pending_kinds no_requests"
  by (simp add: pending_kinds_def)

lemma pending_kinds_push [simp]: "pending_kinds p \<Longrightarrow> pending_kinds (push_request t p)"
  by (auto simp: pending_kinds_def newer_def split: option.splits if_splits)

lemma take_next_Some:
  assumes "take_next p = Some (t, p')" and "pending_kinds p"
  shows "pending_of (tagged_kind t) p = Some t" "pending_kinds p'"
    and "pending_of k p' = (if k = tagged_kind t then None else pending_of k p)"
proof -
  have "tagged_kind u = RK_Catalog" if "pr_discover p = Some u" for u
    using assms(2) that pending_of.simps(1) [of p] by (auto simp: pending_kinds_def simp del: pending_of.simps)
  moreover have "tagged_kind u = RK_Overview" if "pr_overview p = Some u" for u
    using assms(2) that pending_of.simps(2) [of p] by (auto simp: pending_kinds_def simp del: pending_of.simps)
  moreover have "tagged_kind u = RK_Detail" if "pr_detail p = Some u" for u
    using assms(2) that pending_of.simps(3) [of p] by (auto simp: pending_kinds_def simp del: pending_of.simps)
  ultimately show p: "pending_of (tagged_kind t) p = Some t"
    and q: "pending_of k p' = (if k = tagged_kind t then None else pending_of k p)" for k
    using assms(1) by (cases k; auto simp: take_next_def split: option.splits)+
  show "pending_kinds p'" using assms(2) by (auto simp: pending_kinds_def q)
qed

subsection \<open>The work that is left\<close>

text \<open>The requests of one kind that wait for an answer, the oldest first.\<close>

definition slot_work :: "read_kind \<Rightarrow> pending_requests \<Rightarrow> tagged_request list" where
  "slot_work k p = (case pending_of k p of None \<Rightarrow> [] | Some t \<Rightarrow> [t])"

fun phase_work :: "read_kind \<Rightarrow> worker_phase \<Rightarrow> tagged_request list" where
  "phase_work k WP_Waiting = []"
| "phase_work k (WP_Draining p) = slot_work k p"
| "phase_work k (WP_Executing t p) = (if tagged_kind t = k then [t] else []) @ slot_work k p"
| "phase_work k WP_Stopped = []"

definition work :: "read_kind \<Rightarrow> worker \<Rightarrow> tagged_request list" where
  "work k w = phase_work k (wk_phase w) @ filter (\<lambda>t. tagged_kind t = k) (wk_requests w)"

fun phase_ok :: "worker_phase \<Rightarrow> bool" where
  "phase_ok WP_Waiting = True"
| "phase_ok (WP_Draining p) = pending_kinds p"
| "phase_ok (WP_Executing t p) = pending_kinds p"
| "phase_ok WP_Stopped = False"

text \<open>A worker whose handle and receiver live, with requests in the order of their generations.\<close>

definition worker_ok :: "worker \<Rightarrow> bool" where
  "worker_ok w \<longleftrightarrow> wk_sender w \<and> phase_ok (wk_phase w) \<and> ec_receiver_alive (wk_events w) \<and>
     \<not> ec_sender_closed (wk_events w) \<and> (\<forall>k. sorted (map tr_generation (work k w)))"

definition answers :: "read_request \<Rightarrow> read_snapshot \<Rightarrow> bool" where
  "answers r x \<longleftrightarrow> (\<exists>s s'. read_snapshot_of r s = (Ok x, s'))"

definition answered_by :: "tagged_request \<Rightarrow> read_event \<Rightarrow> bool" where
  "answered_by t ev \<longleftrightarrow> re_generation ev = tr_generation t \<and> re_kind ev = tagged_kind t \<and>
     (\<forall>x. re_result ev = Inr x \<longrightarrow> answers (tr_request t) x \<and> snapshot_kind x = re_kind ev)"

lemma execute_answers: "execute src session t w = (ev, session', w') \<Longrightarrow> answered_by t ev"
  using execute_event [of src session t w ev session' w']
  by (auto simp: answered_by_def answers_def execute_def Let_def split: sum.splits prod.splits if_splits) blast+

text \<open>A turn drops superseded requests, never the newest one, or answers exactly one.\<close>

definition quiet_turn :: "worker \<Rightarrow> worker \<Rightarrow> bool" where
  "quiet_turn w w' \<longleftrightarrow> wk_events w' = wk_events w \<and>
     (\<forall>k. \<exists>dropped. work k w = dropped @ work k w' \<and> (work k w \<noteq> [] \<longrightarrow> work k w' \<noteq> []))"

definition answer_turn :: "tagged_request \<Rightarrow> read_event \<Rightarrow> worker \<Rightarrow> worker \<Rightarrow> bool" where
  "answer_turn t ev w w' \<longleftrightarrow> answered_by t ev \<and> ec_queue (wk_events w') = ec_queue (wk_events w) @ [ev] \<and>
     (\<forall>k. work k w = (if k = tagged_kind t then t # work k w' else work k w'))"

lemma slot_work_no_requests [simp]: "slot_work k no_requests = []"
  by (simp add: slot_work_def)

lemma slot_work_push:
  assumes "sorted (map tr_generation (slot_work k p @ (if tagged_kind t = k then [t] else [])))"
  shows "slot_work k (push_request t p) = (if tagged_kind t = k then [t] else slot_work k p)"
  using assms by (auto simp: slot_work_def newer_def split: option.splits if_splits)

lemma slot_work_take:
  assumes "take_next p = Some (t, p')" "pending_kinds p"
  shows "slot_work k p = (if k = tagged_kind t then [t] else []) @ slot_work k p'"
  using take_next_Some [OF assms] by (simp add: slot_work_def)

lemma work_simps:
  "wk_phase w = ph \<Longrightarrow> wk_requests w = rs \<Longrightarrow> work k w = phase_work k ph @ filter (\<lambda>t. tagged_kind t = k) rs"
  by (simp add: work_def)

lemma worker_ok_sorted: "worker_ok w \<Longrightarrow> sorted (map tr_generation (work k w))"
  by (simp add: worker_ok_def)

text \<open>A turn that takes a request from the channel into the pending ones.\<close>

lemma push_turn:
  assumes "worker_ok w" and "wk_requests w = t # ts" and "\<And>k. phase_work k (wk_phase w) = slot_work k p"
    and "pending_kinds p"
  defines "w' \<equiv> w\<lparr>wk_requests := ts, wk_phase := WP_Draining (push_request t p)\<rparr>"
  shows "worker_ok w' \<and> quiet_turn w w'"
proof -
  have old: "work k w = slot_work k p @ (if tagged_kind t = k then [t] else []) @ filter (\<lambda>t. tagged_kind t = k) ts" for k
    using assms(2,3) by (simp add: work_def)
  have "sorted (map tr_generation (slot_work k p @ (if tagged_kind t = k then [t] else [])))" for k
    using worker_ok_sorted [OF assms(1), of k] unfolding old by (simp add: sorted_append)
  note push = slot_work_push [OF this]
  have new: "work k w' = (if tagged_kind t = k then [t] else slot_work k p) @ filter (\<lambda>t. tagged_kind t = k) ts" for k
    by (simp add: work_def w'_def push)
  have "\<exists>dropped. work k w = dropped @ work k w' \<and> (work k w \<noteq> [] \<longrightarrow> work k w' \<noteq> [])" for k
    unfolding old new by (cases "tagged_kind t = k") auto
  moreover have "sorted (map tr_generation (work k w'))" for k
    using worker_ok_sorted [OF assms(1), of k] unfolding old new by (auto simp: sorted_append)
  ultimately show ?thesis using assms(1,4) by (simp add: worker_ok_def quiet_turn_def w'_def)
qed

text \<open>A turn that only changes what the worker is about to do.\<close>

lemma phase_turn:
  assumes "worker_ok w" and "phase_ok ph" and "\<And>k. phase_work k ph = phase_work k (wk_phase w)"
  shows "worker_ok (w\<lparr>wk_phase := ph\<rparr>) \<and> quiet_turn w (w\<lparr>wk_phase := ph\<rparr>)"
proof -
  have "work k (w\<lparr>wk_phase := ph\<rparr>) = work k w" for k using assms(3) by (simp add: work_def)
  then show ?thesis using assms(1,2) by (simp add: worker_ok_def quiet_turn_def)
qed

lemma execute_turn:
  assumes "worker_ok w" and "wk_phase w = WP_Executing t p"
  shows "worker_ok (loop_turn src world w) \<and> (\<exists>ev. answer_turn t ev w (loop_turn src world w))"
proof -
  obtain ev session world' where ex: "execute src (wk_session w) t world = (ev, session, world')"
    by (cases "execute src (wk_session w) t world") auto
  have alive: "ec_receiver_alive (wk_events w)" using assms(1) by (simp add: worker_ok_def)
  let ?w = "loop_turn src world w"
  have w': "?w = w\<lparr>wk_session := session, wk_phase := WP_Draining p,
      wk_events := (wk_events w)\<lparr>ec_queue := ec_queue (wk_events w) @ [ev], ec_waker := False\<rparr>\<rparr>"
    using alive by (simp add: loop_turn_def assms(2) ex send_event_def)
  have work: "work k w = (if k = tagged_kind t then t # work k ?w else work k ?w)" for k
    by (simp add: w' work_def assms(2))
  have "sorted (map tr_generation (work k ?w))" for k
    using worker_ok_sorted [OF assms(1), of k] work [of k] by (auto split: if_splits)
  then have "worker_ok ?w" using assms by (simp add: worker_ok_def w')
  moreover have "ec_queue (wk_events ?w) = ec_queue (wk_events w) @ [ev]" by (simp add: w')
  ultimately show ?thesis using work execute_answers [OF ex] unfolding answer_turn_def by blast
qed

lemma loop_turn_cases:
  assumes "worker_ok w"
  shows "worker_ok (loop_turn src world w) \<and>
    (quiet_turn w (loop_turn src world w) \<or> (\<exists>t ev. answer_turn t ev w (loop_turn src world w)))"
proof (cases "wk_phase w")
  case WP_Waiting
  show ?thesis
  proof (cases "wk_requests w")
    case Nil
    then show ?thesis using assms by (simp add: loop_turn_def WP_Waiting worker_ok_def quiet_turn_def)
  next
    case (Cons t ts)
    then show ?thesis using push_turn [OF assms Cons, of no_requests] by (simp add: loop_turn_def WP_Waiting)
  qed
next
  case (WP_Draining p)
  then have kinds: "pending_kinds p" using assms by (simp add: worker_ok_def)
  show ?thesis
  proof (cases "wk_requests w")
    case (Cons t ts)
    then show ?thesis using push_turn [OF assms Cons _ kinds] by (simp add: loop_turn_def WP_Draining)
  next
    case Nil
    show ?thesis
    proof (cases "take_next p")
      case None
      then have "slot_work k p = []" for k using take_next_None [of p] by (simp add: slot_work_def)
      then show ?thesis using phase_turn [OF assms, of WP_Waiting] None by (simp add: loop_turn_def WP_Draining Nil)
    next
      case (Some tp)
      then obtain t p' where tp: "take_next p = Some (t, p')" by (cases tp) auto
      have "phase_work k (WP_Executing t p') = phase_work k (wk_phase w)" for k
        using slot_work_take [OF tp kinds] by (auto simp: WP_Draining)
      then show ?thesis
        using phase_turn [OF assms, of "WP_Executing t p'"] take_next_Some(2) [OF tp kinds] tp
        by (simp add: loop_turn_def WP_Draining Nil)
    qed
  qed
next
  case (WP_Executing t p)
  then show ?thesis using execute_turn [OF assms] by blast
qed (use assms in \<open>simp add: worker_ok_def\<close>)

subsection \<open>The worker comes to rest\<close>

definition slots_taken :: "pending_requests \<Rightarrow> nat" where
  "slots_taken p = (if pr_discover p = None then 0 else 1) + (if pr_overview p = None then 0 else 1) +
     (if pr_detail p = None then 0 else 1)"

text \<open>A bound on the turns until the worker waits on an empty channel, without further requests.\<close>

fun phase_left :: "worker_phase \<Rightarrow> nat \<Rightarrow> nat" where
  "phase_left WP_Waiting n = (if n = 0 then 0 else 3 * n + 1)"
| "phase_left (WP_Draining p) n = 3 * n + 2 * slots_taken p + 1"
| "phase_left (WP_Executing t p) n = 3 * n + 2 * slots_taken p + 2"
| "phase_left WP_Stopped n = 0"

definition turns_left :: "worker \<Rightarrow> nat" where
  "turns_left w = phase_left (wk_phase w) (length (wk_requests w))"

lemma slots_taken_push: "slots_taken (push_request t p) \<le> slots_taken p + 1"
  by (auto simp: slots_taken_def push_request_def split: read_request.splits)

lemma slots_taken_no_requests [simp]: "slots_taken no_requests = 0"
  by (simp add: slots_taken_def no_requests_def)

lemma slots_taken_take: "take_next p = Some (t, p') \<Longrightarrow> slots_taken p = slots_taken p' + 1"
  by (auto simp: slots_taken_def take_next_def split: option.splits)

lemma loop_turn_left:
  assumes "worker_ok w" and "0 < turns_left w"
  shows "turns_left (loop_turn src world w) < turns_left w"
proof (cases "wk_phase w")
  case WP_Waiting
  then obtain t ts where "wk_requests w = t # ts"
    using assms(2) by (cases "wk_requests w") (simp_all add: turns_left_def)
  then show ?thesis using WP_Waiting slots_taken_push [of t no_requests] by (simp add: turns_left_def loop_turn_def)
next
  case (WP_Draining p)
  show ?thesis
  proof (cases "wk_requests w")
    case (Cons t ts)
    then show ?thesis using WP_Draining slots_taken_push [of t p] by (simp add: turns_left_def loop_turn_def)
  next
    case Nil
    then show ?thesis
      using WP_Draining slots_taken_take [of p]
      by (cases "take_next p") (auto simp: turns_left_def loop_turn_def)
  qed
next
  case (WP_Executing t p)
  have "ec_receiver_alive (wk_events w)" using assms(1) by (simp add: worker_ok_def)
  then show ?thesis
    using WP_Executing
    by (cases "execute src (wk_session w) t world") (simp add: turns_left_def loop_turn_def send_event_def)
qed (use assms in \<open>simp add: worker_ok_def\<close>)

lemma no_turns_left:
  assumes "worker_ok w" and "turns_left w = 0"
  shows "wk_phase w = WP_Waiting" and "wk_requests w = []" and "work k w = []"
proof -
  show "wk_phase w = WP_Waiting" "wk_requests w = []"
    using assms by (cases "wk_phase w"; simp add: turns_left_def worker_ok_def split: if_splits)+
  then show "work k w = []" by (simp add: work_def)
qed

lemma loop_turn_at_rest:
  assumes "worker_ok w" and "turns_left w = 0"
  shows "loop_turn src world w = w"
proof -
  have "wk_sender w" using assms(1) by (simp add: worker_ok_def)
  then show ?thesis by (simp add: loop_turn_def no_turns_left(1,2) [OF assms])
qed

definition newest_served :: "tagged_request list \<Rightarrow> worker \<Rightarrow> bool" where
  "newest_served ts w \<longleftrightarrow> ts = [] \<or> (\<exists>ev \<in> set (ec_queue (wk_events w)). answered_by (last ts) ev)"

lemma turn_keeps_newest:
  assumes "worker_ok w" and "w' = loop_turn src world w"
  shows "newest_served (work k w) w' \<or> work k w \<noteq> [] \<and> work k w' \<noteq> [] \<and> last (work k w') = last (work k w)"
    and "set (ec_queue (wk_events w)) \<subseteq> set (ec_queue (wk_events w'))"
proof -
  consider "quiet_turn w w'" | t ev where "answer_turn t ev w w'"
    using loop_turn_cases [OF assms(1), of src world] assms(2) by auto
  then have "(newest_served (work k w) w' \<or> work k w \<noteq> [] \<and> work k w' \<noteq> [] \<and> last (work k w') = last (work k w)) \<and>
      set (ec_queue (wk_events w)) \<subseteq> set (ec_queue (wk_events w'))"
  proof cases
    case 1
    then obtain dropped where "work k w = dropped @ work k w'" "work k w \<noteq> [] \<longrightarrow> work k w' \<noteq> []"
      and "wk_events w' = wk_events w" unfolding quiet_turn_def by blast
    then show ?thesis by (cases "work k w = []") (simp_all add: newest_served_def)
  next
    case 2
    then have a: "answered_by t ev" "ec_queue (wk_events w') = ec_queue (wk_events w) @ [ev]"
      "work k w = (if k = tagged_kind t then t # work k w' else work k w')" by (simp_all add: answer_turn_def)
    then show ?thesis by (cases "work k w' = []") (auto simp: newest_served_def)
  qed
  then show "newest_served (work k w) w' \<or> work k w \<noteq> [] \<and> work k w' \<noteq> [] \<and> last (work k w') = last (work k w)"
    "set (ec_queue (wk_events w)) \<subseteq> set (ec_queue (wk_events w'))" by blast+
qed

lemma worker_rests:
  fixes src :: "'v source"
  assumes "worker_ok w" and "turns_left w \<le> length worlds"
  defines "w' \<equiv> fold (loop_turn src) worlds w"
  shows "worker_ok w' \<and> turns_left w' = 0 \<and> newest_served (work k w) w' \<and>
    set (ec_queue (wk_events w)) \<subseteq> set (ec_queue (wk_events w'))"
  unfolding w'_def using assms(1,2)
proof (induction worlds arbitrary: w)
  case Nil
  then show ?case using no_turns_left(3) [OF Nil.prems(1), of k] by (simp add: newest_served_def)
next
  case (Cons world worlds)
  let ?w = "loop_turn src world w"
  have left: "turns_left ?w \<le> length worlds"
    using Cons.prems loop_turn_left [of w src world] loop_turn_at_rest [of w src world]
    by (cases "turns_left w = 0") auto
  have ok: "worker_ok ?w" using loop_turn_cases [OF Cons.prems(1)] by blast
  note IH = Cons.IH [OF ok left] and turn = turn_keeps_newest(1) [OF Cons.prems(1) refl, of k src world]
    turn_keeps_newest(2) [OF Cons.prems(1) refl, of src world]
  show ?case using IH turn by (auto simp: newest_served_def)
qed

text \<open>The read worker settles. Without further requests it comes to rest within the computed number of
  turns, whatever the store answers meanwhile: it waits on an empty channel with nothing pending,
  and of every kind with unanswered requests the newest one has been answered, by an event of its
  generation and kind whose snapshot answers exactly that request.
\<close>

theorem worker_answers_newest:
  fixes src :: "'v source"
  assumes "worker_ok w" and "turns_left w \<le> length worlds"
  defines "w' \<equiv> fold (loop_turn src) worlds w"
  shows "wk_phase w' = WP_Waiting \<and> wk_requests w' = [] \<and> (\<forall>k. work k w' = []) \<and>
    (\<forall>k. work k w = [] \<or> (\<exists>ev. ev \<in> set (ec_queue (wk_events w')) \<and> answered_by (last (work k w)) ev))"
proof -
  have rest: "worker_ok w' \<and> turns_left w' = 0 \<and> newest_served (work k w) w'" for k
    using worker_rests [OF assms(1,2), of src k] by (simp add: w'_def)
  then have ok: "worker_ok w'" "turns_left w' = 0" by simp_all
  show ?thesis
    by (intro conjI allI no_turns_left [OF ok]) (use rest in \<open>auto simp: newest_served_def\<close>)
qed

definition sample_detail :: read_request where
  "sample_detail = RR_Detail \<lparr>dt_selection = \<lparr>cu_run_ids = [''run-1''], cu_metric_key = ''loss'', cu_axis = Axis_Step\<rparr>,
     dt_viewport = \<lparr>av_start = 0, av_end = 9\<rparr>, dt_physical_width = 1000\<rparr>"

definition sample_discover :: read_request where
  "sample_discover = RR_Discover \<lparr>dr_project_id = None, dr_selected_run_ids = []\<rparr>"

definition busy_worker :: worker where
  "busy_worker = snd (worker_submit 3 sample_detail (snd (worker_submit 2 sample_discover
     (snd (worker_submit 1 sample_detail worker_spawn)))))"

lemma busy_worker_simps:
  "wk_phase busy_worker = WP_Waiting" "wk_sender busy_worker"
  "wk_requests busy_worker = [\<lparr>tr_generation = 1, tr_request = sample_detail\<rparr>,
     \<lparr>tr_generation = 2, tr_request = sample_discover\<rparr>, \<lparr>tr_generation = 3, tr_request = sample_detail\<rparr>]"
  "wk_events busy_worker = read_event_channel"
  by (simp_all add: busy_worker_def worker_submit_def worker_spawn_def)

lemma busy_worker_ok: "worker_ok busy_worker" "turns_left busy_worker = 10"
  "work RK_Detail busy_worker = [\<lparr>tr_generation = 1, tr_request = sample_detail\<rparr>, \<lparr>tr_generation = 3, tr_request = sample_detail\<rparr>]"
proof -
  have "sorted (map tr_generation (work k busy_worker))" for k
    by (cases k) (simp_all add: work_def busy_worker_simps tagged_kind_def sample_detail_def sample_discover_def)
  then show "worker_ok busy_worker" by (simp add: worker_ok_def busy_worker_simps read_event_channel_def)
  show "turns_left busy_worker = 10" by (simp add: turns_left_def busy_worker_simps)
  show "work RK_Detail busy_worker = [\<lparr>tr_generation = 1, tr_request = sample_detail\<rparr>, \<lparr>tr_generation = 3, tr_request = sample_detail\<rparr>]"
    by (simp add: work_def busy_worker_simps tagged_kind_def sample_detail_def sample_discover_def)
qed

theorem worker_answers_newest_witness:
  "\<forall>(src :: unit source) world. \<exists>ev. ev \<in> set (ec_queue (wk_events (fold (loop_turn src) (replicate 10 world) busy_worker))) \<and>
     re_generation ev = 3 \<and> re_kind ev = RK_Detail"
proof (intro allI)
  fix src :: "unit source" and world
  have "\<exists>ev. ev \<in> set (ec_queue (wk_events (fold (loop_turn src) (replicate 10 world) busy_worker))) \<and>
      answered_by (last (work RK_Detail busy_worker)) ev"
    using worker_answers_newest [OF busy_worker_ok(1), of "replicate 10 world" src, THEN conjunct2, THEN conjunct2,
        THEN conjunct2, THEN spec [of _ RK_Detail]]
    by (simp add: busy_worker_ok(2,3))
  then show "\<exists>ev. ev \<in> set (ec_queue (wk_events (fold (loop_turn src) (replicate 10 world) busy_worker))) \<and>
      re_generation ev = 3 \<and> re_kind ev = RK_Detail"
    by (auto simp: busy_worker_ok(3) answered_by_def tagged_kind_def sample_detail_def)
qed

end
