(* ===== verification/Viewer_Core.thy ===== *)
theory Viewer_Core
  imports Viewer_Worker Chart_Brush
begin

section \<open>The state of the viewer (\<open>pulseon-viewer/src/core.rs\<close>)\<close>

text \<open>
  The selection, the snapshots on display, the brush and the generation expected from each result
  stream. The array \<open>expected\<close>, indexed by \<open>kind_index\<close>, is a function of the kind. A panic of the
  brush is \<open>None\<close>. \<open>str::to_lowercase\<close>, which depends on the Unicode tables, is the argument \<open>lower\<close>.
\<close>

subsection \<open>Filtering runs\<close>

definition max_selected_runs :: nat where
  "max_selected_runs = 10"

definition run_fields_match_filter ::
  "(string \<Rightarrow> string) \<Rightarrow> string \<Rightarrow> string \<Rightarrow> string \<Rightarrow> string \<Rightarrow> bool" where
  "run_fields_match_filter lower name rid status text =
     (let q = lower (trim text)
      in q = [] \<or> contains_str (lower name) q \<or> contains_str (lower rid) q \<or> contains_str status q)"

fun run_status_text :: "run_status \<Rightarrow> string" where
  "run_status_text Running = ''running''"
| "run_status_text Finished = ''finished''"
| "run_status_text Failed = ''failed''"

definition run_matches_filter :: "(string \<Rightarrow> string) \<Rightarrow> run \<Rightarrow> string \<Rightarrow> bool" where
  "run_matches_filter lower r text =
     run_fields_match_filter lower (r_name r) (r_run_id r) (run_status_text (r_status r)) text"

subsection \<open>The state\<close>

record viewer_selection =
  vs_project_id :: "project_id option"
  vs_run_ids :: "run_id list"
  vs_metric_key :: "metric_key option"

definition no_selection :: viewer_selection where
  "no_selection = \<lparr>vs_project_id = None, vs_run_ids = [], vs_metric_key = None\<rparr>"

datatype apply_outcome = Applied | IgnoredStale | IgnoredMismatched

definition run_limit_display :: string where
  "run_limit_display = ''at most '' @ show_nat max_selected_runs @ '' Runs can be selected''"

record viewer_core =
  vc_selection :: viewer_selection
  vc_axis :: alignment_axis
  vc_brush :: "brush option"
  vc_catalog :: "catalog_snapshot option"
  vc_overview :: "curve_snapshot option"
  vc_detail :: "curve_snapshot option"
  vc_expected :: "read_kind \<Rightarrow> generation option"
  vc_last_error :: "string option"

definition viewer_core_new :: "viewer_selection \<Rightarrow> viewer_core" where
  "viewer_core_new sel =
     \<lparr>vc_selection = sel, vc_axis = Axis_Step, vc_brush = None, vc_catalog = None, vc_overview = None,
      vc_detail = None, vc_expected = (\<lambda>k. None), vc_last_error = None\<rparr>"

definition viewer_core_default :: viewer_core where
  "viewer_core_default = viewer_core_new no_selection"

definition selected_viewport :: "viewer_core \<Rightarrow> alignment_viewport option" where
  "selected_viewport c = (case vc_brush c of
       None \<Rightarrow> None
     | Some b \<Rightarrow> (case viewport_new (f64_to_i64 (ffloor (rg_start (br_selected b))))
                              (f64_to_i64 (fceil (rg_end (br_selected b)))) of
         Inl e \<Rightarrow> None | Inr v \<Rightarrow> Some v))"

subsection \<open>Selecting\<close>

definition clear_curves :: "viewer_core \<Rightarrow> viewer_core" where
  "clear_curves c = c\<lparr>vc_brush := None, vc_overview := None, vc_detail := None,
     vc_expected := (vc_expected c)(RK_Overview := None, RK_Detail := None), vc_last_error := None\<rparr>"

definition core_select_project :: "project_id option \<Rightarrow> viewer_core \<Rightarrow> viewer_core" where
  "core_select_project p c =
     (if vs_project_id (vc_selection c) = p then c
      else clear_curves (c\<lparr>vc_selection := no_selection\<lparr>vs_project_id := p\<rparr>,
             vc_catalog := map_option (\<lambda>ct. ct\<lparr>ct_runs := [], ct_metric_keys := []\<rparr>) (vc_catalog c)\<rparr>))"

definition set_run_ids :: "run_id list \<Rightarrow> viewer_core \<Rightarrow> viewer_core" where
  "set_run_ids rids c = c\<lparr>vc_selection := (vc_selection c)\<lparr>vs_run_ids := rids\<rparr>\<rparr>"

definition core_toggle_run :: "run_id \<Rightarrow> viewer_core \<Rightarrow> (unit, bool) res \<times> viewer_core" where
  "core_toggle_run rid c =
     (let rids = vs_run_ids (vc_selection c) in
      if rid \<in> set rids then (Ok False, clear_curves (set_run_ids (remove1 rid rids) c))
      else if length rids = max_selected_runs then (Err (), c)
      else (Ok True, clear_curves (set_run_ids (rids @ [rid]) c)))"

definition core_select_metric :: "metric_key option \<Rightarrow> viewer_core \<Rightarrow> viewer_core" where
  "core_select_metric key c =
     (if vs_metric_key (vc_selection c) = key then c
      else clear_curves (c\<lparr>vc_selection := (vc_selection c)\<lparr>vs_metric_key := key\<rparr>\<rparr>))"

definition core_select_axis :: "alignment_axis \<Rightarrow> viewer_core \<Rightarrow> viewer_core" where
  "core_select_axis axis c = (if vc_axis c = axis then c else clear_curves (c\<lparr>vc_axis := axis\<rparr>))"

definition reset_view :: "viewer_core \<Rightarrow> bool \<times> viewer_core" where
  "reset_view c = (case vc_brush c of
       None \<Rightarrow> (False, c)
     | Some b \<Rightarrow> (True, c\<lparr>vc_brush := Some (brush_reset b)\<rparr>))"

subsection \<open>Events\<close>

definition core_begin :: "generation \<Rightarrow> read_request \<Rightarrow> viewer_core \<Rightarrow> viewer_core" where
  "core_begin g r c = c\<lparr>vc_expected := (vc_expected c)(request_kind r := Some g), vc_last_error := None\<rparr>"

definition is_pending :: "read_kind \<Rightarrow> viewer_core \<Rightarrow> bool" where
  "is_pending k c \<longleftrightarrow> vc_expected c k \<noteq> None"

definition apply_catalog :: "catalog_snapshot \<Rightarrow> viewer_core \<Rightarrow> viewer_core" where
  "apply_catalog s c =
     (let previous = vc_selection c;
          project_exists = (case vs_project_id previous of
             None \<Rightarrow> False
           | Some pid \<Rightarrow> list_ex (\<lambda>p. p_project_id p = pid) (ct_projects s));
          sel = (if \<not> project_exists then no_selection
                 else
                   (let known = previous\<lparr>vs_run_ids :=
                          map r_run_id (filter (\<lambda>r. r_run_id r \<in> set (vs_run_ids previous)) (ct_runs s))\<rparr>
                    in case vs_metric_key known of
                         None \<Rightarrow> known
                       | Some key \<Rightarrow> if list_ex (\<lambda>k. k = key) (ct_metric_keys s) then known
                                    else known\<lparr>vs_metric_key := None\<rparr>));
          c1 = c\<lparr>vc_selection := sel\<rparr>;
          c2 = (if sel = previous then c1
                else c1\<lparr>vc_overview := None, vc_detail := None,
                        vc_expected := (vc_expected c1)(RK_Overview := None, RK_Detail := None)\<rparr>)
      in c2\<lparr>vc_catalog := Some s\<rparr>)"

text \<open>The brush of an overview, over its data range, with the previous selection where there is one.\<close>

definition restored_brush :: "brush option \<Rightarrow> alignment_viewport \<Rightarrow> brush option option" where
  "restored_brush previous v = (case axis_range_new (f64_of_int (av_start v)) (f64_of_int (av_end v)) of
       Inl e \<Rightarrow> Some None
     | Inr home \<Rightarrow> (case brush_new home of
         Inl e \<Rightarrow> Some None
       | Inr b \<Rightarrow> (case map_option br_selected previous of
           None \<Rightarrow> Some (Some b)
         | Some window \<Rightarrow> (case resize_start (rg_start window) b of
             None \<Rightarrow> None
           | Some (Inl e, b1) \<Rightarrow> Some None
           | Some (Inr u, b1) \<Rightarrow> (case resize_end (rg_end window) b1 of
               None \<Rightarrow> None
             | Some (Inl e, b2) \<Rightarrow> Some None
             | Some (Inr u, b2) \<Rightarrow> Some (Some b2))))))"

definition apply_overview :: "curve_snapshot \<Rightarrow> viewer_core \<Rightarrow> viewer_core option" where
  "apply_overview s c =
     map_option (\<lambda>brush.
         (let c1 = c\<lparr>vc_brush := brush\<rparr>;
              c2 = (if brush = None then c1\<lparr>vc_detail := None, vc_expected := (vc_expected c1)(RK_Detail := None)\<rparr> else c1)
          in c2\<lparr>vc_overview := Some s\<rparr>))
       (case csn_real_range s of None \<Rightarrow> Some None | Some v \<Rightarrow> restored_brush (vc_brush c) v)"

definition core_apply :: "read_event \<Rightarrow> viewer_core \<Rightarrow> (apply_outcome \<times> viewer_core) option" where
  "core_apply ev c =
     (let k = re_kind ev in
      if vc_expected c k \<noteq> Some (re_generation ev) then Some (IgnoredStale, c)
      else if (case re_result ev of Inl e \<Rightarrow> False | Inr s \<Rightarrow> snapshot_kind s \<noteq> k) then Some (IgnoredMismatched, c)
      else
        (let c1 = c\<lparr>vc_expected := (vc_expected c)(k := None)\<rparr> in
         map_option (Pair Applied) (case re_result ev of
             Inr (RS_Catalog s) \<Rightarrow> Some (apply_catalog s c1)
           | Inr (RS_Overview s) \<Rightarrow> apply_overview s c1
           | Inr (RS_Detail s) \<Rightarrow> Some (c1\<lparr>vc_detail := Some s\<rparr>)
           | Inl e \<Rightarrow> Some (c1\<lparr>vc_last_error := Some (worker_error_display e)\<rparr>))))"

end
