(* ===== verification/Viewer_Chart.thy ===== *)
theory Viewer_Chart
  imports Viewer_Query Chart_Brush
begin

section \<open>The viewer's charts (\<open>pulseon-viewer/src/desktop/renderer.rs\<close>)\<close>

text \<open>
  The adapter between snapshots and the canvas: caches of projected and of drawable paths, hit
  testing over the curves of a snapshot, and the geometry of the brush. Pixels and the path builder
  belong to the GUI library and are the record \<open>gpui\<close>. An \<open>f32\<close> is the \<open>f64\<close> of the same value; the
  operations on \<open>f32\<close> round the \<open>f64\<close> result once more, which gives the correctly rounded result as 53
  bits are more than twice 24. Painting itself is not modelled.
\<close>

subsection \<open>Single precision\<close>

definition ulp_exp32 :: "rat \<Rightarrow> int" where
  "ulp_exp32 q = max (- 149) (ilog2 q - 23)"

fun to_f32 :: "f64 \<Rightarrow> f64" where
  "to_f32 F_NaN = F_NaN"
| "to_f32 (F_Inf s) = F_Inf s"
| "to_f32 (F_Fin s m) =
     (if m = 0 then F_Fin s 0
      else let r = of_int (rne (m / 2 powi (ulp_exp32 m))) * 2 powi (ulp_exp32 m)
           in if 2 powi 128 \<le> r then F_Inf s else F_Fin s r)"

definition f32_mul :: "f64 \<Rightarrow> f64 \<Rightarrow> f64" where
  "f32_mul x y = to_f32 (fmul x y)"

definition f32_div :: "f64 \<Rightarrow> f64 \<Rightarrow> f64" where
  "f32_div x y = to_f32 (fdiv x y)"

text \<open>\<open>f32::round\<close>, half away from zero, and \<open>as u32\<close>.\<close>

fun f32_round :: "f64 \<Rightarrow> f64" where
  "f32_round (F_Fin s m) = F_Fin s (of_int \<lfloor>m + 1 / 2\<rfloor>)"
| "f32_round F_NaN = F_NaN"
| "f32_round (F_Inf s) = F_Inf s"

fun to_u32 :: "f64 \<Rightarrow> u32" where
  "to_u32 F_NaN = 0"
| "to_u32 (F_Inf s) = (if s then 0 else - 1)"
| "to_u32 (F_Fin s m) = of_int (max 0 (min (2 ^ 32 - 1) (trunc_rat (sval s m))))"

subsection \<open>The adapter\<close>

record ('p, 'g) gpui =
  gp_f64 :: "'p \<Rightarrow> f64"
  gp_px :: "f64 \<Rightarrow> 'p"
  gp_add :: "'p \<Rightarrow> 'p \<Rightarrow> 'p"
  gp_sub :: "'p \<Rightarrow> 'p \<Rightarrow> 'p"
  gp_less :: "'p \<Rightarrow> 'p \<Rightarrow> bool"
  gp_path :: "bool \<Rightarrow> ('p \<times> 'p) list \<Rightarrow> 'g option"

record 'p bounds =
  bd_x :: 'p
  bd_y :: 'p
  bd_width :: 'p
  bd_height :: 'p

record hover_point =
  hv_run_name :: string
  hv_metric_key :: string
  hv_axis_value :: i64
  hv_step :: i64
  hv_value :: f64

record gpui_path_key =
  gk_revision :: u64
  gk_viewport :: "f64 list"
  gk_bounds :: "f64 list"
  gk_dark :: bool
  gk_partial :: bool

datatype chart_kind = CK_Detail | CK_Overview

datatype brush_drag_target = BT_Start | BT_End | BT_Window

type_synonym 'g gpui_paths = "string \<rightharpoonup> gpui_path_key \<times> 'g"

record ('p, 'g) chart_adapter =
  ca_detail_projections :: path_cache
  ca_overview_projections :: path_cache
  ca_detail_paths :: "'g gpui_paths"
  ca_overview_paths :: "'g gpui_paths"
  ca_detail_bounds :: "'p bounds option"
  ca_overview_bounds :: "'p bounds option"

definition adapter_clear :: "('p, 'g) chart_adapter \<Rightarrow> ('p, 'g) chart_adapter" where
  "adapter_clear a = \<lparr>ca_detail_projections = clear_paths (ca_detail_projections a),
     ca_overview_projections = clear_paths (ca_overview_projections a),
     ca_detail_paths = Map.empty, ca_overview_paths = Map.empty,
     ca_detail_bounds = None, ca_overview_bounds = None\<rparr>"

definition bounds_canvas :: "('p, 'g) gpui \<Rightarrow> 'p bounds \<Rightarrow> (chart_error, canvas_size) res" where
  "bounds_canvas g b = canvas_size_new (gp_f64 g (bd_width b)) (gp_f64 g (bd_height b))"

subsection \<open>Preparing the paths\<close>

definition series_colors :: "nat list" where
  "series_colors = [0x2563eb, 0xdc2626, 0x059669, 0x7c3aed, 0xea580c, 0x0891b2, 0xdb2777, 0x65a30d, 0x4f46e5, 0x9333ea]"

definition series_color :: "nat \<Rightarrow> nat" where
  "series_color index = series_colors ! (index mod length series_colors)"

definition gpui_key_of ::
  "('p, 'g) gpui \<Rightarrow> u64 \<Rightarrow> viewport \<Rightarrow> 'p bounds \<Rightarrow> bool \<Rightarrow> bool \<Rightarrow> gpui_path_key" where
  "gpui_key_of g revision v b dark dashed =
     \<lparr>gk_revision = revision,
      gk_viewport = [rg_start (vp_x v), rg_end (vp_x v), rg_start (vp_y v), rg_end (vp_y v)],
      gk_bounds = map (gp_f64 g) [bd_x b, bd_y b, bd_width b, bd_height b],
      gk_dark = dark, gk_partial = dashed\<rparr>"

definition on_canvas :: "('p, 'g) gpui \<Rightarrow> 'p bounds \<Rightarrow> screen_point \<Rightarrow> 'p \<times> 'p" where
  "on_canvas g b p = (gp_add g (bd_x b) (gp_px g (to_f32 (sp_x p))), gp_add g (bd_y b) (gp_px g (to_f32 (sp_y p))))"

definition prepare_path ::
  "('p, 'g) gpui \<Rightarrow> gpui_path_key \<Rightarrow> series \<Rightarrow> viewport \<Rightarrow> 'p bounds \<Rightarrow> canvas_size \<Rightarrow>
   path_cache \<times> 'g gpui_paths \<Rightarrow> ('g option \<times> path_cache \<times> 'g gpui_paths) option" where
  "prepare_path g key s v b canvas = (\<lambda>(projections, paths).
     (let build = (case path_for s (gk_revision key) v canvas projections of
            None \<Rightarrow> None
          | Some (Inl e, projections') \<Rightarrow> Some (None, projections', paths)
          | Some (Inr points, projections') \<Rightarrow> (case gp_path g (gk_partial key) (map (on_canvas g b) points) of
              None \<Rightarrow> Some (None, projections', paths)
            | Some path \<Rightarrow> Some (Some path, projections', paths(se_id s \<mapsto> (key, path)))))
      in case paths (se_id s) of
           Some (cached, path) \<Rightarrow> if cached = key then Some (Some path, projections, paths) else build
         | None \<Rightarrow> build))"

fun prepare_curves ::
  "('p, 'g) gpui \<Rightarrow> u64 \<Rightarrow> viewport \<Rightarrow> 'p bounds \<Rightarrow> canvas_size \<Rightarrow> bool \<Rightarrow> nat \<Rightarrow> curve_series_snapshot list \<Rightarrow>
   path_cache \<times> 'g gpui_paths \<Rightarrow> (('g \<times> nat) list \<times> path_cache \<times> 'g gpui_paths) option" where
  "prepare_curves g revision v b canvas dark index [] caches = Some ([], caches)"
| "prepare_curves g revision v b canvas dark index (curve # curves) caches =
     (case css_chart_series curve of
        None \<Rightarrow> prepare_curves g revision v b canvas dark (index + 1) curves caches
      | Some s \<Rightarrow>
          (let key = gpui_key_of g revision v b dark (amr_completeness (css_evidence curve) = EC_Partial) in
           case prepare_path g key s v b canvas caches of
             None \<Rightarrow> None
           | Some (path, caches') \<Rightarrow>
               map_option (\<lambda>(paths, caches'').
                   ((case path of None \<Rightarrow> paths | Some p \<Rightarrow> (p, series_color index) # paths), caches''))
                 (prepare_curves g revision v b canvas dark (index + 1) curves caches')))"

definition set_bounds :: "chart_kind \<Rightarrow> 'p bounds \<Rightarrow> ('p, 'g) chart_adapter \<Rightarrow> ('p, 'g) chart_adapter" where
  "set_bounds kind b a = (case kind of CK_Detail \<Rightarrow> a\<lparr>ca_detail_bounds := Some b\<rparr> | CK_Overview \<Rightarrow> a\<lparr>ca_overview_bounds := Some b\<rparr>)"

definition caches_of :: "chart_kind \<Rightarrow> ('p, 'g) chart_adapter \<Rightarrow> path_cache \<times> 'g gpui_paths" where
  "caches_of kind a = (case kind of
       CK_Detail \<Rightarrow> (ca_detail_projections a, ca_detail_paths a)
     | CK_Overview \<Rightarrow> (ca_overview_projections a, ca_overview_paths a))"

definition set_caches :: "chart_kind \<Rightarrow> path_cache \<times> 'g gpui_paths \<Rightarrow> ('p, 'g) chart_adapter \<Rightarrow> ('p, 'g) chart_adapter" where
  "set_caches kind caches a = (case kind of
       CK_Detail \<Rightarrow> a\<lparr>ca_detail_projections := fst caches, ca_detail_paths := snd caches\<rparr>
     | CK_Overview \<Rightarrow> a\<lparr>ca_overview_projections := fst caches, ca_overview_paths := snd caches\<rparr>)"

definition prepare ::
  "('p, 'g) gpui \<Rightarrow> curve_snapshot \<Rightarrow> chart_kind \<Rightarrow> u64 \<Rightarrow> viewport \<Rightarrow> 'p bounds \<Rightarrow> bool \<Rightarrow>
   ('p, 'g) chart_adapter \<Rightarrow> (('g \<times> nat) list \<times> ('p, 'g) chart_adapter) option" where
  "prepare g snapshot kind revision v b dark a =
     (let a1 = set_bounds kind b a in
      case bounds_canvas g b of
        Inl e \<Rightarrow> Some ([], a1)
      | Inr canvas \<Rightarrow>
          map_option (\<lambda>(paths, caches). (paths, set_caches kind caches a1))
            (prepare_curves g revision v b canvas dark 0 (csn_series snapshot) (caches_of kind a1)))"

subsection \<open>Hit testing\<close>

definition hover_of :: "curve_series_snapshot \<Rightarrow> aligned_metric_point \<Rightarrow> hover_point" where
  "hover_of curve aligned =
     \<lparr>hv_run_name = r_name (css_run curve), hv_metric_key = mp_metric_key (amp_point aligned),
      hv_axis_value = amp_axis_value aligned, hv_step = mp_step (amp_point aligned),
      hv_value = mp_value (amp_point aligned)\<rparr>"

text \<open>The radius of eight pixels around the cursor.\<close>

definition hit_radius :: f64 where
  "hit_radius = f64_of_int 8"

fun nearest_hover ::
  "libm \<Rightarrow> viewport \<Rightarrow> canvas_size \<Rightarrow> screen_point \<Rightarrow> curve_series_snapshot list \<Rightarrow> (f64 \<times> hover_point) option \<Rightarrow>
   (f64 \<times> hover_point) option option" where
  "nearest_hover lm v canvas cursor [] nearest = Some nearest"
| "nearest_hover lm v canvas cursor (curve # curves) nearest = (case css_chart_series curve of
       None \<Rightarrow> nearest_hover lm v canvas cursor curves nearest
     | Some s \<Rightarrow> (case hit_test_point lm s v canvas cursor hit_radius of
         None \<Rightarrow> None
       | Some (Inl e) \<Rightarrow> Some None
       | Some (Inr None) \<Rightarrow> nearest_hover lm v canvas cursor curves nearest
       | Some (Inr (Some h)) \<Rightarrow>
           if (case nearest of None \<Rightarrow> False | Some (d, p) \<Rightarrow> fle d (ph_distance h))
           then nearest_hover lm v canvas cursor curves nearest
           else if ph_point_index h < length (amr_points (css_evidence curve))
           then nearest_hover lm v canvas cursor curves
                  (Some (ph_distance h, hover_of curve (amr_points (css_evidence curve) ! ph_point_index h)))
           else Some None))"

definition adapter_hit_test ::
  "('p, 'g) gpui \<Rightarrow> libm \<Rightarrow> curve_snapshot \<Rightarrow> viewport \<Rightarrow> 'p \<times> 'p \<Rightarrow> ('p, 'g) chart_adapter \<Rightarrow> hover_point option option" where
  "adapter_hit_test g lm snapshot v cursor a = (case ca_detail_bounds a of
       None \<Rightarrow> Some None
     | Some b \<Rightarrow> (case bounds_canvas g b of
         Inl e \<Rightarrow> Some None
       | Inr canvas \<Rightarrow>
           map_option (map_option snd)
             (nearest_hover lm v canvas
                \<lparr>sp_x = gp_f64 g (gp_sub g (fst cursor) (bd_x b)), sp_y = gp_f64 g (gp_sub g (snd cursor) (bd_y b))\<rparr>
                (csn_series snapshot) None)))"

subsection \<open>Geometry\<close>

definition bounds_scale :: "('p, 'g) gpui \<Rightarrow> 'p bounds \<Rightarrow> axis_range \<Rightarrow> (chart_error, linear_scale) res" where
  "bounds_scale g b r = linear_scale_new r (gp_f64 g (bd_x b)) (gp_f64 g (gp_add g (bd_x b) (bd_width b)))"

definition axis_at :: "('p, 'g) gpui \<Rightarrow> 'p bounds \<Rightarrow> axis_range \<Rightarrow> 'p \<Rightarrow> f64 option" where
  "axis_at g b r x =
     (if gp_less g x (bd_x b) \<or> gp_less g (gp_add g (bd_x b) (bd_width b)) x then None
      else (case bounds_scale g b r of Inl e \<Rightarrow> None | Inr scale \<Rightarrow> Some (scale_invert scale (gp_f64 g x))))"

definition detail_axis_at :: "('p, 'g) gpui \<Rightarrow> axis_range \<Rightarrow> 'p \<Rightarrow> ('p, 'g) chart_adapter \<Rightarrow> f64 option" where
  "detail_axis_at g r x a = (case ca_detail_bounds a of None \<Rightarrow> None | Some b \<Rightarrow> axis_at g b r x)"

definition detail_pan_delta :: "('p, 'g) gpui \<Rightarrow> axis_range \<Rightarrow> f64 \<Rightarrow> 'p \<Rightarrow> ('p, 'g) chart_adapter \<Rightarrow> f64 option" where
  "detail_pan_delta g r previous_x x a = (case ca_detail_bounds a of
       None \<Rightarrow> None
     | Some b \<Rightarrow> (case axis_at g b r x of
         None \<Rightarrow> None
       | Some current \<Rightarrow> (case bounds_scale g b r of
           Inl e \<Rightarrow> None
         | Inr scale \<Rightarrow> Some (fsub (scale_invert scale previous_x) current))))"

definition overview_axis_at :: "('p, 'g) gpui \<Rightarrow> brush \<Rightarrow> 'p \<Rightarrow> ('p, 'g) chart_adapter \<Rightarrow> f64 option" where
  "overview_axis_at g w x a = (case ca_overview_bounds a of None \<Rightarrow> None | Some b \<Rightarrow> axis_at g b (br_home w) x)"

definition brush_target :: "('p, 'g) gpui \<Rightarrow> brush \<Rightarrow> 'p \<Rightarrow> ('p, 'g) chart_adapter \<Rightarrow> brush_drag_target option" where
  "brush_target g w cursor a = (case ca_overview_bounds a of
       None \<Rightarrow> None
     | Some b \<Rightarrow> (case bounds_scale g b (br_home w) of
         Inl e \<Rightarrow> None
       | Inr scale \<Rightarrow>
           (let x = gp_f64 g cursor;
                s = scale_map scale (rg_start (br_selected w));
                e = scale_map scale (rg_end (br_selected w));
                start_distance = fabs (fsub x s);
                end_distance = fabs (fsub x e)
            in if fle start_distance (f64_of_int 8) \<or> fle end_distance (f64_of_int 8)
               then Some (if fle start_distance end_distance then BT_Start else BT_End)
               else if flt s x \<and> flt x e then Some BT_Window
               else None)))"

definition physical_width :: "('p, 'g) gpui \<Rightarrow> 'p bounds option \<Rightarrow> f64 \<Rightarrow> u32 option" where
  "physical_width g b scale_factor = (case b of
       None \<Rightarrow> None
     | Some b \<Rightarrow>
         (let width = f32_mul (gp_f64 g (bd_width b)) scale_factor
          in if is_finite width \<and> fle (f64_of_int 1) width then Some (to_u32 (f32_round width)) else None))"

definition physical_widths :: "('p, 'g) gpui \<Rightarrow> f64 \<Rightarrow> ('p, 'g) chart_adapter \<Rightarrow> u32 option \<times> u32 option" where
  "physical_widths g scale_factor a =
     (physical_width g (ca_overview_bounds a) scale_factor, physical_width g (ca_detail_bounds a) scale_factor)"

subsection \<open>Viewports\<close>

definition drawn_series :: "curve_snapshot \<Rightarrow> series list" where
  "drawn_series snapshot = concat (map (\<lambda>c. case css_chart_series c of None \<Rightarrow> [] | Some s \<Rightarrow> [s]) (csn_series snapshot))"

definition y_range_of :: "curve_snapshot \<Rightarrow> axis_range \<Rightarrow> axis_range option option" where
  "y_range_of snapshot r =
     map_option (\<lambda>y. case y of Inl e \<Rightarrow> None | Inr r \<Rightarrow> r) (visible_y_range_for (drawn_series snapshot) r)"

definition same_range :: "axis_range \<Rightarrow> axis_range \<Rightarrow> bool" where
  "same_range a b \<longleftrightarrow> feq (rg_start a) (rg_start b) \<and> feq (rg_end a) (rg_end b)"

definition detail_viewport :: "curve_snapshot \<Rightarrow> axis_range option \<Rightarrow> viewport option option" where
  "detail_viewport snapshot window =
     (case axis_range_new (f64_of_int (av_start (csn_viewport snapshot))) (f64_of_int (av_end (csn_viewport snapshot))) of
        Inl e \<Rightarrow> Some None
      | Inr snapshot_x \<Rightarrow>
          (let x = (case window of
                 None \<Rightarrow> snapshot_x
               | Some r \<Rightarrow> if fle (rg_start snapshot_x) (rg_start r) \<and> fle (rg_end r) (rg_end snapshot_x) then r else snapshot_x)
           in case y_range_of snapshot x of
                None \<Rightarrow> None
              | Some (Some y) \<Rightarrow> Some (Some \<lparr>vp_x = x, vp_y = y\<rparr>)
              | Some None \<Rightarrow>
                  if same_range x snapshot_x then Some None
                  else map_option (map_option (\<lambda>y. \<lparr>vp_x = x, vp_y = y\<rparr>)) (y_range_of snapshot snapshot_x)))"

definition selection_covered :: "curve_snapshot \<Rightarrow> axis_range \<Rightarrow> bool" where
  "selection_covered snapshot window \<longleftrightarrow>
     fle (f64_of_int (av_start (csn_viewport snapshot))) (rg_start window) \<and>
     fle (rg_end window) (f64_of_int (av_end (csn_viewport snapshot)))"

definition overview_viewport :: "curve_snapshot \<Rightarrow> brush \<Rightarrow> viewport option option" where
  "overview_viewport snapshot w =
     map_option (map_option (\<lambda>y. \<lparr>vp_x = br_home w, vp_y = y\<rparr>)) (y_range_of snapshot (br_home w))"

fun axis_value_label :: "alignment_axis \<Rightarrow> string" where
  "axis_value_label Axis_Step = ''step''"
| "axis_value_label Axis_ElapsedTime = ''elapsed_ms''"

text \<open>The pixels of the brush: the left edge and the width of the window, as fractions of the canvas.\<close>

definition brush_ratios :: "brush \<Rightarrow> f64 \<times> f64" where
  "brush_ratios w =
     (to_f32 (fdiv (fsub (rg_start (br_selected w)) (rg_start (br_home w))) (rg_span (br_home w))),
      to_f32 (fdiv (fsub (rg_end (br_selected w)) (rg_start (br_home w))) (rg_span (br_home w))))"

end
