(* ===== verification/Viewer_App.thy ===== *)
theory Viewer_App
  imports Viewer_Core Viewer_Chart
begin

section \<open>The viewer application (\<open>pulseon-viewer/src/desktop.rs\<close>, \<open>main.rs\<close>)\<close>

text \<open>
  The state of the window and its handlers: the source and its worker, the requests a change of the
  selection submits, the events it applies, the run filter, and the gestures on the two charts. The
  frame that \<open>render\<close> builds from this state is the subject of \<open>Viewer_View\<close>; what a handler reads from an event (a key, a position, a
  wheel delta) is its argument. \<open>None\<close> is a panic of the brush.
\<close>

subsection \<open>Dragging the brush\<close>

datatype drag_gesture =
    DG_BrushStart
  | DG_BrushEnd
  | DG_BrushWindow f64
  | DG_Detail f64

definition update_brush_drag :: "f64 \<Rightarrow> drag_gesture \<Rightarrow> brush \<Rightarrow> (drag_gesture \<times> brush) option" where
  "update_brush_drag axis gesture b = (case gesture of
       DG_BrushStart \<Rightarrow>
         if flt axis (rg_end (br_selected b)) then map_option (\<lambda>(r, b'). (gesture, b')) (resize_start axis b)
         else Some (gesture, b)
     | DG_BrushEnd \<Rightarrow>
         if flt (rg_start (br_selected b)) axis then map_option (\<lambda>(r, b'). (gesture, b')) (resize_end axis b)
         else Some (gesture, b)
     | DG_BrushWindow last_axis \<Rightarrow>
         map_option (\<lambda>(r, b'). (DG_BrushWindow axis, b')) (pan_by (fsub axis last_axis) b)
     | DG_Detail last_x \<Rightarrow> Some (gesture, b))"

subsection \<open>State\<close>

type_synonym run_list_cache = "run list"

definition rebuild_run_list ::
  "(string \<Rightarrow> string) \<Rightarrow> catalog_snapshot option \<Rightarrow> string \<Rightarrow> run_list_cache" where
  "rebuild_run_list lower catalog text = (case catalog of
       None \<Rightarrow> []
     | Some ct \<Rightarrow> filter (\<lambda>r. run_matches_filter lower r text) (ct_runs ct))"

record ('p, 'g) viewer_app =
  va_run_filter :: string
  va_run_list :: run_list_cache
  va_source_path :: "path option"
  va_worker :: "worker option"
  va_event_task :: bool
  va_core :: viewer_core
  va_next_generation :: u64
  va_local_error :: "string option"
  va_adapter :: "('p, 'g) chart_adapter"
  va_overview_revision :: u64
  va_detail_revision :: u64
  va_overview_width :: u32
  va_detail_width :: u32
  va_hover :: "hover_point option"
  va_drag :: "drag_gesture option"
  va_zoom_task :: bool

definition adapter_default :: "('p, 'g) chart_adapter" where
  "adapter_default = \<lparr>ca_detail_projections = Map.empty, ca_overview_projections = Map.empty,
     ca_detail_paths = Map.empty, ca_overview_paths = Map.empty,
     ca_detail_bounds = None, ca_overview_bounds = None\<rparr>"

definition app_default :: "('p, 'g) viewer_app" where
  "app_default =
     \<lparr>va_run_filter = [], va_run_list = [], va_source_path = None, va_worker = None, va_event_task = False,
      va_core = viewer_core_default, va_next_generation = 1, va_local_error = None, va_adapter = adapter_default,
      va_overview_revision = 0, va_detail_revision = 0, va_overview_width = 1000, va_detail_width = 1000,
      va_hover = None, va_drag = None, va_zoom_task = False\<rparr>"

subsection \<open>Requests\<close>

definition submit :: "read_request \<Rightarrow> ('p, 'g) viewer_app \<Rightarrow> ('p, 'g) viewer_app" where
  "submit request app = (case va_worker app of
       None \<Rightarrow> app
     | Some w \<Rightarrow>
         (let g = va_next_generation app;
              (r, w') = worker_submit g request w;
              app1 = app\<lparr>va_next_generation := u64_sat_add g 1, va_worker := Some w'\<rparr>
          in case r of
               Inr u \<Rightarrow> app1\<lparr>va_core := core_begin g request (va_core app1)\<rparr>
             | Inl e \<Rightarrow> app1\<lparr>va_local_error := Some worker_closed_display\<rparr>))"

definition refresh_catalog :: "('p, 'g) viewer_app \<Rightarrow> ('p, 'g) viewer_app" where
  "refresh_catalog app =
     (let sel = vc_selection (va_core app)
      in submit (RR_Discover \<lparr>dr_project_id = vs_project_id sel, dr_selected_run_ids = vs_run_ids sel\<rparr>) app)"

definition core_curve_selection :: "viewer_core \<Rightarrow> curve_selection option" where
  "core_curve_selection c =
     (let sel = vc_selection c in
      if vs_run_ids sel = [] then None
      else map_option (\<lambda>key. \<lparr>cu_run_ids = vs_run_ids sel, cu_metric_key = key, cu_axis = vc_axis c\<rparr>) (vs_metric_key sel))"

definition request_overview :: "('p, 'g) viewer_app \<Rightarrow> ('p, 'g) viewer_app" where
  "request_overview app = (case core_curve_selection (va_core app) of
       None \<Rightarrow> app
     | Some sel \<Rightarrow> submit (RR_Overview \<lparr>ov_selection = sel, ov_physical_width = va_overview_width app\<rparr>) app)"

definition request_detail :: "('p, 'g) viewer_app \<Rightarrow> ('p, 'g) viewer_app" where
  "request_detail app = (case core_curve_selection (va_core app) of
       None \<Rightarrow> app
     | Some sel \<Rightarrow> (case selected_viewport (va_core app) of
         None \<Rightarrow> app
       | Some v \<Rightarrow> submit (RR_Detail \<lparr>dt_selection = sel, dt_viewport = v, dt_physical_width = va_detail_width app\<rparr>) app))"

definition apply_event ::
  "(string \<Rightarrow> string) \<Rightarrow> read_event \<Rightarrow> ('p, 'g) viewer_app \<Rightarrow> ('p, 'g) viewer_app option" where
  "apply_event lower ev app =
     map_option (\<lambda>(outcome, core).
        (let app1 = app\<lparr>va_core := core\<rparr> in
         if outcome \<noteq> Applied \<or> (case re_result ev of Inl e \<Rightarrow> True | Inr s \<Rightarrow> False) then app1
         else (case re_kind ev of
             RK_Catalog \<Rightarrow>
               (let app2 = app1\<lparr>va_run_list := rebuild_run_list lower (vc_catalog (va_core app1)) (va_run_filter app1)\<rparr>
                in if core_curve_selection (va_core app2) \<noteq> None then request_overview app2 else app2)
           | RK_Overview \<Rightarrow> request_detail (app1\<lparr>va_overview_revision := re_generation ev\<rparr>)
           | RK_Detail \<Rightarrow> app1\<lparr>va_detail_revision := re_generation ev\<rparr>)))
       (core_apply ev (va_core app))"

subsection \<open>Opening a source\<close>

text \<open>The task that listens for events owns their receiver; the outcome of spawning the thread is an argument.\<close>

definition close_source :: "('p, 'g) viewer_app \<Rightarrow> ('p, 'g) viewer_app" where
  "close_source app = app\<lparr>va_event_task := False, va_worker := None\<rparr>"

definition open_source ::
  "(string, worker) res \<Rightarrow> path \<Rightarrow> ('p, 'g) viewer_app \<Rightarrow> ('p, 'g) viewer_app" where
  "open_source spawned p app =
     (let app1 = (close_source app)\<lparr>va_core := viewer_core_default, va_run_list := [],
            va_adapter := adapter_clear (va_adapter app), va_hover := None, va_drag := None,
            va_zoom_task := False, va_local_error := None, va_source_path := Some p\<rparr>
      in case spawned of
           Inl e \<Rightarrow> app1\<lparr>va_local_error := Some e\<rparr>
         | Inr worker \<Rightarrow> (case take_event_receiver worker of
             (False, w) \<Rightarrow> app1\<lparr>va_local_error := Some ''native read worker has no event stream''\<rparr>
           | (True, w) \<Rightarrow> refresh_catalog (app1\<lparr>va_worker := Some w, va_event_task := True\<rparr>)))"

definition app_new :: "(path \<times> (string, worker) res) option \<Rightarrow> ('p, 'g) viewer_app" where
  "app_new source = (case source of
       None \<Rightarrow> app_default
     | Some (p, spawned) \<Rightarrow> open_source spawned p app_default)"

definition picked_directory :: "path list option \<Rightarrow> path option" where
  "picked_directory paths = (case paths of Some (p # ps) \<Rightarrow> Some p | _ \<Rightarrow> None)"

definition on_picked ::
  "(string, path list option) res \<Rightarrow> (path \<Rightarrow> (string, worker) res) \<Rightarrow> ('p, 'g) viewer_app \<Rightarrow> ('p, 'g) viewer_app" where
  "on_picked result spawn app = (case result of
       Inl e \<Rightarrow> app\<lparr>va_local_error := Some e\<rparr>
     | Inr paths \<Rightarrow> (case picked_directory paths of None \<Rightarrow> app | Some p \<Rightarrow> open_source (spawn p) p app))"

definition app_error :: "('p, 'g) viewer_app \<Rightarrow> string option" where
  "app_error app = (case va_local_error app of Some e \<Rightarrow> Some e | None \<Rightarrow> vc_last_error (va_core app))"

definition ellipsis :: string where
  "ellipsis = [byte 226, byte 128, byte 166]"

definition app_status :: "('p, 'g) viewer_app \<Rightarrow> string" where
  "app_status app =
     (if va_source_path app = None then ''Open a local PulseOn project to compare Runs.''
      else if vc_catalog (va_core app) = None \<and> is_pending RK_Catalog (va_core app) then ''Loading Projects'' @ ellipsis
      else (case vc_catalog (va_core app) of
          None \<Rightarrow> ''No catalog is available.''
        | Some ct \<Rightarrow> if ct_projects ct = [] then ''This store does not contain any Projects.''
                    else ''Select a Project to begin.''))"

subsection \<open>Actions on the selection\<close>

definition on_refresh :: "('p, 'g) viewer_app \<Rightarrow> ('p, 'g) viewer_app" where
  "on_refresh app = refresh_catalog (app\<lparr>va_local_error := None\<rparr>)"

definition on_reset :: "('p, 'g) viewer_app \<Rightarrow> ('p, 'g) viewer_app" where
  "on_reset app = (case reset_view (va_core app) of
       (True, c) \<Rightarrow> request_detail (app\<lparr>va_core := c\<rparr>)
     | (False, c) \<Rightarrow> app\<lparr>va_core := c\<rparr>)"

definition on_step :: "('p, 'g) viewer_app \<Rightarrow> ('p, 'g) viewer_app" where
  "on_step app = request_overview (app\<lparr>va_core := core_select_axis Axis_Step (va_core app)\<rparr>)"

definition on_elapsed :: "('p, 'g) viewer_app \<Rightarrow> ('p, 'g) viewer_app" where
  "on_elapsed app = request_overview (app\<lparr>va_core := core_select_axis Axis_ElapsedTime (va_core app)\<rparr>)"

definition app_select_project ::
  "(string \<Rightarrow> string) \<Rightarrow> project_id \<Rightarrow> ('p, 'g) viewer_app \<Rightarrow> ('p, 'g) viewer_app" where
  "app_select_project lower p app =
     (let c = core_select_project (Some p) (va_core app)
      in refresh_catalog (app\<lparr>va_core := c, va_run_filter := [], va_run_list := rebuild_run_list lower (vc_catalog c) []\<rparr>))"

definition app_toggle_run :: "run_id \<Rightarrow> ('p, 'g) viewer_app \<Rightarrow> ('p, 'g) viewer_app" where
  "app_toggle_run rid app = (case core_toggle_run rid (va_core app) of
       (Inr b, c) \<Rightarrow> refresh_catalog (app\<lparr>va_core := c, va_local_error := None\<rparr>)
     | (Inl e, c) \<Rightarrow> app\<lparr>va_core := c, va_local_error := Some run_limit_display\<rparr>)"

definition app_select_metric :: "metric_key \<Rightarrow> ('p, 'g) viewer_app \<Rightarrow> ('p, 'g) viewer_app" where
  "app_select_metric key app = request_overview (app\<lparr>va_core := core_select_metric (Some key) (va_core app)\<rparr>)"

subsection \<open>The run filter\<close>

text \<open>\<open>String::pop\<close> removes the last character, the bytes from its leading byte on.\<close>

fun drop_char_rev :: "string \<Rightarrow> string" where
  "drop_char_rev [] = []"
| "drop_char_rev (c # cs) = (if 128 \<le> (of_char c :: nat) \<and> (of_char c :: nat) < 192 then drop_char_rev cs else cs)"

definition pop_char :: "string \<Rightarrow> string" where
  "pop_char s = rev (drop_char_rev (rev s))"

text \<open>\<open>char::is_control\<close> on UTF-8: below 32, 127, and U+0080 to U+009F.\<close>

fun has_control :: "string \<Rightarrow> bool" where
  "has_control [] = False"
| "has_control (c # cs) =
     ((of_char c :: nat) < 32 \<or> (of_char c :: nat) = 127 \<or>
      (of_char c :: nat) = 194 \<and> (case cs of [] \<Rightarrow> False | d # ds \<Rightarrow> (of_char d :: nat) < 160) \<or> has_control cs)"

record keystroke =
  ks_key :: string
  ks_platform :: bool
  ks_control :: bool
  ks_key_char :: "string option"

definition on_filter_key :: "(string \<Rightarrow> string) \<Rightarrow> keystroke \<Rightarrow> ('p, 'g) viewer_app \<Rightarrow> ('p, 'g) viewer_app" where
  "on_filter_key lower k app =
     (let rebuilt = (\<lambda>text. app\<lparr>va_run_filter := text,
            va_run_list := rebuild_run_list lower (vc_catalog (va_core app)) text\<rparr>)
      in if ks_key k = ''backspace'' then rebuilt (pop_char (va_run_filter app))
         else if ks_key k = ''escape'' then rebuilt []
         else if \<not> ks_platform k \<and> \<not> ks_control k
         then rebuilt (case ks_key_char k of
                None \<Rightarrow> va_run_filter app
              | Some text \<Rightarrow> if has_control text then va_run_filter app else va_run_filter app @ text)
         else app)"

subsection \<open>Gestures\<close>

definition begin_brush_drag :: "('p, 'g) gpui \<Rightarrow> 'p \<Rightarrow> ('p, 'g) viewer_app \<Rightarrow> ('p, 'g) viewer_app" where
  "begin_brush_drag g x app = (case vc_brush (va_core app) of
       None \<Rightarrow> app
     | Some b \<Rightarrow> app\<lparr>va_hover := None, va_drag := (case brush_target g b x (va_adapter app) of
         Some BT_Start \<Rightarrow> Some DG_BrushStart
       | Some BT_End \<Rightarrow> Some DG_BrushEnd
       | Some BT_Window \<Rightarrow> map_option DG_BrushWindow (overview_axis_at g b x (va_adapter app))
       | None \<Rightarrow> None)\<rparr>)"

definition set_brush :: "brush \<Rightarrow> viewer_core \<Rightarrow> viewer_core" where
  "set_brush b c = c\<lparr>vc_brush := Some b\<rparr>"

definition move_brush_drag :: "('p, 'g) gpui \<Rightarrow> 'p \<Rightarrow> ('p, 'g) viewer_app \<Rightarrow> ('p, 'g) viewer_app option" where
  "move_brush_drag g x app = (case va_drag app of
       None \<Rightarrow> Some app
     | Some gesture \<Rightarrow> (case vc_brush (va_core app) of
         None \<Rightarrow> Some app
       | Some b \<Rightarrow> (case overview_axis_at g b x (va_adapter app) of
           None \<Rightarrow> Some app
         | Some axis \<Rightarrow>
             map_option (\<lambda>(gesture', b'). app\<lparr>va_core := set_brush b' (va_core app), va_drag := Some gesture'\<rparr>)
               (update_brush_drag axis gesture b))))"

definition begin_detail_drag :: "('p, 'g) gpui \<Rightarrow> 'p \<Rightarrow> ('p, 'g) viewer_app \<Rightarrow> ('p, 'g) viewer_app" where
  "begin_detail_drag g x app = (case vc_brush (va_core app) of
       None \<Rightarrow> app
     | Some b \<Rightarrow> app\<lparr>va_hover := None,
         va_drag := map_option (\<lambda>_. DG_Detail (gp_f64 g x)) (detail_axis_at g (br_selected b) x (va_adapter app))\<rparr>)"

definition move_detail_drag :: "('p, 'g) gpui \<Rightarrow> 'p \<Rightarrow> ('p, 'g) viewer_app \<Rightarrow> ('p, 'g) viewer_app option" where
  "move_detail_drag g x app = (case va_drag app of
       Some (DG_Detail last_x) \<Rightarrow> (case vc_brush (va_core app) of
         None \<Rightarrow> Some app
       | Some b \<Rightarrow> (case detail_pan_delta g (br_selected b) last_x x (va_adapter app) of
           None \<Rightarrow> Some app
         | Some delta \<Rightarrow>
             map_option (\<lambda>(r, b'). app\<lparr>va_core := set_brush b' (va_core app), va_drag := Some (DG_Detail (gp_f64 g x))\<rparr>)
               (pan_by delta b)))
     | _ \<Rightarrow> Some app)"

definition finish_drag :: "('p, 'g) viewer_app \<Rightarrow> ('p, 'g) viewer_app" where
  "finish_drag app = (if va_drag app = None then app else request_detail (app\<lparr>va_drag := None\<rparr>))"

text \<open>\<open>f64::from((-delta / 240.).exp().clamp(0.5, 2.))\<close> in single precision; \<open>exp\<close> is an argument.\<close>

definition zoom_factor :: "(f64 \<Rightarrow> f64) \<Rightarrow> f64 \<Rightarrow> f64 option" where
  "zoom_factor exp32 delta =
     fclamp (exp32 (f32_div (fneg delta) (f64_of_int 240))) (f64_of_rat (1 / 2)) (f64_of_int 2)"

definition zoom_detail ::
  "('p, 'g) gpui \<Rightarrow> (f64 \<Rightarrow> f64) \<Rightarrow> 'p \<Rightarrow> f64 \<Rightarrow> ('p, 'g) viewer_app \<Rightarrow> ('p, 'g) viewer_app option" where
  "zoom_detail g exp32 x delta app = (case vc_brush (va_core app) of
       None \<Rightarrow> Some app
     | Some b \<Rightarrow> (case detail_axis_at g (br_selected b) x (va_adapter app) of
         None \<Rightarrow> Some app
       | Some anchor \<Rightarrow> (case zoom_factor exp32 delta of
           None \<Rightarrow> None
         | Some factor \<Rightarrow> (case zoom_at anchor factor b of
             None \<Rightarrow> None
           | Some (Inl e, b') \<Rightarrow> Some (app\<lparr>va_core := set_brush b' (va_core app)\<rparr>)
           | Some (Inr u, b') \<Rightarrow> Some (app\<lparr>va_core := set_brush b' (va_core app), va_zoom_task := True\<rparr>)))))"

text \<open>
  \<open>va_zoom_task\<close> says whether a timer is running. The timer of the last zoom has run out here; an
  earlier one is dropped with its task.
\<close>

definition zoom_timer :: "('p, 'g) viewer_app \<Rightarrow> ('p, 'g) viewer_app" where
  "zoom_timer app = (if va_zoom_task app then request_detail (app\<lparr>va_zoom_task := False\<rparr>) else app)"

definition reconcile_canvas_widths :: "('p, 'g) gpui \<Rightarrow> f64 \<Rightarrow> ('p, 'g) viewer_app \<Rightarrow> ('p, 'g) viewer_app" where
  "reconcile_canvas_widths g scale_factor app =
     (let (overview, detail) = physical_widths g scale_factor (va_adapter app);
          overview_changed = (case overview of None \<Rightarrow> False | Some w \<Rightarrow> w \<noteq> va_overview_width app);
          detail_changed = (case detail of None \<Rightarrow> False | Some w \<Rightarrow> w \<noteq> va_detail_width app);
          app1 = app\<lparr>va_overview_width := (case overview of None \<Rightarrow> va_overview_width app | Some w \<Rightarrow> w),
                     va_detail_width := (case detail of None \<Rightarrow> va_detail_width app | Some w \<Rightarrow> w)\<rparr>;
          app2 = (if overview_changed then request_overview app1 else app1)
      in if detail_changed then request_detail app2 else app2)"

definition hover_chart ::
  "('p, 'g) gpui \<Rightarrow> libm \<Rightarrow> curve_snapshot \<Rightarrow> viewport \<Rightarrow> 'p \<times> 'p \<Rightarrow> ('p, 'g) viewer_app \<Rightarrow> ('p, 'g) viewer_app option" where
  "hover_chart g lm snapshot v cursor app =
     map_option (\<lambda>h. app\<lparr>va_hover := h\<rparr>) (adapter_hit_test g lm snapshot v cursor (va_adapter app))"

definition leave_chart :: "('p, 'g) viewer_app \<Rightarrow> ('p, 'g) viewer_app" where
  "leave_chart app = app\<lparr>va_hover := None\<rparr>"

text \<open>The state that painting a chart leaves.\<close>

definition paint_chart ::
  "('p, 'g) gpui \<Rightarrow> curve_snapshot \<Rightarrow> chart_kind \<Rightarrow> viewport \<Rightarrow> 'p bounds \<Rightarrow> bool \<Rightarrow>
   ('p, 'g) viewer_app \<Rightarrow> ('p, 'g) viewer_app option" where
  "paint_chart g snapshot kind v b dark app =
     map_option (\<lambda>(paths, a). app\<lparr>va_adapter := a\<rparr>)
       (prepare g snapshot kind
          (case kind of CK_Detail \<Rightarrow> va_detail_revision app | CK_Overview \<Rightarrow> va_overview_revision app)
          v b dark (va_adapter app))"

text \<open>Whether the detail chart says that it is being updated.\<close>

definition updating_viewport :: "('p, 'g) viewer_app \<Rightarrow> curve_snapshot \<Rightarrow> bool" where
  "updating_viewport app snapshot \<longleftrightarrow>
     is_pending RK_Detail (va_core app) \<or>
     (case vc_brush (va_core app) of None \<Rightarrow> False | Some b \<Rightarrow> \<not> selection_covered snapshot (br_selected b))"

subsection \<open>Labels\<close>

fun axis_label :: "alignment_axis \<Rightarrow> string" where
  "axis_label Axis_Step = ''Step''"
| "axis_label Axis_ElapsedTime = ''Elapsed (ms)''"

definition empty_detail_message :: "bool \<Rightarrow> bool \<Rightarrow> string" where
  "empty_detail_message has_overview pending =
     (if pending then ''Loading curves'' @ ellipsis
      else if has_overview then ''No drawable evidence is available for the selected Runs.''
      else ''Select Runs and one metric to draw curves.'')"

fun reason_debug :: "evidence_reason \<Rightarrow> string" where
  "reason_debug MissingMetric = ''MissingMetric''"
| "reason_debug MissingRunStart = ''MissingRunStart''"
| "reason_debug NegativeAxis = ''NegativeAxis''"
| "reason_debug DecreasingAxis = ''DecreasingAxis''"
| "reason_debug NonFiniteValue = ''NonFiniteValue''"
| "reason_debug RunRunning = ''RunRunning''"
| "reason_debug RunFailed = ''RunFailed''"

definition middle_dot :: string where
  "middle_dot = [CHR '' '', byte 194, byte 183, CHR '' '']"

definition reasons_label :: "evidence_reason list \<Rightarrow> string" where
  "reasons_label reasons = (if reasons = [] then [] else middle_dot @ join_str '', '' (map reason_debug reasons))"

fun completeness_debug :: "evidence_completeness \<Rightarrow> string" where
  "completeness_debug EC_Complete = ''Complete''"
| "completeness_debug EC_Partial = ''Partial''"
| "completeness_debug EC_Unavailable = ''Unavailable''"
| "completeness_debug EC_Invalid = ''Invalid''"

definition legend_entry :: "nat \<Rightarrow> curve_series_snapshot \<Rightarrow> nat \<times> string \<times> string" where
  "legend_entry index curve =
     ((if drawable (css_evidence curve) then series_color index else 0x9ca3af), r_name (css_run curve),
      completeness_debug (amr_completeness (css_evidence curve)) @ reasons_label (amr_reasons (css_evidence curve)))"

definition can_toggle :: "run_id \<Rightarrow> viewer_core \<Rightarrow> bool" where
  "can_toggle rid c \<longleftrightarrow> rid \<in> set (vs_run_ids (vc_selection c)) \<or> length (vs_run_ids (vc_selection c)) < max_selected_runs"

text \<open>The command line: at most one project path.\<close>

definition project_path :: "path list \<Rightarrow> (unit, path option) res" where
  "project_path args = (case args of [] \<Rightarrow> Ok None | [p] \<Rightarrow> Ok (Some p) | _ \<Rightarrow> Err ())"

end
