(* ===== verification/Viewer_Guarantees.thy ===== *)
theory Viewer_Guarantees
  imports Viewer_App
begin

section \<open>What the viewer shows\<close>

text \<open>
  The viewer as a transition system: the user's actions, the turns of its worker, and the delivery of
  events, in any order. An invariant of the application is a locale with one assumption per kind of
  change; every step keeps it. Two invariants interpret it: a request that is awaited is still being
  served, and the curves shown answer a request for the current selection.
\<close>

subsection \<open>Steps\<close>

datatype 'p viewer_action =
    VA_Open path "string option"
  | VA_Picked "(string, path list option) res"
  | VA_Refresh
  | VA_Reset
  | VA_Step
  | VA_Elapsed
  | VA_Project project_id
  | VA_Run run_id
  | VA_Metric metric_key
  | VA_Filter keystroke
  | VA_BrushDown 'p
  | VA_BrushMove 'p
  | VA_DetailDown 'p
  | VA_DetailMove 'p
  | VA_Hover curve_snapshot viewport "'p \<times> 'p"
  | VA_Leave
  | VA_Release
  | VA_Wheel 'p f64
  | VA_ZoomTimer
  | VA_Frame f64
  | VA_Paint curve_snapshot chart_kind viewport "'p bounds" bool

record ('v, 'p, 'g) viewer_env =
  ve_lower :: "string \<Rightarrow> string"
  ve_source :: "path \<Rightarrow> 'v source"
  ve_gpui :: "('p, 'g) gpui"
  ve_libm :: libm
  ve_exp32 :: "f64 \<Rightarrow> f64"

definition spawn_result :: "string option \<Rightarrow> (string, worker) res" where
  "spawn_result failure = (case failure of None \<Rightarrow> Ok worker_spawn | Some e \<Rightarrow> Err e)"

fun app_act ::
  "('v, 'p, 'g) viewer_env \<Rightarrow> 'p viewer_action \<Rightarrow> ('p, 'g) viewer_app \<Rightarrow> ('p, 'g) viewer_app option" where
  "app_act env (VA_Open p failure) app = Some (open_source (spawn_result failure) p app)"
| "app_act env (VA_Picked result) app = Some (on_picked result (\<lambda>_. Ok worker_spawn) app)"
| "app_act env VA_Refresh app = Some (on_refresh app)"
| "app_act env VA_Reset app = Some (on_reset app)"
| "app_act env VA_Step app = Some (on_step app)"
| "app_act env VA_Elapsed app = Some (on_elapsed app)"
| "app_act env (VA_Project p) app = Some (app_select_project (ve_lower env) p app)"
| "app_act env (VA_Run rid) app = Some (app_toggle_run rid app)"
| "app_act env (VA_Metric key) app = Some (app_select_metric key app)"
| "app_act env (VA_Filter k) app = Some (on_filter_key (ve_lower env) k app)"
| "app_act env (VA_BrushDown x) app = Some (begin_brush_drag (ve_gpui env) x app)"
| "app_act env (VA_BrushMove x) app = move_brush_drag (ve_gpui env) x app"
| "app_act env (VA_DetailDown x) app = Some (begin_detail_drag (ve_gpui env) x app)"
| "app_act env (VA_DetailMove x) app = move_detail_drag (ve_gpui env) x app"
| "app_act env (VA_Hover s v cursor) app = hover_chart (ve_gpui env) (ve_libm env) s v cursor app"
| "app_act env VA_Leave app = Some (leave_chart app)"
| "app_act env VA_Release app = Some (finish_drag app)"
| "app_act env (VA_Wheel x delta) app = zoom_detail (ve_gpui env) (ve_exp32 env) x delta app"
| "app_act env VA_ZoomTimer app = Some (zoom_timer app)"
| "app_act env (VA_Frame scale) app = Some (reconcile_canvas_widths (ve_gpui env) scale app)"
| "app_act env (VA_Paint s kind v b dark) app = paint_chart (ve_gpui env) s kind v b dark app"

definition set_events :: "event_channel \<Rightarrow> worker \<Rightarrow> ('p, 'g) viewer_app \<Rightarrow> ('p, 'g) viewer_app" where
  "set_events c w app = app\<lparr>va_worker := Some (w\<lparr>wk_events := c\<rparr>)\<rparr>"

inductive viewer_step ::
  "('v, 'p, 'g) viewer_env \<Rightarrow> ('p, 'g) viewer_app \<Rightarrow> ('p, 'g) viewer_app \<Rightarrow> bool" for env where
  act: "app_act env a app = Some app' \<Longrightarrow> viewer_step env app app'"
| turn: "va_worker app = Some w \<Longrightarrow> va_source_path app = Some p \<Longrightarrow>
     viewer_step env app (app\<lparr>va_worker := Some (loop_turn (ve_source env p) world w)\<rparr>)"
| deliver: "va_event_task app \<Longrightarrow> va_worker app = Some w \<Longrightarrow> poll_event (wk_events w) = (Ready (Some ev), c) \<Longrightarrow>
     apply_event (ve_lower env) ev (set_events c w app) = Some app' \<Longrightarrow> viewer_step env app app'"
| park: "va_event_task app \<Longrightarrow> va_worker app = Some w \<Longrightarrow> poll_event (wk_events w) = (Pending, c) \<Longrightarrow>
     viewer_step env app (set_events c w app)"

definition viewer_reachable :: "('v, 'p, 'g) viewer_env \<Rightarrow> ('p, 'g) viewer_app \<Rightarrow> bool" where
  "viewer_reachable env app \<longleftrightarrow> (\<exists>source. (viewer_step env)\<^sup>*\<^sup>* (app_new (map_option (\<lambda>(p, e). (p, spawn_result e)) source)) app)"

subsection \<open>Changes of the core\<close>

text \<open>What a handler may do to the core: stop waiting, and clear curves, which it must when it changes the selection.\<close>

definition core_moves :: "viewer_core \<Rightarrow> viewer_core \<Rightarrow> bool" where
  "core_moves c c' \<longleftrightarrow>
     (\<forall>k. vc_expected c' k = None \<or> vc_expected c' k = vc_expected c k) \<and>
     (vc_overview c' = None \<or> vc_overview c' = vc_overview c) \<and>
     (vc_detail c' = None \<or> vc_detail c' = vc_detail c) \<and>
     (core_curve_selection c' = core_curve_selection c \<or>
      vc_overview c' = None \<and> vc_detail c' = None \<and>
      vc_expected c' RK_Overview = None \<and> vc_expected c' RK_Detail = None)"

lemma curve_selection_update [simp]:
  "core_curve_selection (c\<lparr>vc_brush := b\<rparr>) = core_curve_selection c"
  "core_curve_selection (c\<lparr>vc_catalog := ct\<rparr>) = core_curve_selection c"
  "core_curve_selection (c\<lparr>vc_overview := s\<rparr>) = core_curve_selection c"
  "core_curve_selection (c\<lparr>vc_detail := s\<rparr>) = core_curve_selection c"
  "core_curve_selection (c\<lparr>vc_expected := x\<rparr>) = core_curve_selection c"
  "core_curve_selection (c\<lparr>vc_last_error := e\<rparr>) = core_curve_selection c"
  by (simp_all add: core_curve_selection_def Let_def)

lemma core_moves_refl [simp]: "core_moves c c"
  by (simp add: core_moves_def)

lemma clear_curves_moves: "(\<forall>k. vc_expected c' k = vc_expected c k) \<Longrightarrow> core_moves c (clear_curves c')"
  by (simp add: core_moves_def clear_curves_def)

lemma select_moves [simp]:
  "core_moves c (core_select_project p c)"
  "core_moves c (core_select_metric key c)"
  "core_moves c (core_select_axis axis c)"
  "core_moves c (snd (core_toggle_run rid c))"
  by (simp_all add: core_select_project_def core_select_metric_def core_select_axis_def core_toggle_run_def
      set_run_ids_def Let_def clear_curves_moves)

lemma set_brush_moves [simp]: "core_moves c (set_brush b c)" "core_moves c (snd (reset_view c))"
  by (simp_all add: core_moves_def set_brush_def reset_view_def split: option.split)

definition no_longer_expected :: "read_kind \<Rightarrow> viewer_core \<Rightarrow> viewer_core" where
  "no_longer_expected k c = c\<lparr>vc_expected := (vc_expected c)(k := None)\<rparr>"

lemma apply_catalog_moves: "core_moves c (apply_catalog s (no_longer_expected k c))"
proof (cases "vc_selection (apply_catalog s (no_longer_expected k c)) = vc_selection c")
  case True
  then have "core_curve_selection (apply_catalog s (no_longer_expected k c)) = core_curve_selection c"
    by (simp add: core_curve_selection_def Let_def apply_catalog_def no_longer_expected_def)
  then show ?thesis by (simp add: core_moves_def apply_catalog_def no_longer_expected_def Let_def)
next
  case False
  then show ?thesis by (simp add: core_moves_def apply_catalog_def no_longer_expected_def Let_def split: if_splits)
qed

text \<open>What \<open>apply\<close> does with an event, by cases.\<close>

lemma core_apply_cases:
  assumes "core_apply ev c = Some (outcome, c')"
  obtains (ignored) "c' = c"
      "vc_expected c (re_kind ev) \<noteq> Some (re_generation ev) \<or> (\<exists>s. re_result ev = Inr s \<and> snapshot_kind s \<noteq> re_kind ev)"
  | (moved) "vc_expected c (re_kind ev) = Some (re_generation ev)" "core_moves c c'" "vc_expected c' (re_kind ev) = None"
  | (overview) s where "vc_expected c RK_Overview = Some (re_generation ev)" "re_kind ev = RK_Overview"
      "re_result ev = Inr (RS_Overview s)" "vc_expected c' RK_Overview = None"
      "vc_expected c' RK_Catalog = vc_expected c RK_Catalog"
      "vc_expected c' RK_Detail = None \<or> vc_expected c' RK_Detail = vc_expected c RK_Detail"
      "vc_overview c' = Some s" "vc_detail c' = None \<or> vc_detail c' = vc_detail c"
      "core_curve_selection c' = core_curve_selection c"
  | (detail) s where "vc_expected c RK_Detail = Some (re_generation ev)" "re_kind ev = RK_Detail"
      "re_result ev = Inr (RS_Detail s)" "c' = (no_longer_expected RK_Detail c)\<lparr>vc_detail := Some s\<rparr>"
proof -
  let ?c1 = "no_longer_expected (re_kind ev) c"
  consider (ignored) "c' = c"
        "vc_expected c (re_kind ev) \<noteq> Some (re_generation ev) \<or> (\<exists>s. re_result ev = Inr s \<and> snapshot_kind s \<noteq> re_kind ev)"
    | (expected) "vc_expected c (re_kind ev) = Some (re_generation ev)"
        "\<And>s. re_result ev = Inr s \<Longrightarrow> snapshot_kind s = re_kind ev"
    using assms by (auto simp: core_apply_def Let_def split: if_splits sum.splits)
  then show ?thesis
  proof cases
    case ignored
    then show ?thesis by (rule that(1))
  next
    case expected
    then have run: "map_option (Pair Applied) (case re_result ev of
             Inr (RS_Catalog s) \<Rightarrow> Some (apply_catalog s ?c1)
           | Inr (RS_Overview s) \<Rightarrow> apply_overview s ?c1
           | Inr (RS_Detail s) \<Rightarrow> Some (?c1\<lparr>vc_detail := Some s\<rparr>)
           | Inl e \<Rightarrow> Some (?c1\<lparr>vc_last_error := Some (worker_error_display e)\<rparr>)) = Some (outcome, c')"
      using assms by (simp add: core_apply_def Let_def no_longer_expected_def split: sum.split_asm read_snapshot.split_asm)
    show ?thesis
    proof (cases "re_result ev")
      case (Inl e)
      then have "c' = ?c1\<lparr>vc_last_error := Some (worker_error_display e)\<rparr>" using run by simp
      then show ?thesis
        using expected(1)
        by (intro that(2)) (simp_all add: core_moves_def no_longer_expected_def)
    next
      case (Inr x)
      show ?thesis
      proof (cases x)
        case (RS_Catalog s)
        then have "c' = apply_catalog s ?c1" using run Inr by simp
        moreover have "vc_expected (apply_catalog s ?c1) (re_kind ev) = None"
          by (simp add: apply_catalog_def no_longer_expected_def Let_def)
        ultimately show ?thesis using expected(1) apply_catalog_moves by (intro that(2)) simp_all
      next
        case (RS_Overview s)
        then have k: "re_kind ev = RK_Overview" using expected(2) Inr by fastforce
        show ?thesis
          using run RS_Overview Inr expected(1) k
          by (intro that(3) [of s])
            (auto simp: apply_overview_def no_longer_expected_def Let_def split: if_splits)
      next
        case (RS_Detail s)
        then have k: "re_kind ev = RK_Detail" using expected(2) Inr by fastforce
        show ?thesis using run RS_Detail Inr expected(1) k by (intro that(4) [of s]) auto
      qed
    qed
  qed
qed

subsection \<open>Invariants of the application\<close>

fun fits :: "read_request \<Rightarrow> viewer_core \<Rightarrow> bool" where
  "fits (RR_Discover r) c = True"
| "fits (RR_Overview r) c = (core_curve_selection c = Some (ov_selection r))"
| "fits (RR_Detail r) c = (core_curve_selection c = Some (dt_selection r))"

definition same_reader :: "('p, 'g) viewer_app \<Rightarrow> ('p, 'g) viewer_app \<Rightarrow> bool" where
  "same_reader app app' \<longleftrightarrow> va_worker app' = va_worker app \<and> va_next_generation app' = va_next_generation app \<and>
     va_event_task app' = va_event_task app"

locale viewer_invariant =
  fixes inv :: "('p, 'g) viewer_app \<Rightarrow> bool"
  assumes started: "va_core app = viewer_core_default \<Longrightarrow> va_worker app = None \<Longrightarrow> inv app"
    and spawned: "va_core app = viewer_core_default \<Longrightarrow>
      va_worker app = Some (snd (take_event_receiver worker_spawn)) \<Longrightarrow> va_event_task app \<Longrightarrow> inv app"
    and moved: "inv app \<Longrightarrow> same_reader app app' \<Longrightarrow> core_moves (va_core app) (va_core app') \<Longrightarrow> inv app'"
    and submitted: "inv app \<Longrightarrow> fits r (va_core app) \<Longrightarrow> inv (submit r app)"
    and living: "inv app \<Longrightarrow> va_worker app = Some w \<Longrightarrow> worker_ok w"
    and turned: "inv app \<Longrightarrow> va_worker app = Some w \<Longrightarrow> worker_ok w' \<Longrightarrow>
      quiet_turn w w' \<or> (\<exists>t ev. answer_turn t ev w w') \<Longrightarrow> inv (app\<lparr>va_worker := Some w'\<rparr>)"
    and delivered: "inv app \<Longrightarrow> va_worker app = Some w \<Longrightarrow> poll_event (wk_events w) = (Ready (Some ev), ch) \<Longrightarrow>
      core_apply ev (va_core app) = Some (outcome, c) \<Longrightarrow> inv ((set_events ch w app)\<lparr>va_core := c\<rparr>)"
    and parked: "inv app \<Longrightarrow> va_worker app = Some w \<Longrightarrow> poll_event (wk_events w) = (Pending, ch) \<Longrightarrow>
      inv (set_events ch w app)"
begin

lemma request_overview_inv: "inv app \<Longrightarrow> inv (request_overview app)"
  by (auto simp: request_overview_def intro: submitted split: option.split)

lemma request_detail_inv: "inv app \<Longrightarrow> inv (request_detail app)"
  by (auto simp: request_detail_def intro: submitted split: option.split)

lemma refresh_catalog_inv: "inv app \<Longrightarrow> inv (refresh_catalog app)"
  by (simp add: refresh_catalog_def Let_def submitted)

lemmas requests_inv = request_overview_inv request_detail_inv refresh_catalog_inv

lemma kept: "inv app \<Longrightarrow> same_reader app app' \<Longrightarrow> va_core app' = va_core app \<Longrightarrow> inv app'"
  by (erule moved, assumption) simp

lemma open_source_inv: "inv (open_source (spawn_result failure) p app)"
proof -
  have "inv (refresh_catalog app1)"
    if "va_core app1 = viewer_core_default" "va_worker app1 = Some (snd (take_event_receiver worker_spawn))"
      "va_event_task app1" for app1 :: "('p, 'g) viewer_app"
    by (intro refresh_catalog_inv spawned that)
  then show ?thesis
    by (auto simp: open_source_def spawn_result_def Let_def close_source_def take_event_receiver_def worker_spawn_def
        intro: started split: option.split)
qed

lemma selection_inv:
  assumes "inv app"
  shows "inv (on_refresh app)" "inv (on_reset app)" "inv (on_step app)" "inv (on_elapsed app)"
    "inv (app_select_project lower p app)" "inv (app_toggle_run rid app)" "inv (app_select_metric key app)"
proof -
  have change: "inv app'" if "same_reader app app'" "core_moves (va_core app) (va_core app')" for app'
    using moved [OF assms that] .
  show "inv (on_refresh app)" "inv (on_step app)" "inv (on_elapsed app)"
    "inv (app_select_project lower p app)" "inv (app_select_metric key app)"
    unfolding on_refresh_def on_step_def on_elapsed_def app_select_project_def app_select_metric_def Let_def
    by (intro requests_inv change; simp add: same_reader_def)+
  obtain b c where r: "reset_view (va_core app) = (b, c)" by fastforce
  then have "core_moves (va_core app) c" using set_brush_moves(2) [of "va_core app"] by simp
  then have "inv (app\<lparr>va_core := c\<rparr>)" by (intro change) (simp_all add: same_reader_def)
  then show "inv (on_reset app)" using r by (cases b) (simp_all add: on_reset_def request_detail_inv)
  obtain t d where t: "core_toggle_run rid (va_core app) = (t, d)" by fastforce
  then have "core_moves (va_core app) d" using select_moves(4) [of "va_core app" rid] by simp
  then have "inv (app\<lparr>va_core := d, va_local_error := e\<rparr>)" for e by (intro change) (simp_all add: same_reader_def)
  then show "inv (app_toggle_run rid app)" using t by (cases t) (simp_all add: app_toggle_run_def refresh_catalog_inv)
qed

lemma gesture_inv:
  assumes "inv app"
  shows "inv (on_filter_key lower k app)" "inv (begin_brush_drag g x app)" "inv (begin_detail_drag g x app)"
    "inv (leave_chart app)" "inv (finish_drag app)" "inv (zoom_timer app)" "inv (reconcile_canvas_widths g scale app)"
proof -
  have same: "inv app'" if "same_reader app app'" "va_core app' = va_core app" for app'
    using kept [OF assms that] .
  show "inv (on_filter_key lower k app)" "inv (begin_brush_drag g x app)" "inv (begin_detail_drag g x app)"
    "inv (leave_chart app)"
    by (rule same;
        simp add: same_reader_def on_filter_key_def begin_brush_drag_def begin_detail_drag_def leave_chart_def Let_def
        split: option.split)+
  show "inv (finish_drag app)" "inv (zoom_timer app)"
    using assms by (auto simp: finish_drag_def zoom_timer_def same_reader_def intro!: request_detail_inv same)
  have "inv (app\<lparr>va_overview_width := a, va_detail_width := b\<rparr>)" for a b
    by (rule same) (simp_all add: same_reader_def)
  then show "inv (reconcile_canvas_widths g scale app)"
    by (simp add: reconcile_canvas_widths_def Let_def request_overview_inv request_detail_inv split: prod.split)
qed

lemma moving_inv:
  assumes "inv app"
  shows "move_brush_drag g x app = Some app' \<Longrightarrow> inv app'"
    and "move_detail_drag g x app = Some app' \<Longrightarrow> inv app'"
    and "hover_chart g lm s v cursor app = Some app' \<Longrightarrow> inv app'"
    and "zoom_detail g exp32 x delta app = Some app' \<Longrightarrow> inv app'"
    and "paint_chart g s kind v b dark app = Some app' \<Longrightarrow> inv app'"
proof -
  have change: "inv app'" if "same_reader app app'" "core_moves (va_core app) (va_core app')" for app'
    using moved [OF assms that] .
  show "move_brush_drag g x app = Some app' \<Longrightarrow> inv app'"
    by (rule change) (auto simp: move_brush_drag_def same_reader_def split: option.splits)
  show "move_detail_drag g x app = Some app' \<Longrightarrow> inv app'"
    by (rule change) (auto simp: move_detail_drag_def same_reader_def split: option.splits drag_gesture.splits)
  show "hover_chart g lm s v cursor app = Some app' \<Longrightarrow> inv app'"
    by (rule change) (auto simp: hover_chart_def same_reader_def)
  show "zoom_detail g exp32 x delta app = Some app' \<Longrightarrow> inv app'"
    by (rule change) (auto simp: zoom_detail_def same_reader_def split: option.splits sum.splits)
  show "paint_chart g s kind v b dark app = Some app' \<Longrightarrow> inv app'"
    by (rule change) (auto simp: paint_chart_def same_reader_def)
qed

lemma act_inv:
  assumes "inv app" and "app_act env a app = Some app'"
  shows "inv app'"
proof (cases a)
  case (VA_Picked result)
  have "inv (open_source (Ok worker_spawn) p app)" for p
    using open_source_inv [of None] by (simp add: spawn_result_def)
  moreover have "inv (app\<lparr>va_local_error := e\<rparr>)" for e
    by (rule kept [OF assms(1)]) (simp_all add: same_reader_def)
  ultimately show ?thesis
    using assms VA_Picked by (auto simp: on_picked_def split: sum.splits option.splits)
qed (use assms in \<open>auto simp: open_source_inv selection_inv gesture_inv dest: moving_inv\<close>)

lemma apply_event_inv:
  assumes "inv app" and "va_worker app = Some w" and "poll_event (wk_events w) = (Ready (Some ev), ch)"
    and "apply_event lower ev (set_events ch w app) = Some app'"
  shows "inv app'"
proof -
  have core: "va_core (set_events ch w app) = va_core app" by (simp add: set_events_def)
  obtain outcome c where c: "core_apply ev (va_core app) = Some (outcome, c)"
    using assms(4) by (auto simp: apply_event_def core)
  have "inv ((set_events ch w app)\<lparr>va_core := c\<rparr>)" by (rule delivered [OF assms(1-3) c])
  then have same: "inv app1"
    if "same_reader ((set_events ch w app)\<lparr>va_core := c\<rparr>) app1" "va_core app1 = c" for app1
    using kept that by fastforce
  show ?thesis
    using assms(4) c
    by (auto simp: apply_event_def core Let_def same_reader_def intro!: request_overview_inv request_detail_inv same
        split: if_splits read_kind.splits sum.splits)
qed

lemma step_inv:
  assumes "viewer_step env app app'" and "inv app"
  shows "inv app'"
  using assms
proof (cases rule: viewer_step.cases)
  case (turn w p world)
  have "worker_ok w" by (rule living [OF assms(2) turn(2)])
  then show ?thesis
    using turned [OF assms(2) turn(2)] loop_turn_cases [of w "ve_source env p" world] turn(1) by blast
qed (use assms(2) act_inv apply_event_inv parked in blast)+

lemma viewer_reachable_inv:
  assumes "viewer_reachable env app"
  shows "inv app"
proof -
  obtain source where steps: "(viewer_step env)\<^sup>*\<^sup>* (app_new (map_option (\<lambda>(p, e). (p, spawn_result e)) source)) app"
    using assms by (auto simp: viewer_reachable_def)
  have "inv (app_new (map_option (\<lambda>(p, e). (p, spawn_result e)) source))"
    by (auto simp: app_new_def app_default_def intro: started open_source_inv split: option.split)
  with steps show ?thesis by (induction rule: rtranclp_induct) (use step_inv in blast)+
qed

end

subsection \<open>What is awaited is being served\<close>

definition served :: "read_kind \<Rightarrow> generation \<Rightarrow> worker \<Rightarrow> bool" where
  "served k g w \<longleftrightarrow> work k w \<noteq> [] \<and> tr_generation (last (work k w)) = g \<or>
     (\<exists>ev \<in> set (ec_queue (wk_events w)). re_kind ev = k \<and> re_generation ev = g)"

definition well_kinded :: "worker \<Rightarrow> bool" where
  "well_kinded w \<longleftrightarrow> (\<forall>ev \<in> set (ec_queue (wk_events w)). \<forall>x. re_result ev = Inr x \<longrightarrow> snapshot_kind x = re_kind ev)"

definition served_inv :: "('p, 'g) viewer_app \<Rightarrow> bool" where
  "served_inv app \<longleftrightarrow>
     (\<forall>w. va_worker app = Some w \<longrightarrow> worker_ok w \<and> va_event_task app \<and> well_kinded w \<and>
        (\<forall>k. \<forall>t \<in> set (work k w). tr_generation t \<le> va_next_generation app)) \<and>
     (\<forall>k g. vc_expected (va_core app) k = Some g \<longrightarrow> (\<exists>w. va_worker app = Some w \<and> served k g w))"

lemma served_invI:
  assumes "va_worker app = Some w" "worker_ok w" "va_event_task app" "well_kinded w"
    "\<And>k t. t \<in> set (work k w) \<Longrightarrow> tr_generation t \<le> va_next_generation app"
    "\<And>k g. vc_expected (va_core app) k = Some g \<Longrightarrow> served k g w"
  shows "served_inv app"
  using assms by (auto simp: served_inv_def)

lemma served_invD:
  assumes "served_inv app" and "va_worker app = Some w"
  shows "worker_ok w" "va_event_task app" "well_kinded w"
    "t \<in> set (work k w) \<Longrightarrow> tr_generation t \<le> va_next_generation app"
    "vc_expected (va_core app) k = Some g \<Longrightarrow> served k g w"
  using assms by (auto simp: served_inv_def)

lemma work_events [simp]: "work k (w\<lparr>wk_events := c\<rparr>) = work k w"
  by (simp add: work_def)

lemma fresh_worker:
  "worker_ok (snd (take_event_receiver worker_spawn))" "work k (snd (take_event_receiver worker_spawn)) = []"
  "ec_queue (wk_events (snd (take_event_receiver worker_spawn))) = []"
  by (simp_all add: take_event_receiver_def worker_spawn_def worker_ok_def read_event_channel_def work_def)

lemma default_expected [simp]: "vc_expected viewer_core_default k = None"
  "vc_overview viewer_core_default = None" "vc_detail viewer_core_default = None"
  by (simp_all add: viewer_core_default_def viewer_core_new_def)

lemma worker_submit_ok:
  fixes g :: generation and r :: read_request
  assumes "worker_ok w"
  defines "t \<equiv> \<lparr>tr_generation = g, tr_request = r\<rparr>"
  shows "worker_submit g r w = (Ok (), w\<lparr>wk_requests := wk_requests w @ [t]\<rparr>)"
    and "work k (w\<lparr>wk_requests := wk_requests w @ [t]\<rparr>) = work k w @ (if request_kind r = k then [t] else [])"
proof -
  have "wk_sender w" "wk_phase w \<noteq> WP_Stopped" using assms(1) by (auto simp: worker_ok_def)
  then show "worker_submit g r w = (Ok (), w\<lparr>wk_requests := wk_requests w @ [t]\<rparr>)"
    by (simp add: worker_submit_def t_def)
  show "work k (w\<lparr>wk_requests := wk_requests w @ [t]\<rparr>) = work k w @ (if request_kind r = k then [t] else [])"
    by (simp add: work_def tagged_kind_def t_def)
qed

lemma submit_ok:
  assumes "va_worker app = Some w" "worker_ok w"
  shows "submit r app = app\<lparr>va_next_generation := u64_sat_add (va_next_generation app) 1,
    va_worker := Some (w\<lparr>wk_requests := wk_requests w @ [\<lparr>tr_generation = va_next_generation app, tr_request = r\<rparr>]\<rparr>),
    va_core := core_begin (va_next_generation app) r (va_core app)\<rparr>"
  using assms by (simp add: submit_def worker_submit_ok Let_def)

lemma worker_submit_keeps:
  assumes "worker_ok w" and "\<And>k t. t \<in> set (work k w) \<Longrightarrow> tr_generation t \<le> g"
  shows "worker_ok (w\<lparr>wk_requests := wk_requests w @ [\<lparr>tr_generation = g, tr_request = r\<rparr>]\<rparr>)"
  using assms worker_submit_ok(2) [OF assms(1)] by (auto simp: worker_ok_def sorted_append)

lemma sat_add_le: "g \<le> u64_sat_add g 1"
proof -
  have "unat g < 2 ^ 64" using unsigned_less [of g] by simp
  then show ?thesis by (simp add: word_le_nat_alt unat_u64_sat_add)
qed

lemma sat_add_less:
  assumes "u64_sat_add g 1 \<noteq> - 1"
  shows "g < u64_sat_add g 1" and "g \<noteq> - 1"
proof -
  have u: "unat (u64_sat_add g 1) = min (2 ^ 64 - 1) (unat g + 1)" by (simp add: unat_u64_sat_add)
  have small: "unat g + 1 < 2 ^ 64" using assms by (simp add: u64_sat_add_def split: if_splits)
  then have "unat g < unat (u64_sat_add g 1)" unfolding u by simp
  then show less: "g < u64_sat_add g 1" by (simp add: word_less_nat_alt)
  show "g \<noteq> - 1"
  proof
    assume "g = - 1"
    with less have "- 1 < u64_sat_add g 1" by simp
    then show False by (simp add: not_less [symmetric])
  qed
qed

lemma served_submitted:
  assumes "served_inv app"
  shows "served_inv (submit r app)"
proof (cases "va_worker app")
  case None
  then show ?thesis using assms by (simp add: submit_def)
next
  case (Some w)
  note inv = served_invD [OF assms Some]
  let ?g = "va_next_generation app"
  let ?w = "w\<lparr>wk_requests := wk_requests w @ [\<lparr>tr_generation = ?g, tr_request = r\<rparr>]\<rparr>"
  have work: "work k ?w = work k w @ (if request_kind r = k then [\<lparr>tr_generation = ?g, tr_request = r\<rparr>] else [])" for k
    by (rule worker_submit_ok(2) [OF inv(1)])
  have ok: "worker_ok ?w" using worker_submit_keeps [OF inv(1)] inv(4) by blast
  have le: "tr_generation t \<le> u64_sat_add ?g 1" if "t \<in> set (work k ?w)" for t k
    using that inv(4) [of t k] sat_add_le [of ?g] order_trans [of "tr_generation t" ?g "u64_sat_add ?g 1"]
    by (auto simp: work split: if_splits)
  have served: "served k g ?w" if "vc_expected (core_begin ?g r (va_core app)) k = Some g" for k g
    using that inv(5) [of k g] by (auto simp: core_begin_def served_def work split: if_splits)
  show ?thesis
    unfolding submit_ok [OF Some inv(1)]
    by (rule served_invI [of _ ?w]) (use ok le served inv(2,3) in \<open>simp_all add: well_kinded_def\<close>)
qed

lemma poll_ReadyD: "poll_event c = (Ready (Some ev), c') \<Longrightarrow> ec_queue c = ev # ec_queue c' \<and>
    ec_receiver_alive c' = ec_receiver_alive c \<and> ec_sender_closed c' = ec_sender_closed c"
  by (auto simp: poll_event_def split: list.splits if_splits)

lemma poll_PendingD: "poll_event c = (Pending, c') \<Longrightarrow> c' = c\<lparr>ec_waker := True\<rparr>"
  by (auto simp: poll_event_def split: list.splits if_splits)

lemma worker_ok_events:
  "worker_ok w \<Longrightarrow> ec_receiver_alive c = ec_receiver_alive (wk_events w) \<Longrightarrow>
   ec_sender_closed c = ec_sender_closed (wk_events w) \<Longrightarrow> worker_ok (w\<lparr>wk_events := c\<rparr>)"
  by (simp add: worker_ok_def)

lemma served_turned:
  assumes "served_inv app" "va_worker app = Some w" "worker_ok w'"
    and "quiet_turn w w' \<or> (\<exists>t ev. answer_turn t ev w w')"
  shows "served_inv (app\<lparr>va_worker := Some w'\<rparr>)"
proof -
  note inv = served_invD [OF assms(1,2)]
  have sub: "set (work k w') \<subseteq> set (work k w)" for k
    using assms(4) unfolding quiet_turn_def answer_turn_def by (metis Un_iff set_append set_subset_Cons subsetI subset_refl)
  have "well_kinded w' \<and> (\<forall>k g. served k g w \<longrightarrow> served k g w')"
    using assms(4)
  proof (elim disjE exE)
    assume q: "quiet_turn w w'"
    have "served k g w'" if "served k g w" for k g
    proof -
      obtain dropped where "work k w = dropped @ work k w'" "work k w \<noteq> [] \<longrightarrow> work k w' \<noteq> []"
        using q unfolding quiet_turn_def by blast
      then show ?thesis using that q by (cases "work k w = []") (simp_all add: served_def quiet_turn_def)
    qed
    then show ?thesis using q inv(3) by (simp add: quiet_turn_def well_kinded_def)
  next
    fix t ev assume a: "answer_turn t ev w w'"
    have "served k g w'" if "served k g w" for k g
      using that a by (cases "work k w' = []") (auto simp: served_def answer_turn_def answered_by_def split: if_splits)
    then show ?thesis using a inv(3) by (auto simp: well_kinded_def answer_turn_def answered_by_def)
  qed
  moreover have "tr_generation t \<le> va_next_generation app" if "t \<in> set (work k w')" for t k
    using inv(4) subsetD [OF sub that] .
  ultimately show ?thesis using inv(2,5) assms(3) by (intro served_invI [of _ w']) simp_all
qed

lemma served_delivered:
  assumes "served_inv app" "va_worker app = Some w" "poll_event (wk_events w) = (Ready (Some ev), ch)"
    and "core_apply ev (va_core app) = Some (outcome, c)"
  shows "served_inv ((set_events ch w app)\<lparr>va_core := c\<rparr>)"
proof -
  note inv = served_invD [OF assms(1,2)]
  note poll = poll_ReadyD [OF assms(3)]
  have kinds: "snapshot_kind x = re_kind ev" if "re_result ev = Inr x" for x
    using inv(3) poll that by (simp add: well_kinded_def)
  have expected: "vc_expected (va_core app) k = Some g \<and> (k \<noteq> re_kind ev \<or> g \<noteq> re_generation ev)"
    if "vc_expected c k = Some g" for k g
    using assms(4)
  proof (cases rule: core_apply_cases)
    case moved
    then have "vc_expected c k = None \<or> vc_expected c k = vc_expected (va_core app) k" by (simp add: core_moves_def)
    then show ?thesis using moved(3) that by auto
  next
    case (overview s)
    then show ?thesis using that by (cases k) auto
  next
    case (detail s)
    then show ?thesis using that by (cases k) (auto simp: no_longer_expected_def)
  qed (use kinds that in auto)
  have "served k g (w\<lparr>wk_events := ch\<rparr>)" if "vc_expected c k = Some g" for k g
    using inv(5) [of k g] expected [OF that] poll by (auto simp: served_def)
  then show ?thesis
    using inv(2-4) worker_ok_events [OF inv(1), of ch] poll
    by (intro served_invI [of _ "w\<lparr>wk_events := ch\<rparr>"]) (simp_all add: set_events_def well_kinded_def)
qed

lemma served_moved:
  assumes "served_inv app" "same_reader app app'" "core_moves (va_core app) (va_core app')"
  shows "served_inv app'"
proof -
  have "vc_expected (va_core app') k = None \<or> vc_expected (va_core app') k = vc_expected (va_core app) k" for k
    using assms(3) by (simp add: core_moves_def)
  then have "vc_expected (va_core app) k = Some g" if "vc_expected (va_core app') k = Some g" for k g
    using that by (metis option.distinct(1))
  then show ?thesis using assms(1,2) by (auto simp: served_inv_def same_reader_def)
qed

lemma served_parked:
  assumes "served_inv app" "va_worker app = Some w" "poll_event (wk_events w) = (Pending, ch)"
  shows "served_inv (set_events ch w app)"
proof -
  note inv = served_invD [OF assms(1,2)]
  note poll = poll_PendingD [OF assms(3)]
  show ?thesis
    using inv worker_ok_events [OF inv(1), of ch] poll
    by (intro served_invI [of _ "w\<lparr>wk_events := ch\<rparr>"]) (simp_all add: set_events_def well_kinded_def served_def)
qed

interpretation serving: viewer_invariant served_inv
proof (unfold_locales, goal_cases)
  case (1 app)
  then show ?case by (simp add: served_inv_def)
next
  case (2 app)
  then show ?case using fresh_worker by (simp add: served_inv_def well_kinded_def)
next
  case 3
  then show ?case by (rule served_moved)
next
  case 4
  then show ?case by (intro served_submitted)
next
  case 5
  then show ?case by (rule served_invD(1))
next
  case 6
  then show ?case by (rule served_turned)
next
  case 7
  then show ?case by (rule served_delivered)
next
  case 8
  then show ?case by (rule served_parked)
qed

subsection \<open>What is shown belongs to the selection\<close>

text \<open>While the counter of generations has not saturated, no two requests share one.\<close>

definition request_current :: "viewer_core \<Rightarrow> generation \<Rightarrow> read_kind \<Rightarrow> tagged_request \<Rightarrow> bool" where
  "request_current c n k t \<longleftrightarrow> tr_generation t < n \<and> tagged_kind t = k \<and>
     (vc_expected c k = Some (tr_generation t) \<longrightarrow> fits (tr_request t) c)"

definition event_current :: "viewer_core \<Rightarrow> generation \<Rightarrow> read_event \<Rightarrow> bool" where
  "event_current c n ev \<longleftrightarrow> re_generation ev < n \<and>
     (\<forall>x. re_result ev = Inr x \<longrightarrow> vc_expected c (re_kind ev) = Some (re_generation ev) \<longrightarrow>
        (\<exists>r. fits r c \<and> request_kind r = re_kind ev \<and> answers r x))"

definition shown_current :: "viewer_core \<Rightarrow> bool" where
  "shown_current c \<longleftrightarrow>
     (\<forall>s. vc_overview c = Some s \<longrightarrow> (\<exists>r. fits r c \<and> request_kind r = RK_Overview \<and> answers r (RS_Overview s))) \<and>
     (\<forall>s. vc_detail c = Some s \<longrightarrow> (\<exists>r. fits r c \<and> request_kind r = RK_Detail \<and> answers r (RS_Detail s)))"

definition reading_current :: "viewer_core \<Rightarrow> generation \<Rightarrow> worker \<Rightarrow> bool" where
  "reading_current c n w \<longleftrightarrow> (\<forall>k. \<forall>t \<in> set (work k w). request_current c n k t) \<and>
     (\<forall>ev \<in> set (ec_queue (wk_events w)). event_current c n ev)"

definition current_inv :: "('p, 'g) viewer_app \<Rightarrow> bool" where
  "current_inv app \<longleftrightarrow>
     served_inv app \<and>
     (va_next_generation app = - 1 \<or>
       (\<forall>w. va_worker app = Some w \<longrightarrow> reading_current (va_core app) (va_next_generation app) w) \<and>
       shown_current (va_core app))"

lemma core_moves_fits:
  assumes "core_moves c c'" and "fits r c"
    and "vc_expected c' (request_kind r) \<noteq> None \<or> request_kind r = RK_Overview \<and> vc_overview c' \<noteq> None \<or>
      request_kind r = RK_Detail \<and> vc_detail c' \<noteq> None"
  shows "fits r c'"
proof (cases r)
  case (RR_Overview q)
  then have "core_curve_selection c' = core_curve_selection c" using assms(1,3) by (auto simp: core_moves_def)
  then show ?thesis using assms(2) RR_Overview by simp
next
  case (RR_Detail q)
  then have "core_curve_selection c' = core_curve_selection c" using assms(1,3) by (auto simp: core_moves_def)
  then show ?thesis using assms(2) RR_Detail by simp
qed simp

lemma core_moves_expected: "core_moves c c' \<Longrightarrow> vc_expected c' k = Some g \<Longrightarrow> vc_expected c k = Some g"
  by (auto simp: core_moves_def dest: spec [of _ k])

lemma moves_request: "core_moves c c' \<Longrightarrow> request_current c n k t \<Longrightarrow> request_current c' n k t"
  using core_moves_fits [of c c' "tr_request t"] core_moves_expected [of c c' k]
  by (auto simp: request_current_def tagged_kind_def)

lemma moves_event: "core_moves c c' \<Longrightarrow> event_current c n ev \<Longrightarrow> event_current c' n ev"
  using core_moves_fits [of c c'] core_moves_expected [of c c' "re_kind ev" "re_generation ev"]
  unfolding event_current_def by (metis option.distinct(1))

lemma moves_shown: "core_moves c c' \<Longrightarrow> shown_current c \<Longrightarrow> shown_current c'"
proof -
  assume m: "core_moves c c'" and s: "shown_current c"
  have o: "vc_overview c = Some s" if "vc_overview c' = Some s" for s using m that by (auto simp: core_moves_def)
  have d: "vc_detail c = Some s" if "vc_detail c' = Some s" for s using m that by (auto simp: core_moves_def)
  show "shown_current c'"
    unfolding shown_current_def
  proof (intro conjI allI impI)
    fix x assume x: "vc_overview c' = Some x"
    then obtain r where "fits r c" "request_kind r = RK_Overview" "answers r (RS_Overview x)"
      using o s unfolding shown_current_def by blast
    then show "\<exists>r. fits r c' \<and> request_kind r = RK_Overview \<and> answers r (RS_Overview x)"
      using core_moves_fits [OF m, of r] x by auto
  next
    fix x assume x: "vc_detail c' = Some x"
    then obtain r where "fits r c" "request_kind r = RK_Detail" "answers r (RS_Detail x)"
      using d s unfolding shown_current_def by blast
    then show "\<exists>r. fits r c' \<and> request_kind r = RK_Detail \<and> answers r (RS_Detail x)"
      using core_moves_fits [OF m, of r] x by auto
  qed
qed

lemma moves_reading: "core_moves c c' \<Longrightarrow> reading_current c n w \<Longrightarrow> reading_current c' n w"
  using moves_request moves_event unfolding reading_current_def by blast

lemma current_moved:
  assumes "current_inv app" "same_reader app app'" "core_moves (va_core app) (va_core app')"
  shows "current_inv app'"
  using assms(1,2) moves_reading [OF assms(3)] moves_shown [OF assms(3)] served_moved [OF _ assms(2,3)]
  by (auto simp: current_inv_def same_reader_def)

lemma fits_begin [simp]: "fits r (core_begin g q c) = fits r c"
  by (cases r) (simp_all add: core_begin_def)

lemma expected_begin [simp]:
  "vc_expected (core_begin g r c) k = (if k = request_kind r then Some g else vc_expected c k)"
  by (simp add: core_begin_def)

lemma begin_request:
  "request_current c g k t \<Longrightarrow> g < n \<Longrightarrow> request_current (core_begin g r c) n k t"
  by (auto simp: request_current_def)

lemma begin_event: "event_current c g ev \<Longrightarrow> g < n \<Longrightarrow> event_current (core_begin g r c) n ev"
  by (auto simp: event_current_def)

lemma current_invD:
  assumes "current_inv app"
  shows "served_inv app"
    and "va_next_generation app \<noteq> - 1 \<Longrightarrow> va_worker app = Some w \<Longrightarrow>
      reading_current (va_core app) (va_next_generation app) w"
    and "va_next_generation app \<noteq> - 1 \<Longrightarrow> shown_current (va_core app)"
  using assms by (auto simp: current_inv_def)

lemma current_submitted:
  assumes "current_inv app" and "fits r (va_core app)"
  shows "current_inv (submit r app)"
proof (cases "va_worker app")
  case None
  then show ?thesis using assms by (simp add: submit_def)
next
  case (Some w)
  note served = current_invD(1) [OF assms(1)]
  note ok = served_invD(1) [OF served Some]
  note eq = submit_ok [OF Some ok, of r]
  let ?g = "va_next_generation app" and ?n = "u64_sat_add (va_next_generation app) 1"
  let ?w = "w\<lparr>wk_requests := wk_requests w @ [\<lparr>tr_generation = ?g, tr_request = r\<rparr>]\<rparr>"
  have work: "work k ?w = work k w @ (if request_kind r = k then [\<lparr>tr_generation = ?g, tr_request = r\<rparr>] else [])" for k
    by (rule worker_submit_ok(2) [OF ok])
  have "reading_current (core_begin ?g r (va_core app)) ?n ?w \<and> shown_current (core_begin ?g r (va_core app))"
    if n: "?n \<noteq> - 1"
  proof -
    note less = sat_add_less [OF n]
    note cur = current_invD(2,3) [OF assms(1) less(2)]
    have "request_current (core_begin ?g r (va_core app)) ?n k t" if "t \<in> set (work k ?w)" for k t
    proof (cases "t \<in> set (work k w)")
      case True
      then show ?thesis using cur(1) [OF Some] less(1) begin_request by (simp add: reading_current_def)
    next
      case False
      then have "t = \<lparr>tr_generation = ?g, tr_request = r\<rparr>" "request_kind r = k" using that by (auto simp: work split: if_splits)
      then show ?thesis using less(1) assms(2) by (simp add: request_current_def tagged_kind_def)
    qed
    moreover have "event_current (core_begin ?g r (va_core app)) ?n ev" if "ev \<in> set (ec_queue (wk_events w))" for ev
      using cur(1) [OF Some] that less(1) begin_event by (simp add: reading_current_def)
    ultimately have "reading_current (core_begin ?g r (va_core app)) ?n ?w" by (simp add: reading_current_def)
    moreover have "shown_current (core_begin ?g r (va_core app))"
      using cur(2) by (simp add: shown_current_def) (simp add: core_begin_def)
    ultimately show ?thesis by simp
  qed
  then show ?thesis
    using served_submitted [OF served, of r] unfolding eq by (auto simp: current_inv_def)
qed

lemma current_turned:
  assumes "current_inv app" "va_worker app = Some w" "worker_ok w'"
    and "quiet_turn w w' \<or> (\<exists>t ev. answer_turn t ev w w')"
  shows "current_inv (app\<lparr>va_worker := Some w'\<rparr>)"
proof -
  let ?c = "va_core app" and ?n = "va_next_generation app"
  have "reading_current ?c ?n w'" if n: "?n \<noteq> - 1"
  proof -
    note cur = current_invD(2) [OF assms(1) n assms(2), unfolded reading_current_def]
    have work: "set (work k w') \<subseteq> set (work k w)" for k
      using assms(4) unfolding quiet_turn_def answer_turn_def by (metis Un_iff set_append set_subset_Cons subsetI subset_refl)
    have "event_current ?c ?n ev" if "ev \<in> set (ec_queue (wk_events w'))" for ev
    proof (cases "ev \<in> set (ec_queue (wk_events w))")
      case False
      with assms(4) that obtain t where a: "answered_by t ev" "work (tagged_kind t) w = t # work (tagged_kind t) w'"
        by (auto simp: quiet_turn_def answer_turn_def)
      then have "request_current ?c ?n (tagged_kind t) t" using cur by simp
      then show ?thesis using a(1) by (auto simp: request_current_def event_current_def answered_by_def tagged_kind_def)
    qed (use cur in blast)
    then show ?thesis using cur work unfolding reading_current_def by blast
  qed
  then show ?thesis
    using served_turned [OF current_invD(1) [OF assms(1)] assms(2-4)] current_invD(3) [OF assms(1)]
    by (auto simp: current_inv_def)
qed

lemma fits_cong: "core_curve_selection c' = core_curve_selection c \<Longrightarrow> fits r c' = fits r c"
  by (cases r) simp_all

lemma same_selection:
  assumes "core_curve_selection c' = core_curve_selection c"
    and "\<And>k. vc_expected c' k = None \<or> vc_expected c' k = vc_expected c k"
  shows "request_current c n k t \<Longrightarrow> request_current c' n k t" and "event_current c n e \<Longrightarrow> event_current c' n e"
  using assms(2) [of k] assms(2) [of "re_kind e"]
  by (auto simp: request_current_def event_current_def fits_cong [OF assms(1)])

lemma deliver_moves:
  assumes "event_current c n ev" and "shown_current c" and "core_apply ev c = Some (outcome, c')"
  shows "shown_current c' \<and> (\<forall>k t. request_current c n k t \<longrightarrow> request_current c' n k t) \<and>
    (\<forall>e. event_current c n e \<longrightarrow> event_current c' n e)"
  using assms(3)
proof (cases rule: core_apply_cases)
  case moved
  then show ?thesis using assms(2) moves_shown moves_request moves_event by blast
next
  case (overview s)
  have stays: "vc_expected c' k = None \<or> vc_expected c' k = vc_expected c k" for k using overview(4-6) by (cases k) auto
  have "\<exists>r. fits r c \<and> request_kind r = RK_Overview \<and> answers r (RS_Overview s)"
    using assms(1) overview(1-3) by (auto simp: event_current_def)
  then have "shown_current c'"
    using assms(2) overview(7-8) by (auto simp: shown_current_def fits_cong [OF overview(9)])
  then show ?thesis using same_selection [OF overview(9) stays] by blast
next
  case (detail s)
  have sel: "core_curve_selection c' = core_curve_selection c" by (simp add: detail(4) no_longer_expected_def)
  have stays: "vc_expected c' k = None \<or> vc_expected c' k = vc_expected c k" for k
    by (simp add: detail(4) no_longer_expected_def)
  have "\<exists>r. fits r c \<and> request_kind r = RK_Detail \<and> answers r (RS_Detail s)"
    using assms(1) detail(1-3) by (auto simp: event_current_def)
  then have "shown_current c'"
    using assms(2) unfolding shown_current_def fits_cong [OF sel] by (simp add: detail(4) no_longer_expected_def)
  then show ?thesis using same_selection [OF sel stays] by blast
qed (use assms(2) in simp)

lemma current_delivered:
  assumes "current_inv app" "va_worker app = Some w" "poll_event (wk_events w) = (Ready (Some ev), ch)"
    and "core_apply ev (va_core app) = Some (outcome, c)"
  shows "current_inv ((set_events ch w app)\<lparr>va_core := c\<rparr>)"
proof -
  let ?n = "va_next_generation app"
  have "reading_current c ?n (w\<lparr>wk_events := ch\<rparr>) \<and> shown_current c" if n: "?n \<noteq> - 1"
  proof -
    note cur = current_invD(2) [OF assms(1) n assms(2), unfolded reading_current_def] and shown = current_invD(3) [OF assms(1) n]
    note poll = poll_ReadyD [OF assms(3)]
    have "event_current (va_core app) ?n ev" using cur poll by simp
    note moves = deliver_moves [OF this shown assms(4)]
    show ?thesis using moves cur poll by (simp add: reading_current_def)
  qed
  then show ?thesis
    using served_delivered [OF current_invD(1) [OF assms(1)] assms(2-4)] by (auto simp: current_inv_def set_events_def)
qed

lemma current_parked:
  assumes "current_inv app" "va_worker app = Some w" "poll_event (wk_events w) = (Pending, ch)"
  shows "current_inv (set_events ch w app)"
proof -
  have "reading_current (va_core app) (va_next_generation app) (w\<lparr>wk_events := ch\<rparr>)"
    if "va_next_generation app \<noteq> - 1"
    using current_invD(2) [OF assms(1) that assms(2)] poll_PendingD [OF assms(3)] by (simp add: reading_current_def)
  then show ?thesis
    using served_parked [OF current_invD(1) [OF assms(1)] assms(2,3)] current_invD(3) [OF assms(1)]
    by (auto simp: current_inv_def set_events_def)
qed

interpretation showing: viewer_invariant current_inv
proof (unfold_locales, goal_cases)
  case (1 app)
  then show ?case using serving.started by (simp add: current_inv_def shown_current_def)
next
  case (2 app)
  then show ?case
    using serving.spawned [of app] fresh_worker by (simp add: current_inv_def shown_current_def reading_current_def)
next
  case 3
  then show ?case by (rule current_moved)
next
  case 4
  then show ?case by (intro current_submitted)
next
  case 5
  then show ?case using serving.living current_invD(1) by blast
next
  case 6
  then show ?case by (rule current_turned)
next
  case 7
  then show ?case by (rule current_delivered)
next
  case 8
  then show ?case by (rule current_parked)
qed

subsection \<open>An execution\<close>

text \<open>
  The user opens a store and selects a project, a run and a metric; the worker answers the last
  discovery with an error and then the overview.
\<close>

definition sample_source :: "(string + (string \<times> string) list) source" where
  "sample_source = \<lparr>so_api = sample_toml, so_files = (\<lambda>_. File_NotFound), so_root = ''/p''\<rparr>"

definition open_world :: "store \<Rightarrow> world" where
  "open_world s = \<lparr>wd_boot = sample_boot\<lparr>bt_metadata := (\<lambda>_. Md_Found)\<rparr>, wd_store = s\<rparr>"

lemma open_sample: "\<exists>b. open_session sample_source (open_world s) = (Ok (), (open_world s)\<lparr>wd_boot := b\<rparr>)"
  by (simp add: open_session_def sample_source_def session_open_existing_def open_world_def
     resolve_storage_config_def load_project_config_def resolve_data_path_def config_string_def resolve_catalog_backend_def
     resolve_catalog_path_def validate_path_configuration_def ok_or_def backend_from_name_def lift_op_def bind_op_def
     with_backend_and_s3_config_def open_native_connection_with_mode_def verify_catalog_exists_def sample_boot_def perform_if_def
     open_duckdb_connection_def perform_def attach_ducklake_with_backend_def setup_catalog_adapter_def map_err_op_def Let_def path_join_def starts_with_def is_s3_data_path_def)

definition failing_store :: store where
  "failing_store = sample_store\<lparr>st_faults := [Some ''busy'']\<rparr>"

lemma discover_fails: "\<exists>e s'. read_snapshot_of (RR_Discover r) failing_store = (Err e, s')"
  by (simp add: read_snapshot_of_def discover_def store_list_projects_def failing_store_def bind_op_def map_err_op_def
     query_def exec_def)

definition bare_store :: store where
  "bare_store = sample_store\<lparr>st_points := []\<rparr>"

lemma aligned_bare: "\<exists>res. native_query_aligned \<lparr>aq_run_id = ''r1'', aq_metric_key = ''loss'', aq_axis = Axis_Step,
   aq_viewport = \<lparr>av_start = 0, av_end = i64_max\<rparr>, aq_reduction = AR_ScreenBudget \<lparr>sb_pixel_width = 1000, sb_points_per_pixel = 1\<rparr>\<rparr> Running bare_store
  = (Ok res, bare_store) \<and> \<not> drawable res"
  by (simp add: native_query_aligned_def project_query_aligned_def query_aligned_rows_def validate_alignment_identity_def
    bare_store_def bind_op_def lift_op_def map_err_op_def query_def exec_def env_lift_def ordered_ctes_def
    result_rows_def selected_def screen_limits_def screen_params_def visible_source_def Let_def inside_def left_neighbor_def right_neighbor_def first_of_def aligned_metric_result_of_def drawable_def
    has_negative_axis_def has_decreasing_axis_def effective_def clamp_nat_def usize_sat_mul_def qualify_lifecycle_def max_def less_eq_evidence_completeness_def)

lemma sample_run_read: "\<exists>run. store_get_runs [''r1''] bare_store = (Ok [run], bare_store) \<and> r_run_id run = ''r1'' \<and> r_status run = Running"
  by (simp add: store_get_runs_def bare_store_def requested_rows_def bind_op_def query_def exec_def read_requested_def env_lift_def
     into_run_def sample_store_def run_status_from_str_def timestamp_from_millis_def sample_ts_ok)

definition sample_viewer_selection :: curve_selection where
  "sample_viewer_selection = \<lparr>cu_run_ids = [''r1''], cu_metric_key = ''loss'', cu_axis = Axis_Step\<rparr>"

lemma sample_overview: "\<exists>s. query_overview \<lparr>ov_selection = sample_viewer_selection, ov_physical_width = 1000\<rparr> bare_store = (Ok s, bare_store) \<and> csn_real_range s = None"
proof -
  obtain run where run: "store_get_runs [''r1''] bare_store = (Ok [run], bare_store)" "r_run_id run = ''r1''" "r_status run = Running"
    using sample_run_read by blast
  obtain res where res: "native_query_aligned \<lparr>aq_run_id = ''r1'', aq_metric_key = ''loss'', aq_axis = Axis_Step,
   aq_viewport = \<lparr>av_start = 0, av_end = i64_max\<rparr>, aq_reduction = AR_ScreenBudget \<lparr>sb_pixel_width = 1000, sb_points_per_pixel = 1\<rparr>\<rparr> Running bare_store
  = (Ok res, bare_store)" "\<not> drawable res" using aligned_bare by blast
  show ?thesis
    using run(2,3) res by (simp add: query_overview_def viewport_new_def query_curves_def sample_viewer_selection_def bind_op_def map_err_op_def
     run(1) lift_op_def ar_screen_budget_def overview_budget_def u32_clamp_def chart_series_of_def real_bounds_of_def)
qed

definition sample_viewer_env :: "((string + (string \<times> string) list), f64, unit) viewer_env" where
  "sample_viewer_env = \<lparr>ve_lower = (\<lambda>s. s), ve_source = (\<lambda>_. sample_source),
     ve_gpui = \<lparr>gp_f64 = (\<lambda>x. x), gp_px = (\<lambda>x. x), gp_add = fadd, gp_sub = fsub, gp_less = flt, gp_path = (\<lambda>_ _. None)\<rparr>,
     ve_libm = \<lparr>lm_log10 = (\<lambda>x. x), lm_powf = (\<lambda>x y. x), lm_hypot = fadd\<rparr>, ve_exp32 = (\<lambda>x. x)\<rparr>"

definition selecting_app :: "(f64, unit) viewer_app" where
  "selecting_app = app_select_metric ''loss'' (app_toggle_run ''r1'' (app_select_project (\<lambda>s. s) ''p''
     (app_new (Some (''/p'', spawn_result None)))))"

lemma selecting_reachable: "viewer_reachable sample_viewer_env selecting_app"
proof -
  let ?a = "app_new (Some (''/p'', spawn_result None)) :: (f64, unit) viewer_app"
  have steps: "viewer_step sample_viewer_env app (app_select_project (\<lambda>s. s) ''p'' app)"
    "viewer_step sample_viewer_env app (app_toggle_run ''r1'' app)"
    "viewer_step sample_viewer_env app (app_select_metric ''loss'' app)" for app
    by (rule viewer_step.act [where a = "VA_Project ''p''"] viewer_step.act [where a = "VA_Run ''r1''"]
        viewer_step.act [where a = "VA_Metric ''loss''"]; simp add: sample_viewer_env_def)+
  have "(viewer_step sample_viewer_env)\<^sup>*\<^sup>* ?a selecting_app"
    unfolding selecting_app_def
    by (rule rtranclp.rtrancl_into_rtrancl [rotated], rule steps(3), rule rtranclp.rtrancl_into_rtrancl [rotated],
        rule steps(2), rule rtranclp.rtrancl_into_rtrancl [rotated], rule steps(1), rule rtranclp.rtrancl_refl)
  then show ?thesis unfolding viewer_reachable_def by (intro exI [of _ "Some (''/p'', None)"]) simp
qed

lemmas app_simps = app_new_def spawn_result_def open_source_def close_source_def take_event_receiver_def worker_spawn_def
  refresh_catalog_def submit_def worker_submit_def app_default_def core_begin_def app_select_project_def core_select_project_def
  clear_curves_def app_toggle_run_def core_toggle_run_def set_run_ids_def max_selected_runs_def app_select_metric_def
  core_select_metric_def request_overview_def core_curve_selection_def viewer_core_default_def viewer_core_new_def
  no_selection_def rebuild_run_list_def u64_sat_add_def

definition asked :: "tagged_request list" where
  "asked = [\<lparr>tr_generation = 1, tr_request = RR_Discover \<lparr>dr_project_id = None, dr_selected_run_ids = []\<rparr>\<rparr>,
    \<lparr>tr_generation = 2, tr_request = RR_Discover \<lparr>dr_project_id = Some ''p'', dr_selected_run_ids = []\<rparr>\<rparr>,
    \<lparr>tr_generation = 3, tr_request = RR_Discover \<lparr>dr_project_id = Some ''p'', dr_selected_run_ids = [''r1'']\<rparr>\<rparr>,
    \<lparr>tr_generation = 4, tr_request = RR_Overview \<lparr>ov_selection = sample_viewer_selection, ov_physical_width = 1000\<rparr>\<rparr>]"

lemma selecting_app_simps:
  "va_worker selecting_app = Some \<lparr>wk_requests = asked, wk_sender = True, wk_phase = WP_Waiting, wk_session = False,
     wk_events = read_event_channel, wk_receiver_taken = True\<rparr>"
  "va_event_task selecting_app" "va_source_path selecting_app = Some ''/p''" "va_next_generation selecting_app = 5"
  "core_curve_selection (va_core selecting_app) = Some sample_viewer_selection"
  "vc_expected (va_core selecting_app) RK_Catalog = Some 3" "vc_expected (va_core selecting_app) RK_Overview = Some 4"
  by (simp_all add: selecting_app_def app_simps asked_def sample_viewer_selection_def)

lemma reach_step:
  assumes "viewer_reachable env app" and "viewer_step env app app'"
  shows "viewer_reachable env app'"
proof -
  obtain source where "(viewer_step env)\<^sup>*\<^sup>* (app_new (map_option (\<lambda>(p, e). (p, spawn_result e)) source)) app"
    using assms(1) unfolding viewer_reachable_def by blast
  then have "(viewer_step env)\<^sup>*\<^sup>* (app_new (map_option (\<lambda>(p, e). (p, spawn_result e)) source)) app'"
    by (rule rtranclp.rtrancl_into_rtrancl) (rule assms(2))
  then show ?thesis unfolding viewer_reachable_def by blast
qed

lemmas deliver_reach = reach_step [OF _ viewer_step.deliver]

lemma turns_reach:
  assumes "viewer_reachable env app" "va_worker app = Some w" "va_source_path app = Some p"
  shows "viewer_reachable env (app\<lparr>va_worker := Some (fold (loop_turn (ve_source env p)) worlds w)\<rparr>)"
  using assms
proof (induction worlds arbitrary: app w)
  case Nil
  then have eq: "app\<lparr>va_worker := Some w\<rparr> = app" by (cases app) simp
  show ?case using Nil.prems(1) by (simp only: List.fold_simps eq)
next
  case (Cons world worlds)
  let ?app = "app\<lparr>va_worker := Some (loop_turn (ve_source env p) world w)\<rparr>"
  have "viewer_reachable env ?app"
    by (rule reach_step [OF Cons.prems(1)]) (rule viewer_step.turn [OF Cons.prems(2,3)])
  then show ?case using Cons.IH [of ?app "loop_turn (ve_source env p) world w"] Cons.prems(3) by simp
qed

lemma execute_discover:
  "\<exists>e b. execute sample_source False \<lparr>tr_generation = g, tr_request = RR_Discover r\<rparr> (open_world failing_store) =
     (\<lparr>re_generation = g, re_kind = RK_Catalog, re_result = Err e\<rparr>, True, b)"
proof -
  obtain b where "open_session sample_source (open_world failing_store) = (Ok (), (open_world failing_store)\<lparr>wd_boot := b\<rparr>)"
    using open_sample by blast
  moreover obtain e s' where "read_snapshot_of (RR_Discover r) failing_store = (Err e, s')" using discover_fails by blast
  ultimately show ?thesis by (simp add: execute_def tagged_kind_def open_world_def)
qed

lemma execute_overview:
  "\<exists>s b. execute sample_source True \<lparr>tr_generation = g, tr_request = RR_Overview \<lparr>ov_selection = sample_viewer_selection,
       ov_physical_width = 1000\<rparr>\<rparr> (open_world bare_store) =
     (\<lparr>re_generation = g, re_kind = RK_Overview, re_result = Ok (RS_Overview s)\<rparr>, True, b) \<and> csn_real_range s = None"
proof -
  obtain s where "query_overview \<lparr>ov_selection = sample_viewer_selection, ov_physical_width = 1000\<rparr> bare_store = (Ok s, bare_store)"
    "csn_real_range s = None" using sample_overview by blast
  then show ?thesis by (simp add: execute_def tagged_kind_def open_world_def read_snapshot_of_def bind_op_def map_err_op_def)
qed

definition sample_worlds :: "world list" where
  "sample_worlds = (let busy = open_world failing_store in [busy, busy, busy, busy, busy, busy, busy, open_world bare_store])"

lemma sample_worker:
  "\<exists>e s w. fold (loop_turn sample_source) sample_worlds \<lparr>wk_requests = asked, wk_sender = True, wk_phase = WP_Waiting, wk_session = False,
     wk_events = read_event_channel, wk_receiver_taken = True\<rparr> = w \<and>
     ec_queue (wk_events w) = [\<lparr>re_generation = 3, re_kind = RK_Catalog, re_result = Err e\<rparr>,
       \<lparr>re_generation = 4, re_kind = RK_Overview, re_result = Ok (RS_Overview s)\<rparr>] \<and> csn_real_range s = None"
proof -
  obtain e b where d: "execute sample_source False \<lparr>tr_generation = 3, tr_request = RR_Discover \<lparr>dr_project_id = Some ''p'', dr_selected_run_ids = [''r1'']\<rparr>\<rparr>
      (open_world failing_store) = (\<lparr>re_generation = 3, re_kind = RK_Catalog, re_result = Err e\<rparr>, True, b)"
    using execute_discover by blast
  obtain s b' where o: "execute sample_source True \<lparr>tr_generation = 4, tr_request = RR_Overview \<lparr>ov_selection = sample_viewer_selection,
       ov_physical_width = 1000\<rparr>\<rparr> (open_world bare_store) =
     (\<lparr>re_generation = 4, re_kind = RK_Overview, re_result = Ok (RS_Overview s)\<rparr>, True, b')" "csn_real_range s = None"
    using execute_overview by blast
  show ?thesis
    using o(2) by (simp add: sample_worlds_def asked_def loop_turn_def push_request_def newer_def no_requests_def take_next_def
       d o(1) send_event_def read_event_channel_def Let_def)
qed

lemma sample_shown: "\<exists>app s. viewer_reachable sample_viewer_env app \<and> va_next_generation app \<noteq> - 1 \<and>
    vc_overview (va_core app) = Some s \<and> core_curve_selection (va_core app) = Some sample_viewer_selection"
proof -
  obtain e s w where w: "fold (loop_turn sample_source) sample_worlds \<lparr>wk_requests = asked, wk_sender = True, wk_phase = WP_Waiting, wk_session = False,
     wk_events = read_event_channel, wk_receiver_taken = True\<rparr> = w"
     "ec_queue (wk_events w) = [\<lparr>re_generation = 3, re_kind = RK_Catalog, re_result = Err e\<rparr>,
       \<lparr>re_generation = 4, re_kind = RK_Overview, re_result = Ok (RS_Overview s)\<rparr>]" "csn_real_range s = None"
    using sample_worker by blast
  let ?app = "selecting_app\<lparr>va_worker := Some w\<rparr>"
  have app: "viewer_reachable sample_viewer_env ?app"
    using turns_reach [OF selecting_reachable selecting_app_simps(1,3), of sample_worlds] w(1)
    by (simp add: sample_viewer_env_def)
  define c1 where "c1 = (wk_events w)\<lparr>ec_queue := tl (ec_queue (wk_events w))\<rparr>"
  define app1 where "app1 = (set_events c1 w ?app)\<lparr>va_core := (no_longer_expected RK_Catalog (va_core selecting_app))
     \<lparr>vc_last_error := Some (worker_error_display e)\<rparr>\<rparr>"
  have app1: "viewer_reachable sample_viewer_env app1"
    by (rule deliver_reach [OF app, of w "hd (ec_queue (wk_events w))" c1])
      (simp_all add: selecting_app_simps poll_event_def w(2) c1_def apply_event_def core_apply_def set_events_def app1_def
        no_longer_expected_def)
  define app2 where "app2 = app1\<lparr>va_worker := Some (w\<lparr>wk_events := c1\<lparr>ec_queue := []\<rparr>\<rparr>), va_overview_revision := 4,
    va_core := (va_core app1)\<lparr>vc_expected := (vc_expected (va_core app1))(RK_Overview := None, RK_Detail := None),
       vc_brush := None, vc_detail := None, vc_overview := Some s\<rparr>\<rparr>"
  have "viewer_reachable sample_viewer_env app2"
    by (rule deliver_reach [OF app1, of "w\<lparr>wk_events := c1\<rparr>" "hd (ec_queue c1)" "c1\<lparr>ec_queue := []\<rparr>"])
      (simp_all add: selecting_app_simps poll_event_def w(2,3) c1_def apply_event_def core_apply_def set_events_def app1_def app2_def
        no_longer_expected_def apply_overview_def request_detail_def selected_viewport_def)
  then show ?thesis
    by (intro exI [of _ app2] exI [of _ s]) (simp add: app2_def app1_def set_events_def no_longer_expected_def selecting_app_simps)
qed

subsection \<open>Properties\<close>

lemma served_waits: "served_inv app \<Longrightarrow> vc_expected (va_core app) k = Some g \<Longrightarrow> \<exists>w. va_worker app = Some w \<and> served k g w"
  by (simp add: served_inv_def)

lemma work_kind:
  assumes "worker_ok w" and "t \<in> set (work k w)"
  shows "tagged_kind t = k"
proof -
  have slot: "tagged_kind t = k" if "t \<in> set (slot_work k p)" "pending_kinds p" for p
    using that by (auto simp: slot_work_def pending_kinds_def split: option.splits)
  show ?thesis
    using assms slot by (cases "wk_phase w") (auto simp: work_def worker_ok_def split: if_splits)
qed

text \<open>C32: the viewer never waits for nothing. In every reachable state that awaits a result of some kind the
  worker lives and the viewer listens to it, and once the worker has had the computed number of
  turns, however the store changes meanwhile, the event queue holds an event of the awaited kind and
  generation.
\<close>

theorem awaited_results_arrive:
  assumes "viewer_reachable env app" and "vc_expected (va_core app) k = Some g"
  shows "\<exists>w. va_worker app = Some w \<and> va_event_task app \<and>
    (\<forall>src worlds. turns_left w \<le> length worlds \<longrightarrow>
      (\<exists>ev. ev \<in> set (ec_queue (wk_events (fold (loop_turn src) worlds w))) \<and> re_kind ev = k \<and> re_generation ev = g))"
proof -
  have inv: "served_inv app" by (rule serving.viewer_reachable_inv [OF assms(1)])
  then obtain w where w: "va_worker app = Some w" "served k g w" using served_waits [OF _ assms(2)] by blast
  note ok = served_invD(1,2) [OF inv w(1)]
  have "\<exists>ev. ev \<in> set (ec_queue (wk_events (fold (loop_turn src) worlds w))) \<and> re_kind ev = k \<and> re_generation ev = g"
    if "turns_left w \<le> length worlds" for src worlds
  proof -
    note rest = worker_rests [OF ok(1) that, of src k]
    show ?thesis
      using w(2) unfolding served_def
    proof
      assume l: "work k w \<noteq> [] \<and> tr_generation (last (work k w)) = g"
      then have "tagged_kind (last (work k w)) = k" using work_kind [OF ok(1)] last_in_set by blast
      then show ?thesis using rest l by (auto simp: newest_served_def answered_by_def)
    qed (use rest in blast)
  qed
  then show ?thesis using w(1) ok(2) by blast
qed

theorem awaited_results_arrive_witness:
  "\<exists>w ev. va_worker selecting_app = Some w \<and>
     ev \<in> set (ec_queue (wk_events (fold (loop_turn sample_source) (replicate 13 (open_world bare_store)) w))) \<and>
     re_kind ev = RK_Overview \<and> re_generation ev = 4"
proof -
  obtain w where w: "va_worker selecting_app = Some w"
    "\<And>(src :: (string + (string \<times> string) list) source) worlds. turns_left w \<le> length worlds \<Longrightarrow>
      \<exists>ev. ev \<in> set (ec_queue (wk_events (fold (loop_turn src) worlds w))) \<and> re_kind ev = RK_Overview \<and> re_generation ev = 4"
    using awaited_results_arrive [OF selecting_reachable selecting_app_simps(7)] by blast
  have "turns_left w \<le> length (replicate 13 (open_world bare_store))"
    using w(1) selecting_app_simps(1) by (auto simp: turns_left_def asked_def)
  from w(1) w(2) [OF this, of sample_source] show ?thesis by blast
qed

lemma answers_overview:
  "answers r (RS_Overview s) \<longleftrightarrow> (\<exists>q. r = RR_Overview q \<and> (\<exists>before after. query_overview q before = (Ok s, after)))"
  by (cases r) (auto simp: answers_def read_snapshot_of_def op_outcomes)

lemma query_curves_viewport: "query_curves sel v n before = (Ok s, after) \<Longrightarrow> csn_viewport s = v"
  by (auto simp: query_curves_def op_outcomes split: prod.splits)

lemma answers_detail:
  "answers r (RS_Detail s) \<longleftrightarrow> (\<exists>sel width. r = RR_Detail \<lparr>dt_selection = sel, dt_viewport = csn_viewport s,
     dt_physical_width = width\<rparr> \<and> (\<exists>before after. query_detail \<lparr>dt_selection = sel, dt_viewport = csn_viewport s,
     dt_physical_width = width\<rparr> before = (Ok s, after)))"
proof (cases r)
  case (RR_Detail q)
  obtain sel v width where q: "q = \<lparr>dt_selection = sel, dt_viewport = v, dt_physical_width = width\<rparr>" by (cases q)
  have "csn_viewport s = v" if "query_detail q before = (Ok s, after)" for before after
    using that query_curves_viewport by (auto simp: query_detail_def q)
  then show ?thesis by (auto simp: answers_def read_snapshot_of_def op_outcomes RR_Detail q)
qed (auto simp: answers_def read_snapshot_of_def op_outcomes)

text \<open>C33: the curves on display belong to the selection. In every reachable state, as long as the counter
  of generations has not saturated, the overview shown is what the overview query answered for exactly
  the selected runs, metric and axis, and the detail what the detail query answered for them; results
  for another selection never appear, in whatever order results arrive.
\<close>

theorem curves_match_selection:
  assumes "viewer_reachable env app" and "va_next_generation app \<noteq> - 1"
  shows "(case vc_overview (va_core app) of None \<Rightarrow> True | Some s \<Rightarrow>
      (\<exists>sel width before after. core_curve_selection (va_core app) = Some sel \<and>
        query_overview \<lparr>ov_selection = sel, ov_physical_width = width\<rparr> before = (Ok s, after)))
    \<and> (case vc_detail (va_core app) of None \<Rightarrow> True | Some s \<Rightarrow>
      (\<exists>sel width before after. core_curve_selection (va_core app) = Some sel \<and>
        query_detail \<lparr>dt_selection = sel, dt_viewport = csn_viewport s, dt_physical_width = width\<rparr> before = (Ok s, after)))"
proof -
  have shown: "shown_current (va_core app)"
    by (rule current_invD(3) [OF showing.viewer_reachable_inv [OF assms(1)] assms(2)])
  have "\<exists>sel width before after. core_curve_selection (va_core app) = Some sel \<and>
      query_overview \<lparr>ov_selection = sel, ov_physical_width = width\<rparr> before = (Ok s, after)"
    if "vc_overview (va_core app) = Some s" for s
  proof -
    have "\<exists>r. fits r (va_core app) \<and> answers r (RS_Overview s)" using shown that by (auto simp: shown_current_def)
    then obtain q before after where q: "fits (RR_Overview q) (va_core app)" "query_overview q before = (Ok s, after)"
      unfolding answers_overview by blast
    obtain sel width where "q = \<lparr>ov_selection = sel, ov_physical_width = width\<rparr>" by (cases q)
    with q show ?thesis by auto
  qed
  moreover have "\<exists>sel width before after. core_curve_selection (va_core app) = Some sel \<and>
      query_detail \<lparr>dt_selection = sel, dt_viewport = csn_viewport s, dt_physical_width = width\<rparr> before = (Ok s, after)"
    if "vc_detail (va_core app) = Some s" for s
  proof -
    have "\<exists>r. fits r (va_core app) \<and> answers r (RS_Detail s)" using shown that by (auto simp: shown_current_def)
    then show ?thesis unfolding answers_detail by fastforce
  qed
  ultimately show ?thesis by (simp split: option.split)
qed

theorem curves_match_selection_witness:
  "\<exists>app s sel width before after. viewer_reachable sample_viewer_env app \<and> vc_overview (va_core app) = Some s \<and>
     core_curve_selection (va_core app) = Some sel \<and>
     query_overview \<lparr>ov_selection = sel, ov_physical_width = width\<rparr> before = (Ok s, after)"
proof -
  obtain app s where app: "viewer_reachable sample_viewer_env app" "va_next_generation app \<noteq> - 1" "vc_overview (va_core app) = Some s"
    using sample_shown by blast
  obtain sel width before after where "core_curve_selection (va_core app) = Some sel"
    "query_overview \<lparr>ov_selection = sel, ov_physical_width = width\<rparr> before = (Ok s, after)"
    using curves_match_selection [OF app(1,2)] app(3) by auto
  with app(1,3) show ?thesis by blast
qed

end
