(* ===== verification/Float_Text.thy ===== *)
theory Float_Text
  imports Float64
begin

section \<open>Floating-point numbers as text\<close>

text \<open>
  What \<open>format!\<close> writes for an \<open>f64\<close>: with a fixed number of decimals (\<open>{:.3}\<close>), in scientific
  notation (\<open>{:.2e}\<close>) and the shortest decimal that reads back as the same number (\<open>{}\<close>), with the
  viewer's labels of axis ticks. The search for the shortest decimal tries one digit more at a time;
  it has as many attempts as the exact expansion of the number has digits, so it always succeeds.
  The reader \<open>read_signed\<close> is the specification the texts are compared with.
\<close>

subsection \<open>Formatting\<close>

definition sign_text :: "bool \<Rightarrow> string" where
  "sign_text s = (if s then ''-'' else [])"

definition pad_zeros :: "nat \<Rightarrow> string \<Rightarrow> string" where
  "pad_zeros width ds = replicate (width - length ds) (CHR ''0'') @ ds"

definition scaled_text :: "nat \<Rightarrow> nat \<Rightarrow> string" where
  "scaled_text decimals n =
     show_nat (n div 10 ^ decimals) @
     (if decimals = 0 then [] else ''.'' @ pad_zeros decimals (show_nat (n mod 10 ^ decimals)))"

fun fixed_text :: "nat \<Rightarrow> f64 \<Rightarrow> string" where
  "fixed_text decimals F_NaN = ''NaN''"
| "fixed_text decimals (F_Inf s) = sign_text s @ ''inf''"
| "fixed_text decimals (F_Fin s m) = sign_text s @ scaled_text decimals (nat (rne (m * 10 ^ decimals)))"

text \<open>The exponent of the leading decimal digit of a positive rational.\<close>

definition ilog10 :: "rat \<Rightarrow> int" where
  "ilog10 q = (let (a, b) = quotient_of q;
                   k = int (length (show_nat (nat a))) - int (length (show_nat (nat b)))
               in if 10 powi k \<le> q then k else k - 1)"

definition scientific_digits :: "nat \<Rightarrow> rat \<Rightarrow> nat \<times> int" where
  "scientific_digits decimals m =
     (if m = 0 then (0, 0)
      else (let e = ilog10 m; n = nat (rne (m / 10 powi (e - int decimals)))
            in if n = 10 ^ (decimals + 1) then (10 ^ decimals, e + 1) else (n, e)))"

fun scientific_text :: "nat \<Rightarrow> f64 \<Rightarrow> string" where
  "scientific_text decimals F_NaN = ''NaN''"
| "scientific_text decimals (F_Inf s) = sign_text s @ ''inf''"
| "scientific_text decimals (F_Fin s m) =
     (case scientific_digits decimals m of (n, e) \<Rightarrow> sign_text s @ scaled_text decimals n @ ''e'' @ show_int e)"

text \<open>The shortest digits: the fewest that read back as the number, the nearest of these to it.\<close>

definition reads_as :: "rat \<Rightarrow> int \<Rightarrow> int \<Rightarrow> bool" where
  "reads_as m d k \<longleftrightarrow> round_mag (of_int d * 10 powi k) = m"

definition digits_of_length :: "rat \<Rightarrow> nat \<Rightarrow> (int \<times> int) option" where
  "digits_of_length m n =
     (let k = ilog10 m - int n + 1; q = m / 10 powi k; d = \<lfloor>q\<rfloor>
      in if reads_as m (d + 1) k \<and> (\<not> reads_as m d k \<or> 1 / 2 \<le> q - of_int d)
         then Some (if d + 1 = 10 ^ n then (1, k + int n) else (d + 1, k))
         else if reads_as m d k then Some (d, k)
         else None)"

fun shortest_from :: "nat \<Rightarrow> rat \<Rightarrow> nat \<Rightarrow> (int \<times> int) option" where
  "shortest_from 0 m n = None"
| "shortest_from (Suc attempts) m n = (case digits_of_length m n of
       Some digits \<Rightarrow> Some digits
     | None \<Rightarrow> shortest_from attempts m (n + 1))"

definition shortest_digits :: "rat \<Rightarrow> (int \<times> int) option" where
  "shortest_digits m = shortest_from (nat (ilog10 m + 1075)) m 1"

definition decimal_text :: "nat \<Rightarrow> int \<Rightarrow> string" where
  "decimal_text d k =
     (let ds = show_nat d; p = int (length ds) + k
      in if p \<le> 0 then ''0.'' @ replicate (nat (- p)) (CHR ''0'') @ ds
         else if k < 0 then take (nat p) ds @ ''.'' @ drop (nat p) ds
         else ds @ replicate (nat k) (CHR ''0''))"

fun display_f64 :: "f64 \<Rightarrow> string" where
  "display_f64 F_NaN = ''NaN''"
| "display_f64 (F_Inf s) = sign_text s @ ''inf''"
| "display_f64 (F_Fin s m) = sign_text s @
     (if m = 0 then ''0''
      else (case shortest_digits m of Some (d, k) \<Rightarrow> decimal_text (nat d) k | None \<Rightarrow> []))"

subsection \<open>Axis ticks\<close>

fun fract :: "f64 \<Rightarrow> f64" where
  "fract F_NaN = F_NaN"
| "fract (F_Inf s) = F_NaN"
| "fract (F_Fin s m) = fsub (F_Fin s m) (F_Fin s (of_int \<lfloor>m\<rfloor>))"

definition format_tick :: "f64 \<Rightarrow> string" where
  "format_tick v =
     (if fle (f64_of_int 1000000) (fabs v) \<or> (\<not> feq v fzero \<and> flt (fabs v) (f64_of_rat (1 / 1000)))
      then scientific_text 2 v
      else if feq (fract v) fzero then fixed_text 0 v
      else fixed_text 3 v)"

subsection \<open>Reading a number\<close>

definition digits_value :: "string \<Rightarrow> nat" where
  "digits_value ds = fold (\<lambda>c v. v * 10 + (of_char c - 48)) ds 0"

definition read_unsigned :: "string \<Rightarrow> rat" where
  "read_unsigned s =
     (let whole = takeWhile (\<lambda>c. c \<noteq> CHR ''.'') s; decimals = drop (Suc (length whole)) s
      in of_nat (digits_value (whole @ decimals)) / 10 ^ length decimals)"

definition read_exponent :: "string \<Rightarrow> int" where
  "read_exponent s = (case s of [] \<Rightarrow> 0
     | c # cs \<Rightarrow> if c = CHR ''-'' then - int (digits_value cs) else int (digits_value s))"

definition read_number :: "string \<Rightarrow> rat" where
  "read_number s =
     (let base = takeWhile (\<lambda>c. c \<noteq> CHR ''e'') s
      in read_unsigned base * 10 powi (read_exponent (drop (Suc (length base)) s)))"

definition negative_text :: "string \<Rightarrow> bool" where
  "negative_text s \<longleftrightarrow> (case s of [] \<Rightarrow> False | c # cs \<Rightarrow> c = CHR ''-'')"

definition read_signed :: "string \<Rightarrow> rat" where
  "read_signed s = (if negative_text s then - read_number (tl s) else read_number s)"

definition read_f64 :: "string \<Rightarrow> f64" where
  "read_f64 s = round_to (negative_text s) (read_signed s)"

subsection \<open>Digits\<close>

definition digit :: "char \<Rightarrow> bool" where
  "digit c \<longleftrightarrow> 48 \<le> (of_char c :: nat) \<and> (of_char c :: nat) < 58"

lemma byte_digit [simp]: "k < 10 \<Longrightarrow> (of_char (byte (48 + k)) :: nat) = 48 + k"
  by (simp add: byte_def)

lemma show_nat_digit: "c \<in> set (show_nat n) \<Longrightarrow> digit c"
proof (induction n rule: show_nat.induct)
  case (1 n)
  then show ?case by (subst (asm) (2) show_nat.simps) (auto simp: digit_def split: if_splits)
qed

lemma digits_value_fold:
  "fold (\<lambda>c v. v * 10 + (of_char c - 48)) ds v = v * 10 ^ length ds + digits_value ds"
proof (induction ds arbitrary: v)
  case (Cons c ds)
  show ?case
    using Cons.IH [of "v * 10 + (of_char c - 48)"] Cons.IH [of "of_char c - 48"]
    by (simp add: digits_value_def algebra_simps)
qed (simp add: digits_value_def)

lemma digits_value_append [simp]:
  "digits_value (s @ t) = digits_value s * 10 ^ length t + digits_value t"
  using digits_value_fold [of t "digits_value s"] by (simp add: digits_value_def)

lemma digits_value_Nil [simp]: "digits_value [] = 0"
  by (simp add: digits_value_def)

lemma digits_value_zeros [simp]: "digits_value (replicate n (CHR ''0'')) = 0"
  by (induction n) (simp_all add: digits_value_def)

lemma digits_value_zero [simp]: "digits_value (CHR ''0'' # ds) = digits_value ds"
  by (simp add: digits_value_def)

lemma digits_value_show [simp]: "digits_value (show_nat n) = n"
proof (induction n rule: show_nat.induct)
  case (1 n)
  have one: "digits_value [byte (48 + k)] = k" if "k < 10" for k using that by (simp add: digits_value_def)
  show ?case
  proof (cases "n < 10")
    case True
    then show ?thesis by (subst show_nat.simps) (simp add: one)
  next
    case False
    then show ?thesis using 1 by (subst show_nat.simps) (simp add: one)
  qed
qed

lemma digits_value_bound: "list_all digit ds \<Longrightarrow> digits_value ds < 10 ^ length ds"
proof (induction ds rule: rev_induct)
  case (snoc c ds)
  have "digits_value [c] = of_char c - 48" by (simp add: digits_value_def)
  moreover have "(of_char c :: nat) - 48 < 10" using snoc.prems by (auto simp: digit_def)
  ultimately show ?case using snoc by simp
qed simp

lemma show_nat_less: "n < 10 ^ length (show_nat n)"
  using digits_value_bound [of "show_nat n"] show_nat_digit by (simp add: list_all_iff)

lemma show_nat_not_Nil [simp]: "show_nat n \<noteq> []"
  by (subst show_nat.simps) simp

lemma show_nat_length_pos [simp]: "0 < length (show_nat n)"
  by simp

lemma show_nat_ge: "0 < n \<Longrightarrow> 10 ^ (length (show_nat n) - 1) \<le> n"
proof (induction n rule: show_nat.induct)
  case (1 n)
  show ?case
  proof (cases "n < 10")
    case True
    then have "show_nat n = [byte (48 + n)]" by (subst show_nat.simps) simp
    then show ?thesis using 1(2) by simp
  next
    case False
    then have l: "length (show_nat n) = Suc (length (show_nat (n div 10)))" by (subst show_nat.simps) simp
    have "10 ^ (length (show_nat (n div 10)) - 1) \<le> n div 10" using 1(1) False by simp
    then have "10 * 10 ^ (length (show_nat (n div 10)) - 1) \<le> n" by simp
    then show ?thesis unfolding l by (cases "length (show_nat (n div 10))") simp_all
  qed
qed

lemma show_nat_length: "n < 10 ^ w \<Longrightarrow> 0 < w \<Longrightarrow> length (show_nat n) \<le> w"
proof (rule ccontr)
  assume a: "n < 10 ^ w" "0 < w" "\<not> length (show_nat n) \<le> w"
  show False
  proof (cases "n = 0")
    case True
    then have "show_nat n = [byte (48 + n)]" by (subst show_nat.simps) simp
    then show False using a by simp
  next
    case False
    have "w \<le> length (show_nat n) - 1" using a(3) by simp
    then have "(10::nat) ^ w \<le> 10 ^ (length (show_nat n) - 1)" by (rule power_increasing) simp
    also have "\<dots> \<le> n" using False by (intro show_nat_ge) simp
    finally show False using a(1) by simp
  qed
qed

lemma not_digit [simp]: "\<not> digit (CHR ''.'')" "\<not> digit (CHR ''e'')" "\<not> digit (CHR ''-'')"
  by (simp_all add: digit_def)

subsection \<open>Texts and their values\<close>

lemma takeWhile_before: "list_all (\<lambda>c. c \<noteq> x) s \<Longrightarrow> takeWhile (\<lambda>c. c \<noteq> x) (s @ x # t) = s"
  by (induction s) simp_all

lemma takeWhile_whole: "list_all (\<lambda>c. c \<noteq> x) s \<Longrightarrow> takeWhile (\<lambda>c. c \<noteq> x) s = s"
  by (induction s) simp_all

lemma digits_without: "list_all digit s \<Longrightarrow> \<not> digit x \<Longrightarrow> list_all (\<lambda>c. c \<noteq> x) s"
  by (auto simp: list_all_iff)

lemma read_unsigned_point:
  assumes "list_all digit s"
  shows "read_unsigned (s @ ''.'' @ t) = of_nat (digits_value (s @ t)) / 10 ^ length t"
    and "read_unsigned s = of_nat (digits_value s)"
proof -
  note d = digits_without [OF assms not_digit(1)]
  show "read_unsigned (s @ ''.'' @ t) = of_nat (digits_value (s @ t)) / 10 ^ length t"
    unfolding read_unsigned_def Let_def append_Cons append_Nil takeWhile_before [OF d] by simp
  show "read_unsigned s = of_nat (digits_value s)"
    unfolding read_unsigned_def Let_def takeWhile_whole [OF d] by simp
qed

text \<open>The characters of a number without exponent.\<close>

definition plain :: "char \<Rightarrow> bool" where
  "plain c \<longleftrightarrow> digit c \<or> c = CHR ''.''"

lemma read_number_plain:
  assumes "list_all plain s"
  shows "read_number s = read_unsigned s"
    and "read_number (s @ ''e'' @ x) = read_unsigned s * 10 powi (read_exponent x)"
proof -
  have e: "list_all (\<lambda>c. c \<noteq> CHR ''e'') s" using assms not_digit(2) by (auto simp: list_all_iff plain_def)
  show "read_number s = read_unsigned s"
    unfolding read_number_def Let_def takeWhile_whole [OF e] by (simp add: read_exponent_def)
  show "read_number (s @ ''e'' @ x) = read_unsigned s * 10 powi (read_exponent x)"
    unfolding read_number_def Let_def append_Cons append_Nil takeWhile_before [OF e] by simp
qed

lemma show_nat_all [simp]: "list_all digit (show_nat n)" "list_all plain (show_nat n)"
  using show_nat_digit by (auto simp: list_all_iff plain_def)

lemma zeros_all [simp]: "list_all digit (replicate n (CHR ''0''))" "list_all plain (replicate n (CHR ''0''))"
  by (induction n) (simp_all add: digit_def plain_def)

lemma plain_chars [simp]: "plain (CHR ''0'')" "plain (CHR ''.'')" "digit (CHR ''0'')"
  by (simp_all add: plain_def digit_def)

lemma digit_plain: "list_all digit s \<Longrightarrow> list_all plain s"
  by (auto simp: list_all_iff plain_def)

lemma read_show_int [simp]: "read_exponent (show_int e) = e"
proof -
  have nat: "read_exponent (show_nat n) = int n" for n
  proof (cases "show_nat n")
    case (Cons c cs)
    then have "digit c" using show_nat_digit [of c n] by simp
    then have "c \<noteq> CHR ''-''" using not_digit(3) by blast
    then show ?thesis using Cons digits_value_show [of n] by (simp add: read_exponent_def)
  qed simp
  have "read_exponent (CHR ''-'' # show_nat n) = - int n" for n by (simp add: read_exponent_def)
  then show ?thesis using nat by (simp add: show_int_def)
qed

lemma read_signed_text:
  assumes "list_all plain s" "s \<noteq> []"
  shows "read_signed (sign_text b @ s @ t) = sval b (read_number (s @ t))"
    and "negative_text (sign_text b @ s @ t) = b"
proof -
  obtain c cs where s: "s = c # cs" "plain c" using assms by (cases s) auto
  then have "c \<noteq> CHR ''-''" by (auto simp: plain_def)
  with s(1) show "read_signed (sign_text b @ s @ t) = sval b (read_number (s @ t))" "negative_text (sign_text b @ s @ t) = b"
    by (auto simp: read_signed_def negative_text_def sign_text_def sval_def)
qed

lemma scaled_text_plain [simp]: "list_all plain (scaled_text decimals n)" "scaled_text decimals n \<noteq> []"
  by (simp_all add: scaled_text_def pad_zeros_def)

lemma read_scaled_text: "read_unsigned (scaled_text decimals n) = of_nat n / 10 ^ decimals"
proof (cases "decimals = 0")
  case True
  then show ?thesis by (simp add: scaled_text_def read_unsigned_point)
next
  case False
  let ?ds = "show_nat (n mod 10 ^ decimals)"
  have l: "length ?ds \<le> decimals" using False by (intro show_nat_length) simp_all
  have "digits_value (show_nat (n div 10 ^ decimals) @ pad_zeros decimals ?ds) = n"
    using l div_mult_mod_eq [of n "10 ^ decimals"] by (simp add: pad_zeros_def)
  then show ?thesis
    using False l read_unsigned_point(1) [of "show_nat (n div 10 ^ decimals)" "pad_zeros decimals ?ds"]
    by (simp add: scaled_text_def pad_zeros_def)
qed

lemma read_decimal_text:
  "list_all plain (decimal_text d k)" "decimal_text d k \<noteq> []"
  "read_unsigned (decimal_text d k) = of_nat d * 10 powi k"
proof -
  let ?ds = "show_nat d" and ?p = "int (length (show_nat d)) + k"
  have parts: "list_all digit (take i ?ds)" "list_all digit (drop i ?ds)" for i
    using show_nat_all(1) [of d] by (metis append_take_drop_id list_all_append)+
  consider (fraction) "?p \<le> 0" | (point) "0 < ?p" "k < 0" | (whole) "0 \<le> k" by linarith
  then have "list_all plain (decimal_text d k) \<and> decimal_text d k \<noteq> [] \<and>
      read_unsigned (decimal_text d k) = of_nat d * 10 powi k"
  proof cases
    case fraction
    let ?z = "replicate (nat (- ?p)) (CHR ''0'')"
    have shown: "decimal_text d k = ''0'' @ ''.'' @ ?z @ ?ds" using fraction by (simp add: decimal_text_def Let_def)
    have "length (?z @ ?ds) = nat (- k)" using fraction by (simp add: algebra_simps)
    then have "read_unsigned (decimal_text d k) = of_nat d / 10 ^ nat (- k)"
      unfolding shown by (subst read_unsigned_point(1)) (simp_all add: digits_value_def [of "''0''"])
    moreover have "k < 0" using fraction show_nat_length_pos [of d] by linarith
    ultimately show ?thesis unfolding shown by (simp add: power_int_def power_divide)
  next
    case point
    have shown: "decimal_text d k = take (nat ?p) ?ds @ ''.'' @ drop (nat ?p) ?ds" using point by (simp add: decimal_text_def Let_def)
    have "length (drop (nat ?p) ?ds) = nat (- k)" using point by simp
    then have "read_unsigned (decimal_text d k) = of_nat d / 10 ^ nat (- k)"
      unfolding shown by (subst read_unsigned_point(1) [OF parts(1)]) simp
    then show ?thesis unfolding shown using point digit_plain [OF parts(1)] digit_plain [OF parts(2)]
      by (simp add: power_int_def power_divide)
  next
    case whole
    then have "\<not> ?p \<le> 0" "\<not> k < 0" using show_nat_length_pos [of d] by linarith+
    then have shown: "decimal_text d k = ?ds @ replicate (nat k) (CHR ''0'')"
      by (simp add: decimal_text_def Let_def)
    have "read_unsigned (decimal_text d k) = of_nat d * 10 ^ nat k"
      unfolding shown by (subst read_unsigned_point(2)) simp_all
    then show ?thesis unfolding shown using whole by (simp add: power_int_def)
  qed
  then show "list_all plain (decimal_text d k)" "decimal_text d k \<noteq> []"
    "read_unsigned (decimal_text d k) = of_nat d * 10 powi k" by blast+
qed

subsection \<open>The leading digit\<close>

lemma powi_ten_pos [simp]: "(0::rat) < 10 powi k" "(10::rat) powi k \<noteq> 0"
  by (simp_all add: power_int_def)

lemma powi_ten_add: "(10::rat) powi (a + b) = 10 powi a * 10 powi b"
  by (simp add: power_int_add)

lemma powi_ten_diff: "(10::rat) powi (a - b) = 10 powi a / 10 powi b"
  by (simp add: power_int_diff)

lemma powi_ten_mono: "a \<le> b \<Longrightarrow> (10::rat) powi a \<le> 10 powi b"
  by (rule power_int_increasing) simp_all

lemma powi_ten_less: "(10::rat) powi a < 10 powi b \<Longrightarrow> a < b"
  by (meson not_le powi_ten_mono)

lemma show_nat_digits:
  assumes "0 < (a::int)"
  shows "10 powi (int (length (show_nat (nat a))) - 1) \<le> (of_int a :: rat)"
    and "(of_int a :: rat) < 10 powi int (length (show_nat (nat a)))"
proof -
  let ?l = "length (show_nat (nat a))"
  have a: "0 < nat a" "int (nat a) = a" using assms by simp_all
  have "int (10 ^ (?l - 1)) \<le> int (nat a)" using show_nat_ge [OF a(1)] by (rule of_nat_le_iff [THEN iffD2])
  then have ge: "10 ^ (?l - 1) \<le> a" unfolding a(2) of_nat_power by simp
  have "int (nat a) < int (10 ^ ?l)" using show_nat_less [of "nat a"] by (rule of_nat_less_iff [THEN iffD2])
  then have less: "a < 10 ^ ?l" unfolding a(2) of_nat_power by simp
  have l: "int ?l - 1 = int (?l - 1)" using show_nat_length_pos [of "nat a"] by linarith
  have "(10::rat) powi (int ?l - 1) = of_int (10 ^ (?l - 1))" unfolding l power_int_of_nat by simp
  also have "\<dots> \<le> of_int a" using ge by (rule of_int_le_iff [THEN iffD2])
  finally show "10 powi (int ?l - 1) \<le> (of_int a :: rat)" .
  have "(of_int a :: rat) < of_int (10 ^ ?l)" using less by (rule of_int_less_iff [THEN iffD2])
  then show "(of_int a :: rat) < 10 powi int ?l" unfolding power_int_of_nat by simp
qed

lemma ilog10_bounds:
  assumes "0 < q"
  shows "10 powi (ilog10 q) \<le> q" and "q < 10 powi (ilog10 q + 1)"
proof -
  obtain a b where ab: "quotient_of q = (a, b)" by fastforce
  have b: "0 < b" using ab by (rule quotient_of_denom_pos)
  have q: "q = of_int a / of_int b" using ab by (rule quotient_of_div)
  have a: "0 < a" using assms b q by (simp add: zero_less_divide_iff)
  let ?m = "int (length (show_nat (nat a)))" and ?n = "int (length (show_nat (nat b)))"
  note da = show_nat_digits [OF a] and db = show_nat_digits [OF b]
  have "q < 10 powi ?m / of_int b" using da(2) b q by (simp add: divide_strict_right_mono)
  also have "\<dots> \<le> 10 powi ?m / 10 powi (?n - 1)" using db(1) b by (intro divide_left_mono) (auto simp: mult_pos_pos)
  finally have up: "q < 10 powi (?m - ?n + 1)" by (simp add: powi_ten_diff powi_ten_add)
  have "10 powi (?m - ?n - 1) = 10 powi (?m - 1) / (10 powi ?n :: rat)" by (simp add: powi_ten_diff)
  also have "\<dots> \<le> of_int a / 10 powi ?n" using da(1) by (intro divide_right_mono) auto
  also have "\<dots> \<le> q" unfolding q using db(2) a b by (intro divide_left_mono) auto
  finally have low: "10 powi (?m - ?n - 1) \<le> q" .
  show "10 powi (ilog10 q) \<le> q" "q < 10 powi (ilog10 q + 1)"
    using up low by (auto simp: ilog10_def ab Let_def)
qed

subsection \<open>The shortest digits\<close>

lemma digits_of_length_reads:
  assumes "digits_of_length m n = Some (d, k)"
  shows "round_mag (of_int d * 10 powi k) = m"
proof -
  define j where "j = ilog10 m - int n + 1"
  define c where "c = \<lfloor>m / 10 powi j\<rfloor>"
  have "10 powi (j + int n) = (10 ^ n * 10 powi j :: rat)" by (simp add: powi_ten_add)
  moreover have "(of_int c + 1 :: rat) = 10 ^ n" if "c + 1 = 10 ^ n"
  proof -
    have "(of_int (c + 1) :: rat) = of_int (10 ^ n)" using that by (rule arg_cong)
    then show ?thesis by simp
  qed
  ultimately have roll: "(of_int c + 1) * (10::rat) powi j = 10 powi (j + int n)" if "c + 1 = 10 ^ n"
    using that by simp
  have "reads_as m (c + 1) j \<and> (d, k) = (if c + 1 = 10 ^ n then (1, j + int n) else (c + 1, j)) \<or>
      reads_as m c j \<and> (d, k) = (c, j)"
    using assms by (simp add: digits_of_length_def j_def [symmetric] c_def [symmetric] Let_def split: if_split_asm)
  then show ?thesis using roll by (auto simp: reads_as_def split: if_splits)
qed

lemma shortest_from_reads:
  "shortest_from attempts m n = Some (d, k) \<Longrightarrow> round_mag (of_int d * 10 powi k) = m"
  by (induction attempts m n rule: shortest_from.induct) (auto split: option.splits dest: digits_of_length_reads)

lemma shortest_from_total:
  "digits_of_length m (n + i) \<noteq> None \<Longrightarrow> i < attempts \<Longrightarrow> shortest_from attempts m n \<noteq> None"
proof (induction attempts m n arbitrary: i rule: shortest_from.induct)
  case (2 attempts m n)
  show ?case
  proof (cases i)
    case 0
    then show ?thesis using 2(2) by auto
  next
    case (Suc j)
    then show ?thesis using 2(1) [of j] 2(2,3) by (auto split: option.split)
  qed
qed simp

text \<open>With 1074 decimals every \<open>f64\<close> is exact.\<close>

lemma exact_digits:
  assumes "representable m" "0 < m"
  shows "digits_of_length m (nat (ilog10 m + 1075)) \<noteq> None" and "0 \<le> ilog10 m + 1074"
proof -
  define N where "N = (1074::nat)"
  then have N: "int N = 1074" by simp
  obtain j where "m = of_int j * 2 powi (- 1074)" using representable_grid [OF assms(1)] by blast
  then have j: "m = of_int j * 2 powi (- int N)" unfolding N .
  have pos: "1 \<le> j" using assms(2) powi_two_pos [of "- int N"] unfolding j zero_less_mult_iff by linarith
  have ten: "(10::rat) ^ N = 5 ^ N * 2 ^ N" unfolding power_mult_distrib [symmetric] by simp
  have scaled: "m / 10 powi (- int N) = of_int (j * 5 ^ N)"
    unfolding j power_int_minus power_int_of_nat ten by (simp add: field_simps)
  have "1 * 1 \<le> j * 5 ^ N" using pos by (intro mult_mono) simp_all
  then have "(of_int (1 * 1) :: rat) \<le> of_int (j * 5 ^ N)" by (rule of_int_le_iff [THEN iffD2])
  then have "1 \<le> m / 10 powi (- int N)" unfolding scaled by simp
  then have "10 powi (- int N) \<le> m" unfolding pos_le_divide_eq [OF powi_ten_pos(1)] by simp
  also have "m < 10 powi (ilog10 m + 1)" by (rule ilog10_bounds(2) [OF assms(2)])
  finally have "- int N < ilog10 m + 1" by (rule powi_ten_less)
  then show n: "0 \<le> ilog10 m + 1074" unfolding N by linarith
  have k: "ilog10 m - int (nat (ilog10 m + 1075)) + 1 = - int N" unfolding N using n by linarith
  have "of_int (j * 5 ^ N) * 10 powi (- int N) = m" unfolding scaled [symmetric] by simp
  then have "reads_as m (j * 5 ^ N) (- int N)"
    unfolding reads_as_def using round_mag_representable_id [OF assms(1)] by (rule ssubst)
  then show "digits_of_length m (nat (ilog10 m + 1075)) \<noteq> None"
    unfolding digits_of_length_def Let_def k scaled floor_of_int by simp
qed

lemma shortest_digits_reads:
  assumes "representable m" "0 < m"
  obtains d k where "shortest_digits m = Some (d, k)" "round_mag (of_int d * 10 powi k) = m" "0 < d"
proof -
  note e = exact_digits [OF assms]
  have eq: "1 + nat (ilog10 m + 1074) = nat (ilog10 m + 1075)" using e(2) by linarith
  have "shortest_digits m \<noteq> None"
    unfolding shortest_digits_def using e eq by (intro shortest_from_total [of _ _ "nat (ilog10 m + 1074)"]) simp_all
  then obtain d k where d: "shortest_digits m = Some (d, k)" by fastforce
  then have r: "round_mag (of_int d * 10 powi k) = m" unfolding shortest_digits_def by (rule shortest_from_reads)
  moreover have "0 < d"
  proof (rule ccontr)
    assume "\<not> 0 < d"
    then have "of_int d * (10::rat) powi k \<le> 0" by (simp add: mult_le_0_iff)
    then show False using r assms(2) by (simp add: round_mag_def)
  qed
  ultimately show ?thesis using that d by blast
qed

subsection \<open>Properties\<close>

text \<open>What \<open>format!("{}")\<close> writes for a finite number reads back as exactly that number, signed
  zeros included; the search for the shortest digits always succeeds.
\<close>

theorem display_reads_back:
  assumes "wf_f64 (F_Fin s m)"
  shows "read_f64 (display_f64 (F_Fin s m)) = F_Fin s m"
proof (cases "m = 0")
  case True
  have "read_signed (display_f64 (F_Fin s m)) = sval s (read_number ''0'')" "negative_text (display_f64 (F_Fin s m)) = s"
    using read_signed_text [of "''0''" s "[]"] True by simp_all
  moreover have "read_number ''0'' = 0" by (simp add: read_number_plain(1) read_unsigned_point(2))
  ultimately show ?thesis using True by (simp add: read_f64_def round_to_def sval_def round_mag_def f64_max_bound_def)
next
  case False
  have m: "representable m" "0 < m" "m < f64_max_bound" using assms wf_f64_nonneg [OF assms] False by auto
  obtain d k where d: "shortest_digits m = Some (d, k)" "round_mag (of_int d * 10 powi k) = m" "0 < d"
    using shortest_digits_reads [OF m(1,2)] by blast
  define q where "q = (of_int d :: rat) * 10 powi k"
  have q: "0 < q" "round_mag q = m" using d by (simp_all add: q_def)
  note shown = read_decimal_text [of "nat d" k]
  have read: "read_number (decimal_text (nat d) k) = q"
    using read_number_plain(1) [OF shown(1)] shown(3) d(3) by (simp add: q_def)
  have "display_f64 (F_Fin s m) = sign_text s @ decimal_text (nat d) k @ []" using False d(1) by simp
  then have "read_signed (display_f64 (F_Fin s m)) = sval s q" "negative_text (display_f64 (F_Fin s m)) = s"
    using read_signed_text [OF shown(1,2), of s "[]"] read by (simp_all only: append_Nil2)
  then show ?thesis using q m(3) by (auto simp: read_f64_def round_to_def sval_def Let_def)
qed

theorem display_reads_back_witness: "read_f64 (display_f64 (f64_of_int 3)) = f64_of_int 3"
proof -
  obtain m where m: "f64_of_int 3 = F_Fin False m"
    using f64_of_int_exact [of 3] by (cases "f64_of_int 3") (auto simp: f64_of_int_def round_to_def Let_def split: if_splits)
  then have "wf_f64 (F_Fin False m)" using wf_f64_of_int [of 3] by simp
  from display_reads_back [OF this] show ?thesis unfolding m .
qed

lemma read_fixed_text:
  assumes "0 \<le> m"
  shows "read_signed (fixed_text decimals (F_Fin s m)) = sval s (of_int (rne (m * 10 ^ decimals)) / 10 ^ decimals)"
proof -
  let ?n = "rne (m * 10 ^ decimals)"
  have "rne 0 \<le> ?n" using assms by (intro rne_mono) simp
  then have "0 \<le> ?n" using rne_of_int [of 0] by simp
  then show ?thesis
    using read_signed_text(1) [of "scaled_text decimals (nat ?n)" s "[]"]
    by (simp add: read_number_plain(1) read_scaled_text)
qed

lemma fixed_text_accurate:
  assumes "0 \<le> m"
  shows "\<bar>read_signed (fixed_text decimals (F_Fin s m)) - sval s m\<bar> \<le> 1 / (2 * 10 ^ decimals)"
proof -
  let ?n = "rne (m * 10 ^ decimals)"
  have "\<bar>of_int ?n / 10 ^ decimals - m\<bar> = \<bar>of_int ?n - m * 10 ^ decimals\<bar> / 10 ^ decimals"
    by (simp add: abs_div_pos [symmetric] field_simps)
  also have "\<dots> \<le> (1 / 2) / 10 ^ decimals" using rne_err by (intro divide_right_mono) simp_all
  finally have "\<bar>of_int ?n / 10 ^ decimals - m\<bar> \<le> 1 / (2 * 10 ^ decimals)" by simp
  then show ?thesis unfolding read_fixed_text [OF assms] by (auto simp: sval_def)
qed

lemma scientific_text_accurate: "\<bar>read_signed (scientific_text decimals (F_Fin s m)) - sval s m\<bar> \<le> m / (2 * 10 ^ decimals)"
  if "0 \<le> m"
proof -
  obtain n e where ne: "scientific_digits decimals m = (n, e)" by fastforce
  have shown: "read_signed (scientific_text decimals (F_Fin s m)) = sval s (of_nat n / 10 ^ decimals * 10 powi e)"
    using read_signed_text(1) [of "scaled_text decimals n" s "''e'' @ show_int e"] ne
      read_number_plain(2) [of "scaled_text decimals n" "show_int e"]
    by (simp add: read_scaled_text)
  show ?thesis
  proof (cases "m = 0")
    case True
    then show ?thesis using ne shown by (simp add: scientific_digits_def sval_def)
  next
    case False
    define j where "j = ilog10 m - int decimals"
    define c where "c = rne (m / 10 powi j)"
    have pos: "0 < m" using that False by simp
    have "rne 0 \<le> c" unfolding c_def using that by (intro rne_mono) simp
    then have c: "0 \<le> c" using rne_of_int [of 0] by simp
    have j: "10 powi (ilog10 m) / 10 ^ decimals = (10 powi j :: rat)" by (simp add: j_def powi_ten_diff)
    have "of_nat n / 10 ^ decimals * (10::rat) powi e = of_int c * 10 powi j"
    proof (cases "nat c = 10 ^ (decimals + 1)")
      case True
      then have "n = 10 ^ decimals" "e = ilog10 m + 1"
        using ne False by (simp_all add: scientific_digits_def Let_def j_def c_def)
      moreover have "(of_int c :: rat) = 10 ^ (decimals + 1)" using True c by (metis of_nat_nat of_int_of_nat_eq of_nat_power of_nat_numeral)
      ultimately show ?thesis by (simp add: j [symmetric] powi_ten_add)
    next
      case 2: False
      then have "n = nat c" "e = ilog10 m"
        using ne False by (auto simp: scientific_digits_def Let_def j_def c_def)
      then show ?thesis using c by (simp add: j [symmetric])
    qed
    moreover have "\<bar>of_int c * 10 powi j - m\<bar> \<le> m / (2 * 10 ^ decimals)"
    proof -
      have "of_int c * 10 powi j - m = (of_int c - m / 10 powi j) * 10 powi j" by (simp add: left_diff_distrib)
      then have "\<bar>of_int c * 10 powi j - m\<bar> = \<bar>of_int c - m / 10 powi j\<bar> * 10 powi j" by (simp only: abs_mult) simp
      also have "\<dots> \<le> 1 / 2 * 10 powi j" unfolding c_def using rne_err by (intro mult_right_mono) simp_all
      also have "\<dots> = 10 powi (ilog10 m) / (2 * 10 ^ decimals)" by (simp add: j [symmetric])
      also have "\<dots> \<le> m / (2 * 10 ^ decimals)" using ilog10_bounds(1) [OF pos] by (intro divide_right_mono) simp_all
      finally show ?thesis .
    qed
    ultimately show ?thesis unfolding shown by (auto simp: sval_def abs_minus_commute)
  qed
qed

text \<open>The label of an axis tick denotes the tick to half a thousandth or to half a percent of it,
  whichever notation the code picks.
\<close>

theorem tick_label_accurate:
  assumes "wf_f64 (F_Fin s m)"
  shows "\<bar>read_signed (format_tick (F_Fin s m)) - val (F_Fin s m)\<bar> \<le> max (1 / 2000) (m / 200)"
proof -
  have m: "0 \<le> m" using wf_f64_nonneg [OF assms] .
  let ?v = "F_Fin s m"
  have fixed: "\<bar>read_signed (fixed_text 3 ?v) - sval s m\<bar> \<le> 1 / 2000" using fixed_text_accurate [OF m, of 3 s] by simp
  have sci: "\<bar>read_signed (scientific_text 2 ?v) - sval s m\<bar> \<le> m / 200" using scientific_text_accurate [OF m, of 2 s] by simp
  have whole: "read_signed (fixed_text 0 ?v) = sval s m"
    if "\<not> fle (f64_of_int 1000000) (fabs ?v)" "feq (fract ?v) fzero"
  proof -
    let ?w = "F_Fin s (of_int \<lfloor>m\<rfloor>)"
    have "m < 1000000" using that(1) f64_of_int_exact [of 1000000] by (simp add: fle_finite sval_def)
    then have "0 \<le> \<lfloor>m\<rfloor>" "\<lfloor>m\<rfloor> \<le> 2 ^ 53" using m by (simp_all add: floor_le_iff)
    then have "wf_f64 ?w" by (rule wf_small_int)
    note sign = fsub_sign [OF assms _ this]
    have "\<not> flt (fsub ?v ?w) fzero" "\<not> flt fzero (fsub ?v ?w)" using that(2) flt_not_feq feq_sym by auto
    then have "val ?v = val ?w" using sign(1,2) by simp
    then have "m = of_int \<lfloor>m\<rfloor>" by (simp add: sval_def split: if_splits)
    then show ?thesis unfolding read_fixed_text [OF m] by (metis div_by_1 mult.right_neutral power_0 rne_of_int)
  qed
  let ?b = "max (1 / 2000) (m / 200)"
  have labels: "\<bar>read_signed (fixed_text 3 ?v) - val ?v\<bar> \<le> ?b" "\<bar>read_signed (scientific_text 2 ?v) - val ?v\<bar> \<le> ?b"
    using fixed sci by (simp_all only: val.simps le_max_iff_disj simp_thms)
  moreover have "\<bar>read_signed (fixed_text 0 ?v) - val ?v\<bar> \<le> ?b"
    if "\<not> fle (f64_of_int 1000000) (fabs ?v)" "feq (fract ?v) fzero"
    unfolding whole [OF that] val.simps using m by simp
  ultimately show ?thesis unfolding format_tick_def by (simp only: split: if_split) blast
qed

theorem tick_label_accurate_witness: "\<bar>read_signed (format_tick (F_Fin True 0)) - val (F_Fin True 0)\<bar> \<le> 1 / 2000"
  using tick_label_accurate [of True 0] by (simp add: f64_max_bound_def)

end
