(* ===== verification/Viewer_View.thy ===== *)
theory Viewer_View
  imports Viewer_Guarantees Float_Text
begin

section \<open>What a frame of the viewer shows (\<open>render\<close> in \<open>pulseon-viewer/src/desktop.rs\<close>)\<close>

text \<open>
  \<open>Render::render\<close> and its helpers build an element tree for the GUI library. Here a frame is the
  data of that tree: texts, rows with their highlight and the action a click, Enter or Space on
  them triggers, the charts with viewport and labels. Layout, colours of the surroundings and
  focus are left out; the library chooses the range of rows it asks a list for and the bounds of a
  canvas, so both are arguments. A panic (the \<open>expect\<close> on the catalog, a slice of the chart code) is
  \<open>None\<close>. A frame first reconciles the canvas widths, and drawing its charts fills the path caches.
\<close>

subsection \<open>Commands, menus and keys\<close>

datatype app_command =
    CM_OpenProject
  | CM_Refresh
  | CM_ResetView
  | CM_UseStep
  | CM_UseElapsed
  | CM_ActivateSelection
  | CM_Quit

datatype menu_item =
    MI_Submenu string
  | MI_Separator
  | MI_Action string app_command

definition key_bindings :: "(string \<times> app_command \<times> string option) list" where
  "key_bindings =
     [(''cmd-o'', CM_OpenProject, None), (''cmd-r'', CM_Refresh, None), (''cmd-0'', CM_ResetView, None),
      (''cmd-q'', CM_Quit, None), (''enter'', CM_ActivateSelection, Some ''ViewerSelectable''),
      (''space'', CM_ActivateSelection, Some ''ViewerSelectable'')]"

definition menus :: "(string \<times> menu_item list) list" where
  "menus =
     [(''PulseOn'', [MI_Submenu ''Services'', MI_Separator, MI_Action ''Quit PulseOn Viewer'' CM_Quit]),
      (''File'', [MI_Action (''Open Project'' @ ellipsis) CM_OpenProject, MI_Action ''Refresh'' CM_Refresh]),
      (''View'', [MI_Action ''Reset View'' CM_ResetView, MI_Separator, MI_Action ''Step'' CM_UseStep,
                  MI_Action ''Elapsed'' CM_UseElapsed])]"

text \<open>What an element answers to a click or a command: it opens the directory picker or runs a handler.\<close>

datatype 'p response = RE_Picker | RE_Act "'p viewer_action"

text \<open>The handlers that the root element registers; the others belong to the focused row and to the application.\<close>

fun command_response :: "app_command \<Rightarrow> 'p response option" where
  "command_response CM_OpenProject = Some RE_Picker"
| "command_response CM_Refresh = Some (RE_Act VA_Refresh)"
| "command_response CM_ResetView = Some (RE_Act VA_Reset)"
| "command_response CM_UseStep = Some (RE_Act VA_Step)"
| "command_response CM_UseElapsed = Some (RE_Act VA_Elapsed)"
| "command_response CM_ActivateSelection = None"
| "command_response CM_Quit = None"

subsection \<open>Lists\<close>

record 'p row_view =
  rw_content :: string
  rw_meta :: "string option"
  rw_highlighted :: bool
  rw_response :: "'p response option"

text \<open>\<open>range.filter_map(|index| items.get(index))\<close>\<close>

definition asked_items :: "nat \<times> nat \<Rightarrow> 'a list \<Rightarrow> 'a list" where
  "asked_items wanted xs = map (\<lambda>i. xs ! i) (filter (\<lambda>i. i < length xs) [fst wanted..<snd wanted])"

record row_ranges =
  rr_projects :: "nat \<times> nat"
  rr_runs :: "nat \<times> nat"
  rr_metrics :: "nat \<times> nat"

definition project_row :: "viewer_core \<Rightarrow> project \<Rightarrow> 'p row_view" where
  "project_row c p =
     \<lparr>rw_content = p_name p, rw_meta = None, rw_highlighted = (vs_project_id (vc_selection c) = Some (p_project_id p)),
      rw_response = Some (RE_Act (VA_Project (p_project_id p)))\<rparr>"

fun run_status_label :: "run_status \<Rightarrow> string" where
  "run_status_label Running = ''running''"
| "run_status_label Finished = ''finished''"
| "run_status_label Failed = ''failed''"

definition run_row :: "viewer_core \<Rightarrow> run \<Rightarrow> 'p row_view" where
  "run_row c r =
     \<lparr>rw_content = r_name r, rw_meta = Some (r_run_id r @ middle_dot @ run_status_label (r_status r)),
      rw_highlighted = (r_run_id r \<in> set (vs_run_ids (vc_selection c))),
      rw_response = (if can_toggle (r_run_id r) c then Some (RE_Act (VA_Run (r_run_id r))) else None)\<rparr>"

definition metric_row :: "viewer_core \<Rightarrow> metric_key \<Rightarrow> 'p row_view" where
  "metric_row c key =
     \<lparr>rw_content = key, rw_meta = None, rw_highlighted = (vs_metric_key (vc_selection c) = Some key),
      rw_response = Some (RE_Act (VA_Metric key))\<rparr>"

subsection \<open>The sidebar\<close>

record 'p project_panel =
  pp_heading :: string
  pp_filter :: string
  pp_runs :: "'p row_view list"
  pp_metrics :: "'p row_view list"

definition render_panel :: "row_ranges \<Rightarrow> catalog_snapshot \<Rightarrow> ('p, 'g) viewer_app \<Rightarrow> 'p project_panel" where
  "render_panel ranges ct app =
     \<lparr>pp_heading = ''Runs ('' @ show_nat (length (vs_run_ids (vc_selection (va_core app)))) @ ''/'' @
         show_nat max_selected_runs @ '')'',
      pp_filter = (if va_run_filter app = [] then ''Filter by name, id, or status'' else va_run_filter app),
      pp_runs = map (run_row (va_core app)) (asked_items (rr_runs ranges) (va_run_list app)),
      pp_metrics = map (metric_row (va_core app)) (asked_items (rr_metrics ranges) (ct_metric_keys ct))\<rparr>"

subsection \<open>The charts\<close>

definition hover_value_line :: "alignment_axis \<Rightarrow> hover_point \<Rightarrow> string" where
  "hover_value_line axis hover = (case axis of
       Axis_Step \<Rightarrow> ''step='' @ show_int (hv_axis_value hover) @ middle_dot @ ''value='' @ display_f64 (hv_value hover)
     | Axis_ElapsedTime \<Rightarrow>
         axis_value_label axis @ ''='' @ show_int (hv_axis_value hover) @ middle_dot @
         ''step='' @ show_int (hv_step hover) @ middle_dot @ ''value='' @ display_f64 (hv_value hover))"

definition hover_lines :: "alignment_axis \<Rightarrow> hover_point \<Rightarrow> string \<times> string" where
  "hover_lines axis hover = (hv_run_name hover @ middle_dot @ hv_metric_key hover, hover_value_line axis hover)"

definition render_legend :: "curve_snapshot \<Rightarrow> (nat \<times> string \<times> string) list" where
  "render_legend snapshot = map (\<lambda>(index, curve). legend_entry index curve) (enumerate 0 (csn_series snapshot))"

record overview_view =
  ow_snapshot :: curve_snapshot
  ow_viewport :: viewport
  ow_brush :: brush
  ow_labels :: "string \<times> string"

definition render_overview :: "('p, 'g) viewer_app \<Rightarrow> overview_view option option" where
  "render_overview app = (case vc_overview (va_core app) of
       None \<Rightarrow> Some None
     | Some snapshot \<Rightarrow> (case vc_brush (va_core app) of
         None \<Rightarrow> Some None
       | Some b \<Rightarrow>
           map_option (map_option (\<lambda>v. \<lparr>ow_snapshot = snapshot, ow_viewport = v, ow_brush = b,
               ow_labels = (format_tick (rg_start (br_selected b)), format_tick (rg_end (br_selected b)))\<rparr>))
             (overview_viewport snapshot b)))"

record chart_view =
  cw_legend :: "(nat \<times> string \<times> string) list"
  cw_snapshot :: curve_snapshot
  cw_viewport :: viewport
  cw_y_labels :: "string list"
  cw_x_labels :: "string list"
  cw_axis :: string
  cw_overview :: "overview_view option"
  cw_updating :: bool
  cw_hover :: "(string \<times> string) option"

datatype detail_view =
    DV_Message "(nat \<times> string \<times> string) list option" string
  | DV_NotDrawable string
  | DV_Chart chart_view

definition render_detail :: "libm \<Rightarrow> ('p, 'g) viewer_app \<Rightarrow> detail_view option" where
  "render_detail lm app =
     (let c = va_core app in
      case vc_detail c of
        None \<Rightarrow> Some (DV_Message (map_option render_legend (vc_overview c))
                   (empty_detail_message (vc_overview c \<noteq> None) (is_pending RK_Detail c)))
      | Some snapshot \<Rightarrow> (case detail_viewport snapshot (map_option br_selected (vc_brush c)) of
          None \<Rightarrow> None
        | Some None \<Rightarrow> Some (DV_NotDrawable ''No drawable evidence is available in this viewport.'')
        | Some (Some v) \<Rightarrow>
            map_option (\<lambda>overview. DV_Chart
              \<lparr>cw_legend = render_legend snapshot, cw_snapshot = snapshot, cw_viewport = v,
               cw_y_labels = map format_tick (rev (linear_ticks lm (vp_y v) 6)),
               cw_x_labels = map format_tick (linear_ticks lm (vp_x v) 6),
               cw_axis = axis_label (vc_axis c), cw_overview = overview,
               cw_updating = updating_viewport app snapshot,
               cw_hover = map_option (hover_lines (vc_axis c)) (va_hover app)\<rparr>)
              (render_overview app)))"

text \<open>Moving the pointer over the detail chart drags it or looks for a point under the pointer.\<close>

definition detail_pointer :: "chart_view \<Rightarrow> bool \<Rightarrow> 'p \<times> 'p \<Rightarrow> 'p viewer_action" where
  "detail_pointer chart dragging position =
     (if dragging then VA_DetailMove (fst position) else VA_Hover (cw_snapshot chart) (cw_viewport chart) position)"

subsection \<open>The window\<close>

record 'p workspace_view =
  ws_projects :: "'p row_view list"
  ws_panel :: "'p project_panel option"
  ws_detail :: detail_view

datatype 'p screen =
    SC_Welcome string string "'p response"
  | SC_Workspace "'p workspace_view"

record 'p frame_view =
  fv_source :: string
  fv_error :: "string option"
  fv_screen :: "'p screen"

definition render_workspace :: "libm \<Rightarrow> row_ranges \<Rightarrow> ('p, 'g) viewer_app \<Rightarrow> 'p workspace_view option" where
  "render_workspace lm ranges app = (case vc_catalog (va_core app) of
       None \<Rightarrow> None
     | Some ct \<Rightarrow>
         map_option (\<lambda>detail.
           \<lparr>ws_projects = map (project_row (va_core app)) (asked_items (rr_projects ranges) (ct_projects ct)),
            ws_panel = (if vs_project_id (vc_selection (va_core app)) = None then None
                        else Some (render_panel ranges ct app)),
            ws_detail = detail\<rparr>) (render_detail lm app))"

definition has_projects :: "viewer_core \<Rightarrow> bool" where
  "has_projects c \<longleftrightarrow> (case vc_catalog c of None \<Rightarrow> False | Some ct \<Rightarrow> ct_projects ct \<noteq> [])"

definition render_frame ::
  "('p, 'g) gpui \<Rightarrow> libm \<Rightarrow> row_ranges \<Rightarrow> f64 \<Rightarrow> ('p, 'g) viewer_app \<Rightarrow> (('p, 'g) viewer_app \<times> 'p frame_view) option" where
  "render_frame g lm ranges scale_factor app =
     (let app1 = reconcile_canvas_widths g scale_factor app in
      map_option (\<lambda>screen. (app1,
          \<lparr>fv_source = (case va_source_path app1 of None \<Rightarrow> ''No project open'' | Some p \<Rightarrow> p),
           fv_error = app_error app1, fv_screen = screen\<rparr>))
        (if has_projects (va_core app1) then map_option SC_Workspace (render_workspace lm ranges app1)
         else Some (SC_Welcome (app_status app1) (''Open Project'' @ ellipsis) RE_Picker)))"

subsection \<open>Drawing the charts\<close>

text \<open>A canvas that changed its bounds asks for another frame.\<close>

definition resized :: "chart_kind \<Rightarrow> 'p bounds \<Rightarrow> ('p, 'g) viewer_app \<Rightarrow> bool" where
  "resized kind b app \<longleftrightarrow>
     (case kind of CK_Detail \<Rightarrow> ca_detail_bounds (va_adapter app) | CK_Overview \<Rightarrow> ca_overview_bounds (va_adapter app)) \<noteq> Some b"

definition draw_chart ::
  "('p, 'g) gpui \<Rightarrow> 'p bounds \<Rightarrow> 'p bounds \<Rightarrow> bool \<Rightarrow> chart_view \<Rightarrow> ('p, 'g) viewer_app \<Rightarrow> (bool \<times> ('p, 'g) viewer_app) option" where
  "draw_chart g detail_bounds overview_bounds dark chart app =
     (case paint_chart g (cw_snapshot chart) CK_Detail (cw_viewport chart) detail_bounds dark app of
        None \<Rightarrow> None
      | Some app1 \<Rightarrow> (case cw_overview chart of
          None \<Rightarrow> Some (resized CK_Detail detail_bounds app, app1)
        | Some ow \<Rightarrow>
            map_option (Pair (resized CK_Detail detail_bounds app \<or> resized CK_Overview overview_bounds app1))
              (paint_chart g (ow_snapshot ow) CK_Overview (ow_viewport ow) overview_bounds dark app1)))"

definition shown_chart :: "'p frame_view \<Rightarrow> chart_view option" where
  "shown_chart view = (case fv_screen view of
       SC_Workspace ws \<Rightarrow> (case ws_detail ws of DV_Chart chart \<Rightarrow> Some chart | _ \<Rightarrow> None)
     | _ \<Rightarrow> None)"

definition draw_frame ::
  "('p, 'g) gpui \<Rightarrow> libm \<Rightarrow> row_ranges \<Rightarrow> f64 \<Rightarrow> 'p bounds \<Rightarrow> 'p bounds \<Rightarrow> bool \<Rightarrow> ('p, 'g) viewer_app \<Rightarrow>
   (('p, 'g) viewer_app \<times> 'p frame_view \<times> bool) option" where
  "draw_frame g lm ranges scale_factor detail_bounds overview_bounds dark app =
     (case render_frame g lm ranges scale_factor app of
        None \<Rightarrow> None
      | Some (app1, view) \<Rightarrow> (case shown_chart view of
          None \<Rightarrow> Some (app1, view, False)
        | Some chart \<Rightarrow>
            map_option (\<lambda>(again, app2). (app2, view, again)) (draw_chart g detail_bounds overview_bounds dark chart app1)))"

end
