(* ===== verification/Viewer_Brush.thy ===== *)
theory Viewer_Brush
  imports Viewer_App
begin

section \<open>From the data to the brush and back to a request\<close>

text \<open>
  The data range of an overview becomes the home range of a brush, the selection of the brush becomes
  the viewport of the next detail request. Both directions are proved for coordinates below
  \<open>2 ^ 52\<close>, where \<open>f64\<close> represents every integer and its successor; beyond, the examples at the end
  show what the code does.
\<close>

subsection \<open>Integral coordinates\<close>

lemma coord_exact:
  assumes "0 \<le> n" "n \<le> 2 ^ 52"
  shows "is_finite (f64_of_int n)" "val (f64_of_int n) = of_int n" "axis_coord (f64_of_int n)"
proof -
  show f: "is_finite (f64_of_int n)" and v: "val (f64_of_int n) = of_int n"
    using f64_of_int_exact [of n] assms by simp_all
  show "axis_coord (f64_of_int n)" using f v assms by (simp add: axis_coord_def of_int_simps f64_of_int_def)
qed

lemma span_exact:
  assumes "0 \<le> s" "s \<le> 2 ^ 52" "0 \<le> e" "e \<le> 2 ^ 52"
  shows "is_finite (fsub (f64_of_int e) (f64_of_int s))" "val (fsub (f64_of_int e) (f64_of_int s)) = of_int (e - s)"
  using int_sum_exact(2) [OF coord_exact(1) [of e] coord_exact(1) [of s] coord_exact(2) [of e] coord_exact(2) [of s]] assms
  by simp_all

lemma one_exact: "is_finite (f64_of_int 1)" "val (f64_of_int 1) = 1"
  using coord_exact [of 1] by simp_all

lemma brushable_range_exact:
  assumes "0 \<le> s" "s \<le> e" "e < 2 ^ 52"
  shows "brushable_range (s, e) = Ok \<lparr>av_start = s, av_end = max e (s + 1)\<rparr>"
proof (cases "e = s")
  case True
  have "val (fsub (f64_of_int (s + 1)) (f64_of_int s)) = 1" "is_finite (fsub (f64_of_int (s + 1)) (f64_of_int s))"
    using span_exact [of s "s + 1"] assms by simp_all
  moreover have "val (fsub (f64_of_int s) (f64_of_int s)) = 0" "is_finite (fsub (f64_of_int s) (f64_of_int s))"
    using span_exact [of s s] assms by simp_all
  moreover have "is_i64 (s + 1)" using assms by (simp add: is_i64_def)
  ultimately show ?thesis
    using True assms one_exact
    by (simp add: brushable_range_def Let_def flt_finite fle_finite i64_checked_add_def viewport_new_def)
next
  case False
  have "val (fsub (f64_of_int e) (f64_of_int s)) = of_int (e - s)" "is_finite (fsub (f64_of_int e) (f64_of_int s))"
    using span_exact [of s e] assms by simp_all
  moreover have "(of_int 1 :: rat) \<le> of_int (e - s)" using False assms(2) by (subst of_int_le_iff) simp
  ultimately show ?thesis
    using False assms one_exact by (simp add: brushable_range_def Let_def flt_finite viewport_new_def)
qed

subsection \<open>The brush of an overview\<close>

lemma home_of_viewport:
  assumes "0 \<le> a" "a < b" "b \<le> 2 ^ 52"
  defines "h \<equiv> \<lparr>rg_start = f64_of_int a, rg_end = f64_of_int b\<rparr>"
  shows "axis_range_new (f64_of_int a) (f64_of_int b) = Ok h" "axis_home h"
proof -
  have a: "is_finite (f64_of_int a)" "val (f64_of_int a) = of_int a" and b: "is_finite (f64_of_int b)" "val (f64_of_int b) = of_int b"
    using coord_exact [of a] coord_exact [of b] assms(1-3) by simp_all
  have "is_finite (fsub (f64_of_int b) (f64_of_int a))" using span_exact [of a b] assms(1-3) by simp
  then show r: "axis_range_new (f64_of_int a) (f64_of_int b) = Ok h"
    using a b assms(2) by (simp add: axis_range_new_def fle_finite h_def)
  have wf: "wf_f64 (f64_of_int a)" "wf_f64 (f64_of_int b)" by (simp_all add: f64_of_int_def)
  from axis_range_new_Ok [OF r this] show "axis_home h"
    using a b assms(1,3) by (simp add: axis_home_def h_def of_int_simps)
qed

lemma resized_start_leaves_unit:
  assumes "brush_ok b" "wf_f64 p" "br_selected b = br_home b" and "resize_start p b = Some (Ok (), b')"
  shows "val (rg_start (br_selected b')) + 1 \<le> val (rg_end (br_home b))"
proof -
  note home = axis_homeD [OF brush_okD(1) [OF assms(1)]]
  obtain y where y: "val (rg_end (br_home b)) = of_int y"
    using brush_okD(1) [OF assms(1)] by (auto simp: axis_home_def elim: Ints_cases)
  have m: "val (maximum_start_for_minimum_span (rg_end (br_home b))) = of_int (y - 1)"
    by (rule max_start_unit [OF home(3) y])
  have fm: "is_finite (maximum_start_for_minimum_span (rg_end (br_home b)))" by (rule max_start_coord(2) [OF home(3)])
  have fin: "is_finite p" using assms(4) by (auto simp: resize_start_def split: if_splits)
  obtain z where z: "fclamp p (rg_start (br_home b)) (maximum_start_for_minimum_span (rg_end (br_home b))) = Some z"
      "rg_start (br_selected b') = z"
    using assms(3,4) fin by (auto simp: resize_start_def set_selected_def axis_range_new_def split: if_splits sum.splits)
  have "val z \<le> of_int (y - 1)"
    using z(1) m fm fin axis_coordD(2) [OF home(2)] by (auto simp: fclamp_def fle_finite flt_finite split: if_splits)
  then show ?thesis using z(2) y by simp
qed

lemma resize_result:
  "is_finite p \<Longrightarrow> resize_start p b = Some (r, b') \<Longrightarrow> r \<noteq> Err CE_InvalidTransform"
  "is_finite p \<Longrightarrow> resize_end p b = Some (r, b') \<Longrightarrow> r \<noteq> Err CE_InvalidTransform"
  by (auto simp: resize_start_def resize_end_def set_selected_def axis_range_new_def split: if_splits sum.splits)

definition wf_previous :: "brush option \<Rightarrow> bool" where
  "wf_previous previous \<longleftrightarrow> (case previous of None \<Rightarrow> True | Some b \<Rightarrow> wf_range (br_selected b))"

lemma restored_brush_ok:
  assumes "0 \<le> a" "a < b" "b \<le> 2 ^ 52" and "wf_previous previous"
  shows "\<exists>w. restored_brush previous \<lparr>av_start = a, av_end = b\<rparr> = Some (Some w) \<and> brush_ok w \<and>
    br_home w = \<lparr>rg_start = f64_of_int a, rg_end = f64_of_int b\<rparr> \<and> (previous = None \<longrightarrow> br_selected w = br_home w)"
proof -
  let ?h = "\<lparr>rg_start = f64_of_int a, rg_end = f64_of_int b\<rparr>" and ?b = "\<lparr>br_home = \<lparr>rg_start = f64_of_int a, rg_end = f64_of_int b\<rparr>, br_selected = \<lparr>rg_start = f64_of_int a, rg_end = f64_of_int b\<rparr>\<rparr>"
  note home = home_of_viewport [OF assms(1-3)]
  note new = brush_new_ok [OF home(2)]
  show ?thesis
  proof (cases previous)
    case None
    then show ?thesis using home(1) new by (simp add: restored_brush_def)
  next
    case (Some p)
    then have p: "wf_f64 (rg_start (br_selected p))" "wf_f64 (rg_end (br_selected p))"
      "is_finite (rg_start (br_selected p))" "is_finite (rg_end (br_selected p))"
      using assms(4) by (simp_all add: wf_previous_def wf_range_def)
    have ok: "brush_ok ?b" using new by simp
    have "brush_stays ?b (resize_start (rg_start (br_selected p)) ?b)"
      using axis_homeD(4) [OF home(2)] by (intro resize_start_stays [OF ok p(1)]) simp
    then obtain r b1 where r: "resize_start (rg_start (br_selected p)) ?b = Some (r, b1)" "brush_ok b1" "br_home b1 = ?h"
        "r = Ok () \<or> r = Err CE_InvalidTransform"
      by (auto simp: brush_stays_def split: option.splits)
    have run1: "resize_start (rg_start (br_selected p)) ?b = Some (Ok (), b1)"
      using r(1,4) resize_result(1) [OF p(3) r(1)] by auto
    have "val (rg_start (br_selected b1)) + 1 \<le> val (rg_end (br_home b1))"
      using resized_start_leaves_unit [OF ok p(1) _ run1] r(3) by simp
    then have "brush_stays b1 (resize_end (rg_end (br_selected p)) b1)" by (rule resize_end_stays [OF r(2) p(2)])
    then obtain r2 b2 where r2: "resize_end (rg_end (br_selected p)) b1 = Some (r2, b2)" "brush_ok b2" "br_home b2 = br_home b1"
        "r2 = Ok () \<or> r2 = Err CE_InvalidTransform"
      by (auto simp: brush_stays_def split: option.splits)
    have "resize_end (rg_end (br_selected p)) b1 = Some (Ok (), b2)"
      using r2(1,4) resize_result(2) [OF p(4) r2(1)] by auto
    then show ?thesis
      using home(1) new run1 r2(2,3) r(3) Some by (simp add: restored_brush_def)
  qed
qed

subsection \<open>The viewport of a selection\<close>

lemma coord_floor:
  assumes "axis_coord x"
  shows "f64_to_i64 (ffloor x) = \<lfloor>val x\<rfloor>" "f64_to_i64 (fceil x) = \<lceil>val x\<rceil>"
proof -
  note x = axis_coordD [OF assms]
  obtain s m where xm: "x = F_Fin s m" using x(2) by (cases x) auto
  have f: "0 \<le> \<lfloor>val x\<rfloor>" "\<lfloor>val x\<rfloor> \<le> 2 ^ 52" "0 \<le> \<lceil>val x\<rceil>" "\<lceil>val x\<rceil> \<le> 2 ^ 52"
    using x(3,4) floor_mono [of "val x" "2 ^ 52"] ceiling_mono [of "val x" "2 ^ 52"] by simp_all
  have exact: "f64_to_i64 (round_to z (of_int n)) = n" if "0 \<le> n" "n \<le> 2 ^ 52" for z n
  proof -
    have n: "\<bar>n\<bar> \<le> 2 ^ 53" using that by simp
    note e = round_to_exact [OF representable_int [OF n] int_below_bound [OF n], of z]
    then obtain s' m' where "round_to z (of_int n) = F_Fin s' m'" "sval s' m' = of_int n"
      by (cases "round_to z (of_int n)") auto
    then show ?thesis using that by (simp add: trunc_rat_def)
  qed
  show "f64_to_i64 (ffloor x) = \<lfloor>val x\<rfloor>" "f64_to_i64 (fceil x) = \<lceil>val x\<rceil>"
    using exact [OF f(1,2), of s] exact [OF f(3,4), of s] xm by simp_all
qed

lemma selected_viewport_covers:
  assumes "vc_brush c = Some b" and "brush_ok b"
  shows "selected_viewport c = Some \<lparr>av_start = \<lfloor>val (rg_start (br_selected b))\<rfloor>, av_end = \<lceil>val (rg_end (br_selected b))\<rceil>\<rparr>"
proof -
  note b = brush_okD [OF assms(2)]
  have "\<lfloor>val (rg_start (br_selected b))\<rfloor> \<le> \<lceil>val (rg_end (br_selected b))\<rceil>"
    using floor_mono [of "val (rg_start (br_selected b))" "val (rg_end (br_selected b))"] b(6) floor_le_ceiling by (meson less_imp_le order_trans)
  then show ?thesis
    using assms(1) by (simp add: selected_viewport_def coord_floor(1) [OF b(3)] coord_floor(2) [OF b(4)] viewport_new_def)
qed

subsection \<open>A drag that panics\<close>

definition two_fifths :: f64 where
  "two_fifths = f64_of_rat (4 / 10)"

lemma two_fifths_value: "two_fifths = F_Fin False (3602879701896397 / 9007199254740992)"
  unfolding two_fifths_def f64_of_rat_def
  by (subst round_to_scaled [where n = 54]) (simp_all add: rne_numeral Let_def)

lemma minimum_span_one: "min_brush_span = F_Fin False 1"
  by (simp add: min_brush_span_def f64_of_int_def round_to_def Let_def round_mag_representable_id not_le)

lemma two_fifths_minimum_end: "minimum_end_for_minimum_span two_fifths = F_Fin False (7205759403792795 / 18014398509481984)"
proof -
  have sum: "fadd two_fifths min_brush_span = F_Fin False (3152519739159347 / 2251799813685248)"
    unfolding two_fifths_value minimum_span_one fadd.simps sval_def
    by (subst round_to_scaled [where n = 52]) (simp_all add: rne_numeral Let_def)
  have dif: "fsub (fadd two_fifths min_brush_span) two_fifths = F_Fin False (9007199254740991 / 9007199254740992)"
    unfolding sum unfolding two_fifths_value fsub_def fneg.simps fadd.simps sval_def
    by (subst round_to_scaled [where n = 53]) (simp_all add: rne_numeral rne_of_int [of "numeral m" for m, simplified] Let_def)
  have "next_up two_fifths = F_Fin False (7205759403792795 / 18014398509481984)"
    unfolding two_fifths_value by (simp add: mag_up_def ulp_exp_scaled [where n = 54] power_int_minus f64_max_bound_def)
  then show ?thesis
    unfolding minimum_end_for_minimum_span_def Let_def dif by (simp add: minimum_span_one fle_def sval_def)
qed

definition one_half :: f64 where
  "one_half = f64_of_rat (1 / 2)"

lemma one_half_value: "one_half = F_Fin False (1 / 2)"
  unfolding one_half_def f64_of_rat_def by (subst round_to_scaled [where n = 53]) (simp_all add: rne_of_int [of "numeral m" for m, simplified])

lemma one_half_maximum_start: "maximum_start_for_minimum_span one_half = F_Fin True (1 / 2)"
proof -
  have dif: "fsub one_half min_brush_span = F_Fin True (1 / 2)"
    unfolding one_half_value minimum_span_one fsub_def fneg.simps fadd.simps sval_def
    by (subst round_to_scaled [where n = 53]) (simp_all add: rne_of_int [of "numeral m" for m, simplified])
  have "fsub one_half (fsub one_half min_brush_span) = F_Fin False 1"
    unfolding dif unfolding one_half_value fsub_def fneg.simps fadd.simps sval_def
    by (subst round_to_scaled [where n = 52]) (simp_all add: rne_of_int [of "numeral m" for m, simplified])
  then show ?thesis
    unfolding maximum_start_for_minimum_span_def Let_def dif by (simp add: minimum_span_one fle_def sval_def)
qed

lemma narrow_values:
  "wf_f64 two_fifths" "is_finite two_fifths" "val two_fifths = 3602879701896397 / 9007199254740992"
  "wf_f64 one_half" "is_finite one_half" "val one_half = 1 / 2"
proof -
  show "wf_f64 two_fifths" by (simp add: two_fifths_def f64_of_rat_def)
  show "is_finite two_fifths" "val two_fifths = 3602879701896397 / 9007199254740992" by (simp_all add: two_fifths_value sval_def)
  show "wf_f64 one_half" by (simp add: one_half_def f64_of_rat_def)
  show "is_finite one_half" "val one_half = 1 / 2" by (simp_all add: one_half_value sval_def)
qed

definition drag_from :: "f64 \<Rightarrow> brush" where
  "drag_from s = sample_brush\<lparr>br_selected := \<lparr>rg_start = s, rg_end = f64_of_int 10\<rparr>\<rparr>"

lemma first_drag: "update_brush_drag two_fifths DG_BrushStart sample_brush = Some (DG_BrushStart, drag_from two_fifths)"
  "brush_ok (drag_from two_fifths)"
proof -
  have m: "val (maximum_start_for_minimum_span (f64_of_int 10)) = 9" "is_finite (maximum_start_for_minimum_span (f64_of_int 10))"
    using max_start_unit [of "f64_of_int 10" 10] max_start_coord(2) [of "f64_of_int 10"] coord_exact [of 10] by simp_all
  have clamp: "fclamp two_fifths (f64_of_int 0) (maximum_start_for_minimum_span (f64_of_int 10)) = Some two_fifths"
    using m narrow_values coord_exact [of 0] by (simp add: fclamp_def fle_finite flt_finite)
  note set = set_selected_inside [OF sample_brush_ok, of two_fifths "f64_of_int 10"]
  have "wf_f64 (f64_of_int 10)" by (simp add: f64_of_int_def)
  then have set: "set_selected (axis_range_new two_fifths (f64_of_int 10)) sample_brush = (Ok (), drag_from two_fifths)"
    "brush_stays sample_brush (Some (Ok (), drag_from two_fifths))"
    using set narrow_values coord_exact [of 10] coord_exact [of 0] by (simp_all add: sample_brush_def sample_home_def drag_from_def)
  show "update_brush_drag two_fifths DG_BrushStart sample_brush = Some (DG_BrushStart, drag_from two_fifths)"
    using clamp set(1) narrow_values coord_exact [of 10]
    by (simp add: update_brush_drag_def resize_start_def sample_brush_def sample_home_def flt_finite)
  show "brush_ok (drag_from two_fifths)" using set(2) by (simp add: brush_stays_def)
qed

definition narrow_brush :: brush where
  "narrow_brush = sample_brush\<lparr>br_selected := \<lparr>rg_start = two_fifths, rg_end = one_half\<rparr>\<rparr>"

lemma second_drag: "update_brush_drag one_half DG_BrushEnd (drag_from two_fifths) = Some (DG_BrushEnd, narrow_brush)"
  "brush_ok narrow_brush"
proof -
  have clamp: "fclamp one_half (minimum_end_for_minimum_span two_fifths) (f64_of_int 10) = Some one_half"
    using narrow_values coord_exact [of 10] by (simp add: two_fifths_minimum_end fclamp_def fle_finite flt_finite sval_def)
  note set = set_selected_inside [OF first_drag(2), of two_fifths one_half]
  then have set: "set_selected (axis_range_new two_fifths one_half) (drag_from two_fifths) = (Ok (), narrow_brush)"
    "brush_stays (drag_from two_fifths) (Some (Ok (), narrow_brush))"
    using narrow_values coord_exact [of 10] coord_exact [of 0]
    by (simp_all add: sample_brush_def sample_home_def drag_from_def narrow_brush_def)
  show "update_brush_drag one_half DG_BrushEnd (drag_from two_fifths) = Some (DG_BrushEnd, narrow_brush)"
    using clamp set(1) narrow_values
    by (simp add: update_brush_drag_def resize_end_def drag_from_def sample_brush_def sample_home_def flt_finite)
  show "brush_ok narrow_brush" using set(2) by (simp add: brush_stays_def)
qed

lemma third_drag: "update_brush_drag (f64_of_int 0) DG_BrushStart narrow_brush = None"
  using narrow_values coord_exact [of 0]
  by (simp add: update_brush_drag_def resize_start_def narrow_brush_def sample_brush_def sample_home_def one_half_maximum_start
      fclamp_def fle_finite flt_finite sval_def)

subsection \<open>Properties\<close>

text \<open>An overview gets a brush over its data. For a data range of axis values below \<open>2 ^ 52\<close> the range of
  the snapshot is the data range, widened by one unit when it is a single value; the brush that the
  viewer makes of it has exactly that home range and selects all of it, or, when the user had
  selected a window before, a window inside it, and restoring the window never panics.
\<close>

theorem overview_gets_brush:
  assumes "0 \<le> s" "s \<le> e" "e < 2 ^ 52" and "wf_previous previous"
  shows "\<exists>w. bind_r (brushable_range (s, e)) (\<lambda>v. Ok (restored_brush previous v)) = Ok (Some (Some w)) \<and> brush_ok w \<and>
    br_home w = \<lparr>rg_start = f64_of_int s, rg_end = f64_of_int (max e (s + 1))\<rparr> \<and>
    (previous = None \<longrightarrow> br_selected w = br_home w)"
proof -
  have "s < max e (s + 1)" "max e (s + 1) \<le> 2 ^ 52" using assms(2,3) by auto
  from restored_brush_ok [OF assms(1) this assms(4)] show ?thesis
    by (simp add: brushable_range_exact [OF assms(1-3)])
qed

theorem overview_gets_brush_witness:
  "\<exists>w. bind_r (brushable_range (7, 7)) (\<lambda>v. Ok (restored_brush (Some sample_brush) v)) = Ok (Some (Some w)) \<and>
     br_home w = \<lparr>rg_start = f64_of_int 7, rg_end = f64_of_int 8\<rparr>"
  using overview_gets_brush [of 7 7 "Some sample_brush"] brush_okD(2) [OF sample_brush_ok] by (auto simp: wf_previous_def)

text \<open>A detail request covers the selection. For a brush inside its home range the viewer asks for the
  smallest range of integers around the selected window, it lies inside the axis, and an answer for
  it is never shown as being out of date while the window stays.
\<close>

theorem detail_request_covers:
  assumes "vc_brush c = Some b" and "brush_ok b"
  shows "\<exists>v. selected_viewport c = Some v \<and> 0 \<le> av_start v \<and> av_start v < av_end v \<and> av_end v \<le> 2 ^ 52 \<and>
    of_int (av_start v) \<le> val (rg_start (br_selected b)) \<and> val (rg_start (br_selected b)) < of_int (av_start v) + 1 \<and>
    val (rg_end (br_selected b)) \<le> of_int (av_end v) \<and> of_int (av_end v) < val (rg_end (br_selected b)) + 1 \<and>
    (\<forall>s. csn_viewport s = v \<longrightarrow> selection_covered s (br_selected b))"
proof -
  note b = brush_okD [OF assms(2)]
  let ?s = "val (rg_start (br_selected b))" and ?e = "val (rg_end (br_selected b))"
  have lo: "0 \<le> \<lfloor>?s\<rfloor>" "\<lfloor>?s\<rfloor> \<le> 2 ^ 52" and hi: "0 \<le> \<lceil>?e\<rceil>" "\<lceil>?e\<rceil> \<le> 2 ^ 52"
    using axis_coordD(3,4) [OF b(3)] axis_coordD(3,4) [OF b(4)] floor_mono [of ?s "2 ^ 52"] ceiling_mono [of ?e "2 ^ 52"] b(6)
    by simp_all
  have fl: "of_int \<lfloor>?s\<rfloor> \<le> ?s" "?s < of_int \<lfloor>?s\<rfloor> + 1" and ce: "?e \<le> of_int \<lceil>?e\<rceil>" "of_int \<lceil>?e\<rceil> < ?e + 1"
    by linarith+
  have "(of_int \<lfloor>?s\<rfloor> :: rat) < of_int \<lceil>?e\<rceil>" using fl(1) ce(1) b(6) by linarith
  then have less: "\<lfloor>?s\<rfloor> < \<lceil>?e\<rceil>" by (rule of_int_less_iff [THEN iffD1])
  have cov: "selection_covered s (br_selected b)" if "csn_viewport s = \<lparr>av_start = \<lfloor>?s\<rfloor>, av_end = \<lceil>?e\<rceil>\<rparr>" for s
    using that fl(1) ce(1) coord_exact [OF lo] coord_exact [OF hi] axis_coordD(2) [OF b(3)] axis_coordD(2) [OF b(4)]
    by (simp add: selection_covered_def fle_finite)
  show ?thesis
    unfolding selected_viewport_covers [OF assms]
    by (intro exI [of _ "\<lparr>av_start = \<lfloor>?s\<rfloor>, av_end = \<lceil>?e\<rceil>\<rparr>"]) (use lo hi fl ce less cov in simp)
qed

theorem detail_request_covers_witness:
  "\<exists>v. selected_viewport (viewer_core_default\<lparr>vc_brush := Some sample_brush\<rparr>) = Some v \<and> av_start v < av_end v"
  using detail_request_covers [of "viewer_core_default\<lparr>vc_brush := Some sample_brush\<rparr>" sample_brush] sample_brush_ok by auto

text \<open>C34: dragging the brush can panic. On the home range from 0 to 10 the user drags the left handle to
  0.4 and the right handle to 0.5, which the code accepts, because \<open>1.4 - 0.4\<close> is below 1 in \<open>f64\<close> and
  the minimal end then falls back to the next number; the selection is narrower than a unit, and
  dragging the left handle to the left edge clamps between 0 and -0.5, which panics.
\<close>

theorem narrow_brush_drag_panics:
  "\<exists>b1 b2. update_brush_drag (f64_of_rat (4 / 10)) DG_BrushStart sample_brush = Some (DG_BrushStart, b1) \<and>
     update_brush_drag (f64_of_rat (1 / 2)) DG_BrushEnd b1 = Some (DG_BrushEnd, b2) \<and> brush_ok b2 \<and>
     update_brush_drag (f64_of_int 0) DG_BrushStart b2 = None"
  using first_drag second_drag third_drag unfolding two_fifths_def one_half_def by blast

text \<open>
  A data range whose only value is the greatest but one coordinate becomes a range of two coordinates
  that are the same \<open>f64\<close>: it cannot be the home range of a brush.
\<close>

lemma top_value:
  assumes "i64_max - 1 \<le> n" "n \<le> i64_max"
  shows "f64_of_int n = F_Fin False (2 ^ 63)"
proof -
  have n: "n = i64_max - 1 \<or> n = i64_max" using assms by linarith
  have u: "ulp_exp (of_int n) = 10"
    using n ulp_exp_eval [of 62 "of_int n"] by (auto simp: power_int_def)
  have r: "rne (of_int n / of_int 1024) = 2 ^ 53"
    using n by (elim disjE) (simp_all only: rne_ratio [of 1024], simp_all add: Let_def)
  have "round_mag (of_int n) = of_int (rne (of_int n / of_int 1024)) * 1024"
    using n by (auto simp: round_mag_def u power_int_def)
  then have "round_mag (of_int n) = 2 ^ 63" unfolding r by simp
  moreover have "(2::rat) ^ 63 < f64_max_bound" by (simp add: f64_max_bound_def power_int_def)
  ultimately show ?thesis using n by (auto simp: f64_of_int_def round_to_def Let_def)
qed

lemma brushable_range_can_fail:
  "brushable_range (i64_max - 1, i64_max - 1) = Ok \<lparr>av_start = i64_max - 1, av_end = i64_max\<rparr>"
  "restored_brush None \<lparr>av_start = i64_max - 1, av_end = i64_max\<rparr> = Some None"
proof -
  have eq: "f64_of_int (i64_max - 1) = F_Fin False (2 ^ 63)" "f64_of_int i64_max = F_Fin False (2 ^ 63)"
    using top_value [of "i64_max - 1"] top_value [of i64_max] by simp_all
  have zero: "fsub (F_Fin False (2 ^ 63)) (F_Fin False (2 ^ 63)) = F_Fin False 0"
    by (simp add: fsub_def sval_def round_to_def Let_def round_mag_def not_le)
  have up: "f64_to_i64 (next_up (F_Fin False (2 ^ 63))) = i64_max"
  proof -
    have "ulp_exp (2 ^ 63) = 11" using ulp_exp_eval [of 63 "2 ^ 63"] by (simp add: power_int_def)
    then have "mag_up (2 ^ 63) = 2 ^ 63 + 2048" by (simp add: mag_up_def power_int_def)
    moreover have "(2::rat) ^ 63 + 2048 < f64_max_bound" by (simp add: f64_max_bound_def power_int_def)
    ultimately show ?thesis by (simp add: sval_def trunc_rat_def)
  qed
  show "brushable_range (i64_max - 1, i64_max - 1) = Ok \<lparr>av_start = i64_max - 1, av_end = i64_max\<rparr>"
    using one_exact eq zero up by (simp add: brushable_range_def Let_def flt_finite i64_checked_add_def is_i64_def fle_finite viewport_new_def sval_def)
  show "restored_brush None \<lparr>av_start = i64_max - 1, av_end = i64_max\<rparr> = Some None"
    using eq by (simp add: restored_brush_def axis_range_new_def fle_def)
qed

end
