(* ===== verification/Viewer_Frames.thy ===== *)
theory Viewer_Frames
  imports Viewer_View Viewer_Brush "HOL-Library.Sublist"
begin

section \<open>Every frame is drawn, and shows the state\<close>

text \<open>
  The chart code slices a series between two partition points of a range, which cannot panic when the
  range is ordered. Every range the viewer keeps is: all of them pass through \<open>AxisRange::new\<close>. With
  that, an invariant of the viewer's steps says that the brush is ordered and that the cached list
  of runs is the filtered list of the catalog, and so no frame panics and its rows show the state.
\<close>

subsection \<open>Ordered ranges\<close>

definition ordered :: "axis_range \<Rightarrow> bool" where
  "ordered r \<longleftrightarrow> flt (rg_start r) (rg_end r)"

lemma axis_range_new_ordered: "axis_range_new s e = Ok r \<Longrightarrow> ordered r"
  by (auto simp: axis_range_new_def ordered_def fle_finite flt_finite split: if_splits)

lemma partition_point_mono: "(\<And>x. P x \<Longrightarrow> Q x) \<Longrightarrow> partition_point P xs \<le> partition_point Q xs"
  by (induction xs) (auto simp: partition_point_def)

lemma visible_bounds: "ordered r \<Longrightarrow> first_visible ps r \<le> after_visible ps r \<and> after_visible ps r \<le> length ps"
proof -
  assume "ordered r"
  then have "flt x (rg_start r) \<Longrightarrow> fle x (rg_end r)" for x using flt_trans by (auto simp: ordered_def fle_def)
  then show ?thesis unfolding first_visible_def after_visible_def
    by (intro conjI partition_point_mono) (simp_all add: partition_point_def length_takeWhile_le)
qed

lemma slice_total: "ordered r \<Longrightarrow> \<exists>inside. slice ps (first_visible ps r) (after_visible ps r) = Some inside"
  using visible_bounds by (auto simp: slice_def)

lemma visible_points_total: "ordered r \<Longrightarrow> \<exists>visible. visible_points s r = Some visible"
  using visible_bounds [of r "se_points s"] by (auto simp: visible_points_def slice_def Let_def)

lemma y_bounds_total: "ordered r \<Longrightarrow> \<exists>bounds. y_bounds ss r b = Some bounds"
proof (induction ss arbitrary: b)
  case (Cons s ss)
  obtain inside where "slice (se_points s) (first_visible (se_points s) r) (after_visible (se_points s) r) = Some inside"
    using slice_total [OF Cons.prems] by blast
  then show ?case using Cons.IH [OF Cons.prems] by simp
qed simp

lemma y_range_total: "ordered r \<Longrightarrow> \<exists>y. y_range_of snapshot r = Some y"
  using y_bounds_total [of r] by (force simp: y_range_of_def visible_y_range_for_def)

lemma overview_viewport_total: "ordered (br_home b) \<Longrightarrow> \<exists>v. overview_viewport snapshot b = Some v"
  using y_range_total by (force simp: overview_viewport_def)

lemma overview_viewport_ordered: "overview_viewport snapshot b = Some (Some v) \<Longrightarrow> ordered (br_home b) \<Longrightarrow> ordered (vp_x v)"
  by (auto simp: overview_viewport_def)

lemma detail_viewport_total:
  assumes "\<And>r. window = Some r \<Longrightarrow> ordered r"
  shows "\<exists>v. detail_viewport snapshot window = Some v \<and> (\<forall>w. v = Some w \<longrightarrow> ordered (vp_x w))"
proof (cases "axis_range_new (f64_of_int (av_start (csn_viewport snapshot))) (f64_of_int (av_end (csn_viewport snapshot)))")
  case (Inl e)
  then show ?thesis by (simp add: detail_viewport_def)
next
  case (Inr whole)
  define x where "x = (case window of
       None \<Rightarrow> whole
     | Some r \<Rightarrow> if fle (rg_start whole) (rg_start r) \<and> fle (rg_end r) (rg_end whole) then r else whole)"
  have whole: "ordered whole" using Inr by (rule axis_range_new_ordered)
  then have x: "ordered x" using assms by (simp add: x_def split: option.split)
  obtain y y' where y: "y_range_of snapshot x = Some y" "y_range_of snapshot whole = Some y'"
    using y_range_total [OF x] y_range_total [OF whole] by blast
  show ?thesis
    using x y whole by (auto simp: detail_viewport_def Inr x_def [symmetric] same_range_def split: option.split)
qed

subsection \<open>Drawing and hit testing\<close>

lemma build_path_total: "ordered (vp_x v) \<Longrightarrow> \<exists>path. build_path s v c = Some path"
  using visible_points_total [of "vp_x v" s] by (auto simp: build_path_def)

lemma path_for_total: "ordered (vp_x v) \<Longrightarrow> \<exists>out. path_for s revision v c cache = Some out"
  using build_path_total [of v s c] by (auto simp: path_for_def Let_def split: option.split)

lemma prepare_path_total: "ordered (vp_x v) \<Longrightarrow> \<exists>out. prepare_path g key s v b canvas caches = Some out"
proof -
  assume v: "ordered (vp_x v)"
  obtain projections paths where caches: "caches = (projections, paths)" by (cases caches)
  obtain r projections' where "path_for s (gk_revision key) v canvas projections = Some (r, projections')"
    using path_for_total [OF v] by fast
  then show ?thesis by (cases r) (auto simp: prepare_path_def caches Let_def split: option.split)
qed

lemma prepare_curves_total:
  "ordered (vp_x v) \<Longrightarrow> \<exists>out. prepare_curves g revision v b canvas dark index curves caches = Some out"
proof (induction curves arbitrary: index caches)
  case (Cons curve curves)
  note rest = Cons.IH [OF Cons.prems]
  show ?case
  proof (cases "css_chart_series curve")
    case None
    then show ?thesis using rest by simp
  next
    case (Some s)
    obtain path caches' where
      "prepare_path g (gpui_key_of g revision v b dark (amr_completeness (css_evidence curve) = EC_Partial)) s v b canvas caches
       = Some (path, caches')" using prepare_path_total [OF Cons.prems] by fast
    moreover obtain paths caches'' where
      "prepare_curves g revision v b canvas dark (index + 1) curves caches' = Some (paths, caches'')" using rest by fast
    ultimately show ?thesis using Some by (simp add: Let_def)
  qed
qed simp

lemma prepare_total:
  assumes "ordered (vp_x v)"
  shows "\<exists>paths a'. prepare g s kind revision v b dark a = Some (paths, a')"
proof (cases "bounds_canvas g b")
  case (Inl e)
  then show ?thesis by (simp add: prepare_def Let_def)
next
  case (Inr canvas)
  obtain paths caches where
    "prepare_curves g revision v b canvas dark 0 (csn_series s) (caches_of kind (set_bounds kind b a)) = Some (paths, caches)"
    using prepare_curves_total [OF assms] by fast
  then show ?thesis using Inr by (simp add: prepare_def Let_def)
qed

lemma paint_total:
  assumes "ordered (vp_x v)"
  shows "\<exists>app'. paint_chart g s kind v b dark app = Some app'"
proof -
  obtain paths a where "prepare g s kind (case kind of CK_Detail \<Rightarrow> va_detail_revision app
      | CK_Overview \<Rightarrow> va_overview_revision app) v b dark (va_adapter app) = Some (paths, a)"
    using prepare_total [OF assms] by blast
  then show ?thesis by (simp add: paint_chart_def)
qed

lemma hit_test_point_total: "ordered (vp_x v) \<Longrightarrow> \<exists>out. hit_test_point lm s v c cursor radius = Some out"
proof -
  assume "ordered (vp_x v)"
  then obtain inside where "slice (se_points s) (first_visible (se_points s) (vp_x v)) (after_visible (se_points s) (vp_x v)) = Some inside"
    using slice_total by blast
  then show ?thesis by (auto simp: hit_test_point_def Let_def split: sum.split)
qed

lemma nearest_hover_total: "ordered (vp_x v) \<Longrightarrow> \<exists>out. nearest_hover lm v canvas cursor curves nearest = Some out"
proof (induction curves arbitrary: nearest)
  case (Cons curve curves)
  note rest = Cons.IH [OF Cons.prems]
  show ?case
  proof (cases "css_chart_series curve")
    case None
    then show ?thesis using rest by simp
  next
    case (Some s)
    obtain out where "hit_test_point lm s v canvas cursor hit_radius = Some out"
      using hit_test_point_total [OF Cons.prems] by blast
    then show ?thesis using Some rest by (auto split: sum.split option.split)
  qed
qed simp

lemma hover_total: "ordered (vp_x v) \<Longrightarrow> \<exists>app'. hover_chart g lm s v cursor app = Some app'"
  using nearest_hover_total [of v] by (fastforce simp: hover_chart_def adapter_hit_test_def split: option.split sum.split)

subsection \<open>The brush\<close>

definition brush_ordered :: "brush \<Rightarrow> bool" where
  "brush_ordered b \<longleftrightarrow> ordered (br_home b) \<and> ordered (br_selected b)"

lemma set_selected_ordered: "set_selected (axis_range_new s e) b = (r, b') \<Longrightarrow> brush_ordered b \<Longrightarrow> brush_ordered b'"
  by (cases "axis_range_new s e") (auto simp: set_selected_def brush_ordered_def dest: axis_range_new_ordered)

lemma brush_changes_ordered:
  assumes "brush_ordered b"
  shows "resize_start p b = Some (r, b') \<Longrightarrow> brush_ordered b'"
    and "resize_end p b = Some (r, b') \<Longrightarrow> brush_ordered b'"
    and "pan_by p b = Some (r, b') \<Longrightarrow> brush_ordered b'"
    and "zoom_at p factor b = Some (r, b') \<Longrightarrow> brush_ordered b'"
    and "brush_ordered (brush_reset b)"
proof -
  note keeps = set_selected_ordered [OF _ assms]
  show "resize_start p b = Some (r, b') \<Longrightarrow> brush_ordered b'" "resize_end p b = Some (r, b') \<Longrightarrow> brush_ordered b'"
    using assms by (auto simp: resize_start_def resize_end_def intro: keeps split: if_splits)
  show "brush_ordered (brush_reset b)" using assms by (simp add: brush_reset_def brush_ordered_def)
  show "zoom_at p factor b = Some (r, b') \<Longrightarrow> brush_ordered b'"
  proof -
    have home: "brush_ordered (b\<lparr>br_selected := br_home b\<rparr>)" using assms by (simp add: brush_ordered_def)
    show "zoom_at p factor b = Some (r, b') \<Longrightarrow> brush_ordered b'"
      using assms home by (auto simp: zoom_at_def Let_def intro: keeps split: if_splits option.splits)
  qed
  assume "pan_by p b = Some (r, b')"
  then obtain d where d: "(r, b') = (r, b) \<or> (case panned_ends b d of (s, e) \<Rightarrow> set_selected (axis_range_new s e) b) = (r, b')"
    by (auto simp: pan_by_def Let_def split: if_splits)
  obtain s e where "panned_ends b d = (s, e)" by fastforce
  then show "brush_ordered b'" using d assms keeps by auto
qed

lemma drag_ordered:
  assumes "update_brush_drag x gesture b = Some (gesture', b')" and "brush_ordered b"
  shows "brush_ordered b'"
  using assms(1) brush_changes_ordered(1-3) [OF assms(2)] assms(2)
  by (cases gesture) (auto simp: update_brush_drag_def split: if_splits)

lemma restored_brush_ordered: "restored_brush previous v = Some (Some b) \<Longrightarrow> brush_ordered b"
proof -
  assume r: "restored_brush previous v = Some (Some b)"
  obtain home b0 where h: "axis_range_new (f64_of_int (av_start v)) (f64_of_int (av_end v)) = Ok home" "brush_new home = Ok b0"
    using r by (auto simp: restored_brush_def split: sum.splits)
  have "brush_ordered b0" using h axis_range_new_ordered by (auto simp: brush_new_def brush_ordered_def split: if_splits)
  show ?thesis
  proof (cases previous)
    case None
    then show ?thesis using r h \<open>brush_ordered b0\<close> by (simp add: restored_brush_def)
  next
    case (Some old)
    obtain b1 where b1: "resize_start (rg_start (br_selected old)) b0 = Some (Ok (), b1)"
      "resize_end (rg_end (br_selected old)) b1 = Some (Ok (), b)"
      using r h Some by (auto simp: restored_brush_def split: option.splits sum.splits)
    show ?thesis
      by (rule brush_changes_ordered(2) [OF brush_changes_ordered(1) [OF \<open>brush_ordered b0\<close> b1(1)] b1(2)])
  qed
qed

subsection \<open>The invariant\<close>

definition brush_sound :: "viewer_core \<Rightarrow> bool" where
  "brush_sound c \<longleftrightarrow> (\<forall>b. vc_brush c = Some b \<longrightarrow> brush_ordered b)"

text \<open>The cached rows are the runs of the catalog that match the filter, and the brush is ordered.\<close>

definition view_inv :: "(string \<Rightarrow> string) \<Rightarrow> ('p, 'g) viewer_app \<Rightarrow> bool" where
  "view_inv lower app \<longleftrightarrow>
     va_run_list app = rebuild_run_list lower (vc_catalog (va_core app)) (va_run_filter app) \<and> brush_sound (va_core app)"

lemma submit_keeps [simp]:
  "va_run_list (submit r app) = va_run_list app" "va_run_filter (submit r app) = va_run_filter app"
  "vc_catalog (va_core (submit r app)) = vc_catalog (va_core app)" "vc_brush (va_core (submit r app)) = vc_brush (va_core app)"
  "vc_selection (va_core (submit r app)) = vc_selection (va_core app)"
  by (auto simp: submit_def core_begin_def Let_def split: option.split prod.split sum.split)

lemma requests_keep [simp]:
  "va_run_list (request_overview app) = va_run_list app" "va_run_filter (request_overview app) = va_run_filter app"
  "vc_catalog (va_core (request_overview app)) = vc_catalog (va_core app)"
  "vc_brush (va_core (request_overview app)) = vc_brush (va_core app)"
  "vc_selection (va_core (request_overview app)) = vc_selection (va_core app)"
  "va_run_list (request_detail app) = va_run_list app" "va_run_filter (request_detail app) = va_run_filter app"
  "vc_catalog (va_core (request_detail app)) = vc_catalog (va_core app)"
  "vc_brush (va_core (request_detail app)) = vc_brush (va_core app)"
  "vc_selection (va_core (request_detail app)) = vc_selection (va_core app)"
  "va_run_list (refresh_catalog app) = va_run_list app" "va_run_filter (refresh_catalog app) = va_run_filter app"
  "vc_catalog (va_core (refresh_catalog app)) = vc_catalog (va_core app)"
  "vc_brush (va_core (refresh_catalog app)) = vc_brush (va_core app)"
  "vc_selection (va_core (refresh_catalog app)) = vc_selection (va_core app)"
  by (simp_all add: request_overview_def request_detail_def refresh_catalog_def Let_def split: option.split)

lemma reconcile_keeps [simp]:
  "va_run_list (reconcile_canvas_widths g scale app) = va_run_list app"
  "va_run_filter (reconcile_canvas_widths g scale app) = va_run_filter app"
  "vc_catalog (va_core (reconcile_canvas_widths g scale app)) = vc_catalog (va_core app)"
  "vc_brush (va_core (reconcile_canvas_widths g scale app)) = vc_brush (va_core app)"
  "vc_selection (va_core (reconcile_canvas_widths g scale app)) = vc_selection (va_core app)"
  by (simp_all add: reconcile_canvas_widths_def Let_def split: prod.split)

lemma requests_view [simp]:
  "view_inv lower (request_overview app) = view_inv lower app" "view_inv lower (request_detail app) = view_inv lower app"
  "view_inv lower (refresh_catalog app) = view_inv lower app"
  "view_inv lower (reconcile_canvas_widths g scale app) = view_inv lower app"
  "brush_sound (va_core (request_overview app)) = brush_sound (va_core app)"
  "brush_sound (va_core (request_detail app)) = brush_sound (va_core app)"
  "brush_sound (va_core (refresh_catalog app)) = brush_sound (va_core app)"
  by (simp_all add: view_inv_def brush_sound_def)

lemma refresh_curves [simp]:
  "vc_overview (va_core (refresh_catalog app)) = vc_overview (va_core app)"
  "vc_detail (va_core (refresh_catalog app)) = vc_detail (va_core app)"
  by (auto simp: refresh_catalog_def submit_def core_begin_def Let_def split: option.split prod.split sum.split)

lemma view_invI:
  assumes "view_inv lower app" and "va_run_list app' = va_run_list app" "va_run_filter app' = va_run_filter app"
    and "vc_catalog (va_core app') = vc_catalog (va_core app)" and "brush_sound (va_core app')"
  shows "view_inv lower app'"
  using assms by (simp add: view_inv_def)

lemma view_invD: "view_inv lower app \<Longrightarrow> brush_sound (va_core app)"
  by (simp add: view_inv_def)

lemma sound_core:
  assumes "brush_sound c"
  shows "brush_sound (core_select_metric key c)" "brush_sound (core_select_axis axis c)"
    "brush_sound (snd (core_toggle_run rid c))" "brush_sound (core_select_project p c)" "brush_sound (snd (reset_view c))"
  using assms
  by (auto simp: brush_sound_def core_select_metric_def core_select_axis_def core_toggle_run_def core_select_project_def
      reset_view_def clear_curves_def set_run_ids_def Let_def brush_changes_ordered(5) split: option.split)

lemma core_catalog:
  "vc_catalog (core_select_metric key c) = vc_catalog c" "vc_catalog (core_select_axis axis c) = vc_catalog c"
  "vc_catalog (snd (core_toggle_run rid c)) = vc_catalog c" "vc_catalog (snd (reset_view c)) = vc_catalog c"
  by (simp_all add: core_select_metric_def core_select_axis_def core_toggle_run_def reset_view_def clear_curves_def
      set_run_ids_def Let_def split: option.split)

lemma open_source_view: "view_inv lower (open_source spawned p app)"
  by (auto simp: open_source_def Let_def view_inv_def rebuild_run_list_def viewer_core_default_def viewer_core_new_def
      brush_sound_def close_source_def split: sum.split prod.split bool.split)

lemma selection_view:
  assumes "view_inv lower app"
  shows "view_inv lower (on_refresh app)" "view_inv lower (on_reset app)" "view_inv lower (on_step app)"
    "view_inv lower (on_elapsed app)" "view_inv lower (app_select_project lower p app)"
    "view_inv lower (app_toggle_run rid app)" "view_inv lower (app_select_metric key app)"
proof -
  note sound = sound_core [OF view_invD [OF assms]] and kept = view_invI [OF assms]
  show "view_inv lower (on_refresh app)" "view_inv lower (on_step app)" "view_inv lower (on_elapsed app)"
    "view_inv lower (app_select_metric key app)"
    unfolding on_refresh_def on_step_def on_elapsed_def app_select_metric_def requests_view
    by (rule kept; simp add: core_catalog sound view_invD [OF assms])+
  show "view_inv lower (app_select_project lower p app)"
    using sound(4) by (simp add: app_select_project_def Let_def view_inv_def)
  obtain b c where r: "reset_view (va_core app) = (b, c)" by fastforce
  have "view_inv lower (app\<lparr>va_core := c\<rparr>)"
    using core_catalog(4) [of "va_core app"] sound(5) r by (intro kept) simp_all
  then show "view_inv lower (on_reset app)" using r by (cases b) (simp_all add: on_reset_def)
  obtain t d where t: "core_toggle_run rid (va_core app) = (t, d)" by fastforce
  have "view_inv lower (app\<lparr>va_core := d, va_local_error := e\<rparr>)" for e
    using core_catalog(3) [of rid "va_core app"] sound(3) [of rid] t by (intro kept) simp_all
  then show "view_inv lower (app_toggle_run rid app)" using t by (cases t) (simp_all add: app_toggle_run_def)
qed

lemma gesture_view:
  assumes "view_inv lower app"
  shows "view_inv lower (on_filter_key lower k app)" "view_inv lower (begin_brush_drag g x app)"
    "view_inv lower (begin_detail_drag g x app)" "view_inv lower (leave_chart app)" "view_inv lower (finish_drag app)"
    "view_inv lower (zoom_timer app)"
proof -
  note sound = view_invD [OF assms] and kept = view_invI [OF assms]
  show "view_inv lower (on_filter_key lower k app)"
    using assms sound by (simp add: on_filter_key_def Let_def view_inv_def split: option.split)
  show "view_inv lower (begin_brush_drag g x app)" "view_inv lower (begin_detail_drag g x app)" "view_inv lower (leave_chart app)"
    using sound by (auto simp: begin_brush_drag_def begin_detail_drag_def leave_chart_def intro!: kept split: option.split)
  show "view_inv lower (finish_drag app)" "view_inv lower (zoom_timer app)"
    using assms sound by (auto simp: finish_drag_def zoom_timer_def intro!: kept)
qed

lemma set_brush_view:
  "view_inv lower app \<Longrightarrow> brush_ordered b \<Longrightarrow> va_run_list app' = va_run_list app \<Longrightarrow> va_run_filter app' = va_run_filter app \<Longrightarrow>
   va_core app' = set_brush b (va_core app) \<Longrightarrow> view_inv lower app'"
  by (erule view_invI) (simp_all add: set_brush_def brush_sound_def)

lemma moving_view:
  assumes "view_inv lower app"
  shows "move_brush_drag g x app = Some app' \<Longrightarrow> view_inv lower app'"
    and "move_detail_drag g x app = Some app' \<Longrightarrow> view_inv lower app'"
    and "hover_chart g lm s v cursor app = Some app' \<Longrightarrow> view_inv lower app'"
    and "zoom_detail g exp32 x delta app = Some app' \<Longrightarrow> view_inv lower app'"
    and "paint_chart g s kind v b dark app = Some app' \<Longrightarrow> view_inv lower app'"
proof -
  have brush: "brush_ordered w" if "vc_brush (va_core app) = Some w" for w
    using view_invD [OF assms] that by (simp add: brush_sound_def)
  show "move_brush_drag g x app = Some app' \<Longrightarrow> view_inv lower app'"
    using assms
    by (auto simp: move_brush_drag_def intro: set_brush_view [OF assms drag_ordered [OF _ brush]] split: option.splits)
  show "move_detail_drag g x app = Some app' \<Longrightarrow> view_inv lower app'"
    using assms
    by (auto simp: move_detail_drag_def intro: set_brush_view [OF assms brush_changes_ordered(3) [OF brush]]
        split: option.splits drag_gesture.splits)
  show "zoom_detail g exp32 x delta app = Some app' \<Longrightarrow> view_inv lower app'"
  proof -
    assume "zoom_detail g exp32 x delta app = Some app'"
    then have "app' = app \<or> (\<exists>w anchor factor r b. vc_brush (va_core app) = Some w \<and> zoom_at anchor factor w = Some (r, b) \<and>
        va_run_list app' = va_run_list app \<and> va_run_filter app' = va_run_filter app \<and> va_core app' = set_brush b (va_core app))"
      by (simp add: zoom_detail_def split: option.split_asm sum.split_asm prod.split_asm) (auto, blast+)
    then show ?thesis using assms brush_changes_ordered(4) [OF brush] set_brush_view [OF assms] by blast
  qed
  show "hover_chart g lm s v cursor app = Some app' \<Longrightarrow> view_inv lower app'"
    "paint_chart g s kind v b dark app = Some app' \<Longrightarrow> view_inv lower app'"
    using view_invD [OF assms] by (auto simp: hover_chart_def paint_chart_def intro!: view_invI [OF assms])
qed

lemma act_view:
  assumes "view_inv (ve_lower env) app" and "app_act env a app = Some app'"
  shows "view_inv (ve_lower env) app'"
proof (cases a)
  case (VA_Picked result)
  have "view_inv lower (app\<lparr>va_local_error := e\<rparr>)" if "view_inv lower app" for lower e
    using that view_invD [OF that] by (auto intro: view_invI)
  then show ?thesis
    using assms VA_Picked by (auto simp: on_picked_def open_source_view split: sum.splits option.splits)
qed (use assms in \<open>auto simp: open_source_view selection_view gesture_view dest: moving_view\<close>)

lemma core_apply_view:
  assumes "core_apply ev c = Some (outcome, c')" and "brush_sound c"
  shows "brush_sound c'"
    and "vc_catalog c' = vc_catalog c \<or> outcome = Applied \<and> re_kind ev = RK_Catalog \<and> (\<exists>s. re_result ev = Inr s)"
proof -
  have overview: "brush_sound d'" if "apply_overview s d = Some d'" for s d d'
    using that restored_brush_ordered by (fastforce simp: apply_overview_def brush_sound_def Let_def split: option.splits if_splits)
  have same: "vc_catalog d' = vc_catalog d" if "apply_overview s d = Some d'" for s d d'
    using that by (auto simp: apply_overview_def Let_def split: option.splits if_splits)
  show "brush_sound c'"
    using assms overview
    by (auto simp: core_apply_def Let_def brush_sound_def apply_catalog_def split: if_splits sum.splits read_snapshot.splits)
  show "vc_catalog c' = vc_catalog c \<or> outcome = Applied \<and> re_kind ev = RK_Catalog \<and> (\<exists>s. re_result ev = Inr s)"
    using assms(1) same
    by (auto simp: core_apply_def Let_def split: if_splits sum.splits read_snapshot.splits)
qed

lemma apply_event_view:
  assumes "view_inv lower app" and "apply_event lower ev app = Some app'"
  shows "view_inv lower app'"
proof -
  obtain outcome c where c: "core_apply ev (va_core app) = Some (outcome, c)" using assms(2) by (auto simp: apply_event_def)
  note core = core_apply_view [OF c view_invD [OF assms(1)]]
  have kept: "view_inv lower (app\<lparr>va_core := c\<rparr>)" if "vc_catalog c = vc_catalog (va_core app)"
    using that core(1) by (intro view_invI [OF assms(1)]) simp_all
  show ?thesis
    using assms(2) c core kept
    by (auto simp: apply_event_def Let_def view_inv_def split: if_splits read_kind.splits sum.splits)
qed

lemma set_events_view [simp]: "view_inv lower (set_events ch w app) = view_inv lower app"
  by (simp add: view_inv_def set_events_def)

lemma viewer_reachable_view:
  assumes "viewer_reachable env app"
  shows "view_inv (ve_lower env) app"
proof -
  obtain source where steps: "(viewer_step env)\<^sup>*\<^sup>* (app_new (map_option (\<lambda>(p, e). (p, spawn_result e)) source)) app"
    using assms by (auto simp: viewer_reachable_def)
  have "view_inv (ve_lower env) app_default"
    by (simp add: view_inv_def app_default_def viewer_core_default_def viewer_core_new_def rebuild_run_list_def brush_sound_def)
  then have start: "view_inv (ve_lower env) (app_new (map_option (\<lambda>(p, e). (p, spawn_result e)) source))"
    by (auto simp: app_new_def open_source_view split: option.split)
  have "view_inv (ve_lower env) app'" if "viewer_step env app app'" "view_inv (ve_lower env) app" for app app'
    using that
  proof (cases rule: viewer_step.cases)
    case (turn w p world)
    then show ?thesis using that(2) by (simp add: view_inv_def)
  next
    case (deliver w ev c)
    then have "view_inv (ve_lower env) (set_events c w app)" using that(2) by simp
    then show ?thesis using deliver(4) by (rule apply_event_view)
  qed (use that(2) act_view in auto)
  with steps start show ?thesis by (induction rule: rtranclp_induct) blast+
qed

subsection \<open>Drawing a frame\<close>

lemma brush_of_frame:
  assumes "brush_sound c"
  shows "\<And>r. map_option br_selected (vc_brush c) = Some r \<Longrightarrow> ordered r" and "vc_brush c = Some b \<Longrightarrow> ordered (br_home b)"
  using assms by (auto simp: brush_sound_def brush_ordered_def)

lemma render_overview_total:
  assumes "brush_sound (va_core app)"
  shows "\<exists>overview. render_overview app = Some overview \<and> (\<forall>ow. overview = Some ow \<longrightarrow> ordered (vp_x (ow_viewport ow)))"
proof (cases "vc_overview (va_core app)")
  case snapshot: (Some s)
  show ?thesis
  proof (cases "vc_brush (va_core app)")
    case (Some b)
    have home: "ordered (br_home b)" by (rule brush_of_frame(2) [OF assms Some])
    then obtain v where v: "overview_viewport s b = Some v" using overview_viewport_total by blast
    then show ?thesis using overview_viewport_ordered [OF _ home] by (cases v) (auto simp: render_overview_def snapshot Some)
  qed (simp add: render_overview_def snapshot)
qed (simp add: render_overview_def)

definition chart_ordered :: "chart_view \<Rightarrow> bool" where
  "chart_ordered chart \<longleftrightarrow> ordered (vp_x (cw_viewport chart)) \<and>
     (\<forall>ow. cw_overview chart = Some ow \<longrightarrow> ordered (vp_x (ow_viewport ow)))"

lemma render_detail_total:
  assumes "brush_sound (va_core app)"
  shows "\<exists>detail. render_detail lm app = Some detail \<and> (\<forall>chart. detail = DV_Chart chart \<longrightarrow> chart_ordered chart)"
proof (cases "vc_detail (va_core app)")
  case (Some s)
  obtain overview where o: "render_overview app = Some overview" "\<forall>ow. overview = Some ow \<longrightarrow> ordered (vp_x (ow_viewport ow))"
    using render_overview_total [OF assms] by blast
  obtain v where v: "detail_viewport s (map_option br_selected (vc_brush (va_core app))) = Some v"
    "\<forall>w. v = Some w \<longrightarrow> ordered (vp_x w)"
    using detail_viewport_total [OF brush_of_frame(1) [OF assms]] by blast
  show ?thesis using o v by (cases v) (auto simp: render_detail_def Let_def Some chart_ordered_def)
qed (simp add: render_detail_def Let_def)

lemma render_workspace_total:
  assumes "brush_sound (va_core app)" and "has_projects (va_core app)"
  shows "\<exists>ws. render_workspace lm ranges app = Some ws \<and> (\<forall>chart. ws_detail ws = DV_Chart chart \<longrightarrow> chart_ordered chart)"
proof -
  obtain ct where "vc_catalog (va_core app) = Some ct" using assms(2) by (auto simp: has_projects_def split: option.splits)
  moreover obtain detail where "render_detail lm app = Some detail" "\<forall>chart. detail = DV_Chart chart \<longrightarrow> chart_ordered chart"
    using render_detail_total [OF assms(1)] by blast
  ultimately show ?thesis by (auto simp: render_workspace_def)
qed

lemma render_frame_total:
  assumes "brush_sound (va_core app)"
  shows "\<exists>view. render_frame g lm ranges scale app = Some (reconcile_canvas_widths g scale app, view) \<and>
    (\<forall>chart. shown_chart view = Some chart \<longrightarrow> chart_ordered chart)"
proof -
  let ?app = "reconcile_canvas_widths g scale app"
  have sound: "brush_sound (va_core ?app)" using assms by (simp add: brush_sound_def)
  show ?thesis
  proof (cases "has_projects (va_core ?app)")
    case True
    obtain ws where "render_workspace lm ranges ?app = Some ws" "\<forall>chart. ws_detail ws = DV_Chart chart \<longrightarrow> chart_ordered chart"
      using render_workspace_total [OF sound True] by blast
    then show ?thesis using True by (auto simp: render_frame_def Let_def shown_chart_def split: detail_view.split)
  qed (simp add: render_frame_def Let_def shown_chart_def)
qed

lemma draw_chart_steps:
  assumes "chart_ordered chart" and "viewer_reachable env app"
  shows "\<exists>again app'. draw_chart (ve_gpui env) db ob dark chart app = Some (again, app') \<and> viewer_reachable env app'"
proof -
  have paint: "\<exists>app'. paint_chart (ve_gpui env) s kind v b dark app = Some app' \<and> viewer_reachable env app'"
    if v: "ordered (vp_x v)" and r: "viewer_reachable env app" for s kind v b app
  proof -
    obtain app' where "paint_chart (ve_gpui env) s kind v b dark app = Some app'" using paint_total [OF v] by blast
    moreover from this have "viewer_step env app app'" by (intro viewer_step.act [where a = "VA_Paint s kind v b dark"]) simp
    ultimately show ?thesis using reach_step [OF r] by blast
  qed
  have detail: "ordered (vp_x (cw_viewport chart))" using assms(1) by (simp add: chart_ordered_def)
  obtain app1 where p: "paint_chart (ve_gpui env) (cw_snapshot chart) CK_Detail (cw_viewport chart) db dark app = Some app1"
    "viewer_reachable env app1" using paint [OF detail assms(2)] by blast
  show ?thesis
  proof (cases "cw_overview chart")
    case None
    then show ?thesis using p by (simp add: draw_chart_def)
  next
    case (Some ow)
    then have "ordered (vp_x (ow_viewport ow))" using assms(1) by (simp add: chart_ordered_def)
    then obtain app2 where "paint_chart (ve_gpui env) (ow_snapshot ow) CK_Overview (ow_viewport ow) ob dark app1 = Some app2"
      "viewer_reachable env app2" using paint p(2) by blast
    then show ?thesis using p Some by (simp add: draw_chart_def)
  qed
qed

lemma frame_drawn:
  assumes "viewer_reachable env app"
  shows "\<exists>app' view again. draw_frame (ve_gpui env) (ve_libm env) ranges scale db ob dark app = Some (app', view, again) \<and>
    viewer_reachable env app' \<and>
    (case shown_chart view of None \<Rightarrow> True
     | Some chart \<Rightarrow> app_act env (detail_pointer chart False position) app' \<noteq> None)"
proof -
  have sound: "brush_sound (va_core app)" by (rule view_invD [OF viewer_reachable_view [OF assms]])
  let ?app = "reconcile_canvas_widths (ve_gpui env) scale app"
  have reach: "viewer_reachable env ?app"
    by (rule reach_step [OF assms]) (rule viewer_step.act [where a = "VA_Frame scale"], simp)
  obtain view where view: "render_frame (ve_gpui env) (ve_libm env) ranges scale app = Some (?app, view)"
    "\<forall>chart. shown_chart view = Some chart \<longrightarrow> chart_ordered chart" using render_frame_total [OF sound] by blast
  show ?thesis
  proof (cases "shown_chart view")
    case None
    then show ?thesis
      using view reach by (intro exI [of _ ?app] exI [of _ view] exI [of _ False]) (simp add: draw_frame_def)
  next
    case (Some chart)
    then have chart: "chart_ordered chart" using view(2) by blast
    obtain again app' where drawn: "draw_chart (ve_gpui env) db ob dark chart ?app = Some (again, app')" "viewer_reachable env app'"
      using draw_chart_steps [OF chart reach] by blast
    obtain app'' where "hover_chart (ve_gpui env) (ve_libm env) (cw_snapshot chart) (cw_viewport chart) position app' = Some app''"
      using hover_total chart unfolding chart_ordered_def by blast
    then show ?thesis
      using view(1) drawn Some
      by (intro exI [of _ app'] exI [of _ view] exI [of _ again]) (simp add: draw_frame_def detail_pointer_def)
  qed
qed

lemma frame_screen:
  assumes "draw_frame g lm ranges scale db ob dark app = Some (app', view, again)" and "has_projects (va_core app)"
  shows "\<exists>ws. fv_screen view = SC_Workspace ws"
proof -
  have "has_projects (va_core (reconcile_canvas_widths g scale app))" using assms(2) by (simp add: has_projects_def)
  then show ?thesis using assms(1) by (auto simp: draw_frame_def render_frame_def Let_def split: option.splits)
qed

definition all_rows :: row_ranges where
  "all_rows = \<lparr>rr_projects = (0, 8), rr_runs = (0, 8), rr_metrics = (0, 8)\<rparr>"

definition sample_bounds :: "f64 bounds" where
  "sample_bounds = \<lparr>bd_x = fzero, bd_y = fzero, bd_width = f64_of_int 800, bd_height = f64_of_int 600\<rparr>"

subsection \<open>A catalog on display\<close>

definition sample_catalog :: "catalog_snapshot \<Rightarrow> bool" where
  "sample_catalog ct \<longleftrightarrow> map r_run_id (ct_runs ct) = [''r1''] \<and> map p_project_id (ct_projects ct) = [''p'']"

lemma discover_bare:
  "\<exists>ct. read_snapshot_of (RR_Discover \<lparr>dr_project_id = Some ''p'', dr_selected_run_ids = []\<rparr>) bare_store = (Ok (RS_Catalog ct), bare_store) \<and>
     sample_catalog ct"
  by (simp add: sample_catalog_def read_snapshot_of_def discover_def store_list_projects_def store_list_runs_def bare_store_def sample_store_def
      bind_op_def map_err_op_def query_def exec_def read_project_def read_requested_def store_get_run_def env_lift_def into_run_def run_status_from_str_def
      timestamp_from_millis_def sample_ts_ok Let_def)

definition project_app :: "(f64, unit) viewer_app" where
  "project_app = app_select_project (\<lambda>s. s) ''p'' (app_new (Some (''/p'', spawn_result None)))"

lemma project_reachable: "viewer_reachable sample_viewer_env project_app"
proof -
  have "viewer_reachable sample_viewer_env (app_new (Some (''/p'', spawn_result None)))"
    unfolding viewer_reachable_def by (intro exI [of _ "Some (''/p'', None)"]) simp
  then show ?thesis unfolding project_app_def
    by (rule reach_step) (rule viewer_step.act [where a = "VA_Project ''p''"], simp add: sample_viewer_env_def)
qed

lemma project_app_simps:
  "va_worker project_app = Some \<lparr>wk_requests = [\<lparr>tr_generation = 1, tr_request = RR_Discover \<lparr>dr_project_id = None, dr_selected_run_ids = []\<rparr>\<rparr>,
      \<lparr>tr_generation = 2, tr_request = RR_Discover \<lparr>dr_project_id = Some ''p'', dr_selected_run_ids = []\<rparr>\<rparr>], wk_sender = True, wk_phase = WP_Waiting,
      wk_session = False, wk_events = read_event_channel, wk_receiver_taken = True\<rparr>"
  "va_event_task project_app = True" "va_source_path project_app = Some ''/p''" "va_run_filter project_app = []"
  "vc_selection (va_core project_app) = no_selection\<lparr>vs_project_id := Some ''p''\<rparr>"
  "vc_expected (va_core project_app) RK_Catalog = Some 2"
  "vc_brush (va_core project_app) = None" "vc_detail (va_core project_app) = None" "vc_overview (va_core project_app) = None"
  by (simp_all add: project_app_def app_simps)

definition project_worlds :: "world list" where
  "project_worlds = (let w = open_world bare_store in [w, w, w, w])"

lemma execute_discover_bare:
  "\<exists>ct b. execute sample_source False \<lparr>tr_generation = g, tr_request = RR_Discover \<lparr>dr_project_id = Some ''p'', dr_selected_run_ids = []\<rparr>\<rparr>
      (open_world bare_store) = (\<lparr>re_generation = g, re_kind = RK_Catalog, re_result = Ok (RS_Catalog ct)\<rparr>, True, b) \<and>
     sample_catalog ct"
proof -
  obtain ct where ct: "read_snapshot_of (RR_Discover \<lparr>dr_project_id = Some ''p'', dr_selected_run_ids = []\<rparr>) bare_store = (Ok (RS_Catalog ct), bare_store)"
    "sample_catalog ct" using discover_bare by blast
  obtain b where b: "open_session sample_source (open_world bare_store) = (Ok (), (open_world bare_store)\<lparr>wd_boot := b\<rparr>)"
    using open_sample by blast
  have s: "wd_store ((open_world bare_store)\<lparr>wd_boot := b\<rparr>) = bare_store" by (simp add: open_world_def)
  have "execute sample_source False \<lparr>tr_generation = g, tr_request = RR_Discover \<lparr>dr_project_id = Some ''p'', dr_selected_run_ids = []\<rparr>\<rparr>
      (open_world bare_store) = (\<lparr>re_generation = g, re_kind = RK_Catalog, re_result = Ok (RS_Catalog ct)\<rparr>, True,
      ((open_world bare_store)\<lparr>wd_boot := b\<rparr>)\<lparr>wd_store := bare_store\<rparr>)"
    by (simp only: execute_def b s ct(1) tagged_kind_def request_kind.simps tagged_request.select_convs Let_def prod.case sum.case if_False)
  with ct(2) show ?thesis by blast
qed

lemma project_worker:
  "\<exists>ct. ec_queue (wk_events (fold (loop_turn sample_source) project_worlds (the (va_worker project_app)))) =
      [\<lparr>re_generation = 2, re_kind = RK_Catalog, re_result = Ok (RS_Catalog ct)\<rparr>] \<and>
     sample_catalog ct"
proof -
  obtain ct b where d: "execute sample_source False \<lparr>tr_generation = 2, tr_request = RR_Discover \<lparr>dr_project_id = Some ''p'', dr_selected_run_ids = []\<rparr>\<rparr>
      (open_world bare_store) = (\<lparr>re_generation = 2, re_kind = RK_Catalog, re_result = Ok (RS_Catalog ct)\<rparr>, True, b)"
     and ct: "sample_catalog ct"
    using execute_discover_bare by blast
  have "ec_queue (wk_events (fold (loop_turn sample_source) project_worlds (the (va_worker project_app)))) =
      [\<lparr>re_generation = 2, re_kind = RK_Catalog, re_result = Ok (RS_Catalog ct)\<rparr>]"
    unfolding project_worlds_def Let_def project_app_simps option.sel
    by (simp add: loop_turn_def push_request_def newer_def no_requests_def take_next_def d send_event_def read_event_channel_def Let_def)
  with ct show ?thesis by blast
qed

text \<open>The user opens a store and selects its project, and the worker answers with the catalog.\<close>

lemma catalog_shown: "\<exists>app ct. viewer_reachable sample_viewer_env app \<and> vc_catalog (va_core app) = Some ct \<and>
    sample_catalog ct \<and> va_run_filter app = [] \<and>
    vs_project_id (vc_selection (va_core app)) = Some ''p'' \<and> vc_detail (va_core app) = None"
proof -
  define w where "w = fold (loop_turn sample_source) project_worlds (the (va_worker project_app))"
  obtain ct where w: "ec_queue (wk_events w) = [\<lparr>re_generation = 2, re_kind = RK_Catalog, re_result = Ok (RS_Catalog ct)\<rparr>]"
    "sample_catalog ct"
    using project_worker unfolding w_def by blast
  let ?app = "project_app\<lparr>va_worker := Some w\<rparr>"
  have app: "viewer_reachable sample_viewer_env ?app"
    using turns_reach [OF project_reachable project_app_simps(1,3), of project_worlds]
    by (simp add: sample_viewer_env_def project_app_simps(1) w_def)
  define c where "c = (wk_events w)\<lparr>ec_queue := []\<rparr>"
  define core where "core = apply_catalog ct (no_longer_expected RK_Catalog (va_core project_app))"
  have keep: "list_ex (\<lambda>p. p_project_id p = ''p'') (ct_projects ct)" using w(2) by (auto simp: sample_catalog_def)
  have core: "vc_catalog core = Some ct" "vs_project_id (vc_selection core) = Some ''p''" "vs_run_ids (vc_selection core) = []"
    "vc_detail core = None" "vs_metric_key (vc_selection core) = None"
    using keep by (simp_all add: core_def apply_catalog_def no_longer_expected_def project_app_simps no_selection_def Let_def)
  define app' where "app' = (set_events c w ?app)\<lparr>va_core := core, va_run_list := rebuild_run_list (\<lambda>s. s) (Some ct) []\<rparr>"
  have "viewer_reachable sample_viewer_env app'"
    by (rule deliver_reach [OF app, of w "hd (ec_queue (wk_events w))" c])
      (simp_all add: project_app_simps poll_event_def w(1) c_def apply_event_def core_apply_def set_events_def app'_def core_def [symmetric]
        no_longer_expected_def [symmetric] core core_curve_selection_def sample_viewer_env_def Let_def)
  then show ?thesis
    using w(2) core by (intro exI [of _ app'] exI [of _ ct]) (simp add: app'_def set_events_def project_app_simps)
qed

subsection \<open>Rows and curves\<close>

lemma rows_cong:
  assumes "vc_selection c' = vc_selection c"
  shows "run_row c' = run_row c" "project_row c' = project_row c" "metric_row c' = metric_row c"
  using assms by (auto simp: run_row_def project_row_def metric_row_def can_toggle_def)

lemma curves_of_runs:
  "curves_of sel v reduction runs bounds acc s = (Ok (b, curves), s') \<Longrightarrow>
   \<exists>fresh. curves = acc @ fresh \<and> map css_run fresh = runs \<and>
     (\<forall>c \<in> set fresh. css_chart_series c \<noteq> None \<longrightarrow> drawable (css_evidence c))"
proof (induction runs arbitrary: bounds acc s)
  case (Cons r runs)
  obtain e series s1 where e: "chart_series_of r e = Ok series"
    "curves_of sel v reduction runs (real_bounds_of v e bounds)
       (acc @ [\<lparr>css_run = r, css_evidence = e, css_chart_series = series\<rparr>]) s1 = (Ok (b, curves), s')"
  proof -
    obtain e series s1 where "map_err VQ_Chart (chart_series_of r e) = Ok series"
      "curves_of sel v reduction runs (real_bounds_of v e bounds)
         (acc @ [\<lparr>css_run = r, css_evidence = e, css_chart_series = series\<rparr>]) s1 = (Ok (b, curves), s')"
      using Cons.prems by (auto simp: op_outcomes lift_op_def)
    then show thesis using that by (cases "chart_series_of r e") auto
  qed
  obtain fresh where "curves = (acc @ [\<lparr>css_run = r, css_evidence = e, css_chart_series = series\<rparr>]) @ fresh"
    "map css_run fresh = runs" "\<forall>c \<in> set fresh. css_chart_series c \<noteq> None \<longrightarrow> drawable (css_evidence c)"
    using Cons.IH [OF e(2)] by blast
  moreover have "drawable e" if "series \<noteq> None" using e(1) that by (auto simp: chart_series_of_def split: if_splits)
  ultimately show ?case
    by (intro exI [of _ "\<lparr>css_run = r, css_evidence = e, css_chart_series = series\<rparr> # fresh"]) simp
qed simp

lemma query_curves_runs:
  assumes "unique_runs before" and "query_curves sel v n before = (Ok s, after)"
  shows "map (\<lambda>c. r_run_id (css_run c)) (csn_series s) = cu_run_ids sel"
    and "\<forall>c \<in> set (csn_series s). css_chart_series c \<noteq> None \<longrightarrow> drawable (css_evidence c)"
proof -
  obtain runs s1 reduction s2 bounds b where q: "store_get_runs (cu_run_ids sel) before = (Ok runs, s1)"
    "curves_of sel v reduction runs None [] s2 = (Ok (bounds, csn_series s), b)"
    using assms(2) by (auto simp: query_curves_def op_outcomes split: prod.splits)
  have ids: "map r_run_id runs = cu_run_ids sel" using store_get_runs_Ok [OF assms(1) q(1)] by blast
  obtain fresh where "csn_series s = fresh" "map css_run fresh = runs"
    "\<forall>c \<in> set fresh. css_chart_series c \<noteq> None \<longrightarrow> drawable (css_evidence c)" using curves_of_runs [OF q(2)] by auto
  then show "map (\<lambda>c. r_run_id (css_run c)) (csn_series s) = cu_run_ids sel"
    "\<forall>c \<in> set (csn_series s). css_chart_series c \<noteq> None \<longrightarrow> drawable (css_evidence c)"
    using ids by (auto simp: comp_def)
qed

text \<open>The colour of undrawn curves in the legend.\<close>

abbreviation grey :: nat where
  "grey \<equiv> 0x9ca3af"

definition drawn_colors :: "nat \<Rightarrow> curve_series_snapshot list \<Rightarrow> nat list" where
  "drawn_colors index curves =
     filter (\<lambda>color. color \<noteq> grey) (map (\<lambda>(i, c). fst (legend_entry i c)) (enumerate index curves))"

lemma series_color_coloured: "series_color index \<noteq> grey"
proof -
  have "series_color index \<in> set series_colors" unfolding series_color_def by (rule nth_mem) (simp add: series_colors_def)
  then show ?thesis by (auto simp: series_colors_def)
qed

lemma subseq_distinct: "subseq xs ys \<Longrightarrow> distinct ys \<Longrightarrow> distinct xs"
  by (auto simp: subseq_conv_nths)

lemma drawn_colors_Cons:
  "drawn_colors index (c # cs) = (if drawable (css_evidence c) then [series_color index] else []) @ drawn_colors (index + 1) cs"
  using series_color_coloured [of index] by (simp add: drawn_colors_def legend_entry_def)

lemma drawn_colors_range: "set (drawn_colors index cs) \<subseteq> series_color ` {index..<index + length cs}"
proof (induction cs arbitrary: index)
  case (Cons c cs)
  then show ?case using Cons.IH [of "index + 1"] by (auto simp: drawn_colors_Cons)
qed (simp add: drawn_colors_def)

lemma series_color_inj: "inj_on series_color {0..<10}"
proof (rule inj_onI)
  fix i j assume "i \<in> {0..<10 :: nat}" "j \<in> {0..<10 :: nat}" "series_color i = series_color j"
  moreover have "distinct series_colors" "length series_colors = 10" by (simp_all add: series_colors_def)
  ultimately show "i = j" by (simp add: series_color_def nth_eq_iff_index_eq)
qed

lemma drawn_colors_distinct: "index + length cs \<le> 10 \<Longrightarrow> distinct (drawn_colors index cs)"
proof (induction cs arbitrary: index)
  case (Cons c cs)
  have "series_color index \<notin> set (drawn_colors (index + 1) cs)"
  proof
    assume "series_color index \<in> set (drawn_colors (index + 1) cs)"
    then obtain j where "j \<in> {index + 1..<index + 1 + length cs}" "series_color index = series_color j"
      using drawn_colors_range [of "index + 1" cs] by auto
    then show False using inj_onD [OF series_color_inj, of index j] Cons.prems by simp
  qed
  then show ?case using Cons.IH [of "index + 1"] Cons.prems by (simp add: drawn_colors_Cons)
qed (simp add: drawn_colors_def)

lemma prepared_colors:
  "prepare_curves g revision v b canvas dark index curves caches = Some (paths, caches') \<Longrightarrow>
   (\<forall>c \<in> set curves. css_chart_series c \<noteq> None \<longrightarrow> drawable (css_evidence c)) \<Longrightarrow>
   subseq (map snd paths) (drawn_colors index curves)"
proof (induction curves arbitrary: index caches paths)
  case (Cons c cs)
  show ?case
  proof (cases "css_chart_series c")
    case None
    then have "subseq (map snd paths) (drawn_colors (index + 1) cs)" using Cons.prems by (intro Cons.IH [of _ caches]) simp_all
    then show ?thesis by (simp add: drawn_colors_Cons list_emb_append2)
  next
    case (Some s)
    then have "drawable (css_evidence c)" using Cons.prems(2) by simp
    moreover obtain path between others where "prepare_curves g revision v b canvas dark (index + 1) cs between = Some (others, caches')"
      "paths = (case path of None \<Rightarrow> others | Some p \<Rightarrow> (p, series_color index) # others)"
      using Cons.prems(1) Some by (auto simp: Let_def split: option.split_asm)
    moreover from this have "subseq (map snd others) (drawn_colors (index + 1) cs)"
      using Cons.prems(2) by (intro Cons.IH [of _ between]) simp_all
    ultimately show ?thesis by (auto simp: drawn_colors_Cons intro: list_emb_Cons split: option.splits)
  qed
qed (simp add: drawn_colors_def)

subsection \<open>Properties\<close>

text \<open>C38: No frame panics. In every reachable state the viewer renders a frame and draws its charts, whatever
  rows and bounds the layout asks for, the state it leaves is reachable again, and hovering over the
  chart of that frame finds its point or none without a panic.
\<close>

theorem frames_never_panic:
  assumes "viewer_reachable env app"
  shows "\<exists>app' view again. draw_frame (ve_gpui env) (ve_libm env) ranges scale db ob dark app = Some (app', view, again) \<and>
    viewer_reachable env app' \<and>
    (case shown_chart view of None \<Rightarrow> True
     | Some chart \<Rightarrow> app_act env (detail_pointer chart False position) app' \<noteq> None)"
  by (rule frame_drawn [OF assms])

theorem frames_never_panic_witness:
  "\<exists>app' view again. draw_frame (ve_gpui sample_viewer_env) (ve_libm sample_viewer_env) all_rows (f64_of_int 2)
     sample_bounds sample_bounds False selecting_app = Some (app', view, again) \<and> viewer_reachable sample_viewer_env app'"
  using frames_never_panic [OF selecting_reachable] by blast

text \<open>C39: The rows are the state. In every reachable state a frame with projects lists the projects of the
  catalog, and with a project selected its panel lists exactly the runs of the catalog that match
  the filter text it displays, in catalog order, each highlighted when it is selected.
\<close>

theorem workspace_shows_catalog:
  assumes "viewer_reachable env app"
    and "draw_frame g lm ranges scale db ob dark app = Some (app', view, again)" and "fv_screen view = SC_Workspace ws"
  shows "\<exists>ct. vc_catalog (va_core app) = Some ct \<and> ct_projects ct \<noteq> [] \<and>
    ws_projects ws = map (project_row (va_core app)) (asked_items (rr_projects ranges) (ct_projects ct)) \<and>
    (case ws_panel ws of
       None \<Rightarrow> vs_project_id (vc_selection (va_core app)) = None
     | Some panel \<Rightarrow> vs_project_id (vc_selection (va_core app)) \<noteq> None \<and>
         pp_filter panel = (if va_run_filter app = [] then ''Filter by name, id, or status'' else va_run_filter app) \<and>
         pp_runs panel = map (run_row (va_core app)) (asked_items (rr_runs ranges)
           (filter (\<lambda>r. run_matches_filter (ve_lower env) r (va_run_filter app)) (ct_runs ct))))"
proof -
  let ?app = "reconcile_canvas_widths g scale app"
  have inv: "view_inv (ve_lower env) app" by (rule viewer_reachable_view [OF assms(1)])
  note cong = rows_cong [of "va_core ?app" "va_core app", OF reconcile_keeps(5)]
  have "has_projects (va_core ?app) \<and> render_workspace lm ranges ?app = Some ws"
    using assms(2,3) by (auto simp: draw_frame_def render_frame_def Let_def split: option.splits if_splits)
  then obtain ct where ct: "vc_catalog (va_core app) = Some ct" "ct_projects ct \<noteq> []" "render_workspace lm ranges ?app = Some ws"
    by (auto simp: has_projects_def split: option.splits)
  have "va_run_list app = filter (\<lambda>r. run_matches_filter (ve_lower env) r (va_run_filter app)) (ct_runs ct)"
    using inv ct(1) by (simp add: view_inv_def rebuild_run_list_def)
  then show ?thesis using ct by (auto simp: render_workspace_def render_panel_def cong)
qed

theorem workspace_shows_catalog_witness:
  "\<exists>app app' view again ws panel. viewer_reachable sample_viewer_env app \<and>
     draw_frame (ve_gpui sample_viewer_env) (ve_libm sample_viewer_env) all_rows (f64_of_int 2) sample_bounds sample_bounds False app =
       Some (app', view, again) \<and>
     fv_screen view = SC_Workspace ws \<and> ws_panel ws = Some panel \<and> length (pp_runs panel) = 1"
proof -
  obtain app ct where app: "viewer_reachable sample_viewer_env app" "vc_catalog (va_core app) = Some ct" "sample_catalog ct"
    "va_run_filter app = []" "vs_project_id (vc_selection (va_core app)) = Some ''p''" using catalog_shown by blast
  obtain app' view again where drawn: "draw_frame (ve_gpui sample_viewer_env) (ve_libm sample_viewer_env) all_rows (f64_of_int 2)
      sample_bounds sample_bounds False app = Some (app', view, again)" using frame_drawn [OF app(1)] by blast
  have "ct_projects ct \<noteq> []" using app(3) by (auto simp: sample_catalog_def)
  then have "has_projects (va_core app)" using app(2) by (simp add: has_projects_def)
  then obtain ws where ws: "fv_screen view = SC_Workspace ws" using frame_screen [OF drawn] by blast
  obtain ct' where ct': "vc_catalog (va_core app) = Some ct'"
    "case ws_panel ws of
       None \<Rightarrow> vs_project_id (vc_selection (va_core app)) = None
     | Some panel \<Rightarrow> vs_project_id (vc_selection (va_core app)) \<noteq> None \<and>
         pp_filter panel = (if va_run_filter app = [] then ''Filter by name, id, or status'' else va_run_filter app) \<and>
         pp_runs panel = map (run_row (va_core app)) (asked_items (rr_runs all_rows)
           (filter (\<lambda>r. run_matches_filter (ve_lower sample_viewer_env) r (va_run_filter app)) (ct_runs ct')))"
    using workspace_shows_catalog [OF app(1) drawn ws] by blast
  obtain r where "ct_runs ct = [r]" using app(3) by (auto simp: sample_catalog_def)
  moreover have "run_matches_filter (ve_lower sample_viewer_env) r []" for r
    by (simp add: run_matches_filter_def run_fields_match_filter_def sample_viewer_env_def Let_def)
  ultimately have "\<exists>panel. ws_panel ws = Some panel \<and> length (pp_runs panel) = 1"
    using ct' app(2,4,5) by (auto simp: all_rows_def asked_items_def upt_conv_Cons split: option.splits)
  then show ?thesis using app(1) drawn ws by blast
qed

text \<open>A row of the run list does what it looks like. An enabled row answers a click by adding its run to
  the selection, or by removing it when it is highlighted, never beyond ten runs, and drops the curves of
  the old selection; a disabled row is neither highlighted nor addable.
\<close>

theorem run_row_click:
  "case rw_response (run_row (va_core app) r) of
     None \<Rightarrow> \<not> rw_highlighted (run_row (va_core app) r :: 'p row_view) \<and>
       max_selected_runs \<le> length (vs_run_ids (vc_selection (va_core app)))
   | Some response \<Rightarrow> \<exists>a app'. response = RE_Act a \<and> app_act env a app = Some app' \<and>
       vs_run_ids (vc_selection (va_core app')) =
         (if rw_highlighted (run_row (va_core app) r :: 'p row_view) then remove1 (r_run_id r) (vs_run_ids (vc_selection (va_core app)))
          else vs_run_ids (vc_selection (va_core app)) @ [r_run_id r]) \<and>
       length (vs_run_ids (vc_selection (va_core app'))) \<le>
         max max_selected_runs (length (vs_run_ids (vc_selection (va_core app)))) \<and>
       vc_overview (va_core app') = None \<and> vc_detail (va_core app') = None"
  for app :: "('p, 'g) viewer_app"
proof (cases "can_toggle (r_run_id r) (va_core app)")
  case True
  let ?ids = "vs_run_ids (vc_selection (va_core app))"
  define c where "c = snd (core_toggle_run (r_run_id r) (va_core app))"
  have t: "core_toggle_run (r_run_id r) (va_core app) = (Ok (r_run_id r \<notin> set ?ids), c)"
    "vs_run_ids (vc_selection c) = (if r_run_id r \<in> set ?ids then remove1 (r_run_id r) ?ids else ?ids @ [r_run_id r])"
    "vc_overview c = None" "vc_detail c = None"
    using True by (auto simp: c_def can_toggle_def core_toggle_run_def clear_curves_def set_run_ids_def Let_def)
  define app1 where "app1 = app\<lparr>va_core := c, va_local_error := None\<rparr>"
  have "app_act env (VA_Run (r_run_id r)) app = Some (refresh_catalog app1)" by (simp add: app_toggle_run_def t(1) app1_def)
  moreover have "va_core app1 = c" by (simp add: app1_def)
  moreover have "length (if r_run_id r \<in> set ?ids then remove1 (r_run_id r) ?ids else ?ids @ [r_run_id r]) \<le>
      max max_selected_runs (length ?ids)"
    using True by (auto simp: can_toggle_def length_remove1)
  ultimately show ?thesis using True t(2-4) by (simp add: run_row_def refresh_curves)
qed (simp add: run_row_def can_toggle_def)



end
