(* ===== verification/Spec2Isabelle.thy ===== *)
theory Spec2Isabelle
  imports Client_Guarantees Flush_Interrupt Python_Guarantees Parquet_Schema Viewer_Frames
begin

text \<open>
  PulseOn records the metrics of training runs in a local DuckLake store, answers queries over
  them and compares and ranks runs. A process opens a project with a \<open>NativeClient\<close>
  (\<open>pulseon-core\<close>), which owns one connection of \<open>pulseon-storage\<close>, a table of active runs with
  their lock files, and a metric reporter: a bounded channel and one worker thread that writes
  batches. This development models the logic of these crates, component by component, and
  proves what makes each of them correct.

  \<^bold>\<open>Theories and sources\<close> (paths below \<open>src/crates\<close>)

  \<^item> \<open>Prelude\<close>: results as sums, state-passing operations \<open>op\<close>, Rust integers, \<open>sort_by\<close>, strings.
  \<^item> \<open>Float64\<close>: the operations of \<open>f64\<close> as an executable model of IEEE-754 binary64.
  \<^item> \<open>Model_Types\<close>: \<open>pulseon-model\<close>, every type, constructor and method.
  \<^item> \<open>Errors\<close>: \<open>StorageError\<close> (\<open>pulseon-storage/src/lib.rs\<close>) and \<open>EngineError\<close>
    (\<open>pulseon-core/src/engine/mod.rs\<close>) with their texts and the conversion.
  \<^item> \<open>Sql_Text\<close>: identifiers as partition values, file names and SQL literals (\<open>sql.rs\<close>, \<open>rows.rs\<close>).
  \<^item> \<open>Project_Store\<close>: \<open>project.rs\<close>, \<open>write.rs\<close>, \<open>rows.rs\<close>, \<open>time.rs\<close>: the tables and every statement.
  \<^item> \<open>Metric_Reader\<close>, \<open>Alignment_Reader\<close>, \<open>Parquet_Schema\<close>: \<open>metric_query.rs\<close>, \<open>query.rs\<close>,
    \<open>alignment_query.rs\<close>, \<open>schema.rs\<close>.
  \<^item> \<open>Bootstrap\<close>, \<open>Config\<close>: \<open>bootstrap.rs\<close> and \<open>config.rs\<close>.
  \<^item> \<open>Evidence\<close>, \<open>Comparison\<close>, \<open>Ranking\<close>: \<open>pulseon-core/src/engine/query.rs\<close>,
    \<open>comparison.rs\<close>, \<open>ranking.rs\<close>.
  \<^item> \<open>Reporter\<close>: \<open>reporting.rs\<close>, as functions and as a step relation between a reporting thread
    and the worker.
  \<^item> \<open>Client_State\<close>, \<open>Client\<close>: \<open>client.rs\<close> and \<open>lock.rs\<close>; \<open>Client_Runs\<close> and \<open>Client_Guarantees\<close> prove the
    invariant of the client and its properties. \<open>Flush_Interrupt\<close> is the race between a flush and its timer.
  \<^item> \<open>Python_Values\<close>, \<open>Python_Sdk\<close>: \<open>pulseon-python/src\<close>: the values and exceptions Python sees, and every method
    of its classes on the native client; \<open>Python_Guarantees\<close> proves what Python code can rely on.
  \<^item> \<open>Float64_Neighbours\<close>: rounding and the neighbours of a binary64 value, for the charts.
  \<^item> \<open>Chart_Core\<close>, \<open>Chart_Interaction\<close>: \<open>pulseon-chart-core/src/lib.rs\<close> and \<open>interaction.rs\<close>; \<open>Chart_Series\<close>
    proves the path cache, the vertical range and the hit test, \<open>Chart_Brush\<close> the brush.
  \<^item> \<open>Viewer_Query\<close>, \<open>Viewer_Worker\<close>, \<open>Viewer_Core\<close>: \<open>source.rs\<close>, \<open>query.rs\<close>, \<open>model.rs\<close>, \<open>worker.rs\<close> and
    \<open>core.rs\<close> of \<open>pulseon-viewer\<close>: what a read returns, the worker that serves requests, and the selection
    and curves on display.
  \<^item> \<open>Viewer_Chart\<close>, \<open>Viewer_App\<close>: \<open>desktop/renderer.rs\<close> and the state and handlers of \<open>desktop.rs\<close>, with
    \<open>main.rs\<close>; \<open>Viewer_Guarantees\<close> and \<open>Viewer_Brush\<close> prove the properties of the whole viewer.
  \<^item> \<open>Viewer_View\<close>: what \<open>render\<close> and its helpers (\<open>desktop.rs\<close>) show in a frame, with menus and key bindings;
    \<open>Float_Text\<close> is the text of floating-point numbers that its labels use (\<open>format_tick\<close> and \<open>format!\<close>), and
    \<open>Viewer_Frames\<close> proves that every frame is drawn and shows the state.

  \<^bold>\<open>How the state corresponds.\<close> A statement of the store is an operation of type
  \<open>(store, storage_error, 'a) op\<close>: it returns a result and the store after it, and every error of the
  source is a value \<open>Inl\<close>. The store holds the four tables as lists of rows in insertion order,
  and the environment the code cannot influence: which of the coming statements fail, the coming
  readings of the clock, and the choices DuckDB alone makes. The reporter holds the channel, the
  diagnostics and the ends of the channel; the ghost lists of accepted and written reports belong
  to the relation, not to the code. The client holds the store and reporter (\<open>system\<close>), the table of
  active runs as indices into the objects that the \<open>Arc\<close>s share, the handles given out, and its
  own environment (locks held by others, identifiers, outcomes of flushes and drains). The viewer is a
  state machine of its own: the application's record (\<open>desktop.rs\<close>) holds the core (\<open>core.rs\<close>), the handle of the
  worker and the pending requests; the worker serves one request per turn and puts events on a
  channel that the application empties, and \<open>viewer_step\<close> lets the user, the worker and the delivery of events
  alternate in any order.

  \<^bold>\<open>What is proved.\<close> For the store: a statement extends it or leaves it, a written batch is an upsert
  on the effective series, and the aggregates are those of the rows. For the readers: each
  reduction is compared with the latest row per point. For the reporter: conservation of accepted
  reports under every interleaving, from which the guarantee of a drain follows, and the two
  executions that lose reports. For the client: an invariant over every reachable state, from
  which follow one writer per run, the finality and completeness of ended runs, and what a
  shutdown promises. For comparison and ranking: exactness of the advice, optimality,
  independence of the order of the request. For bootstrap and configuration: the plan of effects,
  quoting of every argument, and the invariants of a resolved configuration. For Python: every
  call is a sequence of steps of the native client, so all of the above holds for Python programs; leaving a
  \<open>with\<close> block releases every run and hides no error; arguments are refused exactly when the API does not have
  them, before anything happens. For the charts: the
  path cache is transparent, the vertical range covers what is visible, hit testing finds a nearest
  point, and the brush stays inside its home range and is exact on integral positions. For the viewer: in
  every reachable state an awaited answer is being served and arrives, the curves on display belong to
  the current selection, an overview gets its brush and a detail request covers the window; every frame is drawn
  without a panic, its rows are the state, and its legend identifies the curves drawn. The text of a number reads
  back as the number, and that of a tick is accurate to half a percent or half a thousandth. The locales
  (\<open>state_preorder\<close>, \<open>evidence_source\<close>, \<open>client_frame\<close>, \<open>viewer_invariant\<close> and others) are interpreted on
  the model's own operations.

  \<^bold>\<open>What the model shows wrong.\<close> \<open>writer_failure_can_be_lost\<close>: the writer's failure can be overwritten.
  \<open>failed_mark_leaves_run_closed\<close>: an error after the drain of \<open>finalize_run\<close> leaves the run closed.
  \<open>shutdown_can_lose_a_report\<close>: a report accepted while \<open>shutdown\<close> drained can be lost silently.
  \<open>interrupt_can_hit_later_statement\<close>: the timer of a flush can interrupt a statement of another call.
  \<open>narrow_brush_drag_panics\<close>: the fallback to a neighbouring float lets the window shrink below one unit, and
  the next drag calls \<open>f64::clamp\<close> with its bounds crossed. \<open>brushable_range_can_fail\<close>: at the top of the
  \<open>i64\<close> range an overview gets no brush. \<open>timeout_conversion_exact\<close>: a finite timeout of \<open>2 ^ 64\<close> seconds or
  more makes a Python call panic instead of being refused.

  \<^bold>\<open>Bounds and fuel.\<close> The search for the shortest decimal of a number has as many attempts as its exact
  expansion has digits, and is proved to succeed; no other definition uses fuel. A drain consumes the script of its observations: when
  the script ends before the drain does, its value is \<open>None\<close>, a drain that does not return, and every
  property of a drain that returns is accompanied by executions that do. A batch is attempted at
  most six times. The number of worker turns in which an awaited answer arrives is computed from the
  requests the worker holds. Brush results are exact for home ranges with integral ends between \<open>0\<close> and \<open>2 ^ 52\<close>.
  The generation counter of the viewer saturates at \<open>u64::MAX\<close>; properties that tell generations apart assume it has
  not. \<open>join_worker\<close> ends because each turn takes a report from the channel or stops the
  worker. The screen reduction computes buckets in binary64; the statement about its budget is for
  series of at most \<open>2 ^ 35\<close> rows, where the product of ordinal and bucket count is exact.

  \<^bold>\<open>Not modelled.\<close> Poisoned locks (nothing panics while a lock is held); overflow of the
  ingestion counter beyond \<open>i64\<close>; the RFC 3339 text of a timestamp, which stands for its instant;
  the order of groups that SQL leaves open, which the queries fix with \<open>ORDER BY\<close>; paths other than
  UTF-8 strings; the aggregate \<open>lttb\<close>, the TOML parser and the content of Parquet files, which are
  parameters. The client takes the outcome of the race between a flush and its timer from the environment. At the
  level of the client other threads act only where the code waits for them, in the loop of a
  drain; the finer interleaving of a report with the worker is the step relation of \<open>Reporter\<close>.
  In the viewer one turn of the worker is atomic. A frame is the data of its elements: their layout and
  styling, focus and the painted pixels (grid lines, the overlay of the brush) are not modelled. Lower-casing of
  Unicode text, the mathematical functions of the platform, the pixels and the path builder of the
  graphics library are parameters. Values of \<open>f32\<close> are \<open>f64\<close> values that have been rounded. A timeout so long that
  \<open>Instant::now() + timeout\<close> panics is not modelled. Of the Python
  bindings the registration of the classes with the interpreter and the C stream of an Arrow table are not
  modelled; the Arrow library and the quoted form of a string in an error message are parameters.
\<close>

end
